(* ===== verification/Prelude.thy ===== *)
theory Prelude
  imports Main "HOL-Library.AList" "HOL-Library.Char_ord" "HOL-Library.List_Lexorder"
begin

text \<open>
  Shared vocabulary of the development: Python dictionaries as insertion-ordered
  association lists, the list and string primitives the backend uses, the result type of
  fallible operations, and the lemma collections the component theories draw on.
\<close>

section \<open>Lemma collections\<close>

named_theorems dict_simps \<open>rewrite rules for dictionary lookups and updates\<close>
named_theorems py_defs \<open>definitions of the Python primitives, for closed evaluation\<close>

section \<open>Dictionaries\<close>

text \<open>
  A Python \<^verbatim>\<open>dict\<close> keeps its keys in insertion order, and assigning to a present key
  keeps the key's place. An association list with distinct keys and the library's
  \<^const>\<open>AList.update\<close> have exactly that behaviour.
\<close>

type_synonym ('k, 'v) dict = "('k \<times> 'v) list"

abbreviation dict_set :: "'k \<Rightarrow> 'v \<Rightarrow> ('k, 'v) dict \<Rightarrow> ('k, 'v) dict" where
  "dict_set \<equiv> AList.update"

definition dict_ok :: "('k, 'v) dict \<Rightarrow> bool" where
  "dict_ok d \<longleftrightarrow> distinct (map fst d)"

definition dict_get_or :: "('k, 'v) dict \<Rightarrow> 'k \<Rightarrow> 'v \<Rightarrow> 'v" where
  "dict_get_or d k v = (case map_of d k of None \<Rightarrow> v | Some x \<Rightarrow> x)"

text \<open>The display \<^verbatim>\<open>{**d, **e}\<close>: the entries of \<open>e\<close> are assigned over \<open>d\<close>, in order.\<close>

fun dict_merge :: "('k, 'v) dict \<Rightarrow> ('k, 'v) dict \<Rightarrow> ('k, 'v) dict" where
  "dict_merge d [] = d"
| "dict_merge d ((k, v) # e) = dict_merge (dict_set k v d) e"

lemma dict_ok_Nil [simp]: "dict_ok []"
  by (simp add: dict_ok_def)

lemma dict_ok_set [simp]: "dict_ok d \<Longrightarrow> dict_ok (dict_set k v d)"
  by (simp add: dict_ok_def distinct_update)

lemma dict_ok_ConsD: "dict_ok ((k, v) # d) \<Longrightarrow> dict_ok d \<and> k \<notin> fst ` set d"
  by (simp add: dict_ok_def)

lemma map_of_dict_set [dict_simps, simp]: "map_of (dict_set k v d) = (map_of d)(k \<mapsto> v)"
  by (simp add: update_conv')

lemma dict_get_or_set [dict_simps]:
  "dict_get_or (dict_set k v d) k' w = (if k' = k then v else dict_get_or d k' w)"
  by (simp add: dict_get_or_def)

lemma dict_get_or_elem:
  "x \<in> set (dict_get_or d k []) \<Longrightarrow> \<exists>xs. (k, xs) \<in> set d \<and> x \<in> set xs"
  by (cases "map_of d k") (auto simp: dict_get_or_def dest: map_of_SomeD)

lemma set_dict_set_keys: "fst ` set (dict_set k v d) = insert k (fst ` set d)"
  by (simp add: dom_update)

lemma dict_set_new: "k \<notin> fst ` set d \<Longrightarrow> dict_set k v d = d @ [(k, v)]"
  by (induction d) auto

lemma map_of_map_key: "distinct (map f xs) \<Longrightarrow> x \<in> set xs \<Longrightarrow> map_of (map (\<lambda>x. (f x, g x)) xs) (f x) = Some (g x)"
  by (induction xs) (auto simp: image_iff)

lemma map_of_in_set: "dict_ok d \<Longrightarrow> (map_of d k = Some v) = ((k, v) \<in> set d)"
  by (simp add: dict_ok_def map_of_eq_Some_iff)

lemma map_of_dict_merge [dict_simps]:
  "dict_ok e \<Longrightarrow> map_of (dict_merge d e) = map_of d ++ map_of e"
proof (induction d e rule: dict_merge.induct)
  case (1 d)
  then show ?case by simp
next
  case (2 d k v e)
  then have "dict_ok e" and k: "map_of e k = None"
    by (auto dest: dict_ok_ConsD simp: map_of_eq_None_iff)
  then have "map_of (dict_merge d ((k, v) # e)) = (map_of d)(k \<mapsto> v) ++ map_of e"
    using "2.IH" by (simp add: fun_upd_def)
  also have "\<dots> = map_of d ++ map_of ((k, v) # e)"
    using k by (auto simp: map_add_def fun_eq_iff split: option.splits)
  finally show ?case .
qed

lemma dict_ok_merge [simp]: "dict_ok d \<Longrightarrow> dict_ok (dict_merge d e)"
  by (induction d e rule: dict_merge.induct) simp_all

lemma keys_dict_merge: "fst ` set (dict_merge d e) = fst ` set d \<union> fst ` set e"
  by (induction d e rule: dict_merge.induct) (auto simp: set_dict_set_keys)

section \<open>Lists\<close>

text \<open>\<^verbatim>\<open>xs.index(x)\<close>: the first position, or \<open>None\<close> where Python raises \<^verbatim>\<open>ValueError\<close>.\<close>

fun list_index :: "'a list \<Rightarrow> 'a \<Rightarrow> nat option" where
  "list_index [] x = None"
| "list_index (y # ys) x = (if y = x then Some 0 else map_option Suc (list_index ys x))"

lemma list_index_None: "list_index xs x = None \<longleftrightarrow> x \<notin> set xs"
  by (induction xs) auto

lemma list_index_drop: "list_index xs x = Some i \<Longrightarrow> i < length xs \<and> drop i xs = x # drop (Suc i) xs"
  by (induction xs arbitrary: i) (auto split: if_splits)

lemma list_all_filter [simp]: "list_all P (filter P xs)"
  by (induction xs) auto

lemma find_SomeD: "find P xs = Some x \<Longrightarrow> x \<in> set xs \<and> P x"
  by (metis find_Some_iff nth_mem)

lemma find_append: "find P (xs @ ys) = (case find P xs of None \<Rightarrow> find P ys | Some x \<Rightarrow> Some x)"
  by (induction xs) auto

lemma find_map_upd:
  assumes "\<And>m. key (f m) = key m"
  shows "find (\<lambda>m. key m = k') (map (\<lambda>m. if key m = k then f m else m) ms) =
    (if k' = k then map_option f (find (\<lambda>m. key m = k) ms) else find (\<lambda>m. key m = k') ms)"
  by (induction ms) (auto simp: assms)

section \<open>Strings\<close>

text \<open>\<^verbatim>\<open>s.partition(c)\<close> for a one-character separator: the parts around its first occurrence.\<close>

fun str_partition :: "char \<Rightarrow> string \<Rightarrow> string \<times> bool \<times> string" where
  "str_partition c [] = ([], False, [])"
| "str_partition c (x # xs) =
     (if x = c then ([], True, xs)
      else (case str_partition c xs of (a, found, b) \<Rightarrow> (x # a, found, b)))"

text \<open>\<^verbatim>\<open>s.split(c)\<close> for a one-character separator: always at least one part.\<close>

fun str_split :: "char \<Rightarrow> string \<Rightarrow> string list" where
  "str_split c [] = [[]]"
| "str_split c (x # xs) =
     (if x = c then [] # str_split c xs
      else (case str_split c xs of [] \<Rightarrow> [[x]] | p # ps \<Rightarrow> (x # p) # ps))"

definition is_space :: "char \<Rightarrow> bool" where
  "is_space c \<longleftrightarrow> c \<in> {CHR '' '', CHR 0x09, CHR 0x0A, CHR 0x0B, CHR 0x0C, CHR 0x0D,
     CHR 0x1C, CHR 0x1D, CHR 0x1E, CHR 0x1F}"

definition lstrip_by :: "(char \<Rightarrow> bool) \<Rightarrow> string \<Rightarrow> string" where
  "lstrip_by P s = dropWhile P s"

definition rstrip_by :: "(char \<Rightarrow> bool) \<Rightarrow> string \<Rightarrow> string" where
  "rstrip_by P s = rev (dropWhile P (rev s))"

definition strip_by :: "(char \<Rightarrow> bool) \<Rightarrow> string \<Rightarrow> string" where
  "strip_by P s = rstrip_by P (lstrip_by P s)"

definition str_strip :: "string \<Rightarrow> string" where
  "str_strip s = strip_by is_space s"

text \<open>\<^verbatim>\<open>s.lower()\<close> on ASCII text.\<close>

definition char_lower :: "char \<Rightarrow> char" where
  "char_lower c = (let n = of_char c :: nat in if 65 \<le> n \<and> n \<le> 90 then char_of (n + 32) else c)"

definition str_lower :: "string \<Rightarrow> string" where
  "str_lower s = map char_lower s"

text \<open>\<^verbatim>\<open>(v or "").strip().lower()\<close> and \<^verbatim>\<open>sub in s\<close>.\<close>

definition norm_text :: "string option \<Rightarrow> string" where
  "norm_text v = str_lower (str_strip (case v of None \<Rightarrow> '''' | Some s \<Rightarrow> s))"

fun str_contains :: "string \<Rightarrow> string \<Rightarrow> bool" where
  "str_contains sub [] = (sub = [])"
| "str_contains sub (c # cs) = (take (length sub) (c # cs) = sub \<or> str_contains sub cs)"

text \<open>\<^verbatim>\<open>str(n)\<close> on integers and \<^verbatim>\<open>sep.join(parts)\<close>.\<close>

fun str_of_nat :: "nat \<Rightarrow> string" where
  "str_of_nat n = (if n < 10 then [char_of (n + 48)] else str_of_nat (n div 10) @ [char_of (n mod 10 + 48)])"

declare str_of_nat.simps [simp del]

definition str_of_int :: "int \<Rightarrow> string" where
  "str_of_int i = (if i < 0 then CHR ''-'' # str_of_nat (nat (- i)) else str_of_nat (nat i))"

fun str_join :: "string \<Rightarrow> string list \<Rightarrow> string" where
  "str_join sep [] = []"
| "str_join sep [x] = x"
| "str_join sep (x # xs) = x @ sep @ str_join sep xs"

text \<open>A quoted string and the text of a list of strings, as formatted into messages.\<close>

definition quoted :: "string \<Rightarrow> string" where
  "quoted s = [CHR 0x27] @ s @ [CHR 0x27]"

definition repr_strs :: "string list \<Rightarrow> string" where
  "repr_strs xs = ''['' @ str_join '', '' (map quoted xs) @ '']''"

definition is_digit :: "char \<Rightarrow> bool" where
  "is_digit c \<longleftrightarrow> 48 \<le> (of_char c :: nat) \<and> (of_char c :: nat) \<le> 57"

fun nat_of_digits :: "nat \<Rightarrow> string \<Rightarrow> nat" where
  "nat_of_digits n [] = n"
| "nat_of_digits n (c # cs) = nat_of_digits (10 * n + (of_char c - 48)) cs"

text \<open>\<^verbatim>\<open>int(s)\<close> on ASCII text: surrounding blanks, a sign, digits with single underscores between.\<close>

fun digit_groups :: "string \<Rightarrow> string option" where
  "digit_groups [] = None"
| "digit_groups [c] = (if is_digit c then Some [c] else None)"
| "digit_groups (c # d # cs) =
     (if \<not> is_digit c then None
      else map_option (Cons c) (if d = CHR ''_'' then digit_groups cs else digit_groups (d # cs)))"

definition int_of_str :: "string \<Rightarrow> int option" where
  "int_of_str s =
     (let t = str_strip s;
          digits = (\<lambda>u. map_option (\<lambda>ds. int (nat_of_digits 0 ds)) (digit_groups u))
      in case t of
           [] \<Rightarrow> None
         | c # u \<Rightarrow> if c = CHR ''-'' then map_option uminus (digits u)
                    else if c = CHR ''+'' then digits u else digits t)"

declare is_space_def [py_defs] str_of_int_def [py_defs] lstrip_by_def [py_defs] rstrip_by_def [py_defs]
  strip_by_def [py_defs] str_strip_def [py_defs] char_lower_def [py_defs] str_lower_def [py_defs]

lemma str_partition_found: "fst (snd (str_partition c s)) \<longleftrightarrow> c \<in> set s"
  by (induction s) (auto split: prod.splits)

lemma str_partition_join:
  "str_partition c s = (a, True, b) \<Longrightarrow> s = a @ c # b \<and> c \<notin> set a"
proof (induction s arbitrary: a)
  case Nil
  then show ?case by simp
next
  case (Cons x xs)
  then show ?case by (auto split: if_splits prod.splits)
qed

lemma str_partition_notin: "c \<notin> set s \<Longrightarrow> str_partition c s = (s, False, [])"
  by (induction s) auto

lemma str_partition_append: "c \<notin> set a \<Longrightarrow> str_partition c (a @ c # b) = (a, True, b)"
  by (induction a) auto

lemma str_split_notempty [simp]: "str_split c s \<noteq> []"
  by (induction s) (auto split: list.splits)

lemma set_lstrip_by: "set (lstrip_by P s) \<subseteq> set s"
  by (simp add: lstrip_by_def set_dropWhileD subsetI)

lemma set_rstrip_by: "set (rstrip_by P s) \<subseteq> set s"
  by (auto simp: rstrip_by_def dest: set_dropWhileD)

lemma set_strip_by: "set (strip_by P s) \<subseteq> set s"
  using set_lstrip_by set_rstrip_by by (fastforce simp: strip_by_def)

lemma hd_lstrip_by: "lstrip_by P s \<noteq> [] \<Longrightarrow> \<not> P (hd (lstrip_by P s))"
  by (simp add: lstrip_by_def hd_dropWhile)

lemma last_rstrip_by: "rstrip_by P s \<noteq> [] \<Longrightarrow> \<not> P (last (rstrip_by P s))"
  by (simp add: rstrip_by_def last_rev hd_dropWhile)

lemma char_lower_idem: "char_lower (char_lower c) = char_lower c"
  by (auto simp: char_lower_def Let_def)

lemma norm_text_lower: "str_lower (norm_text v) = norm_text v"
  by (simp add: norm_text_def str_lower_def char_lower_idem)

section \<open>Enumerations of sets\<close>

text \<open>
  Iterating over a Python \<^verbatim>\<open>set\<close> visits every element once, in an order the language does
  not fix. Code that iterates a set takes the enumeration as an argument: a function from
  the elements as inserted to the order of the visit.
\<close>

definition enumerates :: "('a list \<Rightarrow> 'a list) \<Rightarrow> bool" where
  "enumerates en \<longleftrightarrow> (\<forall>xs. set (en xs) = set xs \<and> distinct (en xs))"

lemma enumerates_set: "enumerates en \<Longrightarrow> set (en xs) = set xs"
  by (simp add: enumerates_def)

lemma enumerates_distinct: "enumerates en \<Longrightarrow> distinct (en xs)"
  by (simp add: enumerates_def)

lemma enumerates_remdups: "enumerates remdups"
  by (simp add: enumerates_def)

section \<open>Transition systems\<close>

text \<open>
  The shape shared by the components with a step relation: an invariant that holds at the
  start and is kept by every step holds in every reachable state.
\<close>

locale invariant_system =
  fixes init :: "'s \<Rightarrow> bool" and step :: "'s \<Rightarrow> 's \<Rightarrow> bool" and inv :: "'s \<Rightarrow> bool"
  assumes init_inv: "init s \<Longrightarrow> inv s"
    and step_inv: "step s t \<Longrightarrow> inv s \<Longrightarrow> inv t"
begin

lemma steps_inv: "step\<^sup>*\<^sup>* s t \<Longrightarrow> inv s \<Longrightarrow> inv t"
  by (induction rule: rtranclp_induct) (auto intro: step_inv)

lemma reach_inv: "init s \<Longrightarrow> step\<^sup>*\<^sup>* s t \<Longrightarrow> inv t"
  by (rule steps_inv) (auto intro: init_inv)

end

end
