(* ===== verification/Entity_Lock.thy ===== *)
theory Entity_Lock
  imports Prelude
begin

text \<open>
  The heartbeat lock with fencing tokens of \<^verbatim>\<open>src/backend/services/entity_lock.py\<close>. The
  lock lives in four columns of the entity's row; every operation is one SQL statement,
  modelled as an update of the row that matches its \<^verbatim>\<open>WHERE\<close> clause. Time is a reading of
  the clock in microseconds, passed to each operation where the code reads it.

  The service, the acquire loop, the heartbeat refresher, the context manager, the fenced
  column update and the sweeper are definitions; the locale \<open>lock_operation\<close> states what
  every operation keeps of the lock tables, and the step relation \<open>lock_step\<close> lets any
  number of workers interleave.
\<close>

section \<open>Rows, tables and lock handles\<close>

type_synonym instant = int

definition seconds :: "int \<Rightarrow> instant" where
  "seconds s = s * 1000000"

definition RECLAIM_AFTER_SECONDS :: int where "RECLAIM_AFTER_SECONDS = 30"
definition HEARTBEAT_INTERVAL_SECONDS :: int where "HEARTBEAT_INTERVAL_SECONDS = 5"
definition ACQUIRE_POLL_INTERVAL_SECONDS :: int where "ACQUIRE_POLL_INTERVAL_SECONDS = 1"
definition DEFAULT_CONTEXT_WAIT_TIMEOUT :: int where "DEFAULT_CONTEXT_WAIT_TIMEOUT = 60"

datatype col_value = Null | Text string | Num int | Json string | Stamp instant

text \<open>The lock columns of a row, and its other columns as a map.\<close>

record lock_row =
  holding_task_id :: "int option"
  heartbeat_at :: "instant option"
  lock_fence_token :: int
  lock_acquired_at :: "instant option"
  columns :: "string \<rightharpoonup> col_value"

type_synonym lock_table = "(int, lock_row) dict"
type_synonym lock_db = "string \<Rightarrow> lock_table"

record entity_lock =
  l_entity_id :: int
  l_task_id :: int
  l_fence_token :: int
  l_table :: string

record lock_service =
  svc_table :: string
  svc_reclaim_after :: int
  svc_heartbeat_interval :: int

datatype lock_error = ValueError | EntityLockError | EntityLockLostError

definition ALLOWED_LOCK_TABLES :: "string list" where
  "ALLOWED_LOCK_TABLES = [''project_modules'', ''proxy_deployments'', ''bnk_upgrades'']"

definition ALLOWED_FIELDS_BY_TABLE :: "(string, string list) dict" where
  "ALLOWED_FIELDS_BY_TABLE =
     [(''project_modules'', [''status'', ''outputs'', ''deployment_error'', ''stage_detail'',
        ''last_deployed_at'', ''workspace_path'', ''last_init_at'', ''plan_output'',
        ''plan_serial'', ''vars_hash'']),
      (''proxy_deployments'', [''status'', ''status_message'', ''proxy_url'', ''external_url'',
        ''helm_release'', ''helm_values'', ''deployed_at'']),
      (''bnk_upgrades'', [''status'', ''started_at'', ''completed_at'', ''current_step'',
        ''step_results'', ''error_message'', ''error_step'', ''duration_seconds'',
        ''pre_health'', ''post_health'', ''rollback_info'', ''rollback_available'',
        ''rollback_reason'', ''health_gate_passed''])]"

section \<open>The lock service\<close>

definition make_lock_service :: "string \<Rightarrow> int \<Rightarrow> int \<Rightarrow> lock_error + lock_service" where
  "make_lock_service table reclaim beat =
     (if table \<notin> set ALLOWED_LOCK_TABLES then Inl ValueError
      else Inr \<lparr>svc_table = table, svc_reclaim_after = reclaim, svc_heartbeat_interval = beat\<rparr>)"

text \<open>\<^verbatim>\<open>UPDATE t SET .. WHERE id = i AND ..\<close>: the new tables and the row count.\<close>

definition update_row ::
  "lock_db \<Rightarrow> string \<Rightarrow> int \<Rightarrow> (lock_row \<Rightarrow> bool) \<Rightarrow> (lock_row \<Rightarrow> lock_row) \<Rightarrow> lock_db \<times> nat" where
  "update_row db t i P f =
     (case map_of (db t) i of
        None \<Rightarrow> (db, 0)
      | Some r \<Rightarrow> if P r then (db(t := dict_set i (f r) (db t)), 1) else (db, 0))"

text \<open>\<^verbatim>\<open>heartbeat_at < :cutoff\<close>, which is not true when the column is \<^verbatim>\<open>NULL\<close>.\<close>

definition beat_before :: "instant \<Rightarrow> lock_row \<Rightarrow> bool" where
  "beat_before cutoff r = (case heartbeat_at r of None \<Rightarrow> False | Some h \<Rightarrow> h < cutoff)"

definition held_by :: "entity_lock \<Rightarrow> lock_row \<Rightarrow> bool" where
  "held_by l r \<longleftrightarrow> holding_task_id r = Some (l_task_id l) \<and> lock_fence_token r = l_fence_token l"

definition clear_holder :: "lock_row \<Rightarrow> lock_row" where
  "clear_holder r = r\<lparr>holding_task_id := None, heartbeat_at := None\<rparr>"

definition cutoff_of :: "lock_service \<Rightarrow> instant \<Rightarrow> instant" where
  "cutoff_of svc now = now - seconds (svc_reclaim_after svc)"

definition try_acquire ::
  "lock_service \<Rightarrow> instant \<Rightarrow> int \<Rightarrow> int \<Rightarrow> lock_db \<Rightarrow> entity_lock option \<times> lock_db" where
  "try_acquire svc now eid tid db =
     (let (db', n) = update_row db (svc_table svc) eid
            (\<lambda>r. holding_task_id r = None \<or> beat_before (cutoff_of svc now) r)
            (\<lambda>r. r\<lparr>holding_task_id := Some tid, heartbeat_at := Some now,
                   lock_fence_token := lock_fence_token r + 1, lock_acquired_at := Some now\<rparr>)
      in (if n = 0 then None
          else map_option (\<lambda>r. \<lparr>l_entity_id = eid, l_task_id = tid,
                 l_fence_token = lock_fence_token r, l_table = svc_table svc\<rparr>)
                 (map_of (db' (svc_table svc)) eid), db'))"

definition refresh :: "lock_service \<Rightarrow> instant \<Rightarrow> entity_lock \<Rightarrow> lock_db \<Rightarrow> bool \<times> lock_db" where
  "refresh svc now l db =
     (let (db', n) = update_row db (svc_table svc) (l_entity_id l) (held_by l)
            (\<lambda>r. r\<lparr>heartbeat_at := Some now\<rparr>)
      in (n = 1, db'))"

definition release :: "lock_service \<Rightarrow> entity_lock \<Rightarrow> lock_db \<Rightarrow> lock_db" where
  "release svc l db = fst (update_row db (svc_table svc) (l_entity_id l) (held_by l) clear_holder)"

definition is_held :: "lock_service \<Rightarrow> instant \<Rightarrow> int \<Rightarrow> lock_db \<Rightarrow> bool" where
  "is_held svc now eid db =
     (case map_of (db (svc_table svc)) eid of
        None \<Rightarrow> False
      | Some r \<Rightarrow> (case (holding_task_id r, heartbeat_at r) of
            (Some _, Some h) \<Rightarrow> h \<ge> cutoff_of svc now
          | _ \<Rightarrow> False))"

definition force_release :: "lock_service \<Rightarrow> int \<Rightarrow> lock_db \<Rightarrow> bool \<times> lock_db" where
  "force_release svc eid db =
     (let (db', n) = update_row db (svc_table svc) eid (\<lambda>r. holding_task_id r \<noteq> None) clear_holder
      in (n = 1, db'))"

record lock_holder =
  h_entity_id :: int
  h_table :: string
  h_holding_task_id :: int
  h_heartbeat_at :: "instant option"
  h_fence_token :: int

definition holder_of :: "lock_service \<Rightarrow> int \<Rightarrow> lock_row \<Rightarrow> lock_holder option" where
  "holder_of svc eid r =
     map_option (\<lambda>t. \<lparr>h_entity_id = eid, h_table = svc_table svc, h_holding_task_id = t,
       h_heartbeat_at = heartbeat_at r, h_fence_token = lock_fence_token r\<rparr>) (holding_task_id r)"

definition get_holder :: "lock_service \<Rightarrow> int \<Rightarrow> lock_db \<Rightarrow> lock_holder option" where
  "get_holder svc eid db =
     (case map_of (db (svc_table svc)) eid of None \<Rightarrow> None | Some r \<Rightarrow> holder_of svc eid r)"

definition list_held :: "lock_service \<Rightarrow> lock_db \<Rightarrow> lock_holder list" where
  "list_held svc db = List.map_filter (\<lambda>(i, r). holder_of svc i r) (db (svc_table svc))"

text \<open>
  The polling loop of \<^verbatim>\<open>acquire\<close>. A poll is what one round observes: the wall clock of the
  attempt, the monotonic clock read after a failed attempt, and what other sessions commit
  while the loop sleeps. The fuel bounds the number of rounds; \<open>None\<close> is running out.
\<close>

record poll =
  p_wall :: instant
  p_mono :: instant
  p_env :: "lock_db \<Rightarrow> lock_db"

fun acquire_loop ::
  "nat \<Rightarrow> lock_service \<Rightarrow> (nat \<Rightarrow> poll) \<Rightarrow> nat \<Rightarrow> instant option \<Rightarrow> int \<Rightarrow> int \<Rightarrow> lock_db \<Rightarrow>
     (entity_lock option \<times> lock_db) option" where
  "acquire_loop 0 svc polls k deadline eid tid db = None"
| "acquire_loop (Suc fuel) svc polls k deadline eid tid db =
     (case try_acquire svc (p_wall (polls k)) eid tid db of
        (Some l, db') \<Rightarrow> Some (Some l, db')
      | (None, db') \<Rightarrow>
          (case deadline of
             None \<Rightarrow> Some (None, db')
           | Some dl \<Rightarrow>
               if dl \<le> p_mono (polls k) then Some (None, db')
               else acquire_loop fuel svc polls (Suc k) deadline eid tid (p_env (polls k) db')))"

definition acquire ::
  "nat \<Rightarrow> lock_service \<Rightarrow> (nat \<Rightarrow> poll) \<Rightarrow> instant \<Rightarrow> instant \<Rightarrow> int \<Rightarrow> int \<Rightarrow> lock_db \<Rightarrow>
     (entity_lock option \<times> lock_db) option" where
  "acquire fuel svc polls start wait_timeout eid tid db =
     acquire_loop fuel svc polls 0 (if 0 < wait_timeout then Some (start + wait_timeout) else None)
       eid tid db"

section \<open>The heartbeat refresher and the context manager\<close>

record refresher =
  rf_lock :: entity_lock
  rf_stop :: bool
  rf_lost :: bool

text \<open>
  One round of the refresher's thread: \<open>beat\<close> is the clock reading of a refresh, or \<open>None\<close>
  when the statement raised, which is logged and retried. The loop ends when the stop flag
  is set or the refresh matched no row.
\<close>

definition refresher_round ::
  "lock_service \<Rightarrow> instant option \<Rightarrow> refresher \<times> lock_db \<Rightarrow> refresher \<times> lock_db" where
  "refresher_round svc beat st =
     (let (rf, db) = st
      in if rf_stop rf \<or> rf_lost rf then (rf, db)
         else (case beat of
             None \<Rightarrow> (rf, db)
           | Some now \<Rightarrow> (case refresh svc now (rf_lock rf) db of
                 (True, db') \<Rightarrow> (rf, db')
               | (False, db') \<Rightarrow> (rf\<lparr>rf_lost := True\<rparr>, db'))))"

definition entity_lock_enter ::
  "nat \<Rightarrow> string \<Rightarrow> (nat \<Rightarrow> poll) \<Rightarrow> instant \<Rightarrow> instant \<Rightarrow> int \<Rightarrow> int \<Rightarrow> lock_db \<Rightarrow>
     (lock_error + lock_service \<times> refresher \<times> lock_db) option" where
  "entity_lock_enter fuel table polls start wait_timeout eid tid db =
     (case make_lock_service table RECLAIM_AFTER_SECONDS HEARTBEAT_INTERVAL_SECONDS of
        Inl e \<Rightarrow> Some (Inl e)
      | Inr svc \<Rightarrow>
          (case acquire fuel svc polls start wait_timeout eid tid db of
             None \<Rightarrow> None
           | Some (None, db') \<Rightarrow> Some (Inl EntityLockError)
           | Some (Some l, db') \<Rightarrow>
               Some (Inr (svc, \<lparr>rf_lock = l, rf_stop = False, rf_lost = False\<rparr>, db'))))"

definition entity_lock_exit :: "lock_service \<Rightarrow> refresher \<Rightarrow> lock_db \<Rightarrow> refresher \<times> lock_db" where
  "entity_lock_exit svc rf db =
     (let rf' = rf\<lparr>rf_stop := True\<rparr>
      in (rf', if rf_lost rf' then db else release svc (rf_lock rf') db))"

section \<open>The fenced column update and the sweeper\<close>

definition set_locked_entity_fields ::
  "lock_db \<Rightarrow> int \<Rightarrow> entity_lock \<Rightarrow> string \<Rightarrow> (string, col_value) dict \<Rightarrow> lock_error + lock_db" where
  "set_locked_entity_fields db eid l table flds =
     (if flds = [] then Inr db
      else (case map_of ALLOWED_FIELDS_BY_TABLE table of
          None \<Rightarrow> Inl ValueError
        | Some allowed \<Rightarrow>
            if \<exists>k \<in> set (map fst flds). k \<notin> set allowed then Inl ValueError
            else (case update_row db table eid (\<lambda>r. lock_fence_token r = l_fence_token l)
                         (\<lambda>r. r\<lparr>columns := columns r ++ map_of flds\<rparr>) of
                (db', n) \<Rightarrow> if n = 0 then Inl EntityLockLostError else Inr db')))"

definition sweep_table :: "instant \<Rightarrow> lock_table \<Rightarrow> lock_table \<times> nat" where
  "sweep_table cutoff tab =
     (let stale = (\<lambda>r. holding_task_id r \<noteq> None \<and> beat_before cutoff r)
      in (map (\<lambda>(i, r). (i, if stale r then clear_holder r else r)) tab,
          length (filter (\<lambda>(i, r). stale r) tab)))"

definition sweep_stale_entity_locks :: "instant \<Rightarrow> lock_db \<Rightarrow> (string, nat) dict \<times> lock_db" where
  "sweep_stale_entity_locks now db =
     (let cutoff = now - seconds RECLAIM_AFTER_SECONDS
      in (map (\<lambda>t. (t, snd (sweep_table cutoff (db t)))) ALLOWED_LOCK_TABLES,
          (\<lambda>t. if t \<in> set ALLOWED_LOCK_TABLES then fst (sweep_table cutoff (db t)) else db t)))"

section \<open>What every operation keeps\<close>

text \<open>
  Rows are unique per id, and the holder and the heartbeat are set and cleared together: a
  row with a holder and no heartbeat could never be reclaimed.
\<close>

definition row_ok :: "lock_row \<Rightarrow> bool" where
  "row_ok r \<longleftrightarrow> (holding_task_id r = None \<longleftrightarrow> heartbeat_at r = None)"

definition lock_db_ok :: "lock_db \<Rightarrow> bool" where
  "lock_db_ok db \<longleftrightarrow> (\<forall>t. dict_ok (db t)) \<and> (\<forall>t i r. map_of (db t) i = Some r \<longrightarrow> row_ok r)"

text \<open>The laws of an operation on the lock tables: no row appears or vanishes, no token decreases.\<close>

locale lock_operation =
  fixes op :: "lock_db \<Rightarrow> lock_db"
  assumes ok: "lock_db_ok db \<Longrightarrow> lock_db_ok (op db)"
    and keeps_row: "lock_db_ok db \<Longrightarrow> map_of (db t) i = Some r \<Longrightarrow>
      \<exists>r'. map_of (op db t) i = Some r' \<and> lock_fence_token r \<le> lock_fence_token r'"
    and no_new_row: "lock_db_ok db \<Longrightarrow> map_of (db t) i = None \<Longrightarrow> map_of (op db t) i = None"
begin

lemma token_mono:
  assumes "lock_db_ok db" and "map_of (db t) i = Some r" and "map_of (op db t) i = Some r'"
  shows "lock_fence_token r \<le> lock_fence_token r'"
  using keeps_row [OF assms(1,2)] assms(3) by auto

lemma stale_stays_stale:
  assumes "lock_db_ok db" and "map_of (db t) i = Some r" and "n < lock_fence_token r"
  shows "\<exists>r'. map_of (op db t) i = Some r' \<and> n < lock_fence_token r'"
  using keeps_row [OF assms(1,2)] assms(3) by force

end

lemma lock_operation_comp:
  assumes "lock_operation f" and "lock_operation g"
  shows "lock_operation (\<lambda>db. g (f db))"
proof
  fix db t i r
  assume db: "lock_db_ok db"
  show "lock_db_ok (g (f db))"
    using db assms by (simp add: lock_operation.ok)
  show "map_of (db t) i = None \<Longrightarrow> map_of (g (f db) t) i = None"
    using db assms by (simp add: lock_operation.no_new_row lock_operation.ok)
  assume "map_of (db t) i = Some r"
  then show "\<exists>r'. map_of (g (f db) t) i = Some r' \<and> lock_fence_token r \<le> lock_fence_token r'"
    using lock_operation.keeps_row [OF assms(1) db] lock_operation.ok [OF assms(1) db]
      lock_operation.keeps_row [OF assms(2)] by (meson order_trans)
qed

lemma map_of_update_row:
  "map_of (fst (update_row db t i P f) t') i' =
     (if t' = t \<and> i' = i then map_option (\<lambda>r. if P r then f r else r) (map_of (db t) i)
      else map_of (db t') i')"
  by (auto simp: update_row_def split: option.splits)

lemma dict_ok_update_row: "dict_ok (db t') \<Longrightarrow> dict_ok (fst (update_row db t i P f) t')"
  by (auto simp: update_row_def split: option.splits)

lemma lock_operation_update_row:
  assumes "\<And>r. row_ok r \<Longrightarrow> P r \<Longrightarrow> row_ok (f r)"
    and "\<And>r. P r \<Longrightarrow> lock_fence_token r \<le> lock_fence_token (f r)"
  shows "lock_operation (\<lambda>db. fst (update_row db t i P f))"
proof
  fix db
  assume "lock_db_ok db"
  then show "lock_db_ok (fst (update_row db t i P f))"
    using assms(1) by (auto simp: lock_db_ok_def dict_ok_update_row map_of_update_row split: if_splits)
next
  fix db :: lock_db and t' i' r
  assume "map_of (db t') i' = Some r"
  then show "\<exists>r'. map_of (fst (update_row db t i P f) t') i' = Some r' \<and> lock_fence_token r \<le> lock_fence_token r'"
    using assms(2) [of r] by (cases "P r") (auto simp: map_of_update_row)
next
  fix db :: lock_db and t' i'
  assume "map_of (db t') i' = None"
  then show "map_of (fst (update_row db t i P f) t') i' = None"
    by (auto simp: map_of_update_row)
qed

lemma snd_try_acquire:
  "snd (try_acquire svc now eid tid db) = fst (update_row db (svc_table svc) eid
     (\<lambda>r. holding_task_id r = None \<or> beat_before (cutoff_of svc now) r)
     (\<lambda>r. r\<lparr>holding_task_id := Some tid, heartbeat_at := Some now,
            lock_fence_token := lock_fence_token r + 1, lock_acquired_at := Some now\<rparr>))"
  by (simp add: try_acquire_def Let_def split: prod.splits)

lemma snd_refresh:
  "snd (refresh svc now l db) = fst (update_row db (svc_table svc) (l_entity_id l) (held_by l)
     (\<lambda>r. r\<lparr>heartbeat_at := Some now\<rparr>))"
  by (simp add: refresh_def Let_def split: prod.splits)

lemma snd_force_release:
  "snd (force_release svc eid db) =
     fst (update_row db (svc_table svc) eid (\<lambda>r. holding_task_id r \<noteq> None) clear_holder)"
  by (simp add: force_release_def Let_def split: prod.splits)

lemma map_of_sweep_table:
  "map_of (fst (sweep_table cutoff tab)) i = map_option
     (\<lambda>r. if holding_task_id r \<noteq> None \<and> beat_before cutoff r then clear_holder r else r) (map_of tab i)"
  by (induction tab) (auto simp: sweep_table_def Let_def)

lemma dict_ok_sweep_table: "dict_ok tab \<Longrightarrow> dict_ok (fst (sweep_table cutoff tab))"
  by (simp add: dict_ok_def sweep_table_def Let_def case_prod_unfold comp_def)

interpretation acquire_op: lock_operation "\<lambda>db. snd (try_acquire svc now eid tid db)"
  for svc now eid tid
  unfolding snd_try_acquire by (rule lock_operation_update_row) (auto simp: row_ok_def)

interpretation refresh_op: lock_operation "\<lambda>db. snd (refresh svc now l db)"
  for svc now l
  unfolding snd_refresh by (rule lock_operation_update_row) (auto simp: row_ok_def held_by_def)

interpretation release_op: lock_operation "\<lambda>db. release svc l db"
  for svc l
  unfolding release_def by (rule lock_operation_update_row) (auto simp: row_ok_def clear_holder_def)

interpretation force_op: lock_operation "\<lambda>db. snd (force_release svc eid db)"
  for svc eid
  unfolding snd_force_release by (rule lock_operation_update_row) (auto simp: row_ok_def clear_holder_def)

lemma row_ok_clear [simp]: "row_ok (clear_holder r)"
  by (simp add: row_ok_def clear_holder_def)

interpretation sweep_op: lock_operation "\<lambda>db. snd (sweep_stale_entity_locks now db)"
  for now
proof
  fix db
  assume "lock_db_ok db"
  then show "lock_db_ok (snd (sweep_stale_entity_locks now db))"
    by (auto simp: lock_db_ok_def sweep_stale_entity_locks_def Let_def dict_ok_sweep_table
        map_of_sweep_table split: if_splits)
qed (auto simp: sweep_stale_entity_locks_def Let_def map_of_sweep_table clear_holder_def)

text \<open>A fenced write that is accepted, as an operation; a rejected one leaves the tables alone.\<close>

definition write_or_keep ::
  "int \<Rightarrow> entity_lock \<Rightarrow> string \<Rightarrow> (string, col_value) dict \<Rightarrow> lock_db \<Rightarrow> lock_db" where
  "write_or_keep eid l table flds db =
     (case set_locked_entity_fields db eid l table flds of Inl e \<Rightarrow> db | Inr db' \<Rightarrow> db')"

lemma write_or_keep_cases:
  "write_or_keep eid l table flds db = db \<or>
   write_or_keep eid l table flds db = fst (update_row db table eid
     (\<lambda>r. lock_fence_token r = l_fence_token l) (\<lambda>r. r\<lparr>columns := columns r ++ map_of flds\<rparr>))"
  by (auto simp: write_or_keep_def set_locked_entity_fields_def split: sum.splits option.splits prod.splits if_splits)

interpretation write_op: lock_operation "\<lambda>db. write_or_keep eid l table flds db"
  for eid l table flds
proof -
  have u: "lock_operation (\<lambda>db. fst (update_row db table eid
     (\<lambda>r. lock_fence_token r = l_fence_token l) (\<lambda>r. r\<lparr>columns := columns r ++ map_of flds\<rparr>)))"
    by (rule lock_operation_update_row) (auto simp: row_ok_def)
  show "lock_operation (\<lambda>db. write_or_keep eid l table flds db)"
  proof
    fix db t i r
    assume db: "lock_db_ok db"
    note cs = write_or_keep_cases [of eid l table flds db]
    show "lock_db_ok (write_or_keep eid l table flds db)"
      using cs db lock_operation.ok [OF u db] by auto
    show "map_of (db t) i = None \<Longrightarrow> map_of (write_or_keep eid l table flds db t) i = None"
      using cs lock_operation.no_new_row [OF u db] by auto
    show "map_of (db t) i = Some r \<Longrightarrow> \<exists>r'. map_of (write_or_keep eid l table flds db t) i = Some r' \<and>
        lock_fence_token r \<le> lock_fence_token r'"
      using cs lock_operation.keeps_row [OF u db] by auto
  qed
qed

section \<open>Interleaved workers\<close>

text \<open>
  The state of the system is the tables, the clock and the handles given out so far. Any
  worker may move at any time: it acquires under its own task id, or uses a handle that was
  issued; an administrator may force a release and the scheduler may sweep.
\<close>

record lock_sys =
  ls_db :: lock_db
  ls_now :: instant
  ls_issued :: "entity_lock set"

inductive lock_step :: "lock_sys \<Rightarrow> lock_sys \<Rightarrow> bool" where
  tick: "ls_now s \<le> t \<Longrightarrow> lock_step s (s\<lparr>ls_now := t\<rparr>)"
| acquires: "lock_step s (s\<lparr>ls_db := snd (try_acquire svc (ls_now s) eid tid (ls_db s)),
      ls_issued := set_option (fst (try_acquire svc (ls_now s) eid tid (ls_db s))) \<union> ls_issued s\<rparr>)"
| refreshes: "l \<in> ls_issued s \<Longrightarrow> svc_table svc = l_table l \<Longrightarrow>
    lock_step s (s\<lparr>ls_db := snd (refresh svc (ls_now s) l (ls_db s))\<rparr>)"
| releases: "l \<in> ls_issued s \<Longrightarrow> svc_table svc = l_table l \<Longrightarrow>
    lock_step s (s\<lparr>ls_db := release svc l (ls_db s)\<rparr>)"
| forces: "lock_step s (s\<lparr>ls_db := snd (force_release svc eid (ls_db s))\<rparr>)"
| sweeps: "lock_step s (s\<lparr>ls_db := snd (sweep_stale_entity_locks (ls_now s) (ls_db s))\<rparr>)"
| writes: "l \<in> ls_issued s \<Longrightarrow>
    lock_step s (s\<lparr>ls_db := write_or_keep (l_entity_id l) l (l_table l) flds (ls_db s)\<rparr>)"

definition lock_init :: "lock_sys \<Rightarrow> bool" where
  "lock_init s \<longleftrightarrow> lock_db_ok (ls_db s) \<and> ls_issued s = {}"

abbreviation lock_key :: "entity_lock \<Rightarrow> string \<times> int" where
  "lock_key l \<equiv> (l_table l, l_entity_id l)"

definition lock_row_of :: "lock_db \<Rightarrow> string \<times> int \<Rightarrow> lock_row option" where
  "lock_row_of db k = map_of (db (fst k)) (snd k)"

definition lock_inv :: "lock_sys \<Rightarrow> bool" where
  "lock_inv s \<longleftrightarrow> lock_db_ok (ls_db s) \<and>
     (\<forall>l \<in> ls_issued s. \<exists>r. lock_row_of (ls_db s) (lock_key l) = Some r \<and>
        l_fence_token l \<le> lock_fence_token r) \<and>
     (\<forall>l \<in> ls_issued s. \<forall>l' \<in> ls_issued s.
        lock_key l = lock_key l' \<and> l_fence_token l = l_fence_token l' \<longrightarrow> l = l')"

lemma lock_inv_op:
  assumes "lock_inv s" and "lock_operation op"
  shows "lock_inv (s\<lparr>ls_db := op (ls_db s)\<rparr>)"
  using assms lock_operation.ok [OF assms(2)] lock_operation.keeps_row [OF assms(2)]
  by (fastforce simp: lock_inv_def lock_row_of_def intro: order_trans)

lemma try_acquire_Some:
  assumes "fst (try_acquire svc now eid tid db) = Some l"
  obtains r where "map_of (db (svc_table svc)) eid = Some r"
    and "holding_task_id r = None \<or> beat_before (cutoff_of svc now) r"
    and "l = \<lparr>l_entity_id = eid, l_task_id = tid, l_fence_token = lock_fence_token r + 1, l_table = svc_table svc\<rparr>"
    and "map_of (snd (try_acquire svc now eid tid db) (svc_table svc)) eid =
      Some (r\<lparr>holding_task_id := Some tid, heartbeat_at := Some now,
             lock_fence_token := lock_fence_token r + 1, lock_acquired_at := Some now\<rparr>)"
  using assms by (auto simp: try_acquire_def update_row_def Let_def split: option.splits if_splits)

lemma lock_inv_acquire:
  assumes inv: "lock_inv s"
  shows "lock_inv (s\<lparr>ls_db := snd (try_acquire svc now eid tid (ls_db s)),
      ls_issued := set_option (fst (try_acquire svc now eid tid (ls_db s))) \<union> ls_issued s\<rparr>)"
proof (cases "fst (try_acquire svc now eid tid (ls_db s))")
  case None
  then show ?thesis
    using lock_inv_op [OF inv acquire_op.lock_operation_axioms] by simp
next
  case (Some l)
  then obtain r where r: "map_of (ls_db s (svc_table svc)) eid = Some r"
    and l: "l_table l = svc_table svc" "l_entity_id l = eid" "l_fence_token l = lock_fence_token r + 1"
    and r': "map_of (snd (try_acquire svc now eid tid (ls_db s)) (svc_table svc)) eid =
      Some (r\<lparr>holding_task_id := Some tid, heartbeat_at := Some now,
             lock_fence_token := lock_fence_token r + 1, lock_acquired_at := Some now\<rparr>)"
    by (auto elim: try_acquire_Some)
  have fresh: "l_fence_token k < l_fence_token l" if "k \<in> ls_issued s" "lock_key k = lock_key l" for k
    using inv that r l by (fastforce simp: lock_inv_def lock_row_of_def)
  have "lock_inv (s\<lparr>ls_db := snd (try_acquire svc now eid tid (ls_db s))\<rparr>)"
    by (rule lock_inv_op [OF inv acquire_op.lock_operation_axioms])
  then show ?thesis
    using Some r' l fresh by (fastforce simp: lock_inv_def lock_row_of_def)
qed

lemmas lock_op_axioms = refresh_op.lock_operation_axioms release_op.lock_operation_axioms
  force_op.lock_operation_axioms sweep_op.lock_operation_axioms write_op.lock_operation_axioms

interpretation locks: invariant_system lock_init lock_step lock_inv
proof
  fix s t
  assume "lock_step s t" and "lock_inv s"
  then show "lock_inv t"
  proof (induction rule: lock_step.induct)
    case (tick s t)
    then show ?case by (simp add: lock_inv_def)
  next
    case (acquires s svc eid tid)
    then show ?case by (rule lock_inv_acquire)
  qed (rule lock_inv_op, assumption, rule lock_op_axioms)+
qed (auto simp: lock_init_def lock_inv_def)

section \<open>Safety and liveness of the lock\<close>

lemma stale_write_rejected:
  assumes "lock_row_of db (lock_key l) = Some r" and "l_fence_token l < lock_fence_token r"
    and "flds \<noteq> []" and "map_of ALLOWED_FIELDS_BY_TABLE (l_table l) = Some allowed"
    and "set (map fst flds) \<subseteq> set allowed"
  shows "set_locked_entity_fields db (l_entity_id l) l (l_table l) flds = Inl EntityLockLostError"
  using assms by (auto simp: set_locked_entity_fields_def update_row_def lock_row_of_def)

text \<open>
  C3. Fencing. In every state that any interleaving of workers can reach, a handle whose
  entity was acquired again later is dead: its column update raises \<^verbatim>\<open>EntityLockLostError\<close>,
  its heartbeat refresh reports the loss and changes nothing, and its release changes
  nothing.
\<close>

theorem fenced_out_holder_is_dead:
  assumes "lock_init s0" and "lock_step\<^sup>*\<^sup>* s0 s"
    and "l \<in> ls_issued s" and "l' \<in> ls_issued s"
    and "lock_key l = lock_key l'" and "l_fence_token l < l_fence_token l'"
    and "flds \<noteq> []" and "map_of ALLOWED_FIELDS_BY_TABLE (l_table l) = Some allowed"
    and "set (map fst flds) \<subseteq> set allowed" and "svc_table svc = l_table l"
  shows "set_locked_entity_fields (ls_db s) (l_entity_id l) l (l_table l) flds = Inl EntityLockLostError \<and>
         refresh svc now l (ls_db s) = (False, ls_db s) \<and> release svc l (ls_db s) = ls_db s"
proof -
  have "lock_inv s" using assms(1,2) by (rule locks.reach_inv)
  then obtain r where r: "lock_row_of (ls_db s) (lock_key l) = Some r" "l_fence_token l' \<le> lock_fence_token r"
    using assms(4,5) by (auto simp: lock_inv_def)
  with assms(6) have lt: "l_fence_token l < lock_fence_token r" by simp
  have "set_locked_entity_fields (ls_db s) (l_entity_id l) l (l_table l) flds = Inl EntityLockLostError"
    using r(1) lt assms(7-9) by (rule stale_write_rejected)
  then show ?thesis
    using r(1) lt assms(10)
    by (auto simp: refresh_def release_def update_row_def lock_row_of_def held_by_def)
qed

definition demo_row :: lock_row where
  "demo_row = \<lparr>holding_task_id = None, heartbeat_at = None, lock_fence_token = 0,
     lock_acquired_at = None, columns = Map.empty\<rparr>"

definition demo_sys :: lock_sys where
  "demo_sys = \<lparr>ls_db = (\<lambda>t. if t = ''bnk_upgrades'' then [(4, demo_row)] else []), ls_now = 0, ls_issued = {}\<rparr>"

definition demo_svc :: lock_service where
  "demo_svc = \<lparr>svc_table = ''bnk_upgrades'', svc_reclaim_after = 30, svc_heartbeat_interval = 5\<rparr>"

lemma demo_init: "lock_init demo_sys"
  by (simp add: lock_init_def demo_sys_def lock_db_ok_def dict_ok_def row_ok_def demo_row_def)

theorem fenced_out_holder_is_dead_witness:
  "\<exists>s l l'. lock_step\<^sup>*\<^sup>* demo_sys s \<and> l \<in> ls_issued s \<and> l' \<in> ls_issued s \<and>
     set_locked_entity_fields (ls_db s) 4 l ''bnk_upgrades'' [(''status'', Text ''running'')] =
       Inl EntityLockLostError"
proof -
  define s1 where "s1 = demo_sys\<lparr>ls_db := snd (try_acquire demo_svc (ls_now demo_sys) 4 1 (ls_db demo_sys)),
      ls_issued := set_option (fst (try_acquire demo_svc (ls_now demo_sys) 4 1 (ls_db demo_sys))) \<union> ls_issued demo_sys\<rparr>"
  define s2 where "s2 = s1\<lparr>ls_now := 40000000\<rparr>"
  define s3 where "s3 = s2\<lparr>ls_db := snd (try_acquire demo_svc (ls_now s2) 4 2 (ls_db s2)),
      ls_issued := set_option (fst (try_acquire demo_svc (ls_now s2) 4 2 (ls_db s2))) \<union> ls_issued s2\<rparr>"
  have "lock_step demo_sys s1" unfolding s1_def by (rule lock_step.acquires)
  moreover have "lock_step s1 s2"
    unfolding s2_def by (rule lock_step.tick) (simp add: s1_def demo_sys_def)
  moreover have "lock_step s2 s3" unfolding s3_def by (rule lock_step.acquires)
  ultimately have steps: "lock_step\<^sup>*\<^sup>* demo_sys s3" by (meson converse_rtranclp_into_rtranclp rtranclp.rtrancl_refl)
  define l l' where "l = \<lparr>l_entity_id = 4, l_task_id = 1, l_fence_token = 1, l_table = ''bnk_upgrades''\<rparr>"
    and "l' = \<lparr>l_entity_id = 4, l_task_id = 2, l_fence_token = 2, l_table = ''bnk_upgrades''\<rparr>"
  have "ls_issued s3 = {l', l}"
    by (auto simp: s3_def s2_def s1_def demo_sys_def demo_svc_def demo_row_def l_def l'_def try_acquire_def
        update_row_def beat_before_def cutoff_of_def seconds_def)
  then have issued: "l \<in> ls_issued s3" "l' \<in> ls_issued s3" by simp_all
  have "map_of ALLOWED_FIELDS_BY_TABLE (l_table l) = Some (snd (ALLOWED_FIELDS_BY_TABLE ! 2))"
    by (simp add: ALLOWED_FIELDS_BY_TABLE_def l_def)
  from fenced_out_holder_is_dead [OF demo_init steps issued _ _ _ this, where flds = "[(''status'', Text ''running'')]"]
  have "set_locked_entity_fields (ls_db s3) 4 l ''bnk_upgrades'' [(''status'', Text ''running'')] =
       Inl EntityLockLostError"
    by (simp add: l_def l'_def ALLOWED_FIELDS_BY_TABLE_def demo_svc_def)
      (metis lock_service.select_convs(1))
  with steps issued show ?thesis by blast
qed

text \<open>
  Tokens identify holders: no two handles issued for the same row, however the workers
  interleave and however often the row is released, forced or swept, carry the same token.
\<close>

theorem fence_tokens_unique:
  assumes "lock_init s0" and "lock_step\<^sup>*\<^sup>* s0 s" and "l \<in> ls_issued s" and "l' \<in> ls_issued s"
    and "lock_key l = lock_key l'" and "l_fence_token l = l_fence_token l'"
  shows "l = l'"
  using locks.reach_inv [OF assms(1,2)] assms(3-6) unfolding lock_inv_def by blast

theorem fence_tokens_unique_witness:
  "\<exists>s l. lock_step\<^sup>*\<^sup>* demo_sys s \<and> l \<in> ls_issued s \<and>
     (\<forall>l'. l' \<in> ls_issued s \<and> lock_key l = lock_key l' \<and> l_fence_token l = l_fence_token l' \<longrightarrow> l = l')"
proof -
  define s1 where "s1 = demo_sys\<lparr>ls_db := snd (try_acquire demo_svc (ls_now demo_sys) 4 1 (ls_db demo_sys)),
      ls_issued := set_option (fst (try_acquire demo_svc (ls_now demo_sys) 4 1 (ls_db demo_sys))) \<union> ls_issued demo_sys\<rparr>"
  have "lock_step demo_sys s1" unfolding s1_def by (rule lock_step.acquires)
  then have steps: "lock_step\<^sup>*\<^sup>* demo_sys s1" by simp
  have "\<exists>l. l \<in> ls_issued s1"
    by (simp add: s1_def demo_sys_def demo_svc_def demo_row_def try_acquire_def update_row_def)
  then obtain l where "l \<in> ls_issued s1" by blast
  with steps fence_tokens_unique [OF demo_init steps] show ?thesis by blast
qed

text \<open>
  The holder query and the acquire statement agree at every instant: an existing row
  is reported as held exactly when an acquire on it fails, and a failed acquire changes
  nothing.
\<close>

theorem is_held_iff_acquire_fails:
  assumes "lock_db_ok db" and "map_of (db (svc_table svc)) eid = Some r"
  shows "is_held svc now eid db \<longleftrightarrow> try_acquire svc now eid tid db = (None, db)"
proof -
  have "row_ok r" using assms by (auto simp: lock_db_ok_def)
  with assms(2) show ?thesis
    by (cases "heartbeat_at r"; cases "holding_task_id r")
      (auto simp: is_held_def try_acquire_def update_row_def beat_before_def row_ok_def Let_def)
qed

theorem is_held_iff_acquire_fails_witness:
  "\<not> is_held demo_svc 5 4 (ls_db demo_sys) \<and>
   is_held demo_svc 5 4 (snd (try_acquire demo_svc 0 4 1 (ls_db demo_sys)))"
proof -
  have "lock_db_ok (ls_db demo_sys)" using demo_init by (simp add: lock_init_def)
  moreover have "map_of (ls_db demo_sys (svc_table demo_svc)) 4 = Some demo_row"
    by (simp add: demo_sys_def demo_svc_def)
  moreover have "fst (try_acquire demo_svc 5 4 1 (ls_db demo_sys)) \<noteq> None"
    by (simp add: demo_sys_def demo_svc_def demo_row_def try_acquire_def update_row_def)
  ultimately have "\<not> is_held demo_svc 5 4 (ls_db demo_sys)"
    using is_held_iff_acquire_fails [of "ls_db demo_sys" demo_svc 4 demo_row 5 1] by force
  then show ?thesis
    by (simp add: is_held_def demo_sys_def demo_svc_def demo_row_def try_acquire_def update_row_def
        cutoff_of_def seconds_def)
qed

lemma lock_row_update_other:
  "\<not> P r \<Longrightarrow> lock_row_of db k = Some r \<Longrightarrow> lock_row_of (fst (update_row db t i P f)) k = Some r"
  by (auto simp: lock_row_of_def map_of_update_row)

text \<open>
  A live lease is exclusive. While the holder's heartbeat is inside the reclaim window,
  no acquire, no sweep and no refresh, release or write through another handle takes the
  row away from it: the row still names the same task and token afterwards.
\<close>

theorem live_lease_survives:
  assumes "lock_row_of db (lock_key l) = Some r" and "held_by l r"
    and "heartbeat_at r = Some h" and "now - seconds RECLAIM_AFTER_SECONDS \<le> h"
    and "svc_reclaim_after svc = RECLAIM_AFTER_SECONDS"
    and "l_fence_token l' \<noteq> l_fence_token l"
    and "db' \<in> {snd (try_acquire svc now eid tid db), snd (sweep_stale_entity_locks now db),
                 snd (refresh svc now l' db), release svc l' db, write_or_keep eid l' t flds db}"
  shows "\<exists>r'. lock_row_of db' (lock_key l) = Some r' \<and> held_by l r' \<and> heartbeat_at r' = Some h"
proof -
  have live: "\<not> (holding_task_id r = None \<or> beat_before (cutoff_of svc now) r)" and
    sweep: "\<not> (holding_task_id r \<noteq> None \<and> beat_before (now - seconds RECLAIM_AFTER_SECONDS) r)" and
    other: "\<not> held_by l' r" and token: "lock_fence_token r \<noteq> l_fence_token l'"
    using assms by (auto simp: held_by_def beat_before_def cutoff_of_def)
  have swept: "lock_row_of (snd (sweep_stale_entity_locks now db)) (lock_key l) = Some r"
    using assms(1) sweep
    by (auto simp: lock_row_of_def sweep_stale_entity_locks_def Let_def map_of_sweep_table)
  have "lock_row_of db' (lock_key l) = Some r"
    using assms(7) live swept other token assms(1) write_or_keep_cases [of eid l' t flds db]
    by (auto simp: snd_try_acquire snd_refresh release_def intro!: lock_row_update_other)
  with assms(2,3) show ?thesis by blast
qed

theorem live_lease_survives_witness:
  "\<exists>l r'. lock_row_of (snd (try_acquire demo_svc 30000000 4 2 (snd (try_acquire demo_svc 0 4 1 (ls_db demo_sys)))))
       (lock_key l) = Some r' \<and> held_by l r' \<and> l_task_id l = 1"
proof -
  let ?db = "snd (try_acquire demo_svc 0 4 1 (ls_db demo_sys))"
  let ?l = "\<lparr>l_entity_id = 4, l_task_id = 1, l_fence_token = 1, l_table = ''bnk_upgrades''\<rparr>"
  let ?r = "demo_row\<lparr>holding_task_id := Some 1, heartbeat_at := Some 0, lock_fence_token := 1, lock_acquired_at := Some 0\<rparr>"
  have row: "lock_row_of ?db (lock_key ?l) = Some ?r"
    by (simp add: lock_row_of_def demo_sys_def demo_svc_def demo_row_def try_acquire_def update_row_def)
  have held: "held_by ?l ?r" by (simp add: held_by_def)
  have "\<exists>r'. lock_row_of (snd (try_acquire demo_svc 30000000 4 2 ?db)) (lock_key ?l) = Some r' \<and>
      held_by ?l r' \<and> heartbeat_at r' = Some 0"
    by (rule live_lease_survives [OF row held, where l' = "?l\<lparr>l_fence_token := 0\<rparr>" and now = 30000000 and svc = demo_svc and eid = 4 and tid = 2])
      (simp_all add: demo_svc_def RECLAIM_AFTER_SECONDS_def seconds_def)
  then show ?thesis by (intro exI [of _ ?l]) auto
qed

lemma acquire_loop_returns:
  assumes "\<forall>k. p_mono (polls k) + seconds 1 \<le> p_mono (polls (Suc k))"
    and "dl \<le> p_mono (polls (k + n))" and "n < fuel"
  shows "\<exists>r. acquire_loop fuel svc polls k (Some dl) eid tid db = Some r"
  using assms(2,3)
proof (induction n arbitrary: fuel k db)
  case 0
  then obtain f where "fuel = Suc f" by (cases fuel) auto
  with 0 show ?case
    by (cases "try_acquire svc (p_wall (polls k)) eid tid db") (auto split: option.splits)
next
  case (Suc n)
  then obtain f where f: "fuel = Suc f" by (cases fuel) auto
  with Suc.prems Suc.IH [of "Suc k" f] show ?case
    by (cases "try_acquire svc (p_wall (polls k)) eid tid db") (auto split: option.splits)
qed

lemma poll_clock: 
  assumes "\<forall>k. p_mono (polls k) + seconds 1 \<le> p_mono (polls (Suc k))"
  shows "p_mono (polls 0) + int n * seconds 1 \<le> p_mono (polls n)"
proof (induction n)
  case (Suc n)
  then show ?case using assms [rule_format, of n] by (simp add: algebra_simps)
qed simp

text \<open>
  C4. Acquiring with a timeout always returns: if each round of the loop lasts at least the
  poll interval of one second, then a wait of \<open>w\<close> seconds is over after at most \<open>w + 1\<close>
  attempts, whatever the other sessions do in between.
\<close>

theorem acquire_returns_by_deadline:
  assumes "\<forall>k. p_mono (polls k) + seconds ACQUIRE_POLL_INTERVAL_SECONDS \<le> p_mono (polls (Suc k))"
    and "start \<le> p_mono (polls 0)"
  shows "\<exists>r. acquire (Suc (nat w)) svc polls start (seconds w) eid tid db = Some r"
proof (cases "0 < w")
  case True
  have sec: "\<forall>k. p_mono (polls k) + seconds 1 \<le> p_mono (polls (Suc k))"
    using assms(1) by (simp add: ACQUIRE_POLL_INTERVAL_SECONDS_def)
  have "start + seconds w \<le> p_mono (polls (0 + nat w))"
    using poll_clock [OF sec, of "nat w"] assms(2) True by (simp add: seconds_def)
  from acquire_loop_returns [OF sec this, of "Suc (nat w)"] True show ?thesis
    by (simp add: acquire_def seconds_def)
next
  case False
  then have "\<not> 0 < seconds w" by (simp add: seconds_def)
  with False show ?thesis
    by (cases "try_acquire svc (p_wall (polls 0)) eid tid db") (auto simp: acquire_def split: option.splits)
qed

theorem acquire_returns_by_deadline_witness:
  "\<exists>r. acquire (Suc (nat 3)) demo_svc
      (\<lambda>k. \<lparr>p_wall = seconds (int k), p_mono = seconds (int k), p_env = id\<rparr>) 0 (seconds 3) 4 2
      (snd (try_acquire demo_svc 0 4 1 (ls_db demo_sys))) = Some r"
  by (rule acquire_returns_by_deadline) (simp_all add: seconds_def ACQUIRE_POLL_INTERVAL_SECONDS_def)

end
