(* ===== verification/Module_State.thy ===== *)
theory Module_State
  imports Entity_Lock
begin

text \<open>
  The module status state machine of \<^verbatim>\<open>src/backend/services/module_state.py\<close> and the
  state-machine-aware column update of \<^verbatim>\<open>src/backend/services/module_lock.py\<close>: the graph of
  legal transitions, the helper that validates a transition, writes it (through the fenced
  update when a lock is held) and appends an audit row, and the routing of status writes
  through that helper.
\<close>

section \<open>Statuses and the transition graph\<close>

datatype module_status =
    NOT_INITIALIZED | INITIALIZED | INITIALIZING | INIT_FAILED
  | PLANNING | PLANNED | PLAN_FAILED
  | APPLYING | APPLIED | APPLY_FAILED
  | DESTROYING | DESTROYED | DESTROY_FAILED | FAILED

definition all_statuses :: "module_status list" where
  "all_statuses = [NOT_INITIALIZED, INITIALIZED, INITIALIZING, INIT_FAILED, PLANNING, PLANNED,
     PLAN_FAILED, APPLYING, APPLIED, APPLY_FAILED, DESTROYING, DESTROYED, DESTROY_FAILED, FAILED]"

fun status_value :: "module_status \<Rightarrow> string" where
  "status_value NOT_INITIALIZED = ''not_initialized''"
| "status_value INITIALIZED = ''initialized''"
| "status_value INITIALIZING = ''initializing''"
| "status_value INIT_FAILED = ''init_failed''"
| "status_value PLANNING = ''planning''"
| "status_value PLANNED = ''planned''"
| "status_value PLAN_FAILED = ''plan_failed''"
| "status_value APPLYING = ''applying''"
| "status_value APPLIED = ''applied''"
| "status_value APPLY_FAILED = ''apply_failed''"
| "status_value DESTROYING = ''destroying''"
| "status_value DESTROYED = ''destroyed''"
| "status_value DESTROY_FAILED = ''destroy_failed''"
| "status_value FAILED = ''failed''"

text \<open>\<^verbatim>\<open>ModuleStatus(s)\<close>: \<open>None\<close> where the enum raises \<^verbatim>\<open>ValueError\<close>.\<close>

definition parse_status :: "string \<Rightarrow> module_status option" where
  "parse_status s = find (\<lambda>x. status_value x = s) all_statuses"

definition terminal_states :: "module_status list" where
  "terminal_states = [APPLIED, DESTROYED, FAILED, APPLY_FAILED, DESTROY_FAILED, INIT_FAILED, PLAN_FAILED]"

definition INIT_OUTCOMES :: "module_status list" where
  "INIT_OUTCOMES = [INITIALIZING, INITIALIZED, INIT_FAILED]"
definition PLAN_OUTCOMES :: "module_status list" where
  "PLAN_OUTCOMES = [PLANNING, PLANNED, PLAN_FAILED]"
definition APPLY_OUTCOMES :: "module_status list" where
  "APPLY_OUTCOMES = [APPLYING, APPLIED, APPLY_FAILED]"
definition DESTROY_OUTCOMES :: "module_status list" where
  "DESTROY_OUTCOMES = [DESTROYING, DESTROYED, DESTROY_FAILED]"
definition ADMIN_RESET :: "module_status list" where
  "ADMIN_RESET = [NOT_INITIALIZED]"
definition NO_OP_DESTROY :: "module_status list" where
  "NO_OP_DESTROY = [DESTROYED]"

fun ALLOWED_TRANSITIONS :: "module_status \<Rightarrow> module_status list" where
  "ALLOWED_TRANSITIONS NOT_INITIALIZED = INIT_OUTCOMES @ NO_OP_DESTROY"
| "ALLOWED_TRANSITIONS INITIALIZING = [INITIALIZED, INIT_FAILED, NOT_INITIALIZED]"
| "ALLOWED_TRANSITIONS PLANNING = [PLANNED, PLAN_FAILED, INIT_FAILED, INITIALIZED]"
| "ALLOWED_TRANSITIONS APPLYING = [APPLIED, APPLY_FAILED, INIT_FAILED, PLAN_FAILED, PLANNED]"
| "ALLOWED_TRANSITIONS DESTROYING = [DESTROYED, DESTROY_FAILED, APPLIED]"
| "ALLOWED_TRANSITIONS INITIALIZED =
     INIT_OUTCOMES @ PLAN_OUTCOMES @ APPLY_OUTCOMES @ DESTROY_OUTCOMES @ NO_OP_DESTROY @ ADMIN_RESET"
| "ALLOWED_TRANSITIONS PLANNED =
     PLAN_OUTCOMES @ APPLY_OUTCOMES @ DESTROY_OUTCOMES @ NO_OP_DESTROY @ ADMIN_RESET"
| "ALLOWED_TRANSITIONS APPLIED = PLAN_OUTCOMES @ APPLY_OUTCOMES @ DESTROY_OUTCOMES @ ADMIN_RESET"
| "ALLOWED_TRANSITIONS DESTROYED = INIT_OUTCOMES @ ADMIN_RESET"
| "ALLOWED_TRANSITIONS INIT_FAILED =
     INIT_OUTCOMES @ PLAN_OUTCOMES @ APPLY_OUTCOMES @ NO_OP_DESTROY @ ADMIN_RESET"
| "ALLOWED_TRANSITIONS PLAN_FAILED =
     INIT_OUTCOMES @ PLAN_OUTCOMES @ APPLY_OUTCOMES @ NO_OP_DESTROY @ ADMIN_RESET"
| "ALLOWED_TRANSITIONS APPLY_FAILED =
     INIT_OUTCOMES @ PLAN_OUTCOMES @ APPLY_OUTCOMES @ DESTROY_OUTCOMES @ ADMIN_RESET"
| "ALLOWED_TRANSITIONS DESTROY_FAILED = DESTROY_OUTCOMES @ ADMIN_RESET"
| "ALLOWED_TRANSITIONS FAILED = INIT_OUTCOMES @ ADMIN_RESET"

definition is_legal_transition :: "string \<Rightarrow> string \<Rightarrow> bool" where
  "is_legal_transition from_status to_status =
     (if from_status = to_status then True
      else (case (parse_status from_status, parse_status to_status) of
          (Some from_enum, Some to_enum) \<Rightarrow> to_enum \<in> set (ALLOWED_TRANSITIONS from_enum)
        | _ \<Rightarrow> False))"

lemmas outcome_defs = INIT_OUTCOMES_def PLAN_OUTCOMES_def APPLY_OUTCOMES_def DESTROY_OUTCOMES_def
  ADMIN_RESET_def NO_OP_DESTROY_def

section \<open>The database as the helper sees it\<close>

record audit_row =
  a_module_id :: int
  a_from_status :: string
  a_to_status :: string
  a_task_id :: "int option"
  a_fence_token :: "int option"
  a_reason :: string

record forge_db =
  lock_tables :: lock_db
  audit_log :: "audit_row list"

text \<open>The ORM object a caller passes: its id and the status attribute as loaded.\<close>

record pmodule =
  pm_id :: int
  pm_status :: string

datatype state_error = IllegalTransitionError int string string | LockFailure lock_error | StaleDataError

abbreviation module_table :: string where
  "module_table \<equiv> ''project_modules''"

definition log_transition ::
  "forge_db \<Rightarrow> int \<Rightarrow> string \<Rightarrow> string \<Rightarrow> entity_lock option \<Rightarrow> int option \<Rightarrow> string \<Rightarrow> forge_db" where
  "log_transition db mid from_status to_status lock task_id reason =
     db\<lparr>audit_log := audit_log db @
        [\<lparr>a_module_id = mid, a_from_status = from_status, a_to_status = to_status,
          a_task_id = task_id, a_fence_token = map_option l_fence_token lock,
          a_reason = take 500 reason\<rparr>]\<rparr>"

text \<open>
  The call back into \<^verbatim>\<open>set_locked_module_fields\<close> with the internal marker: the marker is
  stripped and the update goes straight to the fenced column update.
\<close>

definition set_from_state_machine ::
  "forge_db \<Rightarrow> int \<Rightarrow> entity_lock \<Rightarrow> (string, col_value) dict \<Rightarrow> state_error + forge_db" where
  "set_from_state_machine db mid l flds =
     (case set_locked_entity_fields (lock_tables db) mid l module_table flds of
        Inl e \<Rightarrow> Inl (LockFailure e)
      | Inr tables \<Rightarrow> Inr (db\<lparr>lock_tables := tables\<rparr>))"

text \<open>
  The unlocked write: \<^verbatim>\<open>module.status = to_status; db.commit()\<close>. The session emits no
  \<^verbatim>\<open>UPDATE\<close> when the attribute already has that value.
\<close>

definition set_status_unlocked :: "forge_db \<Rightarrow> pmodule \<Rightarrow> string \<Rightarrow> state_error + forge_db" where
  "set_status_unlocked db m to_status =
     (if pm_status m = to_status then Inr db
      else case update_row (lock_tables db) module_table (pm_id m) (\<lambda>r. True)
             (\<lambda>r. r\<lparr>columns := (columns r)(''status'' \<mapsto> Text to_status)\<rparr>) of
        (tables, n) \<Rightarrow> if n = 0 then Inl StaleDataError else Inr (db\<lparr>lock_tables := tables\<rparr>))"

definition transition_module_status ::
  "forge_db \<Rightarrow> pmodule \<Rightarrow> string \<Rightarrow> entity_lock option \<Rightarrow> int option \<Rightarrow> string \<Rightarrow>
     (string, col_value) dict \<Rightarrow> state_error + forge_db" where
  "transition_module_status db m to_status lock task_id reason extra_fields =
     (let from_status = pm_status m;
          finish = (\<lambda>d. log_transition d (pm_id m) from_status to_status lock task_id reason)
      in if \<not> is_legal_transition from_status to_status
         then Inl (IllegalTransitionError (pm_id m) from_status to_status)
         else if from_status = to_status \<and> extra_fields = [] then Inr (finish db)
         else (case (case lock of
                 Some l \<Rightarrow> set_from_state_machine db (pm_id m) l
                             (dict_merge [(''status'', Text to_status)] extra_fields)
               | None \<Rightarrow> set_status_unlocked db m to_status) of
             Inl e \<Rightarrow> Inl e
           | Inr db' \<Rightarrow> Inr (finish db')))"

text \<open>
  \<^verbatim>\<open>fields.pop("reason", None) or fields.get("deployment_error") or ""\<close>, clamped; the error
  column holds text or \<^verbatim>\<open>NULL\<close>.
\<close>

definition audit_reason :: "string option \<Rightarrow> (string, col_value) dict \<Rightarrow> string" where
  "audit_reason reason flds =
     take 500 (case reason of
        Some (c # cs) \<Rightarrow> c # cs
      | _ \<Rightarrow> (case map_of flds ''deployment_error'' of Some (Text s) \<Rightarrow> s | _ \<Rightarrow> ''''))"

definition set_locked_module_fields ::
  "forge_db \<Rightarrow> pmodule \<Rightarrow> entity_lock \<Rightarrow> string option \<Rightarrow> string option \<Rightarrow>
     (string, col_value) dict \<Rightarrow> state_error + forge_db" where
  "set_locked_module_fields db m l status reason flds =
     (case status of
        Some new_status \<Rightarrow>
          transition_module_status db m new_status (Some l) (Some (l_task_id l))
            (audit_reason reason flds) flds
      | None \<Rightarrow>
          (let flds' = (case reason of None \<Rightarrow> flds | Some r \<Rightarrow> dict_set ''reason'' (Text r) flds)
           in if flds' = [] then Inr db else set_from_state_machine db (pm_id m) l flds'))"

section \<open>The transition graph\<close>

lemma all_statuses_UNIV: "x \<in> set all_statuses"
  by (cases x) (simp_all add: all_statuses_def)

lemma status_value_inject: "status_value x = status_value y \<longleftrightarrow> x = y"
  by (cases x; cases y) simp_all

lemma parse_status_value [simp]: "parse_status (status_value x) = Some x"
  by (cases x) (simp_all add: parse_status_def all_statuses_def)

lemma parse_status_Some: "parse_status s = Some x \<Longrightarrow> status_value x = s"
  unfolding parse_status_def by (auto dest: find_SomeD)

definition status_step :: "module_status \<Rightarrow> module_status \<Rightarrow> bool" where
  "status_step a b \<longleftrightarrow> b \<in> set (ALLOWED_TRANSITIONS a)"

definition in_progress :: "module_status \<Rightarrow> bool" where
  "in_progress s \<longleftrightarrow> s \<in> {INITIALIZING, PLANNING, APPLYING, DESTROYING}"

lemma is_legal_status_value:
  "is_legal_transition (status_value a) (status_value b) \<longleftrightarrow> a = b \<or> status_step a b"
  by (simp add: is_legal_transition_def status_step_def status_value_inject)

lemma legal_cases:
  "is_legal_transition s t \<Longrightarrow> s = t \<or> (\<exists>a b. s = status_value a \<and> t = status_value b \<and> status_step a b)"
  by (auto simp: is_legal_transition_def status_step_def split: if_splits option.splits
      dest!: parse_status_Some)

lemma to_reset: "a \<noteq> NOT_INITIALIZED \<Longrightarrow> status_step\<^sup>*\<^sup>* a NOT_INITIALIZED"
proof -
  have direct: "status_step a NOT_INITIALIZED" if "a \<notin> {NOT_INITIALIZED, PLANNING, APPLYING, DESTROYING}" for a
    using that by (cases a) (simp_all add: status_step_def outcome_defs)
  have "status_step PLANNING PLANNED" "status_step APPLYING APPLIED" "status_step DESTROYING DESTROYED"
    by (simp_all add: status_step_def)
  then show "a \<noteq> NOT_INITIALIZED \<Longrightarrow> status_step\<^sup>*\<^sup>* a NOT_INITIALIZED"
    using direct by (cases a)
      (auto intro: r_into_rtranclp converse_rtranclp_into_rtranclp [OF _ r_into_rtranclp])
qed



section \<open>The fenced columns as an interface\<close>

text \<open>
  What the state machine relies on from the lock component: a write through a handle that is
  accepted was made under the row's current token and sets exactly the given columns of that
  row; through any other handle it fails.
\<close>

locale fenced_columns =
  fixes put :: "'db \<Rightarrow> int \<Rightarrow> 'l \<Rightarrow> (string, col_value) dict \<Rightarrow> 'e + 'db"
    and col :: "'db \<Rightarrow> int \<Rightarrow> string \<Rightarrow> col_value option"
    and current :: "'db \<Rightarrow> int \<Rightarrow> 'l \<Rightarrow> bool"
  assumes write_current: "put db i l flds = Inr db' \<Longrightarrow> flds \<noteq> [] \<Longrightarrow> current db i l"
    and write_col: "put db i l flds = Inr db' \<Longrightarrow>
      col db' j k = (if j = i \<and> k \<in> fst ` set flds then map_of flds k else col db j k)"
begin

lemma write_stale: "\<not> current db i l \<Longrightarrow> flds \<noteq> [] \<Longrightarrow> \<exists>e. put db i l flds = Inl e"
  using write_current by (metis obj_sumE)

lemma write_sets:
  assumes "put db i l (dict_merge [(k, v)] flds) = Inr db'" and "k \<notin> fst ` set flds" and "dict_ok flds"
  shows "col db' i k = Some v"
proof -
  have "map_of flds k = None" using assms(2) by (simp add: map_of_eq_None_iff)
  then have "map_of (dict_merge [(k, v)] flds) k = Some v"
    using assms(3) by (simp add: map_of_dict_merge map_add_def)
  then show ?thesis using write_col [OF assms(1), of i k] by (simp add: keys_dict_merge)
qed

lemma write_keeps:
  "put db i l flds = Inr db' \<Longrightarrow> k \<notin> fst ` set flds \<or> j \<noteq> i \<Longrightarrow> col db' j k = col db j k"
  by (auto dest: write_col [where j = j and k = k])

end

definition module_col :: "forge_db \<Rightarrow> int \<Rightarrow> string \<Rightarrow> col_value option" where
  "module_col db mid k = Option.bind (map_of (lock_tables db module_table) mid) (\<lambda>r. columns r k)"

definition module_current :: "forge_db \<Rightarrow> int \<Rightarrow> entity_lock \<Rightarrow> bool" where
  "module_current db mid l \<longleftrightarrow>
     (\<exists>r. map_of (lock_tables db module_table) mid = Some r \<and> lock_fence_token r = l_fence_token l)"

lemma set_from_state_machine_Inr:
  assumes "set_from_state_machine db mid l flds = Inr db'" and "flds \<noteq> []"
  obtains r where "map_of (lock_tables db module_table) mid = Some r"
    and "lock_fence_token r = l_fence_token l"
    and "db' = db\<lparr>lock_tables := (lock_tables db)(module_table :=
      dict_set mid (r\<lparr>columns := columns r ++ map_of flds\<rparr>) (lock_tables db module_table))\<rparr>"
  using assms
  by (auto simp: set_from_state_machine_def set_locked_entity_fields_def update_row_def
      split: sum.splits option.splits if_splits)

interpretation module_columns: fenced_columns set_from_state_machine module_col module_current
proof
  fix db i l flds db'
  assume w: "set_from_state_machine db i l flds = Inr db'"
  show "flds \<noteq> [] \<Longrightarrow> module_current db i l"
    using w by (auto simp: module_current_def elim: set_from_state_machine_Inr)
  show "module_col db' j k =
      (if j = i \<and> k \<in> fst ` set flds then map_of flds k else module_col db j k)" for j k
  proof (cases "flds = []")
    case True
    with w show ?thesis by (auto simp: set_from_state_machine_def set_locked_entity_fields_def)
  next
    case False
    then obtain r where r: "map_of (lock_tables db module_table) i = Some r"
      "db' = db\<lparr>lock_tables := (lock_tables db)(module_table :=
        dict_set i (r\<lparr>columns := columns r ++ map_of flds\<rparr>) (lock_tables db module_table))\<rparr>"
      using w by (auto elim: set_from_state_machine_Inr)
    show ?thesis
      using map_of_eq_None_iff [of flds k]
      by (cases "map_of flds k") (auto simp: module_col_def r map_add_def)
  qed
qed

section \<open>Transitions\<close>

lemma transition_illegal:
  "\<not> is_legal_transition (pm_status m) to_status \<Longrightarrow>
     transition_module_status db m to_status lock tid reason extra =
       Inl (IllegalTransitionError (pm_id m) (pm_status m) to_status)"
  by (simp add: transition_module_status_def)

lemma log_transition_tables [simp]:
  "lock_tables (log_transition db mid f t lock tid reason) = lock_tables db"
  "module_col (log_transition db mid f t lock tid reason) = module_col db"
  by (simp_all add: log_transition_def module_col_def fun_eq_iff)

lemma set_unlocked_Inr:
  assumes "set_status_unlocked db m to_status = Inr db'"
  shows "module_col db' j k = (if j = pm_id m \<and> k = ''status'' \<and> pm_status m \<noteq> to_status
           then Some (Text to_status) else module_col db j k) \<and> audit_log db' = audit_log db"
  using assms
  by (auto simp: set_status_unlocked_def update_row_def module_col_def split: if_splits option.splits)

lemma set_from_state_machine_log:
  "set_from_state_machine db mid l flds = Inr db' \<Longrightarrow> audit_log db' = audit_log db"
  by (auto simp: set_from_state_machine_def split: sum.splits)

text \<open>The write half of a transition, and what the whole transition leaves behind.\<close>

lemma transition_cases:
  assumes "transition_module_status db m to_status lock tid reason extra = Inr db'"
  obtains (noop) "to_status = pm_status m" "extra = []"
      "db' = log_transition db (pm_id m) (pm_status m) to_status lock tid reason"
    | (fenced) l d where "lock = Some l"
      "set_from_state_machine db (pm_id m) l (dict_merge [(''status'', Text to_status)] extra) = Inr d"
      "db' = log_transition d (pm_id m) (pm_status m) to_status lock tid reason"
    | (plain) d where "lock = None" "set_status_unlocked db m to_status = Inr d"
      "db' = log_transition d (pm_id m) (pm_status m) to_status lock tid reason"
  using assms
  by (auto simp: transition_module_status_def Let_def split: if_splits option.splits sum.splits)

lemma dict_merge_not_Nil: "d \<noteq> [] \<Longrightarrow> dict_merge d e \<noteq> []"
  using keys_dict_merge [of d e] by (metis Un_empty image_is_empty set_empty)

lemma transition_audit:
  assumes "transition_module_status db m to_status lock tid reason extra = Inr db'"
  shows "is_legal_transition (pm_status m) to_status \<and>
    audit_log db' = audit_log db @ [\<lparr>a_module_id = pm_id m, a_from_status = pm_status m,
      a_to_status = to_status, a_task_id = tid, a_fence_token = map_option l_fence_token lock,
      a_reason = take 500 reason\<rparr>]"
proof
  show "is_legal_transition (pm_status m) to_status"
    using assms transition_illegal by (metis Inl_Inr_False)
  show "audit_log db' = audit_log db @ [\<lparr>a_module_id = pm_id m, a_from_status = pm_status m,
      a_to_status = to_status, a_task_id = tid, a_fence_token = map_option l_fence_token lock,
      a_reason = take 500 reason\<rparr>]"
    using assms by (cases rule: transition_cases)
      (auto simp: log_transition_def set_unlocked_Inr dest!: set_from_state_machine_log)
qed

lemma transition_columns:
  assumes "transition_module_status db m to_status lock tid reason extra = Inr db'"
    and "module_col db (pm_id m) ''status'' = Some (Text (pm_status m))"
    and "dict_ok extra" and "''status'' \<notin> fst ` set extra"
  shows "module_col db' (pm_id m) ''status'' = Some (Text to_status) \<and>
    (\<forall>j k. j \<noteq> pm_id m \<or> k \<notin> insert ''status'' (fst ` set extra) \<longrightarrow> module_col db' j k = module_col db j k)"
  using assms(1)
proof (cases rule: transition_cases)
  case noop
  with assms(2) show ?thesis by simp
next
  case (fenced l d)
  then show ?thesis
    using module_columns.write_sets [OF fenced(2) assms(4,3)] module_columns.write_keeps [OF fenced(2)]
    by (auto simp: keys_dict_merge)
next
  case (plain d)
  then show ?thesis using set_unlocked_Inr [OF plain(2)] assms(2) by auto
qed

text \<open>
  What a successful transition does: it is in the graph, the row has the new status,
  nothing but the status and the extra columns of that row changed, exactly one audit row
  was appended, and if the status changed under a lock, the lock's token was the current
  one. An illegal transition changes nothing and names the two statuses.
\<close>

theorem transition_module_status_correct:
  assumes "module_col db (pm_id m) ''status'' = Some (Text (pm_status m))"
    and "dict_ok extra" and "''status'' \<notin> fst ` set extra"
  shows "(is_legal_transition (pm_status m) to_status \<or>
      transition_module_status db m to_status lock tid reason extra =
        Inl (IllegalTransitionError (pm_id m) (pm_status m) to_status)) \<and>
    (\<forall>db'. transition_module_status db m to_status lock tid reason extra = Inr db' \<longrightarrow>
      is_legal_transition (pm_status m) to_status \<and>
      module_col db' (pm_id m) ''status'' = Some (Text to_status) \<and>
      (\<forall>j k. j \<noteq> pm_id m \<or> k \<notin> insert ''status'' (fst ` set extra) \<longrightarrow> module_col db' j k = module_col db j k) \<and>
      audit_log db' = audit_log db @ [\<lparr>a_module_id = pm_id m, a_from_status = pm_status m,
        a_to_status = to_status, a_task_id = tid, a_fence_token = map_option l_fence_token lock,
        a_reason = take 500 reason\<rparr>] \<and>
      (\<forall>l. lock = Some l \<and> to_status \<noteq> pm_status m \<longrightarrow> module_current db (pm_id m) l))"
  (is "?legal \<and> (\<forall>db'. ?run = Inr db' \<longrightarrow> _)")
proof (intro conjI allI impI)
  show ?legal using transition_illegal by blast
next
  fix db'
  assume ok: "?run = Inr db'"
  note cols = transition_columns [OF ok assms] and audit = transition_audit [OF ok]
  show "is_legal_transition (pm_status m) to_status" using audit by (rule conjunct1)
  show "audit_log db' = audit_log db @ [\<lparr>a_module_id = pm_id m, a_from_status = pm_status m,
        a_to_status = to_status, a_task_id = tid, a_fence_token = map_option l_fence_token lock,
        a_reason = take 500 reason\<rparr>]" using audit by (rule conjunct2)
  show "module_col db' (pm_id m) ''status'' = Some (Text to_status)" using cols by (rule conjunct1)
  show "module_col db' j k = module_col db j k"
    if "j \<noteq> pm_id m \<or> k \<notin> insert ''status'' (fst ` set extra)" for j k
    using cols that by blast
  show "module_current db (pm_id m) l" if "lock = Some l \<and> to_status \<noteq> pm_status m" for l
    using ok that by (cases rule: transition_cases)
      (auto simp: dict_merge_not_Nil intro: module_columns.write_current)
qed

definition demo_module_db :: forge_db where
  "demo_module_db =
     \<lparr>lock_tables = (\<lambda>t. if t = module_table then
        [(7, demo_row\<lparr>lock_fence_token := 3, columns := [''status'' \<mapsto> Text ''planned'']\<rparr>)] else []),
      audit_log = []\<rparr>"

definition demo_handle :: entity_lock where
  "demo_handle = \<lparr>l_entity_id = 7, l_task_id = 1, l_fence_token = 3, l_table = module_table\<rparr>"

definition demo_pmodule :: pmodule where
  "demo_pmodule = \<lparr>pm_id = 7, pm_status = ''planned''\<rparr>"

lemma demo_module_status: "module_col demo_module_db (pm_id demo_pmodule) ''status'' = Some (Text (pm_status demo_pmodule))"
  by (simp add: module_col_def demo_module_db_def demo_pmodule_def)

theorem transition_module_status_correct_witness:
  "\<exists>db'. transition_module_status demo_module_db demo_pmodule ''applying'' (Some demo_handle) (Some 1) [] [] = Inr db' \<and>
     module_col db' 7 ''status'' = Some (Text ''applying'')"
proof -
  obtain db' where ok: "transition_module_status demo_module_db demo_pmodule ''applying'' (Some demo_handle) (Some 1) [] [] = Inr db'"
    by (simp add: transition_module_status_def demo_module_db_def demo_pmodule_def demo_handle_def demo_row_def
        is_legal_transition_def parse_status_def all_statuses_def outcome_defs set_from_state_machine_def
        set_locked_entity_fields_def ALLOWED_FIELDS_BY_TABLE_def update_row_def Let_def)
  with transition_module_status_correct [OF demo_module_status, of "[]" "''applying''" "Some demo_handle" "Some 1" "[]"]
  show ?thesis by (auto simp: demo_pmodule_def)
qed

section \<open>The audit log is the history of the status\<close>

text \<open>
  The history of a module read off the log: each of its rows must start where the previous
  one ended and be a legal transition; the result is the status the log ends in.
\<close>

fun replay :: "int \<Rightarrow> string \<Rightarrow> audit_row list \<Rightarrow> string option" where
  "replay mid s [] = Some s"
| "replay mid s (a # as) =
     (if a_module_id a \<noteq> mid then replay mid s as
      else if a_from_status a = s \<and> is_legal_transition s (a_to_status a)
      then replay mid (a_to_status a) as else None)"

lemma replay_append:
  "replay mid s (as @ bs) = Option.bind (replay mid s as) (\<lambda>t. replay mid t bs)"
  by (induction as arbitrary: s) auto

text \<open>Lock operations proper also leave the other columns of every row alone.\<close>

locale lock_only_operation = lock_operation +
  assumes keeps_columns: "map_option columns (map_of (op db t) i) = map_option columns (map_of (db t) i)"
begin

lemma keeps_module_col: "module_col (db\<lparr>lock_tables := op (lock_tables db)\<rparr>) = module_col db"
proof (intro ext)
  fix i k
  show "module_col (db\<lparr>lock_tables := op (lock_tables db)\<rparr>) i k = module_col db i k"
    using keeps_columns [of "lock_tables db" module_table i]
    by (cases "map_of (op (lock_tables db) module_table) i"; cases "map_of (lock_tables db module_table) i")
      (auto simp: module_col_def)
qed

end

lemma columns_update_row:
  "(\<And>r. columns (f r) = columns r) \<Longrightarrow>
     map_option columns (map_of (fst (update_row db t i P f) t') i') = map_option columns (map_of (db t') i')"
  by (auto simp: map_of_update_row option.map_comp comp_def if_distrib cong: if_cong)

interpretation acquire_cols: lock_only_operation "\<lambda>db. snd (try_acquire svc now eid tid db)"
  for svc now eid tid
  by unfold_locales (simp add: snd_try_acquire columns_update_row)

interpretation refresh_cols: lock_only_operation "\<lambda>db. snd (refresh svc now l db)"
  for svc now l
  by unfold_locales (simp add: snd_refresh columns_update_row)

interpretation release_cols: lock_only_operation "\<lambda>db. release svc l db"
  for svc l
  by unfold_locales (simp add: release_def columns_update_row clear_holder_def)

interpretation force_cols: lock_only_operation "\<lambda>db. snd (force_release svc eid db)"
  for svc eid
  by unfold_locales (simp add: snd_force_release columns_update_row clear_holder_def)

interpretation sweep_cols: lock_only_operation "\<lambda>db. snd (sweep_stale_entity_locks now db)"
  for now
  by unfold_locales
    (auto simp: sweep_stale_entity_locks_def Let_def map_of_sweep_table clear_holder_def option.map_comp
      comp_def if_distrib cong: if_cong)

text \<open>
  The steps of the sessions that share the database. A session that changes a status has
  the current status loaded when the statement runs, and its two commits, the status and
  the audit row, are one step: a session that dies between them leaves a gap. Handles are
  arbitrary, so stale workers take part.
\<close>

inductive db_step :: "forge_db \<Rightarrow> forge_db \<Rightarrow> bool" where
  transition: "module_col db (pm_id m) ''status'' = Some (Text (pm_status m)) \<Longrightarrow>
    dict_ok extra \<Longrightarrow> ''status'' \<notin> fst ` set extra \<Longrightarrow>
    transition_module_status db m to_status lock tid reason extra = Inr db' \<Longrightarrow> db_step db db'"
| locked_write: "module_col db (pm_id m) ''status'' = Some (Text (pm_status m)) \<Longrightarrow>
    dict_ok flds \<Longrightarrow> ''status'' \<notin> fst ` set flds \<Longrightarrow>
    set_locked_module_fields db m l status reason' flds = Inr db' \<Longrightarrow> db_step db db'"
| acquires: "db_step db (db\<lparr>lock_tables := snd (try_acquire svc now eid tid (lock_tables db))\<rparr>)"
| refreshes: "db_step db (db\<lparr>lock_tables := snd (refresh svc now l (lock_tables db))\<rparr>)"
| releases: "db_step db (db\<lparr>lock_tables := release svc l (lock_tables db)\<rparr>)"
| forces: "db_step db (db\<lparr>lock_tables := snd (force_release svc eid (lock_tables db))\<rparr>)"
| sweeps: "db_step db (db\<lparr>lock_tables := snd (sweep_stale_entity_locks now (lock_tables db))\<rparr>)"

definition audit_init :: "int \<Rightarrow> string \<Rightarrow> forge_db \<Rightarrow> bool" where
  "audit_init mid s db \<longleftrightarrow> audit_log db = [] \<and> module_col db mid ''status'' = Some (Text s)"

definition audit_inv :: "int \<Rightarrow> string \<Rightarrow> forge_db \<Rightarrow> bool" where
  "audit_inv mid s db \<longleftrightarrow>
     (\<exists>t. replay mid s (audit_log db) = Some t \<and> module_col db mid ''status'' = Some (Text t))"

lemma audit_inv_transition:
  assumes "transition_module_status db m to_status lock tid reason extra = Inr db'"
    and "module_col db (pm_id m) ''status'' = Some (Text (pm_status m))"
    and "dict_ok extra" and "''status'' \<notin> fst ` set extra" and "audit_inv mid s db"
  shows "audit_inv mid s db'"
proof -
  obtain t where t: "replay mid s (audit_log db) = Some t" "module_col db mid ''status'' = Some (Text t)"
    using assms(5) by (auto simp: audit_inv_def)
  note audit = transition_audit [OF assms(1)] and cols = transition_columns [OF assms(1-4)]
  show ?thesis
  proof (cases "mid = pm_id m")
    case True
    then show ?thesis using audit cols t assms(2) by (auto simp: audit_inv_def replay_append)
  next
    case False
    then have "module_col db' mid ''status'' = Some (Text t)" using cols t(2) by simp
    then show ?thesis using audit t(1) False by (auto simp: audit_inv_def replay_append)
  qed
qed

lemma audit_inv_keep:
  "module_col db' = module_col db \<Longrightarrow> audit_log db' = audit_log db \<Longrightarrow> audit_inv mid s db \<Longrightarrow> audit_inv mid s db'"
  by (simp add: audit_inv_def)

lemma audit_inv_write:
  assumes "set_from_state_machine db i l flds = Inr db'" and "''status'' \<notin> fst ` set flds"
    and "audit_inv mid s db"
  shows "audit_inv mid s db'"
  using module_columns.write_keeps [OF assms(1), of "''status''" mid] set_from_state_machine_log [OF assms(1)] assms
  by (simp add: audit_inv_def)

lemma audit_inv_locked_write:
  assumes "set_locked_module_fields db m l status reason flds = Inr db'"
    and "module_col db (pm_id m) ''status'' = Some (Text (pm_status m))"
    and "dict_ok flds" and "''status'' \<notin> fst ` set flds" and "audit_inv mid s db"
  shows "audit_inv mid s db'"
proof (cases status)
  case (Some new)
  with assms(1) show ?thesis
    by (auto simp: set_locked_module_fields_def intro: audit_inv_transition [OF _ assms(2-5)])
next
  case None
  have keys: "''status'' \<notin> fst ` set (dict_set ''reason'' v flds)" for v
    using assms(4) by (simp add: set_dict_set_keys)
  from None assms show ?thesis
    by (auto simp: set_locked_module_fields_def Let_def split: option.splits if_splits
        intro: audit_inv_write [OF _ keys] audit_inv_write)
qed

lemmas lock_only_keeps = acquire_cols.keeps_module_col refresh_cols.keeps_module_col
  release_cols.keeps_module_col force_cols.keeps_module_col sweep_cols.keeps_module_col

interpretation history: invariant_system "audit_init mid s" db_step "audit_inv mid s"
  for mid s
proof
  fix db db'
  assume "db_step db db'" and "audit_inv mid s db"
  then show "audit_inv mid s db'"
  proof (induction rule: db_step.induct)
    case (transition db m extra to_status lock tid reason db')
    then show ?case by (blast intro: audit_inv_transition)
  next
    case (locked_write db m flds l status reason' db')
    then show ?case by (blast intro: audit_inv_locked_write)
  qed (rule audit_inv_keep, rule lock_only_keeps, simp, assumption)+
qed (simp add: audit_init_def audit_inv_def)



text \<open>
  The fence guards every transition but the self-loop: through a handle whose token was
  superseded, a transition succeeds exactly when it re-sets the status the module already
  has and carries no extra columns; it then appends an audit row with the dead token.
\<close>

theorem stale_transition_iff_self_loop:
  assumes "\<not> module_current db (pm_id m) l"
  shows "(\<exists>db'. transition_module_status db m to_status (Some l) tid reason extra = Inr db') \<longleftrightarrow>
    to_status = pm_status m \<and> extra = []"
proof
  assume "\<exists>db'. transition_module_status db m to_status (Some l) tid reason extra = Inr db'"
  then obtain db' where "transition_module_status db m to_status (Some l) tid reason extra = Inr db'" ..
  then show "to_status = pm_status m \<and> extra = []"
    by (cases rule: transition_cases)
      (use assms module_columns.write_current dict_merge_not_Nil in \<open>fastforce+\<close>)
qed (simp add: transition_module_status_def is_legal_transition_def Let_def)

theorem stale_transition_iff_self_loop_witness:
  "\<exists>db'. transition_module_status demo_module_db demo_pmodule ''planned''
     (Some (demo_handle\<lparr>l_fence_token := 2\<rparr>)) (Some 1) [] [] = Inr db'"
  by (subst stale_transition_iff_self_loop)
    (simp_all add: module_current_def demo_module_db_def demo_pmodule_def demo_handle_def demo_row_def)

end
