(* ===== verification/Task_Dispatch.thy ===== *)
theory Task_Dispatch
  imports Module_State Complex_Main
begin

text \<open>
  The rows that deployments and destroys work on, and the routing of one module operation to a
  Celery task: the engine registry (\<^verbatim>\<open>src/backend/services/engine_registry.py\<close>), the dispatch
  functions (\<^verbatim>\<open>src/backend/services/execution/task_dispatch.py\<close>) with the time limits they derive
  for container modules, and the in-cluster classification of
  \<^verbatim>\<open>src/backend/tasks/parallel_tasks.py\<close>.
\<close>

section \<open>Rows\<close>

text \<open>
  A step of a container module: the numbers that \<^verbatim>\<open>int(...)\<close> accepts, \<open>None\<close> where it raises
  or the key is missing. A manifest declares step sets in either of two places; a step set is
  \<open>None\<close> when the value is not a list, and a step is \<open>None\<close> when it is not an object.
\<close>

record step_spec =
  timeout_seconds :: "int option"
  max_attempts :: "int option"
  backoff_seconds :: "int option"

type_synonym step_set = "step_spec option list option"

record pack_manifest =
  execution_steps :: "(string, step_set) dict option"
  top_steps :: "(string, step_set) dict option"
  manifest_actions :: "(string, step_set) dict"
  declared_minutes :: "rat option"

record required_input =
  in_name :: string
  in_source :: "string option"
  in_has_default :: bool

record library_row =
  lib_name :: string
  lib_path :: string
  execution_engine :: "string option"
  engine_type :: "string option"
  module_source_kind :: "string option"
  deploy_model :: "string option"
  manifest :: "pack_manifest option"
  required_inputs :: "required_input list"

text \<open>
  A module row. The status column holds one of the values of the enum; a missing list of
  dependencies or a missing plan serial is the empty list or zero, as every reader treats it.
  Of the variables only the names are read, and of the outputs whether they were captured.
\<close>

record project_module =
  pr_id :: int
  pr_project_id :: int
  library_module :: "library_row option"
  dependencies :: "int list"
  enabled :: bool
  status :: module_status
  stack_instance_id :: "int option"
  deployment_order :: int
  deployment_error :: "string option"
  path_in_project :: "string option"
  plan_serial :: int
  has_outputs :: bool
  override_names :: "string list"
  variable_names :: "string list"

section \<open>The engine registry\<close>

record engine_spec =
  es_name :: string
  pack_engine :: "string option"
  es_execution_engine :: "string option"
  legacy_engine_type :: "string option"
  runner_profiles :: "string list"
  es_router_priority :: "int option"

definition ENGINES :: "engine_spec list" where
  "ENGINES =
    [\<lparr>es_name = ''opentofu'', pack_engine = Some ''opentofu'', es_execution_engine = Some ''opentofu'',
      legacy_engine_type = Some ''opentofu'', runner_profiles = [''opentofu-default''], es_router_priority = Some 3\<rparr>,
     \<lparr>es_name = ''kubernetes'', pack_engine = Some ''kubernetes'', es_execution_engine = Some ''kubernetes-direct'',
      legacy_engine_type = Some ''kubernetes'', runner_profiles = [''kubernetes-default''], es_router_priority = Some 2\<rparr>,
     \<lparr>es_name = ''ansible'', pack_engine = Some ''ansible'', es_execution_engine = Some ''ansible'',
      legacy_engine_type = Some ''ansible'', runner_profiles = [''ansible-default''], es_router_priority = None\<rparr>,
     \<lparr>es_name = ''script'', pack_engine = Some ''script'', es_execution_engine = None,
      legacy_engine_type = None, runner_profiles = [''script-restricted''], es_router_priority = None\<rparr>,
     \<lparr>es_name = ''operator'', pack_engine = None, es_execution_engine = Some ''operator'',
      legacy_engine_type = None, runner_profiles = [], es_router_priority = Some 1\<rparr>,
     \<lparr>es_name = ''ssh'', pack_engine = None, es_execution_engine = Some ''ssh'',
      legacy_engine_type = Some ''ssh'', runner_profiles = [], es_router_priority = Some 0\<rparr>,
     \<lparr>es_name = ''tmos'', pack_engine = None, es_execution_engine = Some ''tmos'',
      legacy_engine_type = None, runner_profiles = [], es_router_priority = None\<rparr>,
     \<lparr>es_name = ''container'', pack_engine = Some ''container'', es_execution_engine = Some ''container'',
      legacy_engine_type = None, runner_profiles = [''container-default''], es_router_priority = None\<rparr>,
     \<lparr>es_name = ''cli-bnkctl'', pack_engine = None, es_execution_engine = Some ''cli-bnkctl'',
      legacy_engine_type = None, runner_profiles = [], es_router_priority = None\<rparr>]"

definition valid_pack_engines :: "engine_spec list \<Rightarrow> string list" where
  "valid_pack_engines es = List.map_filter pack_engine es"

definition runner_profiles_by_engine :: "engine_spec list \<Rightarrow> (string, string list) dict" where
  "runner_profiles_by_engine es =
     fold (\<lambda>e d. case pack_engine e of None \<Rightarrow> d | Some p \<Rightarrow> dict_set p (runner_profiles e) d) es []"

definition pack_to_execution :: "engine_spec list \<Rightarrow> (string, string) dict" where
  "pack_to_execution es =
     fold (\<lambda>e d. case pack_engine e of
             None \<Rightarrow> d
           | Some p \<Rightarrow> dict_set p (case es_execution_engine e of Some x \<Rightarrow> x | None \<Rightarrow> es_name e) d) es []"

definition explicit_execution_engines :: "engine_spec list \<Rightarrow> string list" where
  "explicit_execution_engines es = remdups (List.map_filter es_execution_engine es)"

definition explicit_engine_types :: "engine_spec list \<Rightarrow> string list" where
  "explicit_engine_types es = remdups (List.map_filter legacy_engine_type es)"

definition router_priority :: "engine_spec list \<Rightarrow> (string, int) dict" where
  "router_priority es =
     fold (\<lambda>e d. case es_router_priority e of None \<Rightarrow> d | Some p \<Rightarrow> dict_set (es_name e) p d) es []"

section \<open>Resolving the engine of a module\<close>

definition get_explicit_engine_type :: "project_module \<Rightarrow> string option" where
  "get_explicit_engine_type m =
     (case library_module m of
        None \<Rightarrow> None
      | Some lib \<Rightarrow> (case engine_type lib of
            None \<Rightarrow> None
          | Some t \<Rightarrow> if norm_text (Some t) \<in> set (explicit_engine_types ENGINES) then Some (norm_text (Some t)) else None))"

definition unrecognized_message :: "string \<Rightarrow> int \<Rightarrow> string" where
  "unrecognized_message e i = ''Unrecognized execution_engine '' @ quoted e @ '' for module '' @ str_of_int i @
     ''. Supported engines: '' @ repr_strs (sort (explicit_execution_engines ENGINES))"

definition get_explicit_execution_engine :: "project_module \<Rightarrow> string + string option" where
  "get_explicit_execution_engine m =
     (case library_module m of
        None \<Rightarrow> Inr None
      | Some lib \<Rightarrow> (case execution_engine lib of
            None \<Rightarrow> Inr None
          | Some e \<Rightarrow>
              let normalized = norm_text (Some e)
              in if normalized \<in> set (explicit_execution_engines ENGINES) then Inr (Some normalized)
                 else if normalized \<noteq> '''' then Inl (unrecognized_message normalized (pr_id m))
                 else Inr None))"

definition assert_module_runnable :: "project_module \<Rightarrow> string \<Rightarrow> string option" where
  "assert_module_runnable m operation =
     (if operation = ''destroy'' then None
      else if \<not> enabled m
      then Some (''Module '' @ str_of_int (pr_id m) @ '' is disabled; refusing to dispatch '' @ operation @ ''. Enable it first.'')
      else None)"

definition resolve_dispatch_engine :: "project_module \<Rightarrow> string + string" where
  "resolve_dispatch_engine m =
     (case get_explicit_execution_engine m of
        Inl err \<Rightarrow> Inl err
      | Inr (Some e) \<Rightarrow>
          if e \<in> {''kubernetes-direct'', ''operator''}
          then (let source_kind = norm_text (Option.bind (library_module m) module_source_kind);
                    model = norm_text (Option.bind (library_module m) deploy_model)
                in if source_kind = ''builtin'' \<and> model \<notin> {''helm'', ''manifests''} then Inr ''opentofu''
                   else Inr ''kubernetes'')
          else Inr e
      | Inr None \<Rightarrow> (case get_explicit_engine_type m of Some t \<Rightarrow> Inr t | None \<Rightarrow> Inr ''opentofu''))"

section \<open>Time limits of container modules\<close>

definition task_time_limit :: int where "task_time_limit = 7500"
definition visibility_timeout :: int where "visibility_timeout = 10800"

definition canonical_step_sets :: "pack_manifest \<Rightarrow> (string, step_set) dict" where
  "canonical_step_sets mf =
     (case execution_steps mf of
        Some steps \<Rightarrow> steps
      | None \<Rightarrow> (case top_steps mf of Some steps \<Rightarrow> steps | None \<Rightarrow> []))"

definition or_default :: "int option \<Rightarrow> int \<Rightarrow> int" where
  "or_default v d = (case v of Some n \<Rightarrow> n | None \<Rightarrow> d)"

definition step_budget :: "step_spec option \<Rightarrow> int" where
  "step_budget st =
     (case st of
        None \<Rightarrow> 0
      | Some s \<Rightarrow>
          let timeout = or_default (timeout_seconds s) 1800;
              attempts = max 1 (or_default (max_attempts s) 1);
              backoff = max 0 (or_default (backoff_seconds s) 0)
          in timeout * attempts + backoff * (attempts - 1))"

definition phase_steps :: "pack_manifest \<Rightarrow> string \<Rightarrow> string \<Rightarrow> step_set" where
  "phase_steps mf phase action =
     (if phase = ''action'' then Option.bind (map_of (manifest_actions mf) action) id
      else Option.bind (map_of (canonical_step_sets mf) phase) id)"

definition derive_container_time_limits :: "project_module \<Rightarrow> string \<Rightarrow> string \<Rightarrow> (int \<times> int) option" where
  "derive_container_time_limits m phase action =
     (case Option.bind (library_module m) manifest of
        None \<Rightarrow> None
      | Some mf \<Rightarrow> (case phase_steps mf phase action of
            None \<Rightarrow> None
          | Some steps \<Rightarrow>
              let budget = sum_list (map step_budget steps);
                  hard = budget + 600;
                  ceiling = visibility_timeout - 600
              in if hard \<le> task_time_limit then None
                 else let hard' = (if hard > ceiling then ceiling else hard)
                      in Some (hard', max task_time_limit (hard' - 300))))"

section \<open>Dispatch\<close>

text \<open>
  The message a dispatch function sends: the Celery task, the row and module it is about, the
  queue when one is forced, the flags, and the time limits (hard and soft) when they are derived.
\<close>

record message =
  msg_task :: string
  msg_task_id :: int
  msg_module_id :: int
  msg_queue :: "string option"
  msg_flags :: "(string \<times> bool) list"
  msg_limits :: "(int \<times> int) option"

definition plain_message :: "string \<Rightarrow> int \<Rightarrow> project_module \<Rightarrow> (string \<times> bool) list \<Rightarrow> message" where
  "plain_message t tid m flags =
     \<lparr>msg_task = t, msg_task_id = tid, msg_module_id = pr_id m, msg_queue = None, msg_flags = flags, msg_limits = None\<rparr>"

definition dispatch_init :: "int \<Rightarrow> project_module \<Rightarrow> bool \<Rightarrow> bool \<Rightarrow> string + message" where
  "dispatch_init tid m auto_apply force_reinit =
     (let aa = (''auto_apply'', auto_apply)
      in case assert_module_runnable m ''init'' of
        Some err \<Rightarrow> Inl err
      | None \<Rightarrow> (case resolve_dispatch_engine m of
            Inl err \<Rightarrow> Inl err
          | Inr e \<Rightarrow> Inr
              (if e = ''ssh'' then plain_message ''run_ssh_init'' tid m [aa]
               else if e = ''tmos'' then plain_message ''run_tmos_init'' tid m [aa]
               else if e = ''cli-bnkctl'' then (plain_message ''run_cli_init'' tid m [aa])\<lparr>msg_queue := Some ''cli''\<rparr>
               else if e = ''ansible'' then plain_message ''run_ansible_init'' tid m [aa]
               else if e = ''container'' then plain_message ''run_container_init'' tid m [aa]
               else if e = ''kubernetes'' then plain_message ''run_k8s_init'' tid m [aa]
               else plain_message ''run_opentofu_init'' tid m [aa, (''force_reinit'', force_reinit)])))"

definition dispatch_plan :: "int \<Rightarrow> project_module \<Rightarrow> string + message" where
  "dispatch_plan tid m =
     (case assert_module_runnable m ''plan'' of
        Some err \<Rightarrow> Inl err
      | None \<Rightarrow> (case resolve_dispatch_engine m of
            Inl err \<Rightarrow> Inl err
          | Inr e \<Rightarrow> Inr
              (if e = ''ssh'' then plain_message ''run_ssh_init'' tid m [(''auto_apply'', False)]
               else if e = ''tmos'' then plain_message ''run_tmos_plan'' tid m []
               else if e = ''cli-bnkctl'' then (plain_message ''run_cli_plan'' tid m [])\<lparr>msg_queue := Some ''cli''\<rparr>
               else if e = ''ansible'' then plain_message ''run_ansible_plan'' tid m []
               else if e = ''container'' then plain_message ''run_container_plan'' tid m []
               else if e = ''kubernetes'' then plain_message ''run_k8s_plan'' tid m []
               else plain_message ''run_opentofu_plan'' tid m [])))"

definition dispatch_apply :: "int \<Rightarrow> project_module \<Rightarrow> bool \<Rightarrow> string + message" where
  "dispatch_apply tid m force_new_plan =
     (case assert_module_runnable m ''apply'' of
        Some err \<Rightarrow> Inl err
      | None \<Rightarrow> (case resolve_dispatch_engine m of
            Inl err \<Rightarrow> Inl err
          | Inr e \<Rightarrow> Inr
              (if e = ''ssh'' then plain_message ''run_ssh_apply'' tid m []
               else if e = ''tmos'' then plain_message ''run_tmos_apply'' tid m []
               else if e = ''cli-bnkctl'' then (plain_message ''run_cli_apply'' tid m [])\<lparr>msg_queue := Some ''cli''\<rparr>
               else if e = ''ansible'' then plain_message ''run_ansible_apply'' tid m []
               else if e = ''container''
               then (plain_message ''run_container_apply'' tid m [])\<lparr>msg_limits := derive_container_time_limits m ''apply'' ''''\<rparr>
               else if e = ''kubernetes'' then plain_message ''run_k8s_apply'' tid m []
               else plain_message ''run_opentofu_apply'' tid m [(''force_new_plan'', force_new_plan)])))"

definition dispatch_destroy :: "int \<Rightarrow> project_module \<Rightarrow> string + message" where
  "dispatch_destroy tid m =
     (case resolve_dispatch_engine m of
        Inl err \<Rightarrow> Inl err
      | Inr e \<Rightarrow> Inr
          (if e = ''ssh'' then plain_message ''run_ssh_destroy'' tid m []
           else if e = ''tmos'' then plain_message ''run_tmos_destroy'' tid m []
           else if e = ''cli-bnkctl'' then (plain_message ''run_cli_destroy'' tid m [])\<lparr>msg_queue := Some ''cli''\<rparr>
           else if e = ''ansible'' then plain_message ''run_ansible_destroy'' tid m []
           else if e = ''container''
           then (plain_message ''run_container_destroy'' tid m [])\<lparr>msg_limits := derive_container_time_limits m ''destroy'' ''''\<rparr>
           else if e = ''kubernetes'' then plain_message ''run_k8s_destroy'' tid m []
           else plain_message ''run_opentofu_destroy'' tid m []))"

definition dispatch_container_action :: "int \<Rightarrow> project_module \<Rightarrow> string \<Rightarrow> string + message" where
  "dispatch_container_action tid m action =
     (case assert_module_runnable m ''action'' of
        Some err \<Rightarrow> Inl err
      | None \<Rightarrow> (case resolve_dispatch_engine m of
            Inl err \<Rightarrow> Inl err
          | Inr e \<Rightarrow>
              if e \<noteq> ''container''
              then Inl (''Module '' @ str_of_int (pr_id m) @ '' uses engine '' @ quoted e @
                     ''; module actions are only supported for container artifacts'')
              else Inr ((plain_message ''run_container_action'' tid m [])
                     \<lparr>msg_limits := derive_container_time_limits m ''action'' action\<rparr>)))"

text \<open>
  The signature variants build the message for \<^verbatim>\<open>apply_async\<close> later: same engine, same task,
  same queue and limits.
\<close>

definition dispatch_apply_signature :: "int \<Rightarrow> project_module \<Rightarrow> bool \<Rightarrow> string + message" where
  "dispatch_apply_signature tid m force_new_plan =
     (case assert_module_runnable m ''apply'' of
        Some err \<Rightarrow> Inl err
      | None \<Rightarrow> (case resolve_dispatch_engine m of
            Inl err \<Rightarrow> Inl err
          | Inr e \<Rightarrow> Inr
              (if e = ''ssh'' then plain_message ''run_ssh_apply'' tid m []
               else if e = ''tmos'' then plain_message ''run_tmos_apply'' tid m []
               else if e = ''cli-bnkctl'' then (plain_message ''run_cli_apply'' tid m [])\<lparr>msg_queue := Some ''cli''\<rparr>
               else if e = ''ansible'' then plain_message ''run_ansible_apply'' tid m []
               else if e = ''container''
               then (plain_message ''run_container_apply'' tid m [])\<lparr>msg_limits := derive_container_time_limits m ''apply'' ''''\<rparr>
               else if e = ''kubernetes'' then plain_message ''run_k8s_apply'' tid m []
               else plain_message ''run_opentofu_apply'' tid m [(''force_new_plan'', force_new_plan)])))"

definition dispatch_destroy_signature :: "int \<Rightarrow> project_module \<Rightarrow> string + message" where
  "dispatch_destroy_signature tid m =
     (case resolve_dispatch_engine m of
        Inl err \<Rightarrow> Inl err
      | Inr e \<Rightarrow> Inr
          (if e = ''ssh'' then plain_message ''run_ssh_destroy'' tid m []
           else if e = ''tmos'' then plain_message ''run_tmos_destroy'' tid m []
           else if e = ''cli-bnkctl'' then (plain_message ''run_cli_destroy'' tid m [])\<lparr>msg_queue := Some ''cli''\<rparr>
           else if e = ''ansible'' then plain_message ''run_ansible_destroy'' tid m []
           else if e = ''container''
           then (plain_message ''run_container_destroy'' tid m [])\<lparr>msg_limits := derive_container_time_limits m ''destroy'' ''''\<rparr>
           else if e = ''kubernetes'' then plain_message ''run_k8s_destroy'' tid m []
           else plain_message ''run_opentofu_destroy'' tid m []))"

section \<open>In-cluster modules\<close>

definition IN_CLUSTER_ENGINES :: "string list" where
  "IN_CLUSTER_ENGINES = [''kubernetes-direct'', ''operator'', ''kubernetes'']"

definition is_in_cluster_module :: "project_module \<Rightarrow> bool" where
  "is_in_cluster_module m =
     (case library_module m of
        None \<Rightarrow> False
      | Some lib \<Rightarrow>
          if (case execution_engine lib of None \<Rightarrow> False | Some e \<Rightarrow> norm_text (Some e) \<in> set IN_CLUSTER_ENGINES) then True
          else (case engine_type lib of None \<Rightarrow> False | Some t \<Rightarrow> norm_text (Some t) = ''kubernetes''))"

section \<open>Routing is complete\<close>

text \<open>The task family that serves each engine the resolution can answer.\<close>

definition engine_families :: "(string \<times> string) list" where
  "engine_families =
     [(''ssh'', ''ssh''), (''tmos'', ''tmos''), (''cli-bnkctl'', ''cli''), (''ansible'', ''ansible''),
      (''container'', ''container''), (''kubernetes'', ''k8s''), (''opentofu'', ''opentofu'')]"

lemma execution_engines_list:
  "explicit_execution_engines ENGINES =
     [''opentofu'', ''kubernetes-direct'', ''ansible'', ''operator'', ''ssh'', ''tmos'', ''container'', ''cli-bnkctl'']"
  by (simp add: explicit_execution_engines_def ENGINES_def List.map_filter_def)

lemma engine_types_list: "explicit_engine_types ENGINES = [''opentofu'', ''kubernetes'', ''ansible'', ''ssh'']"
  by (simp add: explicit_engine_types_def ENGINES_def List.map_filter_def)

lemma explicit_execution_engine_known:
  "get_explicit_execution_engine m = Inr (Some e) \<Longrightarrow> e \<in> set (explicit_execution_engines ENGINES)"
  by (auto simp: get_explicit_execution_engine_def Let_def split: option.splits if_splits)

lemma explicit_engine_type_known: "get_explicit_engine_type m = Some t \<Longrightarrow> t \<in> set (explicit_engine_types ENGINES)"
  by (auto simp: get_explicit_engine_type_def split: option.splits if_splits)

lemma resolve_known:
  assumes "resolve_dispatch_engine m = Inr e"
  shows "e \<in> fst ` set engine_families"
proof (cases "get_explicit_execution_engine m")
  case (Inr x)
  show ?thesis
  proof (cases x)
    case None
    then show ?thesis using assms Inr explicit_engine_type_known [of m]
      by (auto simp: resolve_dispatch_engine_def engine_families_def engine_types_list split: option.splits)
  next
    case (Some y)
    then show ?thesis using assms Inr explicit_execution_engine_known [of m y]
      by (auto simp: resolve_dispatch_engine_def engine_families_def execution_engines_list Let_def split: if_splits)
  qed
qed (use assms in \<open>simp add: resolve_dispatch_engine_def\<close>)

lemma dispatch_destroy_by_engine:
  "resolve_dispatch_engine m = Inr e \<Longrightarrow> (e, fam) \<in> set engine_families \<Longrightarrow>
     \<exists>msg. dispatch_destroy tid m = Inr msg \<and> dispatch_destroy_signature tid m = Inr msg \<and>
       msg_task msg = ''run_'' @ fam @ ''_destroy'' \<and> msg_task_id msg = tid \<and> msg_module_id msg = pr_id m"
  by (auto simp: dispatch_destroy_def dispatch_destroy_signature_def engine_families_def plain_message_def)

lemma dispatch_apply_by_engine:
  "resolve_dispatch_engine m = Inr e \<Longrightarrow> (e, fam) \<in> set engine_families \<Longrightarrow> dispatch_apply tid m f = Inr msg \<Longrightarrow>
     enabled m \<and> msg_task msg = ''run_'' @ fam @ ''_apply'' \<and> msg_task_id msg = tid \<and> msg_module_id msg = pr_id m \<and>
     dispatch_apply_signature tid m f = Inr msg"
  by (auto simp: dispatch_apply_def dispatch_apply_signature_def engine_families_def plain_message_def
      assert_module_runnable_def split: if_splits)

text \<open>
  No engine falls through to the default: whatever the metadata says, an apply that is
  dispatched goes to the task family of the resolved engine, for an enabled module, and the
  destroy of the same module then goes to the same family, also through a signature. So what
  one engine applied is never torn down by another while its metadata stays the same.
\<close>

theorem apply_and_destroy_same_engine:
  assumes "dispatch_apply tid m force = Inr msg"
  shows "\<exists>e fam msg'. resolve_dispatch_engine m = Inr e \<and> (e, fam) \<in> set engine_families \<and> enabled m \<and>
    msg_task msg = ''run_'' @ fam @ ''_apply'' \<and> msg_task_id msg = tid \<and> msg_module_id msg = pr_id m \<and>
    dispatch_destroy tid' m = Inr msg' \<and> dispatch_destroy_signature tid' m = Inr msg' \<and>
    msg_task msg' = ''run_'' @ fam @ ''_destroy'' \<and> msg_module_id msg' = pr_id m"
proof -
  obtain e where e: "resolve_dispatch_engine m = Inr e"
    using assms by (auto simp: dispatch_apply_def split: option.splits sum.splits)
  obtain fam where fam: "(e, fam) \<in> set engine_families" using resolve_known [OF e] by auto
  from dispatch_apply_by_engine [OF e fam assms] dispatch_destroy_by_engine [OF e fam, of tid'] e fam
  show ?thesis by blast
qed

definition demo_library :: library_row where
  "demo_library = \<lparr>lib_name = ''cluster-build'', lib_path = ''bnk/cluster-build'', execution_engine = Some '' Container '',
     engine_type = None, module_source_kind = None, deploy_model = None,
     manifest = Some \<lparr>execution_steps = None,
       top_steps = Some [(''apply'', Some [Some \<lparr>timeout_seconds = Some 3600, max_attempts = Some 2, backoff_seconds = Some 60\<rparr>, None])],
       manifest_actions = [], declared_minutes = None\<rparr>,
     required_inputs = []\<rparr>"

definition demo_pm :: "int \<Rightarrow> int list \<Rightarrow> project_module" where
  "demo_pm i ds = \<lparr>pr_id = i, pr_project_id = 7, library_module = None, dependencies = ds, enabled = True,
     status = NOT_INITIALIZED, stack_instance_id = None, deployment_order = i, deployment_error = None,
     path_in_project = None, plan_serial = 0, has_outputs = False, override_names = [], variable_names = []\<rparr>"

definition demo_container :: project_module where
  "demo_container = (demo_pm 3 [])\<lparr>library_module := Some demo_library\<rparr>"

lemma demo_container_apply:
  "dispatch_apply 9 demo_container False = Inr ((plain_message ''run_container_apply'' 9 demo_container [])
     \<lparr>msg_limits := Some (7860, 7560)\<rparr>)"
  by code_simp

theorem apply_and_destroy_same_engine_witness:
  "\<exists>fam msg'. dispatch_destroy 10 demo_container = Inr msg' \<and> msg_task msg' = ''run_'' @ fam @ ''_destroy'' \<and>
     msg_module_id msg' = 3"
  using apply_and_destroy_same_engine [OF demo_container_apply, of 10]
  by (auto simp: demo_container_def demo_pm_def)



section \<open>Packs and engines\<close>

text \<open>
  A pack of every valid engine but one yields modules that can be dispatched: importing
  stores the execution engine the registry maps the pack engine to, and the resolution accepts
  that value except for \<^verbatim>\<open>script\<close>, whose modules no dispatch function will ever take.
\<close>

theorem pack_engine_dispatchable_iff:
  assumes "map_of (pack_to_execution ENGINES) p = Some x"
    and "library_module m = Some lib" and "execution_engine lib = Some x"
  shows "(\<exists>e. resolve_dispatch_engine m = Inr e) \<longleftrightarrow> p \<noteq> ''script''"
proof -
  have packs: "pack_to_execution ENGINES = [(''opentofu'', ''opentofu''), (''kubernetes'', ''kubernetes-direct''),
      (''ansible'', ''ansible''), (''script'', ''script''), (''container'', ''container'')]"
    by code_simp
  have norms: "map (\<lambda>q. norm_text (Some (snd q))) (pack_to_execution ENGINES) = map snd (pack_to_execution ENGINES)"
    by code_simp
  have "(p, x) \<in> set (pack_to_execution ENGINES)" using assms(1) by (rule map_of_SomeD)
  moreover from this norms have "norm_text (Some x) = x" by (metis (no_types, lifting) map_eq_conv snd_conv)
  ultimately show ?thesis using assms(2,3)
    by (auto simp: packs resolve_dispatch_engine_def get_explicit_execution_engine_def Let_def execution_engines_list
        split: if_splits)
qed

theorem pack_engine_dispatchable_iff_witness:
  "\<nexists>e. resolve_dispatch_engine (demo_container\<lparr>library_module := Some (demo_library\<lparr>execution_engine := Some ''script''\<rparr>)\<rparr>) = Inr e"
proof -
  have "map_of (pack_to_execution ENGINES) ''script'' = Some ''script''" by code_simp
  from pack_engine_dispatchable_iff [OF this, of "demo_container\<lparr>library_module := Some (demo_library\<lparr>execution_engine := Some ''script''\<rparr>)\<rparr>"]
  show ?thesis by simp
qed

text \<open>
  The in-cluster classification and the routing disagree on built-in modules with a Kubernetes
  engine: they are dispatched to OpenTofu and yet count as in-cluster.
\<close>

lemma builtin_kubernetes_is_opentofu:
  assumes "library_module m = Some lib" and "execution_engine lib = Some ''kubernetes-direct''"
    and "module_source_kind lib = Some ''builtin''" and "deploy_model lib = None"
  shows "resolve_dispatch_engine m = Inr ''opentofu'' \<and> is_in_cluster_module m"
proof -
  have "norm_text (Some ''kubernetes-direct'') = ''kubernetes-direct''" "norm_text (Some ''builtin'') = ''builtin''" "norm_text None = ''''"
    by code_simp+
  then show ?thesis using assms
    by (simp add: resolve_dispatch_engine_def get_explicit_execution_engine_def execution_engines_list
        is_in_cluster_module_def IN_CLUSTER_ENGINES_def)
qed

end
