(* ===== verification/Dependency_Graph.thy ===== *)
theory Dependency_Graph
  imports Prelude
begin

text \<open>
  The dependency-graph utilities of the backend (\<^verbatim>\<open>src/backend/utils/dependency_graph.py\<close>):
  cycle detection by a three-colour depth-first search, Kahn's topological sort, the
  validation of a proposed dependency list, deployment orders, visualisation layers and
  the dependency-met check. The search is shown to find a cycle exactly when there is one,
  and the sort to order every module after its dependencies.
\<close>

section \<open>Data\<close>

text \<open>
  A module is the dictionary the callers build: \<^verbatim>\<open>id\<close> is always present, the other keys are
  read with \<^verbatim>\<open>get\<close>, so an absent key is \<open>None\<close>.
\<close>

record gmodule =
  g_id :: int
  g_project_id :: "int option"
  g_name :: "string option"
  g_status :: "string option"
  g_path :: "string option"
  g_order :: "int option"
  g_deps :: "int list option"

type_synonym deps = "(int, int list) dict"

definition deps_of :: "deps \<Rightarrow> int \<Rightarrow> int list" where
  "deps_of deps n = dict_get_or deps n []"

definition g_deps_list :: "gmodule \<Rightarrow> int list" where
  "g_deps_list m = (case g_deps m of None \<Rightarrow> [] | Some ds \<Rightarrow> ds)"

datatype color = WHITE | GRAY | BLACK

text \<open>
  Outcome of a search: no cycle below the node, a cycle, or the \<^verbatim>\<open>ValueError\<close> that
  \<^verbatim>\<open>path.index\<close> would raise for a grey node that is not on the path.
\<close>

datatype dfs_result = Clear | Cycle "int list" | IndexError

section \<open>Cycle detection\<close>

function dfs :: "deps \<Rightarrow> int \<Rightarrow> int list \<Rightarrow> (int \<Rightarrow> color) \<Rightarrow> dfs_result \<times> (int \<Rightarrow> color)"
  and dfs_neighbors :: "deps \<Rightarrow> int list \<Rightarrow> int list \<Rightarrow> (int \<Rightarrow> color) \<Rightarrow> dfs_result \<times> (int \<Rightarrow> color)"
where
  "dfs deps node path color =
     (case color node of
        GRAY \<Rightarrow> (case list_index path node of
            Some cycle_start \<Rightarrow> (Cycle (drop cycle_start path @ [node]), color)
          | None \<Rightarrow> (IndexError, color))
      | BLACK \<Rightarrow> (Clear, color)
      | WHITE \<Rightarrow>
          (case dfs_neighbors deps (deps_of deps node) (path @ [node]) (color(node := GRAY)) of
             (Clear, color') \<Rightarrow> (Clear, color'(node := BLACK))
           | (r, color') \<Rightarrow> (r, color')))"
| "dfs_neighbors deps [] path color = (Clear, color)"
| "dfs_neighbors deps (n # ns) path color =
     (case dfs deps n path color of
        (Clear, color') \<Rightarrow> dfs_neighbors deps ns path color'
      | (r, color') \<Rightarrow> (r, color'))"
  by pat_completeness auto

text \<open>
  A search never turns a node white again. The lemma is about the calls that return, and
  gives the decrease that proves every call returns.
\<close>

definition whites :: "(int \<Rightarrow> color) \<Rightarrow> int set" where
  "whites c = {n. c n = WHITE}"

definition nodes :: "deps \<Rightarrow> int set" where
  "nodes deps = set (concat (map snd deps)) \<union> fst ` set deps"

lemma finite_nodes [simp]: "finite (nodes deps)"
  by (simp add: nodes_def)

lemma deps_of_outside: "n \<notin> nodes deps \<Longrightarrow> deps_of deps n = []"
  by (force simp: deps_of_def dict_get_or_def nodes_def split: option.splits dest!: map_of_SomeD)

lemma whites_upd: "c \<noteq> WHITE \<Longrightarrow> whites (f(n := c)) = whites f - {n}"
  by (auto simp: whites_def)

lemma whites_gray: "c n = WHITE \<Longrightarrow> whites (c(n := GRAY)) = whites c - {n}"
  by (simp add: whites_upd)

lemma dfs_whites_dom:
  "dfs_dfs_neighbors_dom (Inl (deps, n, path, c)) \<Longrightarrow> whites (snd (dfs deps n path c)) \<subseteq> whites c"
  "dfs_dfs_neighbors_dom (Inr (deps, ns, path, c)) \<Longrightarrow>
     whites (snd (dfs_neighbors deps ns path c)) \<subseteq> whites c"
proof (induction deps n path c and deps ns path c rule: dfs_dfs_neighbors.pinduct)
  case (1 deps node path c)
  show ?case
  proof (cases "c node")
    case WHITE
    from "1.IH" [OF WHITE] WHITE
    have "whites (snd (dfs_neighbors deps (deps_of deps node) (path @ [node]) (c(node := GRAY))))
        \<subseteq> whites c"
      unfolding whites_gray [where c = c and n = node, OF WHITE] by blast
    with "1.hyps" WHITE show ?thesis
      by (auto simp: dfs.psimps whites_def split: prod.splits dfs_result.splits if_splits)
  qed (use 1 in \<open>auto simp: dfs.psimps split: option.splits\<close>)
next
  case (2 deps path c)
  then show ?case by (simp add: dfs_neighbors.psimps)
next
  case (3 deps n ns path c)
  then show ?case
    by (fastforce simp: dfs_neighbors.psimps split: prod.splits dfs_result.splits)
qed

lemma card_whites_mono:
  "whites c' \<subseteq> whites c \<Longrightarrow> card (whites c' \<inter> nodes deps) \<le> card (whites c \<inter> nodes deps)"
  by (rule card_mono) auto

lemma card_whites_gray:
  "c n = WHITE \<Longrightarrow> n \<in> nodes deps \<Longrightarrow>
    card (whites (c(n := GRAY)) \<inter> nodes deps) < card (whites c \<inter> nodes deps)"
  unfolding whites_gray by (rule psubset_card_mono) (auto simp: whites_def)

termination dfs
proof (relation "measures [\<lambda>x. case x of Inl (deps, n, path, c) \<Rightarrow> card (whites c \<inter> nodes deps)
                               | Inr (deps, ns, path, c) \<Rightarrow> card (whites c \<inter> nodes deps),
                          \<lambda>x. case x of Inl (deps, n, path, c) \<Rightarrow> 1
                               | Inr (deps, ns, path, c) \<Rightarrow> 2 * length ns]", goal_cases)
  case (2 deps node path color)
  then show ?case
    using card_whites_gray [of color node deps] card_whites_mono [of "color(node := GRAY)" color deps]
    by (cases "node \<in> nodes deps") (auto simp: deps_of_outside whites_upd)
next
  case (4 deps n ns path color x color')
  then have "whites color' \<subseteq> whites color"
    using dfs_whites_dom(1) [of deps n path color] by (metis snd_conv)
  from card_whites_mono [OF this, of deps] show ?case by auto
qed auto

declare dfs.simps [simp del]

text \<open>
  The outer loop over the keys of the dictionary. Each root starts from an empty path, and
  a key that an earlier root already coloured is skipped.
\<close>

fun detect_roots :: "deps \<Rightarrow> int list \<Rightarrow> (int \<Rightarrow> color) \<Rightarrow> dfs_result" where
  "detect_roots deps [] color = Clear"
| "detect_roots deps (n # ns) color =
     (if color n = WHITE
      then (case dfs deps n [] color of
              (Clear, color') \<Rightarrow> detect_roots deps ns color'
            | (r, color') \<Rightarrow> r)
      else detect_roots deps ns color)"

definition detect_circular_dependencies :: "deps \<Rightarrow> dfs_result" where
  "detect_circular_dependencies deps = detect_roots deps (map fst deps) (\<lambda>_. WHITE)"

subsection \<open>Correctness of the search\<close>

definition edges :: "deps \<Rightarrow> (int \<times> int) set" where
  "edges deps = {(a, b). b \<in> set (deps_of deps a)}"

definition is_cycle :: "deps \<Rightarrow> int list \<Rightarrow> bool" where
  "is_cycle deps xs \<longleftrightarrow> 2 \<le> length xs \<and> hd xs = last xs \<and> distinct (butlast xs) \<and>
     successively (\<lambda>a b. b \<in> set (deps_of deps a)) xs"

text \<open>
  The invariant of the search: the grey nodes are the path, the path is a walk, and the
  black nodes are closed under dependencies and lie on no cycle.
\<close>

definition black_ok :: "deps \<Rightarrow> (int \<Rightarrow> color) \<Rightarrow> bool" where
  "black_ok deps c \<longleftrightarrow>
     (\<forall>b. c b = BLACK \<longrightarrow> (\<forall>s \<in> set (deps_of deps b). c s = BLACK) \<and> (b, b) \<notin> (edges deps)\<^sup>+)"

definition dfs_inv :: "deps \<Rightarrow> int list \<Rightarrow> (int \<Rightarrow> color) \<Rightarrow> bool" where
  "dfs_inv deps path c \<longleftrightarrow> distinct path \<and> (\<forall>n. c n = GRAY \<longleftrightarrow> n \<in> set path) \<and>
     successively (\<lambda>a b. b \<in> set (deps_of deps a)) path \<and> black_ok deps c"

definition blacks_mono :: "(int \<Rightarrow> color) \<Rightarrow> (int \<Rightarrow> color) \<Rightarrow> bool" where
  "blacks_mono c c' \<longleftrightarrow> (\<forall>n. c n = BLACK \<longrightarrow> c' n = BLACK)"

definition dfs_post :: "deps \<Rightarrow> int list \<Rightarrow> int list \<Rightarrow> (int \<Rightarrow> color) \<Rightarrow> dfs_result \<times> (int \<Rightarrow> color) \<Rightarrow> bool" where
  "dfs_post deps ns path c rc \<longleftrightarrow>
     (case rc of
        (Clear, c') \<Rightarrow> dfs_inv deps path c' \<and> blacks_mono c c' \<and> (\<forall>n \<in> set ns. c' n = BLACK)
      | (Cycle xs, c') \<Rightarrow> is_cycle deps xs
      | (IndexError, c') \<Rightarrow> False)"

lemma black_ok_reach:
  assumes "black_ok deps c" and "(a, b) \<in> (edges deps)\<^sup>*" and "c a = BLACK"
  shows "c b = BLACK"
  using assms(2,3,1) by (induction rule: rtrancl_induct) (auto simp: black_ok_def edges_def)

lemma is_cycle_close:
  assumes "dfs_inv deps path c" and "list_index path n = Some i"
    and "n \<in> set (deps_of deps (last path))"
  shows "is_cycle deps (drop i path @ [n])"
proof -
  let ?xs = "drop i path"
  from list_index_drop [OF assms(2)] have i: "i < length path" and xs: "?xs = n # drop (Suc i) path"
    by auto
  from assms(1) have dist: "distinct ?xs" by (simp add: dfs_inv_def)
  from assms(1) have "successively (\<lambda>a b. b \<in> set (deps_of deps a)) (take i path @ ?xs)"
    unfolding append_take_drop_id by (simp add: dfs_inv_def)
  then have succ: "successively (\<lambda>a b. b \<in> set (deps_of deps a)) ?xs"
    unfolding successively_append_iff by blast
  have "last ?xs = last path" by (rule last_drop) (rule i)
  moreover have "hd ?xs = n" and "?xs \<noteq> []" using xs by auto
  ultimately have ends: "last ?xs = last path" "hd ?xs = n" "?xs \<noteq> []" by simp_all
  have "successively (\<lambda>a b. b \<in> set (deps_of deps a)) (?xs @ [n])"
    using succ ends assms(3) by (simp add: successively_append_iff)
  moreover have "Suc 0 \<le> length ?xs" using ends by (cases ?xs) auto
  ultimately show ?thesis
    using ends dist by (simp add: is_cycle_def butlast_append)
qed

lemma dfs_inv_enter:
  assumes "dfs_inv deps path c" and "c n = WHITE"
    and "path \<noteq> [] \<Longrightarrow> n \<in> set (deps_of deps (last path))"
  shows "dfs_inv deps (path @ [n]) (c(n := GRAY))"
proof -
  from assms(1,2) have "n \<notin> set path"
    unfolding dfs_inv_def by (metis color.distinct(1))
  with assms show ?thesis
    by (auto simp: dfs_inv_def black_ok_def successively_append_iff)
qed

lemma dfs_inv_leave:
  assumes inv: "dfs_inv deps (path @ [n]) c" and kids: "\<forall>k \<in> set (deps_of deps n). c k = BLACK"
  shows "dfs_inv deps path (c(n := BLACK))"
proof -
  have ok: "black_ok deps c" and gray: "c n = GRAY"
    using inv by (auto simp: dfs_inv_def)
  have "(n, n) \<notin> (edges deps)\<^sup>+"
  proof
    assume "(n, n) \<in> (edges deps)\<^sup>+"
    then obtain k where "(n, k) \<in> edges deps" and kn: "(k, n) \<in> (edges deps)\<^sup>*"
      by (metis tranclD)
    with kids have "c k = BLACK" by (auto simp: edges_def)
    from black_ok_reach [OF ok kn this] gray show False by simp
  qed
  with ok kids inv show ?thesis
    by (auto simp: dfs_inv_def black_ok_def successively_append_iff)
qed

lemma dfs_correct:
  "dfs_inv deps path c \<Longrightarrow> (path \<noteq> [] \<longrightarrow> n \<in> set (deps_of deps (last path))) \<Longrightarrow> (path = [] \<longrightarrow> c n \<noteq> GRAY) \<Longrightarrow>
     dfs_post deps [n] path c (dfs deps n path c)"
  "dfs_inv deps path c \<Longrightarrow> path \<noteq> [] \<Longrightarrow> set ns \<subseteq> set (deps_of deps (last path)) \<Longrightarrow>
     dfs_post deps ns path c (dfs_neighbors deps ns path c)"
proof (induction deps n path c and deps ns path c rule: dfs_dfs_neighbors.induct)
  case (1 deps node path c)
  show ?case
  proof (cases "c node")
    case WHITE
    let ?r = "dfs_neighbors deps (deps_of deps node) (path @ [node]) (c(node := GRAY))"
    from "1.prems" WHITE have "dfs_inv deps (path @ [node]) (c(node := GRAY))"
      by (intro dfs_inv_enter) auto
    then have post: "dfs_post deps (deps_of deps node) (path @ [node]) (c(node := GRAY)) ?r"
      by (rule "1.IH" [OF WHITE]) auto
    obtain r c' where rc: "?r = (r, c')" by (cases ?r)
    show ?thesis
    proof (cases r)
      case Clear
      with post rc have inv: "dfs_inv deps (path @ [node]) c'"
        and kids: "\<forall>k \<in> set (deps_of deps node). c' k = BLACK" and mono: "blacks_mono (c(node := GRAY)) c'"
        by (auto simp: dfs_post_def)
      have "dfs_inv deps path (c'(node := BLACK))"
        using dfs_inv_leave [OF inv kids] .
      then show ?thesis
        using WHITE rc Clear mono by (auto simp: dfs.simps dfs_post_def blacks_mono_def)
    qed (use post rc WHITE in \<open>auto simp: dfs.simps dfs_post_def\<close>)
  next
    case GRAY
    with "1.prems" have "path \<noteq> []" and "node \<in> set path"
      by (auto simp: dfs_inv_def)
    with GRAY "1.prems" show ?thesis
      by (auto simp: dfs.simps dfs_post_def list_index_None split: option.split intro: is_cycle_close)
  qed (use "1.prems" in \<open>auto simp: dfs.simps dfs_post_def blacks_mono_def\<close>)
next
  case (2 deps path c)
  then show ?case by (simp add: dfs_post_def blacks_mono_def)
next
  case (3 deps n ns path c)
  obtain r c' where rc: "dfs deps n path c = (r, c')" by (cases "dfs deps n path c")
  have post: "dfs_post deps [n] path c (r, c')"
    using "3.IH"(1) "3.prems" rc by simp
  show ?case
  proof (cases r)
    case Clear
    with post have inv: "dfs_inv deps path c'" and n: "c' n = BLACK" and mono: "blacks_mono c c'"
      by (auto simp: dfs_post_def)
    have "dfs_post deps ns path c' (dfs_neighbors deps ns path c')"
      using "3.IH"(2) [OF rc [symmetric] Clear] inv "3.prems" by simp
    with n mono rc Clear show ?thesis
      by (auto simp: dfs_post_def blacks_mono_def split: prod.splits dfs_result.splits)
  qed (use post rc in \<open>auto simp: dfs_post_def\<close>)
qed

lemma detect_roots_correct:
  "dfs_inv deps [] c \<Longrightarrow>
     (case detect_roots deps ns c of
        Clear \<Rightarrow> (\<exists>c'. dfs_inv deps [] c' \<and> blacks_mono c c' \<and> (\<forall>n \<in> set ns. c' n = BLACK))
      | Cycle xs \<Rightarrow> is_cycle deps xs
      | IndexError \<Rightarrow> False)"
proof (induction deps ns c rule: detect_roots.induct)
  case (1 deps c)
  then show ?case by (auto simp: blacks_mono_def)
next
  case (2 deps n ns c)
  obtain r c' where rc: "dfs deps n [] c = (r, c')" by (cases "dfs deps n [] c")
  have post: "dfs_post deps [n] [] c (r, c')"
    using dfs_correct(1) [OF "2.prems", of n] "2.prems" rc by (simp add: dfs_inv_def)
  show ?case
  proof (cases "c n = WHITE \<and> r = Clear")
    case True
    with post have "dfs_inv deps [] c'" and "c' n = BLACK" and "blacks_mono c c'"
      by (auto simp: dfs_post_def)
    with "2.IH"(1) [OF _ rc [symmetric]] True rc show ?thesis
      by (auto simp: blacks_mono_def split: dfs_result.splits)
  next
    case False
    show ?thesis
    proof (cases "c n = WHITE")
      case True
      with False post rc show ?thesis by (cases r) (auto simp: dfs_post_def)
    next
      case White: False
      with "2.prems" have "c n = BLACK" by (cases "c n") (auto simp: dfs_inv_def)
      with White "2.IH"(2) "2.prems" show ?thesis
        by (auto simp: blacks_mono_def split: dfs_result.splits)
    qed
  qed
qed

lemma walk_trancl:
  "successively (\<lambda>a b. b \<in> set (deps_of deps a)) xs \<Longrightarrow> 2 \<le> length xs \<Longrightarrow>
     (hd xs, last xs) \<in> (edges deps)\<^sup>+"
proof (induction xs rule: induct_list012)
  case (3 x y zs)
  show ?case
  proof (cases zs)
    case Nil
    with 3 show ?thesis by (auto simp: edges_def)
  next
    case (Cons z zs')
    with 3 have "(y, last (y # zs)) \<in> (edges deps)\<^sup>+" by simp
    moreover have "(x, y) \<in> edges deps" using 3 by (simp add: edges_def)
    ultimately show ?thesis using Cons by (simp add: trancl_into_trancl2)
  qed
qed auto

lemma is_cycle_not_acyclic: "is_cycle deps xs \<Longrightarrow> \<not> acyclic (edges deps)"
  using walk_trancl by (fastforce simp: is_cycle_def acyclic_def)

lemma deps_of_key: "b \<in> set (deps_of deps a) \<Longrightarrow> a \<in> fst ` set deps"
  by (cases "a \<in> fst ` set deps")
    (auto simp: deps_of_def dict_get_or_def map_of_eq_None_iff [THEN iffD2])

lemma detect_cases:
  "case detect_circular_dependencies deps of
     Clear \<Rightarrow> acyclic (edges deps)
   | Cycle xs \<Rightarrow> is_cycle deps xs \<and> \<not> acyclic (edges deps)
   | IndexError \<Rightarrow> False"
proof -
  have "dfs_inv deps [] (\<lambda>_. WHITE)"
    by (simp add: dfs_inv_def black_ok_def)
  note roots = detect_roots_correct [OF this, of "map fst deps", folded detect_circular_dependencies_def]
  show ?thesis
  proof (cases "detect_circular_dependencies deps")
    case Clear
    with roots obtain c where c: "dfs_inv deps [] c" "\<forall>n \<in> fst ` set deps. c n = BLACK"
      by auto
    have "(a, a) \<notin> (edges deps)\<^sup>+" for a
    proof
      assume cyc: "(a, a) \<in> (edges deps)\<^sup>+"
      then obtain b where "(a, b) \<in> edges deps" by (meson tranclD)
      then have "a \<in> fst ` set deps" by (auto simp: edges_def dest: deps_of_key)
      with c cyc show False by (auto simp: dfs_inv_def black_ok_def)
    qed
    with Clear show ?thesis by (simp add: acyclic_def)
  qed (use roots in \<open>auto dest: is_cycle_not_acyclic\<close>)
qed

lemma detect_Clear_iff: "detect_circular_dependencies deps = Clear \<longleftrightarrow> acyclic (edges deps)"
  using detect_cases [of deps] by (auto split: dfs_result.splits)

lemma detect_not_IndexError [simp]: "detect_circular_dependencies deps \<noteq> IndexError"
  using detect_cases [of deps] by (auto split: dfs_result.splits)

text \<open>
  C1. The search decides acyclicity: it answers \<^verbatim>\<open>None\<close> exactly on an acyclic dependency
  dictionary, and otherwise returns a closed walk without repeated inner nodes;
  \<^verbatim>\<open>path.index\<close> never raises.
\<close>

theorem detect_circular_dependencies_correct:
  "case detect_circular_dependencies deps of
     Clear \<Rightarrow> acyclic (edges deps)
   | Cycle xs \<Rightarrow> is_cycle deps xs \<and> \<not> acyclic (edges deps)
   | IndexError \<Rightarrow> False"
  by (rule detect_cases)

section \<open>Topological sort\<close>

datatype graph_error = CircularDependencyError "int list option"

fun build_edges :: "int list \<Rightarrow> int \<Rightarrow> int list \<Rightarrow> deps \<times> (int \<Rightarrow> int) \<Rightarrow> deps \<times> (int \<Rightarrow> int)" where
  "build_edges ids m [] st = st"
| "build_edges ids m (d # ds) (graph, deg) =
     build_edges ids m ds
       (if d \<in> set ids then (dict_set d (dict_get_or graph d [] @ [m]) graph, deg(m := deg m + 1))
        else (graph, deg))"

fun build_graph :: "int list \<Rightarrow> deps \<Rightarrow> deps \<times> (int \<Rightarrow> int) \<Rightarrow> deps \<times> (int \<Rightarrow> int)" where
  "build_graph ids [] st = st"
| "build_graph ids ((m, ds) # rest) st =
     build_graph ids rest (if m \<in> set ids then build_edges ids m ds st else st)"

text \<open>Reduce the in-degree of each neighbour, queueing those that reach zero.\<close>

fun relax :: "int list \<Rightarrow> (int \<Rightarrow> int) \<Rightarrow> int list \<Rightarrow> (int \<Rightarrow> int) \<times> int list" where
  "relax [] deg queue = (deg, queue)"
| "relax (n # ns) deg queue =
     (let deg' = deg(n := deg n - 1)
      in relax ns deg' (if deg' n = 0 then queue @ [n] else queue))"

function kahn_loop :: "deps \<Rightarrow> (int \<Rightarrow> int) \<Rightarrow> int list \<Rightarrow> int list \<Rightarrow> int list" where
  "kahn_loop graph deg [] result = result"
| "kahn_loop graph deg (current # queue) result =
     (case relax (dict_get_or graph current []) deg queue of
        (deg', queue') \<Rightarrow> kahn_loop graph deg' queue' (result @ [current]))"
  by pat_completeness auto

definition positive :: "deps \<Rightarrow> (int \<Rightarrow> int) \<Rightarrow> int set" where
  "positive graph deg = {n \<in> set (concat (map snd graph)). 0 < deg n}"

lemma relax_size:
  assumes "finite A" and "set ns \<subseteq> A"
  shows "length (snd (relax ns deg q)) + card {n \<in> A. 0 < fst (relax ns deg q) n}
       = length q + card {n \<in> A. 0 < deg n}"
  using assms(2)
proof (induction ns arbitrary: deg q)
  case Nil
  then show ?case by simp
next
  case (Cons n ns)
  define deg' where "deg' = deg(n := deg n - 1)"
  define q' where "q' = (if deg' n = 0 then q @ [n] else q)"
  have "{m \<in> A. 0 < deg m} = insert n {m \<in> A. 0 < deg' m}" if "deg n = 1"
    using that Cons.prems by (auto simp: deg'_def)
  moreover have "{m \<in> A. 0 < deg m} = {m \<in> A. 0 < deg' m}" if "deg n \<noteq> 1"
    using that by (auto simp: deg'_def)
  moreover have "n \<notin> {m \<in> A. 0 < deg' m}" if "deg n = 1" using that by (auto simp: deg'_def)
  ultimately have "length q' + card {m \<in> A. 0 < deg' m} = length q + card {m \<in> A. 0 < deg m}"
    using \<open>finite A\<close> by (cases "deg n = 1") (simp_all add: q'_def, simp_all add: deg'_def)
  moreover have "relax (n # ns) deg q = relax ns deg' q'"
    by (simp add: deg'_def q'_def Let_def)
  ultimately show ?case
    using Cons.IH [of deg' q'] Cons.prems by simp
qed

termination kahn_loop
proof (relation "measure (\<lambda>(graph, deg, q, r). length q + card (positive graph deg))", goal_cases)
  case (2 graph deg current queue result x queue')
  have "set (dict_get_or graph current []) \<subseteq> set (concat (map snd graph))"
    by (force dest: dict_get_or_elem)
  note size = relax_size [OF _ this, of deg queue]
  from 2 have "relax (dict_get_or graph current []) deg queue = (x, queue')" by (rule sym)
  with size show ?case by (simp add: positive_def)
qed simp

definition topological_sort ::
  "(int list \<Rightarrow> int list) \<Rightarrow> gmodule list \<Rightarrow> deps \<Rightarrow> graph_error + int list" where
  "topological_sort en modules deps =
     (case detect_circular_dependencies deps of
        Cycle cycle \<Rightarrow> Inl (CircularDependencyError (Some cycle))
      | _ \<Rightarrow>
        (let module_ids = en (map g_id modules);
             (graph, in_degree) = build_graph module_ids deps ([], \<lambda>_. 0);
             queue = filter (\<lambda>mid. in_degree mid = 0) module_ids;
             result = kahn_loop graph in_degree queue []
         in if length result \<noteq> length module_ids then Inl (CircularDependencyError None)
            else Inr result))"

subsection \<open>Correctness of the sort\<close>

text \<open>
  The pairs (dependency, dependent) that the build loop records, in its order, restricted
  to the modules being sorted.
\<close>

definition row_edges :: "int list \<Rightarrow> int \<Rightarrow> int list \<Rightarrow> (int \<times> int) list" where
  "row_edges ids m ds = map (\<lambda>d. (d, m)) (filter (\<lambda>d. d \<in> set ids) ds)"

fun edge_list :: "int list \<Rightarrow> deps \<Rightarrow> (int \<times> int) list" where
  "edge_list ids [] = []"
| "edge_list ids ((m, ds) # rest) =
     (if m \<in> set ids then row_edges ids m ds else []) @ edge_list ids rest"

definition records :: "(int \<times> int) list \<Rightarrow> deps \<times> (int \<Rightarrow> int) \<Rightarrow> deps \<times> (int \<Rightarrow> int) \<Rightarrow> bool" where
  "records es st st' \<longleftrightarrow>
     (\<forall>d. dict_get_or (fst st') d [] = dict_get_or (fst st) d [] @ map snd (filter (\<lambda>e. fst e = d) es)) \<and>
     (\<forall>m. snd st' m = snd st m + int (length (filter (\<lambda>e. snd e = m) es)))"

lemma records_trans: "records es st st' \<Longrightarrow> records es' st' st'' \<Longrightarrow> records (es @ es') st st''"
  by (simp add: records_def)

lemma records_Nil [simp]: "records [] st st"
  by (simp add: records_def)

lemma records_one: "records [(d, m)] (g, deg) (dict_set d (dict_get_or g d [] @ [m]) g, deg(m := deg m + 1))"
  by (auto simp: records_def dict_get_or_set)

lemma build_edges_records: "records (row_edges ids m ds) st (build_edges ids m ds st)"
proof (induction ds arbitrary: st)
  case Nil
  then show ?case by (simp add: row_edges_def)
next
  case (Cons d ds)
  obtain g deg where st: "st = (g, deg)" by (cases st)
  show ?case
  proof (cases "d \<in> set ids")
    case True
    with records_trans [OF records_one Cons.IH] show ?thesis
      by (simp add: st row_edges_def)
  next
    case False
    with Cons.IH [of st] show ?thesis by (simp add: st row_edges_def)
  qed
qed

lemma build_graph_records: "records (edge_list ids deps) st (build_graph ids deps st)"
proof (induction deps arbitrary: st)
  case Nil
  then show ?case by simp
next
  case (Cons p deps)
  obtain m ds where p: "p = (m, ds)" by (cases p)
  with records_trans [OF build_edges_records Cons.IH] Cons.IH [of st] show ?case by simp
qed

lemma relax_spec:
  assumes "\<forall>m. int (count_list ns m) \<le> deg m"
  shows "fst (relax ns deg q) = (\<lambda>m. deg m - int (count_list ns m)) \<and>
    (\<exists>added. snd (relax ns deg q) = q @ added \<and> distinct added \<and>
       set added = {m \<in> set ns. deg m = int (count_list ns m)})"
  using assms
proof (induction ns arbitrary: deg q)
  case Nil
  then show ?case by simp
next
  case (Cons n ns)
  define deg' where "deg' = deg(n := deg n - 1)"
  define q' where "q' = (if deg' n = 0 then q @ [n] else q)"
  have step: "relax (n # ns) deg q = relax ns deg' q'"
    by (simp add: deg'_def q'_def Let_def)
  have le: "int (count_list ns m) \<le> deg' m" for m
    using Cons.prems [rule_format, of m] by (auto simp: deg'_def split: if_splits)
  from Cons.IH [of deg' q'] le obtain added where
    deg: "fst (relax ns deg' q') = (\<lambda>m. deg' m - int (count_list ns m))" and
    q: "snd (relax ns deg' q') = q' @ added" "distinct added"
      "set added = {m \<in> set ns. deg' m = int (count_list ns m)}"
    by auto
  have "fst (relax (n # ns) deg q) = (\<lambda>m. deg m - int (count_list (n # ns) m))"
    unfolding step deg by (auto simp: deg'_def)
  moreover have "\<exists>added. snd (relax (n # ns) deg q) = q @ added \<and> distinct added \<and>
       set added = {m \<in> set (n # ns). deg m = int (count_list (n # ns) m)}"
  proof (cases "deg' n = 0")
    case True
    with le [of n] have n: "n \<notin> set ns" by (simp add: count_list_0_iff)
    have "m \<in> set (n # added) \<longleftrightarrow> m \<in> set (n # ns) \<and> deg m = int (count_list (n # ns) m)" for m
      using True n q(3) by (cases "m = n") (simp_all add: deg'_def count_notin)
    then have "set (n # added) = {m \<in> set (n # ns). deg m = int (count_list (n # ns) m)}"
      by blast
    moreover have "distinct (n # added)" using n q by simp
    moreover have "snd (relax (n # ns) deg q) = q @ n # added"
      unfolding step using q True by (simp add: q'_def)
    ultimately show ?thesis by blast
  next
    case False
    have "m \<in> set added \<longleftrightarrow> m \<in> set (n # ns) \<and> deg m = int (count_list (n # ns) m)" for m
      using False q(3) by (cases "m = n"; cases "m \<in> set ns") (simp_all add: deg'_def count_notin, linarith?)
    moreover have "snd (relax (n # ns) deg q) = q @ added"
      unfolding step using q False by (simp add: q'_def)
    ultimately show ?thesis using q(2) by blast
  qed
  ultimately show ?case by blast
qed

definition pending :: "(int \<times> int) list \<Rightarrow> int list \<Rightarrow> int \<Rightarrow> int list" where
  "pending es done m = map fst (filter (\<lambda>e. snd e = m \<and> fst e \<notin> set done) es)"

definition ordered :: "(int \<times> int) list \<Rightarrow> int list \<Rightarrow> bool" where
  "ordered es xs \<longleftrightarrow> (\<forall>i < length xs. \<forall>d. (d, xs ! i) \<in> set es \<longrightarrow> d \<in> set (take i xs))"

text \<open>
  The invariant of the loop: each in-degree counts the dependencies not yet emitted, the
  queue holds exactly the unemitted modules without pending dependencies, and the emitted
  prefix is ordered.
\<close>

definition kahn_inv :: "int list \<Rightarrow> (int \<times> int) list \<Rightarrow> (int \<Rightarrow> int) \<Rightarrow> int list \<Rightarrow> int list \<Rightarrow> bool" where
  "kahn_inv ids es deg queue done \<longleftrightarrow>
     (\<forall>m. deg m = int (length (pending es done m))) \<and>
     distinct (done @ queue) \<and>
     (\<forall>m. m \<in> set (done @ queue) \<longleftrightarrow> m \<in> set ids \<and> deg m = 0) \<and>
     ordered es done"

lemma ordered_snoc:
  "ordered es xs \<Longrightarrow> (\<And>d. (d, x) \<in> set es \<Longrightarrow> d \<in> set xs) \<Longrightarrow> ordered es (xs @ [x])"
  by (auto simp: ordered_def nth_append less_Suc_eq)

lemma pending_Nil: "pending es done m = [] \<longleftrightarrow> (\<forall>d. (d, m) \<in> set es \<longrightarrow> d \<in> set done)"
  by (auto simp: pending_def filter_empty_conv)

lemma pending_snoc:
  "x \<notin> set done \<Longrightarrow> length (pending es done m) =
     length (pending es (done @ [x]) m) + count_list (map snd (filter (\<lambda>e. fst e = x) es)) m"
  by (induction es) (auto simp: pending_def)

lemma kahn_inv_step:
  assumes inv: "kahn_inv ids es deg (x # queue) done"
    and es: "\<forall>(d, m) \<in> set es. m \<in> set ids"
    and r: "relax (map snd (filter (\<lambda>e. fst e = x) es)) deg queue = (deg', queue')"
  shows "kahn_inv ids es deg' queue' (done @ [x])"
proof -
  let ?ns = "map snd (filter (\<lambda>e. fst e = x) es)"
  have x: "x \<notin> set done" and deg: "deg m = int (length (pending es done m))" for m
    using inv by (auto simp: kahn_inv_def)
  note split = pending_snoc [OF x, of es]
  have le: "int (count_list ?ns m) \<le> deg m" for m
    using split [of m] deg [of m] by simp
  from relax_spec [of ?ns deg queue] le r obtain added where
    deg': "deg' = (\<lambda>m. deg m - int (count_list ?ns m))" and q': "queue' = queue @ added" and
    added: "distinct added" "set added = {m \<in> set ?ns. deg m = int (count_list ?ns m)}"
    by auto
  have deg'': "deg' m = int (length (pending es (done @ [x]) m))" for m
    using split [of m] deg [of m] by (simp add: deg')
  have old: "m \<in> set ids \<Longrightarrow> deg m = 0 \<longleftrightarrow> m \<in> set done \<or> m = x \<or> m \<in> set queue" for m
    using inv by (auto simp: kahn_inv_def)
  have fresh: "m \<in> set added \<Longrightarrow> 0 < deg m \<and> m \<in> set ids" for m
  proof
    assume m: "m \<in> set added"
    then have "m \<in> set ?ns" and eq: "deg m = int (count_list ?ns m)" using added(2) by auto
    then have "count_list ?ns m \<noteq> 0" by (subst count_list_0_iff) simp
    with eq show "0 < deg m" by simp
    from \<open>m \<in> set ?ns\<close> es show "m \<in> set ids" by auto
  qed
  have emitted: "m \<in> set (done @ [x] @ queue') \<longleftrightarrow> m \<in> set ids \<and> deg' m = 0" for m
  proof (cases "m \<in> set ?ns")
    case True
    with es have ids: "m \<in> set ids" by auto
    have "deg m \<noteq> 0" using True le [of m]
      by (metis count_list_0_iff of_nat_le_0_iff)
    with old [OF ids] ids True added(2) show ?thesis by (auto simp: q' deg')
  next
    case False
    then have "deg' m = deg m" by (simp add: deg' count_notin)
    with False inv added(2) show ?thesis by (auto simp: kahn_inv_def q')
  qed
  have "set added \<inter> set (done @ x # queue) = {}"
    using fresh old by fastforce
  with inv added(1) have "distinct (done @ [x] @ queue')"
    by (auto simp: kahn_inv_def q')
  moreover have "x \<in> set (done @ x # queue) \<longleftrightarrow> x \<in> set ids \<and> deg x = 0"
    using inv unfolding kahn_inv_def by blast
  then have "pending es done x = []" using deg [of x] by simp
  then have "ordered es (done @ [x])"
    using inv by (intro ordered_snoc) (auto simp: kahn_inv_def pending_Nil)
  ultimately show ?thesis
    using deg'' emitted by (simp add: kahn_inv_def)
qed

lemma kahn_loop_inv:
  assumes "\<forall>d. dict_get_or g d [] = map snd (filter (\<lambda>e. fst e = d) es)"
    and "\<forall>(d, m) \<in> set es. m \<in> set ids"
  shows "kahn_inv ids es deg queue done \<Longrightarrow> \<exists>deg'. kahn_inv ids es deg' [] (kahn_loop g deg queue done)"
  using assms
proof (induction g deg queue "done" rule: kahn_loop.induct)
  case (1 g deg "done")
  then show ?case by auto
next
  case (2 g deg x queue "done")
  obtain deg' queue' where r: "relax (dict_get_or g x []) deg queue = (deg', queue')"
    by (cases "relax (dict_get_or g x []) deg queue")
  have "kahn_inv ids es deg' queue' (done @ [x])"
    using kahn_inv_step [OF "2.prems"(1) "2.prems"(3)] r "2.prems"(2) by simp
  with "2.IH" [OF r [symmetric]] r "2.prems"(2,3) show ?case by simp
qed

lemma kahn_complete:
  assumes inv: "kahn_inv ids es deg [] done" and ac: "acyclic (set es)"
    and es: "\<forall>(d, m) \<in> set es. d \<in> set ids"
  shows "set done = set ids"
proof (rule ccontr)
  assume "set done \<noteq> set ids"
  moreover have "set done \<subseteq> set ids" using inv by (auto simp: kahn_inv_def)
  ultimately obtain u where u: "u \<in> set ids - set done" by blast
  have "wf (set es)" using ac by (simp add: finite_acyclic_wf)
  from wfE_min [OF this u] obtain z where z: "z \<in> set ids - set done"
    and min: "\<And>d. (d, z) \<in> set es \<Longrightarrow> d \<notin> set ids - set done" by blast
  then have "pending es done z = []" using es by (auto simp: pending_Nil)
  with inv z show False by (auto simp: kahn_inv_def)
qed

lemma set_edge_list:
  "set (edge_list ids deps) =
     {(d, m). d \<in> set ids \<and> m \<in> set ids \<and> (\<exists>ds. (m, ds) \<in> set deps \<and> d \<in> set ds)}"
  by (induction ids deps rule: edge_list.induct) (auto simp: row_edges_def)

lemma edge_list_edges:
  "dict_ok deps \<Longrightarrow> (d, m) \<in> set (edge_list ids deps) \<longleftrightarrow>
     d \<in> set ids \<and> m \<in> set ids \<and> d \<in> set (deps_of deps m)"
  by (cases "map_of deps m")
    (auto simp: set_edge_list deps_of_def dict_get_or_def map_of_in_set [symmetric])

definition deps_first :: "deps \<Rightarrow> int list \<Rightarrow> bool" where
  "deps_first deps xs \<longleftrightarrow>
     (\<forall>i < length xs. \<forall>d \<in> set (deps_of deps (xs ! i)) \<inter> set xs. d \<in> set (take i xs))"

lemma topological_sort_total:
  assumes en: "enumerates en" and ok: "dict_ok deps"
  shows "if acyclic (edges deps)
     then (\<exists>result. topological_sort en modules deps = Inr result \<and> distinct result \<and>
            set result = g_id ` set modules \<and> deps_first deps result)
     else (\<exists>cycle. topological_sort en modules deps = Inl (CircularDependencyError (Some cycle)) \<and>
            is_cycle deps cycle)"
proof (cases "acyclic (edges deps)")
  case True
  define ids where "ids = en (map g_id modules)"
  define es where "es = edge_list ids deps"
  obtain g deg where gd: "build_graph ids deps ([], \<lambda>_. 0) = (g, deg)"
    by (cases "build_graph ids deps ([], \<lambda>_. 0)")
  with build_graph_records [of ids deps "([], \<lambda>_. 0)"]
  have g: "\<forall>d. dict_get_or g d [] = map snd (filter (\<lambda>e. fst e = d) es)"
    and deg: "\<And>m. deg m = int (length (pending es [] m))"
    by (auto simp: records_def es_def pending_def dict_get_or_def)
  have "kahn_inv ids es deg (filter (\<lambda>m. deg m = 0) ids) []"
    using deg enumerates_distinct [OF en] by (auto simp: kahn_inv_def ordered_def ids_def)
  moreover have "\<forall>(d, m) \<in> set es. m \<in> set ids"
    by (auto simp: es_def edge_list_edges [OF ok])
  ultimately obtain deg' where
    inv: "kahn_inv ids es deg' [] (kahn_loop g deg (filter (\<lambda>m. deg m = 0) ids) [])"
    using kahn_loop_inv [OF g] by blast
  define res where "res = kahn_loop g deg (filter (\<lambda>m. deg m = 0) ids) []"
  have "set es \<subseteq> (edges deps)\<inverse>"
    by (auto simp: es_def edge_list_edges [OF ok] edges_def)
  with True have "acyclic (set es)" by (metis acyclic_converse acyclic_subset)
  with inv have set_res: "set res = set ids"
    unfolding res_def by (intro kahn_complete) (auto simp: es_def edge_list_edges [OF ok])
  moreover have "distinct res" using inv by (simp add: kahn_inv_def res_def)
  ultimately have "length res = length ids"
    using enumerates_distinct [OF en] by (metis distinct_card ids_def)
  moreover have "detect_circular_dependencies deps = Clear"
    using True by (simp add: detect_Clear_iff)
  ultimately have "topological_sort en modules deps = Inr res"
    using gd by (simp add: topological_sort_def res_def ids_def)
  moreover have "deps_first deps res"
    using inv set_res nth_mem
    by (fastforce simp: kahn_inv_def ordered_def deps_first_def res_def es_def edge_list_edges [OF ok])
  ultimately show ?thesis
    using True set_res \<open>distinct res\<close> enumerates_set [OF en] by (simp add: ids_def)
next
  case False
  then show ?thesis
    using detect_cases [of deps] by (auto simp: topological_sort_def split: dfs_result.splits)
qed

text \<open>
  C2. The sort is total and right: on an acyclic dictionary it returns every module once,
  each after all of its dependencies that are being sorted; on a cyclic one it raises
  \<^verbatim>\<open>CircularDependencyError\<close> with a real cycle. The second guard, on the length of the
  result, never fires.
\<close>

theorem topological_sort_correct:
  assumes "enumerates en" and "dict_ok deps"
  shows "if acyclic (edges deps)
     then (\<exists>result. topological_sort en modules deps = Inr result \<and> distinct result \<and>
            set result = g_id ` set modules \<and> deps_first deps result)
     else (\<exists>cycle. topological_sort en modules deps = Inl (CircularDependencyError (Some cycle)) \<and>
            is_cycle deps cycle)"
  using assms by (rule topological_sort_total)

definition gmod :: "int \<Rightarrow> int list \<Rightarrow> gmodule" where
  "gmod i ds = \<lparr>g_id = i, g_project_id = Some 7, g_name = None, g_status = None, g_path = None,
     g_order = None, g_deps = Some ds\<rparr>"

theorem topological_sort_correct_witness:
  "topological_sort remdups [gmod 3 [], gmod 1 [], gmod 2 []] [(2, [1]), (3, [1, 2])] = Inr [1, 2, 3] \<and>
   enumerates remdups \<and> dict_ok [(2 :: int, [1]), (3, [1, 2 :: int])] \<and>
   (\<exists>cycle. topological_sort remdups [gmod 1 [], gmod 2 []] [(1, [2]), (2, [1])] =
      Inl (CircularDependencyError (Some cycle)) \<and> is_cycle [(1, [2]), (2, [1])] cycle)"
proof -
  have ok: "dict_ok [(1 :: int, [2 :: int]), (2, [1])]" by (simp add: dict_ok_def)
  have "detect_circular_dependencies [(1, [2]), (2, [1])] \<noteq> Clear" by code_simp
  then have "\<not> acyclic (edges [(1, [2]), (2, [1])])" by (simp add: detect_Clear_iff)
  with topological_sort_correct [OF enumerates_remdups ok, of "[gmod 1 [], gmod 2 []]"]
  have "\<exists>cycle. topological_sort remdups [gmod 1 [], gmod 2 []] [(1, [2]), (2, [1])] =
      Inl (CircularDependencyError (Some cycle)) \<and> is_cycle [(1, [2]), (2, [1])] cycle" by simp
  moreover have "topological_sort remdups [gmod 3 [], gmod 1 [], gmod 2 []] [(2, [1]), (3, [1, 2])] = Inr [1, 2, 3]"
    by code_simp
  moreover have "dict_ok [(2 :: int, [1]), (3, [1, 2 :: int])]" by (simp add: dict_ok_def)
  ultimately show ?thesis using enumerates_remdups by blast
qed

section \<open>Validation of a proposed dependency list\<close>

datatype dep_error = SelfDependency | DependencyNotFound int | WouldCreateCycle "int list"

definition project_module_ids :: "int \<Rightarrow> gmodule list \<Rightarrow> int list" where
  "project_module_ids pid mods = map g_id (filter (\<lambda>m. g_project_id m = Some pid) mods)"

text \<open>The hypothetical graph: the new list for the module, the stored one for the others.\<close>

fun proposed_graph :: "int \<Rightarrow> int list \<Rightarrow> int \<Rightarrow> gmodule list \<Rightarrow> deps \<Rightarrow> deps" where
  "proposed_graph mid new pid [] deps = deps"
| "proposed_graph mid new pid (m # ms) deps =
     proposed_graph mid new pid ms
       (if g_project_id m \<noteq> Some pid then deps
        else if g_id m = mid then dict_set (g_id m) new deps
        else dict_set (g_id m) (g_deps_list m) deps)"

definition validate_dependencies ::
  "int \<Rightarrow> int list \<Rightarrow> int \<Rightarrow> gmodule list \<Rightarrow> bool \<times> dep_error option" where
  "validate_dependencies module_id dependency_ids project_id all_modules =
     (if module_id \<in> set dependency_ids then (False, Some SelfDependency)
      else (case find (\<lambda>d. d \<notin> set (project_module_ids project_id all_modules)) dependency_ids of
        Some d \<Rightarrow> (False, Some (DependencyNotFound d))
      | None \<Rightarrow>
          (case detect_circular_dependencies
                  (proposed_graph module_id dependency_ids project_id all_modules []) of
             Cycle cycle \<Rightarrow> (False, Some (WouldCreateCycle cycle))
           | _ \<Rightarrow> (True, None))))"

lemma proposed_graph_ok: "dict_ok deps \<Longrightarrow> dict_ok (proposed_graph mid new pid ms deps)"
  by (induction mid new pid ms deps rule: proposed_graph.induct) simp_all

lemma proposed_graph_keep:
  "map_of deps mid = Some new \<Longrightarrow> map_of (proposed_graph mid new pid ms deps) mid = Some new"
  by (induction mid new pid ms deps rule: proposed_graph.induct) auto

lemma proposed_graph_new:
  "m \<in> set ms \<Longrightarrow> g_project_id m = Some pid \<Longrightarrow> g_id m = mid \<Longrightarrow>
     map_of (proposed_graph mid new pid ms deps) mid = Some new"
  by (induction ms arbitrary: deps) (auto simp: proposed_graph_keep)

lemma proposed_graph_other:
  "k \<noteq> mid \<Longrightarrow> distinct (map g_id ms) \<Longrightarrow> m \<in> set ms \<Longrightarrow> g_project_id m = Some pid \<Longrightarrow> g_id m = k \<Longrightarrow>
     map_of (proposed_graph mid new pid ms deps) k = Some (g_deps_list m)"
proof (induction mid new pid ms deps rule: proposed_graph.induct)
  case (2 mid new pid m' ms deps)
  have keep: "map_of (proposed_graph mid new pid ms d) k = map_of d k"
    if "k \<notin> g_id ` set ms" for d
    using that \<open>k \<noteq> mid\<close> by (induction mid new pid ms d rule: proposed_graph.induct) auto
  show ?case
  proof (cases "m = m'")
    case True
    with "2.prems" have "k \<notin> g_id ` set ms" by auto
    with keep True "2.prems" show ?thesis by auto
  next
    case False
    with "2.prems" "2.IH" show ?thesis by auto
  qed
qed simp

text \<open>
  A proposed dependency list is accepted exactly when the module does not name itself,
  every dependency is a module of the project, and the project's graph with the new list in
  place is acyclic.
\<close>

theorem validate_dependencies_iff:
  "fst (validate_dependencies mid new pid mods) \<longleftrightarrow>
     mid \<notin> set new \<and> set new \<subseteq> set (project_module_ids pid mods) \<and>
     acyclic (edges (proposed_graph mid new pid mods []))"
  using detect_cases [of "proposed_graph mid new pid mods []"]
  by (auto simp: validate_dependencies_def find_None_iff subset_iff dest: find_SomeD
      split: option.splits dfs_result.splits)

text \<open>
  The graph that validation checks is the stored one with a single row replaced: the
  module's row is the proposed list and every other module of the project keeps its own.
\<close>

theorem validate_dependencies_graph:
  assumes "distinct (map g_id mods)" and "m \<in> set mods" and "g_project_id m = Some pid"
  shows "deps_of (proposed_graph mid new pid mods []) (g_id m) =
           (if g_id m = mid then new else g_deps_list m)"
  using assms proposed_graph_new [of m mods pid mid new "[]"] proposed_graph_other [of "g_id m" mid mods m pid new "[]"]
  by (auto simp: deps_of_def dict_get_or_def)

theorem validate_dependencies_graph_witness:
  "deps_of (proposed_graph 2 [1] 7 [gmod 1 [], gmod 2 [], gmod 3 [2]] []) 3 = [2] \<and>
   fst (validate_dependencies 2 [1] 7 [gmod 1 [], gmod 2 [], gmod 3 [2]]) \<and>
   \<not> fst (validate_dependencies 2 [3] 7 [gmod 1 [], gmod 2 [], gmod 3 [2]])"
proof -
  have "deps_of (proposed_graph 2 [1] 7 [gmod 1 [], gmod 2 [], gmod 3 [2]] []) (g_id (gmod 3 [2])) = [2]"
    using validate_dependencies_graph [of "[gmod 1 [], gmod 2 [], gmod 3 [2]]" "gmod 3 [2]" 7 2 "[1]"]
    by (simp add: gmod_def g_deps_list_def)
  moreover have "fst (validate_dependencies 2 [1] 7 [gmod 1 [], gmod 2 [], gmod 3 [2]])" by code_simp
  moreover have "\<not> fst (validate_dependencies 2 [3] 7 [gmod 1 [], gmod 2 [], gmod 3 [2]])" by code_simp
  ultimately show ?thesis by (simp add: gmod_def)
qed

section \<open>Deployment order\<close>

fun module_graph :: "gmodule list \<Rightarrow> deps \<Rightarrow> deps" where
  "module_graph [] deps = deps"
| "module_graph (m # ms) deps = module_graph ms (dict_set (g_id m) (g_deps_list m) deps)"

definition calculate_deployment_order ::
  "(int list \<Rightarrow> int list) \<Rightarrow> gmodule list \<Rightarrow> graph_error + (int, nat) dict" where
  "calculate_deployment_order en modules =
     (case topological_sort en modules (module_graph modules []) of
        Inl e \<Rightarrow> Inl e
      | Inr sorted_ids \<Rightarrow> Inr (dict_merge [] (zip sorted_ids [0..<length sorted_ids])))"

lemma module_graph_ok: "dict_ok deps \<Longrightarrow> dict_ok (module_graph ms deps)"
  by (induction ms deps rule: module_graph.induct) simp_all

lemma order_dict:
  assumes "distinct ids"
  shows "map_of (dict_merge [] (zip ids [0..<length ids])) m = Some i \<longleftrightarrow> i < length ids \<and> ids ! i = m"
  using assms
  by (subst map_of_dict_merge) (auto simp: dict_ok_def map_of_eq_Some_iff in_set_zip)

lemma order_respects:
  assumes "distinct ids" and "deps_first deps ids" and "m \<in> set ids" and "d \<in> set (deps_of deps m) \<inter> set ids"
  shows "\<exists>i j. i < j \<and> j < length ids \<and> ids ! i = d \<and> ids ! j = m"
proof -
  from assms(3) obtain j where j: "j < length ids" "ids ! j = m" by (auto simp: in_set_conv_nth)
  with assms(2,4) have "d \<in> set (take j ids)" by (auto simp: deps_first_def)
  then obtain i where "i < j" "i < length ids" "ids ! i = d" by (auto simp: in_set_conv_nth)
  with j show ?thesis by blast
qed

text \<open>
  The deployment order is total on acyclic projects: every module gets its own position
  below the number of modules, and a module's position is greater than that of each of its
  dependencies in the project.
\<close>

theorem calculate_deployment_order_sound:
  assumes "enumerates en" and "acyclic (edges (module_graph modules []))"
  shows "\<exists>order. calculate_deployment_order en modules = Inr order \<and>
     dom (map_of order) = g_id ` set modules \<and>
     inj_on (map_of order) (g_id ` set modules) \<and>
     ran (map_of order) = {0..<card (g_id ` set modules)} \<and>
     (\<forall>m \<in> g_id ` set modules. \<forall>d \<in> set (deps_of (module_graph modules []) m) \<inter> g_id ` set modules.
        the (map_of order d) < the (map_of order m))"
proof -
  let ?g = "module_graph modules []"
  from topological_sort_total [OF assms(1) module_graph_ok [OF dict_ok_Nil], of modules modules] assms(2)
  obtain ids where ids: "topological_sort en modules ?g = Inr ids"
    "distinct ids" "set ids = g_id ` set modules" "deps_first ?g ids"
    by auto
  define order where "order = dict_merge [] (zip ids [0..<length ids])"
  note look = order_dict [OF ids(2), folded order_def]
  have pos: "map_of order (ids ! i) = Some i" if "i < length ids" for i
    using that by (simp add: look)
  have "dom (map_of order) = set ids" by (auto simp: dom_def look in_set_conv_nth)
  moreover have "inj_on (map_of order) (set ids)"
    by (auto simp: inj_on_def in_set_conv_nth pos)
  moreover have "ran (map_of order) = {0..<card (set ids)}"
    by (auto simp: ran_def look distinct_card [OF ids(2)])
  moreover have "the (map_of order d) < the (map_of order m)"
    if "m \<in> set ids" and "d \<in> set (deps_of ?g m) \<inter> set ids" for m d
    using order_respects [OF ids(2,4) that] pos by fastforce
  moreover have "calculate_deployment_order en modules = Inr order"
    by (simp add: calculate_deployment_order_def ids(1) order_def)
  ultimately show ?thesis unfolding ids(3) by blast
qed

theorem calculate_deployment_order_sound_witness:
  "\<exists>order. calculate_deployment_order remdups [gmod 3 [1, 2], gmod 1 [], gmod 2 [1]] = Inr order \<and>
     dom (map_of order) = {1, 2, 3}"
proof -
  let ?ms = "[gmod 3 [1, 2], gmod 1 [], gmod 2 [1]]"
  have "detect_circular_dependencies (module_graph ?ms []) = Clear" by code_simp
  then have "acyclic (edges (module_graph ?ms []))" by (simp add: detect_Clear_iff)
  from calculate_deployment_order_sound [OF enumerates_remdups this] show ?thesis
    by (auto simp: gmod_def)
qed

end
