(* ===== verification/Dependency_Layers.thy ===== *)
theory Dependency_Layers
  imports Dependency_Graph
begin

text \<open>
  The visualisation payload and the read-only queries of
  \<^verbatim>\<open>src/backend/utils/dependency_graph.py\<close>: the memoised layer computation, the graph
  structure with nodes, edges, layers and cycle report, the reverse dependencies of a
  module and the check that a module's dependencies are deployed.
\<close>

section \<open>Layers for visualisation\<close>

text \<open>
  The memoised recursion of \<^verbatim>\<open>layer_of\<close>, with a fuel argument that bounds its depth; \<open>None\<close>
  is running out. On a cyclic graph the Python recursion does not return.
\<close>

fun layer_of :: "nat \<Rightarrow> deps \<Rightarrow> int \<Rightarrow> (int, nat) dict \<Rightarrow> (nat \<times> (int, nat) dict) option"
  and layer_max :: "nat \<Rightarrow> deps \<Rightarrow> int list \<Rightarrow> (int, nat) dict \<Rightarrow> (nat \<times> (int, nat) dict) option"
where
  "layer_of 0 deps mid layers = None"
| "layer_of (Suc fuel) deps mid layers =
     (case map_of layers mid of
        Some l \<Rightarrow> Some (l, layers)
      | None \<Rightarrow>
          (case deps_of deps mid of
             [] \<Rightarrow> Some (0, dict_set mid 0 layers)
           | ds \<Rightarrow> (case layer_max fuel deps ds layers of
                 None \<Rightarrow> None
               | Some (mx, layers') \<Rightarrow> Some (mx + 1, dict_set mid (mx + 1) layers'))))"
| "layer_max fuel deps [] layers = Some (0, layers)"
| "layer_max fuel deps (d # ds) layers =
     (case layer_of fuel deps d layers of
        None \<Rightarrow> None
      | Some (l, layers') \<Rightarrow>
          (case layer_max fuel deps ds layers' of
             None \<Rightarrow> None
           | Some (mx, layers'') \<Rightarrow> Some (max l mx, layers'')))"

fun compute_layers :: "nat \<Rightarrow> int list \<Rightarrow> deps \<Rightarrow> (int, nat) dict \<Rightarrow> (int, nat) dict option" where
  "compute_layers fuel [] deps layers = Some layers"
| "compute_layers fuel (mid # mids) deps layers =
     (case layer_of fuel deps mid layers of
        None \<Rightarrow> None
      | Some (_, layers') \<Rightarrow> compute_layers fuel mids deps layers')"

text \<open>
  What a table of layers must satisfy: it is closed under dependencies, a module without
  dependencies is on layer 0, and any other sits one below its deepest dependency.
\<close>

definition layers_ok :: "deps \<Rightarrow> (int \<rightharpoonup> nat) \<Rightarrow> bool" where
  "layers_ok deps L \<longleftrightarrow>
     (\<forall>m l. L m = Some l \<longrightarrow> set (deps_of deps m) \<subseteq> dom L \<and>
        l = (if deps_of deps m = [] then 0 else Suc (Max ((\<lambda>d. the (L d)) ` set (deps_of deps m)))))"

definition reach :: "deps \<Rightarrow> int list \<Rightarrow> int set" where
  "reach deps ns = (edges deps)\<^sup>* `` set ns"

definition layers_ext :: "deps \<Rightarrow> int list \<Rightarrow> (int \<rightharpoonup> nat) \<Rightarrow> (int \<rightharpoonup> nat) \<Rightarrow> bool" where
  "layers_ext deps ns L L' \<longleftrightarrow>
     layers_ok deps L' \<and> L \<subseteq>\<^sub>m L' \<and> dom L' \<subseteq> dom L \<union> reach deps ns \<and> set ns \<subseteq> dom L'"

lemma reach_child: "d \<in> set (deps_of deps m) \<Longrightarrow> reach deps [d] \<subseteq> reach deps [m]"
  by (auto simp: reach_def edges_def intro: converse_rtrancl_into_rtrancl)

lemma reach_children: "reach deps (deps_of deps m) \<subseteq> reach deps [m]"
  by (auto simp: reach_def edges_def intro: converse_rtrancl_into_rtrancl)

lemma reach_acyclic:
  "acyclic (edges deps) \<Longrightarrow> m \<notin> reach deps (deps_of deps m)"
proof
  assume ac: "acyclic (edges deps)" and "m \<in> reach deps (deps_of deps m)"
  then obtain d where "d \<in> set (deps_of deps m)" and dm: "(d, m) \<in> (edges deps)\<^sup>*"
    by (auto simp: reach_def)
  then have "(m, d) \<in> edges deps" by (simp add: edges_def)
  from rtrancl_into_trancl2 [OF this dm] ac show False by (simp add: acyclic_def)
qed

lemma reach_subset: "reach deps [m] \<subseteq> insert m (nodes deps)"
proof
  fix x assume "x \<in> reach deps [m]"
  then have "(m, x) \<in> (edges deps)\<^sup>*" by (simp add: reach_def)
  then show "x \<in> insert m (nodes deps)"
  proof (cases rule: rtranclE)
    case (step y)
    then show ?thesis
      by (force simp: edges_def deps_of_def nodes_def dest: dict_get_or_elem)
  qed simp
qed

lemma finite_reach [simp]: "finite (reach deps [m])"
  using finite_subset [OF reach_subset] by simp

lemma reach_card_child:
  assumes "acyclic (edges deps)" and "d \<in> set (deps_of deps m)"
  shows "card (reach deps [d]) < card (reach deps [m])"
proof (rule psubset_card_mono)
  have "m \<in> reach deps [m]" by (simp add: reach_def)
  moreover have "m \<notin> reach deps [d]"
    using reach_acyclic [OF assms(1), of m] assms(2) by (auto simp: reach_def)
  ultimately show "reach deps [d] \<subset> reach deps [m]"
    using reach_child [OF assms(2)] by blast
qed simp

lemma layers_ext_refl: "layers_ok deps L \<Longrightarrow> set ns \<subseteq> dom L \<Longrightarrow> layers_ext deps ns L L"
  by (auto simp: layers_ext_def)

lemma layers_ext_append:
  "layers_ext deps xs L L' \<Longrightarrow> layers_ext deps ys L' L'' \<Longrightarrow> layers_ext deps (xs @ ys) L L''"
proof -
  assume 1: "layers_ext deps xs L L'" and 2: "layers_ext deps ys L' L''"
  then have le: "L \<subseteq>\<^sub>m L''" by (auto simp: layers_ext_def intro: map_le_trans)
  have dom: "dom L' \<subseteq> dom L''" using 2 by (simp add: layers_ext_def map_le_implies_dom_le)
  have "reach deps (xs @ ys) = reach deps xs \<union> reach deps ys"
    by (auto simp: reach_def)
  with 1 2 le dom show ?thesis unfolding layers_ext_def set_append by blast
qed

lemma layers_ext_node:
  assumes ac: "acyclic (edges deps)" and new: "L m = None"
    and ext: "layers_ext deps (deps_of deps m) L L'"
    and l: "l = (if deps_of deps m = [] then 0 else Suc (Max ((\<lambda>d. the (L' d)) ` set (deps_of deps m))))"
  shows "layers_ext deps [m] L (L'(m \<mapsto> l))"
proof -
  have m: "m \<notin> dom L'"
    using ext new reach_acyclic [OF ac, of m] by (auto simp: layers_ext_def)
  have same: "(\<lambda>d. the ((L'(m \<mapsto> l)) d)) ` set (deps_of deps k) = (\<lambda>d. the (L' d)) ` set (deps_of deps k)"
    if "set (deps_of deps k) \<subseteq> dom L'" for k
    using that m by (intro image_cong) auto
  have row: "set (deps_of deps k) \<subseteq> dom L'" and val: "k \<noteq> m \<Longrightarrow> L' k = Some j \<Longrightarrow>
      j = (if deps_of deps k = [] then 0 else Suc (Max ((\<lambda>d. the (L' d)) ` set (deps_of deps k))))"
    if "(L'(m \<mapsto> l)) k = Some j" for k j
    using that ext by (auto simp: layers_ext_def layers_ok_def split: if_splits)
  have "layers_ok deps (L'(m \<mapsto> l))"
    unfolding layers_ok_def
  proof (intro allI impI conjI)
    fix k j assume k: "(L'(m \<mapsto> l)) k = Some j"
    show "set (deps_of deps k) \<subseteq> dom (L'(m \<mapsto> l))" using row [OF k] by auto
    show "j = (if deps_of deps k = [] then 0
        else Suc (Max ((\<lambda>d. the ((L'(m \<mapsto> l)) d)) ` set (deps_of deps k))))"
      unfolding same [OF row [OF k]] using k val [OF k] l by (cases "k = m") auto
  qed
  moreover have "L \<subseteq>\<^sub>m L'(m \<mapsto> l)"
    using ext new by (auto simp: layers_ext_def map_le_def)
  moreover have "m \<in> reach deps [m]" by (simp add: reach_def)
  ultimately show ?thesis
    using ext reach_children [of deps m] by (auto simp: layers_ext_def)
qed

lemma layers_total:
  "acyclic (edges deps) \<Longrightarrow> layers_ok deps (map_of L) \<Longrightarrow> card (reach deps [m]) \<le> fuel \<Longrightarrow>
     \<exists>l L'. layer_of fuel deps m L = Some (l, L') \<and> layers_ext deps [m] (map_of L) (map_of L') \<and>
       map_of L' m = Some l"
  "acyclic (edges deps) \<Longrightarrow> layers_ok deps (map_of L) \<Longrightarrow> \<forall>d \<in> set ds. card (reach deps [d]) \<le> fuel \<Longrightarrow>
     \<exists>mx L'. layer_max fuel deps ds L = Some (mx, L') \<and> layers_ext deps ds (map_of L) (map_of L') \<and>
       mx = Max (insert 0 ((\<lambda>d. the (map_of L' d)) ` set ds))"
proof (induction fuel deps m L and fuel deps ds L rule: layer_of_layer_max.induct)
  case (1 deps m L)
  have "m \<in> reach deps [m]" by (simp add: reach_def)
  with 1 show ?case by (metis card_0_eq empty_iff finite_reach le_zero_eq)
next
  case (2 fuel deps m L)
  show ?case
  proof (cases "map_of L m")
    case (Some l)
    with 2 show ?thesis by (auto intro: layers_ext_refl)
  next
    case None
    show ?thesis
    proof (cases "deps_of deps m")
      case Nil
      have "layers_ext deps [m] (map_of L) ((map_of L)(m \<mapsto> 0))"
        using 2 None Nil by (intro layers_ext_node) (auto intro: layers_ext_refl)
      with None Nil show ?thesis by simp
    next
      case (Cons d ds)
      have "\<forall>k \<in> set (deps_of deps m). card (reach deps [k]) \<le> fuel"
        using reach_card_child [OF "2.prems"(1)] "2.prems"(3) by fastforce
      with "2.IH" [OF None Cons] "2.prems" Cons obtain mx L' where
        r: "layer_max fuel deps (d # ds) L = Some (mx, L')"
        and ext: "layers_ext deps (deps_of deps m) (map_of L) (map_of L')"
        and mx: "mx = Max (insert 0 ((\<lambda>d. the (map_of L' d)) ` set (deps_of deps m)))"
        by auto
      have "mx = Max ((\<lambda>d. the (map_of L' d)) ` set (deps_of deps m))"
        unfolding mx using Cons by (subst Max_insert) auto
      then have "layers_ext deps [m] (map_of L) ((map_of L')(m \<mapsto> mx + 1))"
        using "2.prems"(1) None ext Cons by (intro layers_ext_node) auto
      with None Cons r show ?thesis by simp
    qed
  qed
next
  case (3 fuel deps L)
  then show ?case by (auto intro: layers_ext_refl)
next
  case (4 fuel deps d ds L)
  then obtain l L' where r: "layer_of fuel deps d L = Some (l, L')"
    and e1: "layers_ext deps [d] (map_of L) (map_of L')" and l: "map_of L' d = Some l"
    by auto
  then have "layers_ok deps (map_of L')" by (simp add: layers_ext_def)
  with "4.IH"(2) [OF r refl] "4.prems" obtain mx L'' where
    r2: "layer_max fuel deps ds L' = Some (mx, L'')"
    and e2: "layers_ext deps ds (map_of L') (map_of L'')"
    and mx: "mx = Max (insert 0 ((\<lambda>d. the (map_of L'' d)) ` set ds))"
    by auto
  have "map_of L'' d = Some l"
    using e2 l by (auto simp: layers_ext_def map_le_def dom_def)
  then have "max l mx = Max (insert 0 ((\<lambda>d. the (map_of L'' d)) ` set (d # ds)))"
    by (simp add: mx insert_commute Max_insert [symmetric] del: Max_insert)
  with r r2 layers_ext_append [OF e1 e2] show ?case by auto
qed

lemma compute_layers_total:
  assumes "acyclic (edges deps)"
  shows "layers_ok deps (map_of L) \<Longrightarrow> \<forall>m \<in> set ids. card (reach deps [m]) \<le> fuel \<Longrightarrow>
    \<exists>L'. compute_layers fuel ids deps L = Some L' \<and> layers_ext deps ids (map_of L) (map_of L')"
proof (induction ids arbitrary: L)
  case Nil
  then show ?case by (auto intro: layers_ext_refl)
next
  case (Cons m ids)
  from layers_total(1) [OF assms Cons.prems(1), of m fuel] Cons.prems(2) obtain l L' where
    r: "layer_of fuel deps m L = Some (l, L')" and e: "layers_ext deps [m] (map_of L) (map_of L')"
    by auto
  moreover from e have "layers_ok deps (map_of L')" by (simp add: layers_ext_def)
  ultimately obtain L'' where "compute_layers fuel ids deps L' = Some L''"
    and e': "layers_ext deps ids (map_of L') (map_of L'')"
    using Cons.IH Cons.prems(2) by auto
  with r layers_ext_append [OF e e'] show ?case by auto
qed

section \<open>The graph structure\<close>

record graph_node =
  n_id :: int
  n_name :: string
  n_status :: string
  n_path :: string
  n_deployment_order :: int
  n_layer :: "nat option"

record dependency_graph =
  dg_nodes :: "graph_node list"
  dg_edges :: "(int \<times> int) list"
  dg_layers :: "(int, nat) dict"
  dg_has_cycle :: bool
  dg_cycle :: "int list option"
  dg_error :: "string option"

definition opt_or :: "'a option \<Rightarrow> 'a \<Rightarrow> 'a" where
  "opt_or x d = (case x of None \<Rightarrow> d | Some y \<Rightarrow> y)"

fun graph_rows :: "int list \<Rightarrow> gmodule list \<Rightarrow> deps \<Rightarrow> deps" where
  "graph_rows ids [] deps = deps"
| "graph_rows ids (m # ms) deps =
     graph_rows ids ms (dict_set (g_id m) (filter (\<lambda>d. d \<in> set ids) (g_deps_list m)) deps)"

definition graph_node_of :: "(int, nat) dict \<Rightarrow> gmodule \<Rightarrow> graph_node" where
  "graph_node_of layers m =
     \<lparr>n_id = g_id m, n_name = opt_or (g_name m) (''Module '' @ str_of_int (g_id m)),
      n_status = opt_or (g_status m) ''unknown'', n_path = opt_or (g_path m) '''',
      n_deployment_order = opt_or (g_order m) 0, n_layer = map_of layers (g_id m)\<rparr>"

definition graph_edges_of :: "gmodule list \<Rightarrow> (int \<times> int) list" where
  "graph_edges_of ms = concat (map (\<lambda>m. map (\<lambda>d. (d, g_id m)) (g_deps_list m)) ms)"

definition cycle_message :: "int list \<Rightarrow> string" where
  "cycle_message cycle = ''Circular dependency detected: '' @ str_join '' -> '' (map str_of_int cycle)"

definition get_dependency_graph ::
  "(int list \<Rightarrow> int list) \<Rightarrow> gmodule list \<Rightarrow> dependency_graph option" where
  "get_dependency_graph en modules =
     (let module_ids = en (map g_id modules);
          deps = graph_rows module_ids modules []
      in case detect_circular_dependencies deps of
           Cycle cycle \<Rightarrow> Some \<lparr>dg_nodes = map (graph_node_of []) modules,
             dg_edges = graph_edges_of modules, dg_layers = [], dg_has_cycle = True,
             dg_cycle = Some cycle, dg_error = Some (cycle_message cycle)\<rparr>
         | _ \<Rightarrow> (case compute_layers (Suc (length modules)) module_ids deps [] of
               None \<Rightarrow> None
             | Some layers \<Rightarrow> Some \<lparr>dg_nodes = map (graph_node_of layers) modules,
                 dg_edges = graph_edges_of modules, dg_layers = layers, dg_has_cycle = False,
                 dg_cycle = None, dg_error = None\<rparr>))"

lemma nodes_iff: "n \<in> nodes deps \<longleftrightarrow> (\<exists>k ds. (k, ds) \<in> set deps \<and> (n = k \<or> n \<in> set ds))"
  by (force simp: nodes_def)

lemma graph_rows_nodes:
  assumes "g_id ` set ms \<subseteq> set ids" and "nodes deps \<subseteq> set ids" and "dict_ok deps"
  shows "nodes (graph_rows ids ms deps) \<subseteq> set ids"
  using assms
proof (induction ids ms deps rule: graph_rows.induct)
  case (2 ids m ms deps)
  let ?d = "dict_set (g_id m) (filter (\<lambda>d. d \<in> set ids) (g_deps_list m)) deps"
  have "nodes ?d \<subseteq> set ids"
  proof -
    have "(k, ds) \<in> set ?d \<Longrightarrow> (k, ds) \<in> set deps \<or> k = g_id m \<and> set ds \<subseteq> set ids" for k ds
      using map_of_in_set [OF dict_ok_set [OF "2.prems"(3)], of "g_id m" "filter (\<lambda>d. d \<in> set ids) (g_deps_list m)" k ds]
        map_of_in_set [OF "2.prems"(3), of k ds] by (auto split: if_splits)
    then show ?thesis
      using "2.prems"(1,2) unfolding subset_iff nodes_iff by (metis image_eqI list.set_intros(1) subset_iff)
  qed
  with 2 show ?case by simp
qed simp

lemma dependency_graph_total:
  assumes "enumerates en"
  shows "\<exists>g. get_dependency_graph en modules = Some g \<and>
     (let deps = graph_rows (en (map g_id modules)) modules []
      in dg_has_cycle g = (\<not> acyclic (edges deps)) \<and>
         (if dg_has_cycle g then \<exists>xs. dg_cycle g = Some xs \<and> is_cycle deps xs
          else layers_ok deps (map_of (dg_layers g)) \<and>
               dom (map_of (dg_layers g)) = g_id ` set modules))"
proof (cases "detect_circular_dependencies (graph_rows (en (map g_id modules)) modules [])")
  case (Cycle xs)
  with detect_cases [of "graph_rows (en (map g_id modules)) modules []"] show ?thesis
    by (simp add: get_dependency_graph_def Let_def)
next
  case Clear
  let ?ids = "en (map g_id modules)"
  let ?deps = "graph_rows ?ids modules []"
  have ids: "set ?ids = g_id ` set modules" using enumerates_set [OF assms] by simp
  have ac: "acyclic (edges ?deps)" using Clear by (simp add: detect_Clear_iff)
  have nodes: "nodes ?deps \<subseteq> set ?ids"
    by (rule graph_rows_nodes) (auto simp: ids nodes_def)
  have sub: "reach ?deps [m] \<subseteq> set ?ids" if "m \<in> set ?ids" for m
    using reach_subset [of ?deps m] nodes that by blast
  have "card (reach ?deps [m]) \<le> Suc (length modules)" if "m \<in> set ?ids" for m
  proof -
    have "card (reach ?deps [m]) \<le> card (g_id ` set modules)"
      using sub [OF that] by (intro card_mono) (auto simp: ids)
    also have "\<dots> \<le> length modules"
      by (metis card_image_le card_length finite_set le_trans)
    finally show ?thesis by simp
  qed
  moreover have "layers_ok ?deps (map_of [])" by (simp add: layers_ok_def)
  ultimately obtain L where L: "compute_layers (Suc (length modules)) ?ids ?deps [] = Some L"
    and ext: "layers_ext ?deps ?ids (map_of []) (map_of L)"
    using compute_layers_total [OF ac] by blast
  have "reach ?deps ?ids \<subseteq> set ?ids" using sub by (auto simp: reach_def)
  with ext have "dom (map_of L) = g_id ` set modules" by (auto simp: layers_ext_def ids)
  with L ext Clear ac show ?thesis
    by (simp add: get_dependency_graph_def Let_def layers_ext_def)
qed simp

text \<open>
  The layer computation always returns for the payload: with the recursion bounded by
  the number of modules the graph is produced for every module list. A cyclic graph is
  reported with a real cycle and no layers; an acyclic one gets a layer for every module,
  zero without dependencies and one more than the deepest dependency otherwise.
\<close>

theorem get_dependency_graph_layers:
  assumes "enumerates en"
  shows "\<exists>g. get_dependency_graph en modules = Some g \<and>
     (let deps = graph_rows (en (map g_id modules)) modules []
      in dg_has_cycle g = (\<not> acyclic (edges deps)) \<and>
         (if dg_has_cycle g then \<exists>xs. dg_cycle g = Some xs \<and> is_cycle deps xs
          else layers_ok deps (map_of (dg_layers g)) \<and>
               dom (map_of (dg_layers g)) = g_id ` set modules))"
  using assms by (rule dependency_graph_total)

theorem get_dependency_graph_layers_witness:
  "\<exists>g. get_dependency_graph remdups [gmod 1 [], gmod 2 [1, 9], gmod 3 [1, 2]] = Some g \<and>
     map_of (dg_layers g) 3 = Some 2 \<and> dg_edges g = [(1, 2), (9, 2), (1, 3), (2, 3)] \<and>
     dom (map_of (dg_layers g)) = {1, 2, 3}"
proof -
  let ?ms = "[gmod 1 [], gmod 2 [1, 9], gmod 3 [1, 2]]"
  obtain g where g: "get_dependency_graph remdups ?ms = Some g"
    and dom: "dg_has_cycle g \<or> dom (map_of (dg_layers g)) = g_id ` set ?ms"
    using get_dependency_graph_layers [OF enumerates_remdups, of ?ms] by (auto simp: Let_def split: if_splits)
  have "map_option (\<lambda>g. (map_of (dg_layers g) 3, dg_edges g, dg_has_cycle g)) (get_dependency_graph remdups ?ms) =
     Some (Some 2, [(1, 2), (9, 2), (1, 3), (2, 3)], False)"
    by code_simp
  with g dom show ?thesis by (auto simp: gmod_def)
qed

section \<open>Reverse dependencies and the dependency-met check\<close>

definition get_dependent_modules :: "int \<Rightarrow> gmodule list \<Rightarrow> int list" where
  "get_dependent_modules module_id all_modules =
     map g_id (filter (\<lambda>m. module_id \<in> set (g_deps_list m)) all_modules)"

datatype unmet = UnknownModule int | UnmetModule gmodule

fun module_map :: "gmodule list \<Rightarrow> (int, gmodule) dict \<Rightarrow> (int, gmodule) dict" where
  "module_map [] d = d"
| "module_map (m # ms) d = module_map ms (dict_set (g_id m) m d)"

fun unmet_deps :: "(int, gmodule) dict \<Rightarrow> string list \<Rightarrow> int list \<Rightarrow> unmet list" where
  "unmet_deps mm req [] = []"
| "unmet_deps mm req (d # ds) =
     (case map_of mm d of
        None \<Rightarrow> UnknownModule d # unmet_deps mm req ds
      | Some dep_module \<Rightarrow>
          (if g_status dep_module \<in> Some ` set req then unmet_deps mm req ds
           else UnmetModule dep_module # unmet_deps mm req ds))"

definition check_dependencies_met ::
  "gmodule \<Rightarrow> gmodule list \<Rightarrow> string list option \<Rightarrow> bool \<times> unmet list" where
  "check_dependencies_met m all_modules required =
     (let req = opt_or required [''applied''];
          ds = g_deps_list m
      in if ds = [] then (True, [])
         else (let u = unmet_deps (module_map all_modules []) req ds in (length u = 0, u)))"

lemma unmet_deps_Nil:
  "unmet_deps mm req ds = [] \<longleftrightarrow>
     (\<forall>d \<in> set ds. \<exists>x. map_of mm d = Some x \<and> g_status x \<in> Some ` set req)"
  by (induction ds) (auto split: option.splits)

text \<open>
  The dependency-met check answers true exactly when every dependency is a known module
  whose status is one of the accepted ones (\<^verbatim>\<open>applied\<close> by default).
\<close>

theorem check_dependencies_met_iff:
  "fst (check_dependencies_met m mods req) \<longleftrightarrow>
     (\<forall>d \<in> set (g_deps_list m). \<exists>x. map_of (module_map mods []) d = Some x \<and>
        g_status x \<in> Some ` set (opt_or req [''applied'']))"
  by (auto simp: check_dependencies_met_def Let_def unmet_deps_Nil)

theorem check_dependencies_met_iff_witness:
  "fst (check_dependencies_met (gmod 2 [1]) [(gmod 1 [])\<lparr>g_status := Some ''applied''\<rparr>, gmod 2 [1]] None)"
  by (subst check_dependencies_met_iff) (simp add: gmod_def g_deps_list_def opt_or_def)

end
