(* ===== verification/Execution_Layers.thy ===== *)
theory Execution_Layers
  imports Task_Dispatch Dependency_Layers
begin

text \<open>
  Execution layers and the plan shown before a run: the layered variant of Kahn's algorithm and
  the queries of \<^verbatim>\<open>src/backend/services/dependency_graph_service.py\<close>, and the estimates, the plan
  and the readiness check of \<^verbatim>\<open>src/backend/services/parallel_execution_service.py\<close>. The layers are
  shown to agree with the recursive layer computation of the graph utilities.
\<close>

section \<open>Kahn's algorithm by layers\<close>

text \<open>
  \<^verbatim>\<open>{m.id: m for m in modules}\<close>, the dependencies of a module under an id, and the build loop
  over the ids in the order \<open>ids\<close> of the set's iteration. The two tests of the loop body are
  kept apart; the flag cannot make a difference, since the second test implies the first.
\<close>

definition module_by_id :: "project_module list \<Rightarrow> (int, project_module) dict" where
  "module_by_id ms = fold (\<lambda>m d. dict_set (pr_id m) m d) ms []"

definition mapped_deps :: "(int, project_module) dict \<Rightarrow> int \<Rightarrow> int list" where
  "mapped_deps mm i = dependencies (the (map_of mm i))"

fun count_edges :: "bool \<Rightarrow> int list \<Rightarrow> int \<Rightarrow> int list \<Rightarrow> deps \<times> (int \<Rightarrow> int) \<Rightarrow> deps \<times> (int \<Rightarrow> int)" where
  "count_edges filt ids mid [] st = st"
| "count_edges filt ids mid (dep_id # ds) (dependents, in_degree) =
     (if filt \<and> dep_id \<notin> set ids then count_edges filt ids mid ds (dependents, in_degree)
      else if dep_id \<in> set ids
      then count_edges filt ids mid ds
             (dict_set dep_id (dict_get_or dependents dep_id [] @ [mid]) dependents, in_degree(mid := in_degree mid + 1))
      else count_edges filt ids mid ds (dependents, in_degree))"

definition build_dependents :: "bool \<Rightarrow> (int, project_module) dict \<Rightarrow> int list \<Rightarrow> deps \<times> (int \<Rightarrow> int)" where
  "build_dependents filt mm ids =
     fold (\<lambda>mid st. count_edges filt ids mid (mapped_deps mm mid) st) ids (map (\<lambda>mid. (mid, [])) ids, \<lambda>_. 0)"

text \<open>One layer: as many pops as the queue was long at its start.\<close>

fun process_layer :: "nat \<Rightarrow> deps \<Rightarrow> (int \<Rightarrow> int) \<Rightarrow> int list \<Rightarrow> int list \<Rightarrow> (int \<Rightarrow> int) \<times> int list \<times> int list" where
  "process_layer (Suc n) dependents in_degree (mid # queue) current =
     (case relax (dict_get_or dependents mid []) in_degree queue of
        (in_degree', queue') \<Rightarrow> process_layer n dependents in_degree' queue' (current @ [mid]))"
| "process_layer n dependents in_degree queue current = (in_degree, queue, current)"

function layer_loop :: "deps \<Rightarrow> (int \<Rightarrow> int) \<Rightarrow> int list \<Rightarrow> int list list \<Rightarrow> int list list \<times> (int \<Rightarrow> int)" where
  "layer_loop dependents in_degree [] layers = (layers, in_degree)"
| "layer_loop dependents in_degree (q # qs) layers =
     (case process_layer (length (q # qs)) dependents in_degree (q # qs) [] of
        (in_degree', queue', current) \<Rightarrow> layer_loop dependents in_degree' queue' (layers @ [current]))"
  by pat_completeness auto

lemma relax_queue: "\<exists>added. snd (relax ns deg q) = q @ added \<and> set added \<subseteq> set ns"
proof (induction ns arbitrary: deg q)
  case (Cons n ns)
  let ?deg = "deg(n := deg n - 1)" and ?q = "if deg n - 1 = 0 then q @ [n] else q"
  obtain added where a: "snd (relax ns ?deg ?q) = ?q @ added" "set added \<subseteq> set ns" using Cons.IH by blast
  have "relax (n # ns) deg q = relax ns ?deg ?q" by (simp add: Let_def)
  with a show ?case by (cases "deg n - 1 = 0") (auto intro!: exI [of _ "n # added"])
qed simp

lemma process_layer_size:
  assumes "finite A" and "\<And>mid. set (dict_get_or g mid []) \<subseteq> A"
  shows "process_layer n g deg q cur = (deg', q', cur') \<Longrightarrow>
    length q' + card {m \<in> A. 0 < deg' m} + min n (length q) \<le> length q + card {m \<in> A. 0 < deg m}"
proof (induction n arbitrary: deg q cur)
  case (Suc n)
  show ?case
  proof (cases q)
    case (Cons mid queue)
    obtain d1 q1 where r: "relax (dict_get_or g mid []) deg queue = (d1, q1)" by fastforce
    have "length q1 + card {m \<in> A. 0 < d1 m} = length queue + card {m \<in> A. 0 < deg m}"
      using relax_size [OF assms(1) assms(2), of mid deg queue] r by simp
    moreover have "length queue \<le> length q1"
      using relax_queue [of "dict_get_or g mid []" deg queue] r by auto
    moreover have "process_layer n g d1 q1 (cur @ [mid]) = (deg', q', cur')" using Suc.prems by (simp add: Cons r)
    ultimately show ?thesis using Suc.IH by (fastforce simp: Cons)
  qed (use Suc.prems in simp)
qed simp

termination layer_loop
proof (relation "measure (\<lambda>(g, deg, q, ls). length q + card (positive g deg))", goal_cases)
  case (2 g deg q qs layers deg' r queue' current)
  have sub: "set (dict_get_or g mid []) \<subseteq> set (concat (map snd g))" for mid
    by (force dest: dict_get_or_elem)
  from 2 have "process_layer (length (q # qs)) g deg (q # qs) [] = (deg', queue', current)" by simp
  from process_layer_size [OF _ sub this] show ?case by (simp add: positive_def)
qed simp

text \<open>
  The names in the error are those of the modules whose in-degree stayed positive.
\<close>

definition module_label :: "project_module \<Rightarrow> string" where
  "module_label m = (case library_module m of Some lib \<Rightarrow> lib_name lib | None \<Rightarrow> ''ID:'' @ str_of_int (pr_id m))"

definition kahn_layers ::
  "(int list \<Rightarrow> int list) \<Rightarrow> bool \<Rightarrow> (int, project_module) dict \<Rightarrow> string + project_module list list" where
  "kahn_layers en filt mm =
     (let ids = en (map fst mm)
      in if ids = [] then Inr []
         else let (dependents, in_degree) = build_dependents filt mm ids;
                  (layers, in_degree') = layer_loop dependents in_degree (filter (\<lambda>mid. in_degree mid = 0) ids) []
              in if length (concat layers) < length ids
                 then Inl (''Circular dependency detected among modules: '' @
                        str_join '', '' (sort (map (\<lambda>mid. module_label (the (map_of mm mid)))
                          (filter (\<lambda>mid. in_degree' mid > 0) ids))))
                 else Inr (map (map (\<lambda>mid. the (map_of mm mid))) layers))"

section \<open>The service\<close>

definition project_modules :: "int \<Rightarrow> project_module list \<Rightarrow> project_module list" where
  "project_modules pid ms = filter (\<lambda>m. pr_project_id m = pid) ms"

definition build_layers :: "(int list \<Rightarrow> int list) \<Rightarrow> int \<Rightarrow> project_module list \<Rightarrow> string + project_module list list" where
  "build_layers en pid ms =
     (let modules = filter enabled (project_modules pid ms)
      in if modules = [] then Inr [] else kahn_layers en False (module_by_id modules))"

definition get_execution_order :: "(int list \<Rightarrow> int list) \<Rightarrow> int \<Rightarrow> project_module list \<Rightarrow> string + int list list" where
  "get_execution_order en pid ms = map_sum id (map (map pr_id)) (build_layers en pid ms)"

text \<open>
  The second search of \<^verbatim>\<open>validate_no_cycles\<close>, after the first one raised: it lowers an in-degree
  once per processed module that the dependency list mentions, not once per mention.
\<close>

definition sweep_graph :: "(int, project_module) dict \<Rightarrow> int list \<Rightarrow> deps" where
  "sweep_graph mm ids =
     map (\<lambda>mid. (mid, filter (\<lambda>other. mapped_deps mm other \<noteq> [] \<and> mid \<in> set (mapped_deps mm other)) ids)) ids"

function sweep_loop :: "deps \<Rightarrow> (int \<Rightarrow> int) \<Rightarrow> int list \<Rightarrow> (int \<Rightarrow> int)" where
  "sweep_loop g in_degree [] = in_degree"
| "sweep_loop g in_degree (mid # queue) =
     (case relax (dict_get_or g mid []) in_degree queue of (in_degree', queue') \<Rightarrow> sweep_loop g in_degree' queue')"
  by pat_completeness auto

termination sweep_loop
proof (relation "measure (\<lambda>(g, deg, q). length q + card (positive g deg))", goal_cases)
  case (2 g deg mid queue x queue')
  have "set (dict_get_or g mid []) \<subseteq> set (concat (map snd g))"
    by (force dest: dict_get_or_elem)
  note size = relax_size [OF _ this, of deg queue]
  from 2 have "relax (dict_get_or g mid []) deg queue = (x, queue')" by (rule sym)
  with size show ?case by (simp add: positive_def)
qed simp

definition in_degrees :: "(int, project_module) dict \<Rightarrow> int list \<Rightarrow> int \<Rightarrow> int" where
  "in_degrees mm ids mid = (if mid \<in> set ids then int (length (filter (\<lambda>d. d \<in> set ids) (mapped_deps mm mid))) else 0)"

definition validate_no_cycles :: "(int list \<Rightarrow> int list) \<Rightarrow> int \<Rightarrow> project_module list \<Rightarrow> bool \<times> int list option" where
  "validate_no_cycles en pid ms =
     (let modules = project_modules pid ms
      in if modules = [] then (True, None)
         else let mm = module_by_id modules; ids = en (map fst mm)
              in case kahn_layers en False mm of
                   Inr _ \<Rightarrow> (True, None)
                 | Inl _ \<Rightarrow>
                     let deg = sweep_loop (sweep_graph mm ids) (in_degrees mm ids) (filter (\<lambda>mid. in_degrees mm ids mid = 0) ids)
                     in (False, Some (filter (\<lambda>mid. deg mid > 0) ids)))"

record graph_stats =
  gs_error :: "string option"
  gs_total_modules :: nat
  gs_total_layers :: nat
  max_parallel_modules :: nat
  avg_modules_per_layer :: rat
  modules_with_no_deps :: nat
  modules_with_deps :: nat

text \<open>
  Python's \<^verbatim>\<open>round(x, digits)\<close>: to the nearest multiple, to the even one in the middle. The quotients
  themselves are exact rationals here, floats in the code.
\<close>

definition round_half_even :: "rat \<Rightarrow> int" where
  "round_half_even x =
     (let k = \<lfloor>x\<rfloor>; d = x - of_int k in if d < 1 / 2 \<or> d = 1 / 2 \<and> even k then k else k + 1)"

definition round_digits :: "nat \<Rightarrow> rat \<Rightarrow> rat" where
  "round_digits n x = of_int (round_half_even (x * 10 ^ n)) / 10 ^ n"

definition get_dependency_graph_stats :: "(int list \<Rightarrow> int list) \<Rightarrow> int \<Rightarrow> project_module list \<Rightarrow> graph_stats" where
  "get_dependency_graph_stats en pid ms =
     (let none = \<lparr>gs_error = None, gs_total_modules = 0, gs_total_layers = 0, max_parallel_modules = 0,
                  avg_modules_per_layer = 0, modules_with_no_deps = 0, modules_with_deps = 0\<rparr>
      in case build_layers en pid ms of
           Inl err \<Rightarrow> none\<lparr>gs_error := Some err\<rparr>
         | Inr [] \<Rightarrow> none
         | Inr layers \<Rightarrow>
             let total = sum_list (map length layers); no_deps = length (hd layers)
             in \<lparr>gs_error = None, gs_total_modules = total, gs_total_layers = length layers,
                 max_parallel_modules = Max (set (map length layers)),
                 avg_modules_per_layer = round_digits 2 (of_nat total / of_nat (length layers)),
                 modules_with_no_deps = no_deps, modules_with_deps = total - no_deps\<rparr>)"

text \<open>
  The transitive dependencies: a work list popped from its end. \<^verbatim>\<open>module_id\<close> is looked up over all
  projects.
\<close>

definition row_deps :: "project_module list \<Rightarrow> int \<Rightarrow> int list" where
  "row_deps ms i = (case find (\<lambda>m. pr_id m = i) ms of None \<Rightarrow> [] | Some m \<Rightarrow> dependencies m)"

function visit_deps :: "project_module list \<Rightarrow> int list \<Rightarrow> int list \<Rightarrow> int list" where
  "visit_deps ms [] all_deps = all_deps"
| "visit_deps ms (d # ds) all_deps =
     (let rest = butlast (d # ds); dep_id = last (d # ds)
      in if dep_id \<in> set all_deps then visit_deps ms rest all_deps
         else visit_deps ms (rest @ row_deps ms dep_id) (all_deps @ [dep_id]))"
  by pat_completeness auto

definition visit_universe :: "project_module list \<Rightarrow> int list \<Rightarrow> int set" where
  "visit_universe ms todo = set (concat (map dependencies ms)) \<union> set todo"

lemma row_deps_universe: "set (row_deps ms i) \<subseteq> set (concat (map dependencies ms))"
  by (cases "find (\<lambda>m. pr_id m = i) ms") (auto simp: row_deps_def dest!: find_SomeD)

termination visit_deps
proof (relation "measures [\<lambda>(ms, todo, done). card (visit_universe ms todo - set done), \<lambda>(ms, todo, done). length todo]",
    goal_cases)
  case (2 ms d ds all_deps rest dep_id)
  have "card (visit_universe ms (butlast (d # ds)) - set all_deps) \<le> card (visit_universe ms (d # ds) - set all_deps)"
    by (rule card_mono) (auto simp: visit_universe_def dest: in_set_butlastD split: if_splits)
  then show ?case using 2 by auto
next
  case (3 ms d ds all_deps rest dep_id)
  have "card (visit_universe ms (butlast (d # ds) @ row_deps ms dep_id) - set (all_deps @ [dep_id])) <
      card (visit_universe ms (d # ds) - set all_deps)"
  proof (rule psubset_card_mono)
    have "set (butlast (d # ds)) \<subseteq> set (d # ds)" by (meson in_set_butlastD subsetI)
    moreover have "dep_id \<in> set (d # ds)" using 3 by (simp only: last_in_set) simp
    ultimately show "visit_universe ms (butlast (d # ds) @ row_deps ms dep_id) - set (all_deps @ [dep_id]) \<subset>
        visit_universe ms (d # ds) - set all_deps"
      using 3(3) row_deps_universe [of ms dep_id] unfolding visit_universe_def by auto
  qed (simp add: visit_universe_def)
  then show ?case using 3 by simp
qed simp

definition get_module_dependencies_recursive :: "project_module list \<Rightarrow> int \<Rightarrow> int list" where
  "get_module_dependencies_recursive ms i = visit_deps ms (row_deps ms i) []"

definition get_reverse_dependencies :: "int \<Rightarrow> int \<Rightarrow> project_module list \<Rightarrow> project_module list" where
  "get_reverse_dependencies i pid ms =
     filter (\<lambda>m. dependencies m \<noteq> [] \<and> i \<in> set (dependencies m)) (project_modules pid ms)"

definition build_layers_for_modules ::
  "(int list \<Rightarrow> int list) \<Rightarrow> project_module list \<Rightarrow> bool \<Rightarrow> string + project_module list list" where
  "build_layers_for_modules en modules reverse =
     (if modules = [] then Inr []
      else map_sum id (if reverse then rev else id) (kahn_layers en True (module_by_id modules)))"

section \<open>The layers are the longest-path layers\<close>

text \<open>The dependency dictionary the working set defines, restricted to the set.\<close>

definition working_deps :: "(int, project_module) dict \<Rightarrow> int list \<Rightarrow> deps" where
  "working_deps mm ids = map (\<lambda>i. (i, filter (\<lambda>d. d \<in> set ids) (mapped_deps mm i))) ids"

lemma count_edges_build: "count_edges filt ids mid ds st = build_edges ids mid ds st"
proof (induction ds arbitrary: st)
  case (Cons d ds)
  then show ?case by (cases st) auto
qed simp

lemma build_graph_fold:
  "set xs \<subseteq> set ids \<Longrightarrow> fold (\<lambda>mid st. count_edges filt ids mid (f mid) st) xs st = build_graph ids (map (\<lambda>i. (i, f i)) xs) st"
  by (induction xs arbitrary: st) (simp_all add: count_edges_build)

lemma dict_get_or_empty: "dict_get_or (map (\<lambda>i. (i, [])) ids) d [] = []"
  by (auto simp: dict_get_or_def split: option.splits dest!: map_of_SomeD)

lemma build_dependents_edges:
  assumes "build_dependents filt mm ids = (g, deg)"
  defines "es \<equiv> edge_list ids (map (\<lambda>i. (i, mapped_deps mm i)) ids)"
  shows "\<And>d. dict_get_or g d [] = map snd (filter (\<lambda>e. fst e = d) es)" "\<And>m. deg m = int (length (pending es [] m))"
  using build_graph_records [of ids "map (\<lambda>i. (i, mapped_deps mm i)) ids" "(map (\<lambda>mid. (mid, [])) ids, \<lambda>_. 0)"] assms
  by (auto simp: build_dependents_def build_graph_fold [OF subset_refl] records_def dict_get_or_empty pending_def)

lemma deps_of_working:
  "distinct ids \<Longrightarrow> deps_of (working_deps mm ids) i = (if i \<in> set ids then filter (\<lambda>d. d \<in> set ids) (mapped_deps mm i) else [])"
  by (auto simp: deps_of_def dict_get_or_def working_deps_def map_of_map_restrict restrict_map_def
      map_of_eq_None_iff split: option.splits)

lemma working_edges:
  assumes "distinct ids"
  shows "(d, m) \<in> set (edge_list ids (map (\<lambda>i. (i, mapped_deps mm i)) ids)) \<longleftrightarrow> d \<in> set (deps_of (working_deps mm ids) m)"
  by (auto simp: set_edge_list deps_of_working [OF assms])

lemma process_layer_inv:
  assumes g: "\<And>d. dict_get_or g d [] = map snd (filter (\<lambda>e. fst e = d) es)" and es: "\<forall>(d, m) \<in> set es. m \<in> set ids"
  shows "kahn_inv ids es deg (Q @ A) done \<Longrightarrow> \<forall>m \<in> set A. \<exists>d \<in> set cur. (d, m) \<in> set es \<Longrightarrow>
    \<exists>deg' A'. process_layer (length Q) g deg (Q @ A) cur = (deg', A', cur @ Q) \<and>
      kahn_inv ids es deg' A' (done @ Q) \<and> (\<forall>m \<in> set A'. \<exists>d \<in> set (cur @ Q). (d, m) \<in> set es)"
proof (induction Q arbitrary: deg A "done" cur)
  case (Cons x Q)
  obtain deg1 q1 where r: "relax (dict_get_or g x []) deg (Q @ A) = (deg1, q1)" by fastforce
  obtain added where q1: "q1 = (Q @ A) @ added" and added: "set added \<subseteq> set (dict_get_or g x [])"
    using relax_queue [of "dict_get_or g x []" deg "Q @ A"] r by auto
  have inv1: "kahn_inv ids es deg1 (Q @ (A @ added)) (done @ [x])"
    using kahn_inv_step [OF _ es, of deg x "Q @ A" "done" deg1 q1] Cons.prems(1) r q1 by (simp add: g)
  have "\<forall>m \<in> set (A @ added). \<exists>d \<in> set (cur @ [x]). (d, m) \<in> set es"
    using Cons.prems(2) added by (auto simp: g)
  from Cons.IH [OF inv1 this] r q1 show ?case by simp
qed simp

text \<open>
  What holds of the layers emitted so far: they partition the emitted modules, and each module
  of a layer has its dependencies in earlier layers, one of them in the layer just before.
\<close>

definition layered :: "(int \<times> int) list \<Rightarrow> int list list \<Rightarrow> bool" where
  "layered es layers \<longleftrightarrow> distinct (concat layers) \<and>
     (\<forall>l < length layers. \<forall>m \<in> set (layers ! l).
        (\<forall>d. (d, m) \<in> set es \<longrightarrow> d \<in> set (concat (take l layers))) \<and>
        (0 < l \<longrightarrow> (\<exists>d \<in> set (layers ! (l - 1)). (d, m) \<in> set es)))"

definition front :: "(int \<times> int) list \<Rightarrow> int list list \<Rightarrow> int list \<Rightarrow> bool" where
  "front es layers queue \<longleftrightarrow>
     (\<forall>m \<in> set queue. (layers \<noteq> [] \<longrightarrow> (\<exists>d \<in> set (last layers). (d, m) \<in> set es)))"

lemma layered_snoc:
  assumes "layered es layers" and "kahn_inv ids es deg queue (concat layers)" and "front es layers queue"
  shows "layered es (layers @ [queue])"
proof -
  have "distinct (concat layers @ queue)" using assms(2) by (simp add: kahn_inv_def)
  moreover have "pending es (concat layers) m = []" if "m \<in> set queue" for m
    using assms(2) that unfolding kahn_inv_def by (metis Un_iff length_0_conv of_nat_eq_0_iff set_append)
  then have "d \<in> set (concat layers)" if "m \<in> set queue" "(d, m) \<in> set es" for d m
    using that pending_Nil by blast
  ultimately show ?thesis
    using assms(1,3) by (auto simp: layered_def front_def nth_append less_Suc_eq last_conv_nth)
qed

lemma layer_loop_inv:
  assumes g: "\<And>d. dict_get_or g d [] = map snd (filter (\<lambda>e. fst e = d) es)" and es: "\<forall>(d, m) \<in> set es. m \<in> set ids"
  shows "kahn_inv ids es deg queue (concat layers) \<Longrightarrow> layered es layers \<Longrightarrow> front es layers queue \<Longrightarrow> [] \<notin> set layers \<Longrightarrow>
    \<exists>layers' deg'. layer_loop g deg queue layers = (layers', deg') \<and> kahn_inv ids es deg' [] (concat layers') \<and>
      layered es layers' \<and> [] \<notin> set layers'"
  using g
proof (induction g deg queue layers rule: layer_loop.induct)
  case (2 g deg q qs layers)
  obtain deg' A' where p: "process_layer (length (q # qs)) g deg (q # qs) [] = (deg', A', q # qs)"
    and inv: "kahn_inv ids es deg' A' (concat layers @ q # qs)"
    and fr: "\<forall>m \<in> set A'. \<exists>d \<in> set (q # qs). (d, m) \<in> set es"
    using process_layer_inv [OF "2.prems"(5) es, of deg "q # qs" "[]" "concat layers" "[]"] "2.prems"(1) by auto
  have "layered es (layers @ [q # qs])" by (rule layered_snoc [OF "2.prems"(2,1,3)])
  moreover have "front es (layers @ [q # qs]) A'" using fr by (simp add: front_def)
  moreover have "[] \<notin> set (layers @ [q # qs])" using "2.prems"(4) by simp
  ultimately show ?case using "2.IH" [OF p [symmetric] refl] inv "2.prems"(5) p by simp
qed auto

fun layer_index :: "'a list list \<Rightarrow> 'a \<Rightarrow> nat option" where
  "layer_index [] m = None"
| "layer_index (l # ls) m = (if m \<in> set l then Some 0 else map_option Suc (layer_index ls m))"

lemma layer_index_Some:
  "distinct (concat layers) \<Longrightarrow> layer_index layers m = Some l \<longleftrightarrow> l < length layers \<and> m \<in> set (layers ! l)"
proof (induction layers arbitrary: l)
  case (Cons x layers)
  have "m \<notin> set (layers ! k)" if "m \<in> set x" "k < length layers" for k
    using Cons.prems that by (metis IntI UN_I concat.simps(2) distinct_append emptyE nth_mem set_concat)
  with Cons show ?case by (cases l) auto
qed simp

lemma layer_index_dom: "dom (layer_index layers) = set (concat layers)"
  by (induction layers) (auto simp: dom_def split: if_splits)

lemma in_concat_nth: "x \<in> set (concat ls) \<longleftrightarrow> (\<exists>k < length ls. x \<in> set (ls ! k))"
  by (metis UN_iff in_set_conv_nth set_concat)

lemma in_concat_take: "x \<in> set (concat (take l ls)) \<longleftrightarrow> (\<exists>k < l. k < length ls \<and> x \<in> set (ls ! k))"
  unfolding in_concat_nth by auto

lemma layered_layers_ok:
  assumes lay: "layered es layers" and es: "\<And>d m. (d, m) \<in> set es \<longleftrightarrow> d \<in> set (deps_of deps m)"
  shows "layers_ok deps (layer_index layers)"
  unfolding layers_ok_def
proof (intro allI impI)
  fix m l assume m: "layer_index layers m = Some l"
  have dist: "distinct (concat layers)" using lay by (simp add: layered_def)
  note idx = layer_index_Some [OF dist]
  have l: "l < length layers" "m \<in> set (layers ! l)" using m idx by auto
  have below: "\<exists>k < l. layer_index layers d = Some k" if "d \<in> set (deps_of deps m)" for d
  proof -
    have "d \<in> set (concat (take l layers))" using lay l that es by (auto simp: layered_def)
    then obtain k where "k < l" "k < length layers" "d \<in> set (layers ! k)" unfolding in_concat_take by blast
    then show ?thesis using idx by blast
  qed
  show "set (deps_of deps m) \<subseteq> dom (layer_index layers) \<and>
    l = (if deps_of deps m = [] then 0 else Suc (Max ((\<lambda>d. the (layer_index layers d)) ` set (deps_of deps m))))"
  proof (cases "l = 0")
    case True
    then show ?thesis using below by (cases "deps_of deps m") auto
  next
    case False
    then obtain d where d: "d \<in> set (layers ! (l - 1))" "d \<in> set (deps_of deps m)"
      using lay l es False unfolding layered_def by (metis gr0I)
    have "l - 1 < length layers" using l(1) by simp
    then have "layer_index layers d = Some (l - 1)" using idx d(1) by blast
    then have "l - 1 \<in> (\<lambda>d. the (layer_index layers d)) ` set (deps_of deps m)" using d(2) by force
    moreover have "x \<le> l - 1" if "x \<in> (\<lambda>d. the (layer_index layers d)) ` set (deps_of deps m)" for x
      using that below by fastforce
    ultimately have "Max ((\<lambda>d. the (layer_index layers d)) ` set (deps_of deps m)) = l - 1" by (intro Max_eqI) auto
    then show ?thesis using False below d(2) by (cases "deps_of deps m") fastforce+
  qed
qed

lemma layers_ok_unique:
  assumes "layers_ok deps L" and "layers_ok deps L'" and "m \<in> dom L" and "m \<in> dom L'"
  shows "L m = L' m"
proof -
  have "L m = Some l \<Longrightarrow> m \<in> dom L' \<Longrightarrow> L' m = Some l" for l m
  proof (induction l arbitrary: m rule: less_induct)
    case (less l)
    obtain l' where l': "L' m = Some l'" using less.prems(2) by blast
    have sub: "set (deps_of deps m) \<subseteq> dom L" "set (deps_of deps m) \<subseteq> dom L'"
      using assms(1,2) less.prems(1) l' by (auto simp: layers_ok_def)
    have eq: "the (L d) = the (L' d)" if d: "d \<in> set (deps_of deps m)" for d
    proof -
      obtain k where k: "L d = Some k" using subsetD [OF sub(1) d] by blast
      have "k \<le> Max ((\<lambda>d. the (L d)) ` set (deps_of deps m))" using d k by (intro Max_ge) force+
      then have "k < l"
        using assms(1) [unfolded layers_ok_def, rule_format, OF less.prems(1)] d by (cases "deps_of deps m") simp_all
      then show ?thesis using less.IH k sub(2) d by fastforce
    qed
    have "(\<lambda>d. the (L d)) ` set (deps_of deps m) = (\<lambda>d. the (L' d)) ` set (deps_of deps m)"
      using eq by (rule image_cong [OF refl])
    then have "l = l'"
      using assms(1) [unfolded layers_ok_def, rule_format, OF less.prems(1)]
        assms(2) [unfolded layers_ok_def, rule_format, OF l'] by simp
    then show ?case using l' by simp
  qed
  then show ?thesis using assms(3,4) by fastforce
qed

lemma layered_acyclic:
  assumes "layered es layers" and "\<forall>(d, m) \<in> set es. m \<in> set (concat layers)"
  shows "acyclic (set es)"
proof (rule acyclicI_order [where f = "\<lambda>m. - int (the (layer_index layers m))"])
  fix d m assume e: "(d, m) \<in> set es"
  have dist: "distinct (concat layers)" using assms(1) by (simp add: layered_def)
  obtain l where l: "l < length layers" "m \<in> set (layers ! l)" using e assms(2) in_concat_nth [of m layers] by blast
  then have "d \<in> set (concat (take l layers))" using e assms(1) by (auto simp: layered_def)
  then obtain k where "k < l" "k < length layers" "d \<in> set (layers ! k)" unfolding in_concat_take by blast
  then show "- int (the (layer_index layers m)) < - int (the (layer_index layers d))"
    using l layer_index_Some [OF dist] by (metis of_nat_less_iff neg_less_iff_less option.sel)
qed

lemma kahn_layers_result:
  assumes en: "enumerates en" and ids: "ids = en (map fst mm)" and deps: "deps = working_deps mm ids"
  shows "(\<exists>err. kahn_layers en filt mm = Inl err) \<and> \<not> acyclic (edges deps) \<or>
    (\<exists>layers. kahn_layers en filt mm = Inr (map (map (\<lambda>i. the (map_of mm i))) layers) \<and> acyclic (edges deps) \<and>
       distinct (concat layers) \<and> set (concat layers) = set ids \<and> [] \<notin> set layers \<and> layers_ok deps (layer_index layers))"
proof (cases "ids = []")
  case True
  then have "edges deps = {}" by (simp add: deps edges_def working_deps_def deps_of_def dict_get_or_def)
  then show ?thesis using True
    by (intro disjI2 exI [of _ "[]"]) (simp add: kahn_layers_def ids layers_ok_def acyclic_def)
next
  case False
  have dist: "distinct ids" using enumerates_distinct [OF en] by (simp add: ids)
  obtain g deg where gd: "build_dependents filt mm ids = (g, deg)" by fastforce
  define es where "es = edge_list ids (map (\<lambda>i. (i, mapped_deps mm i)) ids)"
  note b = build_dependents_edges [OF gd, folded es_def]
  have es: "(d, m) \<in> set es \<longleftrightarrow> d \<in> set (deps_of deps m)" for d m
    unfolding es_def deps by (rule working_edges [OF dist])
  have within: "d \<in> set ids \<and> m \<in> set ids" if "(d, m) \<in> set es" for d m
    using that by (auto simp: es deps deps_of_working [OF dist] split: if_splits)
  have inv0: "kahn_inv ids es deg (filter (\<lambda>mid. deg mid = 0) ids) (concat [])"
    using b(2) dist by (simp add: kahn_inv_def ordered_def)
  have targets: "\<forall>(d, m) \<in> set es. m \<in> set ids" using within by blast
  have start: "layered es []" "front es [] (filter (\<lambda>mid. deg mid = 0) ids)" "[] \<notin> set []"
    by (simp_all add: layered_def front_def)
  obtain layers deg' where ll: "layer_loop g deg (filter (\<lambda>mid. deg mid = 0) ids) [] = (layers, deg')"
    and inv: "kahn_inv ids es deg' [] (concat layers)" and lay: "layered es layers" and ne: "[] \<notin> set layers"
    using layer_loop_inv [OF b(1) targets inv0 start] by auto
  have sub: "distinct (concat layers)" "set (concat layers) \<subseteq> set ids" using inv by (auto simp: kahn_inv_def)
  have eq: "set es = (edges deps)\<inverse>" by (auto simp: es edges_def)
  have complete: "set (concat layers) = set ids" if "acyclic (edges deps)"
    using kahn_complete [OF inv] that within by (simp add: eq) blast
  have cyc: "acyclic (edges deps)" if "set (concat layers) = set ids"
    using layered_acyclic [OF lay] that within by (simp add: eq) blast
  have len: "length (concat layers) < length ids \<longleftrightarrow> set (concat layers) \<noteq> set ids"
    using sub dist by (metis card_seteq distinct_card finite_set card_mono linorder_not_less)
  show ?thesis
  proof (cases "acyclic (edges deps)")
    case True
    then have "kahn_layers en filt mm = Inr (map (map (\<lambda>i. the (map_of mm i))) layers)"
      using complete len False by (simp add: kahn_layers_def ids [symmetric] gd ll)
    then show ?thesis using True complete sub(1) ne layered_layers_ok [OF lay es] by blast
  next
    case cyclic: False
    then have "set (concat layers) \<noteq> set ids" using cyc by blast
    then have "\<exists>err. kahn_layers en filt mm = Inl err"
      using len False by (simp add: kahn_layers_def ids [symmetric] gd ll)
    then show ?thesis using cyclic by blast
  qed
qed

section \<open>Agreement with the graph utilities\<close>

text \<open>The dictionary that the routes hand to the graph utilities for a module row.\<close>

definition as_gmodule :: "project_module \<Rightarrow> gmodule" where
  "as_gmodule m = \<lparr>g_id = pr_id m, g_project_id = Some (pr_project_id m), g_name = map_option lib_name (library_module m),
     g_status = Some (status_value (status m)), g_path = path_in_project m, g_order = Some (deployment_order m),
     g_deps = Some (dependencies m)\<rparr>"

lemma module_by_id_fold:
  "distinct (map pr_id ms) \<Longrightarrow> pr_id ` set ms \<inter> fst ` set d = {} \<Longrightarrow>
     fold (\<lambda>m d. dict_set (pr_id m) m d) ms d = d @ map (\<lambda>m. (pr_id m, m)) ms"
proof (induction ms arbitrary: d)
  case (Cons m ms)
  have "dict_set (pr_id m) m d = d @ [(pr_id m, m)]" using Cons.prems(2) by (simp add: dict_set_new)
  then show ?case using Cons by auto
qed simp

lemma module_by_id_distinct: "distinct (map pr_id ms) \<Longrightarrow> module_by_id ms = map (\<lambda>m. (pr_id m, m)) ms"
  using module_by_id_fold [of ms "[]"] by (simp add: module_by_id_def)

lemma graph_rows_distinct:
  "distinct (map g_id ms) \<Longrightarrow> g_id ` set ms \<inter> fst ` set d = {} \<Longrightarrow>
     graph_rows ids ms d = d @ map (\<lambda>m. (g_id m, filter (\<lambda>i. i \<in> set ids) (g_deps_list m))) ms"
proof (induction ms arbitrary: d)
  case (Cons m ms)
  have "dict_set (g_id m) (filter (\<lambda>i. i \<in> set ids) (g_deps_list m)) d =
      d @ [(g_id m, filter (\<lambda>i. i \<in> set ids) (g_deps_list m))]" using Cons.prems(2) by (simp add: dict_set_new)
  then show ?case using Cons by auto
qed simp

lemma working_deps_graph:
  assumes dist: "distinct (map pr_id ms)" and ids: "distinct ids" "set ids = pr_id ` set ms" and ids': "set ids' = set ids"
  shows "deps_of (graph_rows ids' (map as_gmodule ms) []) = deps_of (working_deps (module_by_id ms) ids)"
proof
  fix i
  have rows: "graph_rows ids' (map as_gmodule ms) [] = map (\<lambda>m. (pr_id m, filter (\<lambda>d. d \<in> set ids) (dependencies m))) ms"
    using graph_rows_distinct [of "map as_gmodule ms" "[]" ids'] dist
    by (simp add: comp_def as_gmodule_def g_deps_list_def ids')
  show "deps_of (graph_rows ids' (map as_gmodule ms) []) i = deps_of (working_deps (module_by_id ms) ids) i"
  proof (cases "i \<in> set ids")
    case True
    then obtain m where m: "m \<in> set ms" "i = pr_id m" using ids(2) by auto
    have "deps_of (graph_rows ids' (map as_gmodule ms) []) i = filter (\<lambda>d. d \<in> set ids) (dependencies m)"
      by (simp add: rows deps_of_def dict_get_or_def m(2) map_of_map_key [OF dist m(1)])
    then show ?thesis using True
      by (simp add: deps_of_working [OF ids(1)] mapped_deps_def module_by_id_distinct [OF dist] m(2)
          map_of_map_key [OF dist m(1)])
  next
    case False
    then have "map_of (map (\<lambda>m. (pr_id m, filter (\<lambda>d. d \<in> set ids) (dependencies m))) ms) i = None"
      by (auto simp: map_of_eq_None_iff ids(2))
    then have "deps_of (graph_rows ids' (map as_gmodule ms) []) i = []" by (simp add: rows deps_of_def dict_get_or_def)
    then show ?thesis using False by (simp add: deps_of_working [OF ids(1)])
  qed
qed

lemma module_layers_ids:
  assumes "distinct (map pr_id ms)" and "set (concat layers) \<subseteq> pr_id ` set ms"
  shows "map (map pr_id) (map (map (\<lambda>i. the (map_of (module_by_id ms) i))) layers) = layers"
proof -
  have "pr_id (the (map_of (module_by_id ms) i)) = i" if "i \<in> pr_id ` set ms" for i
    using that map_of_map_key [OF assms(1), of _ "\<lambda>x. x"] by (auto simp: module_by_id_distinct [OF assms(1)])
  then have "map (\<lambda>i. pr_id (the (map_of (module_by_id ms) i))) l = l" if "l \<in> set layers" for l
    using assms(2) that by (intro map_idI) auto
  then show ?thesis by (simp add: comp_def map_idI)
qed

lemma execution_order_total:
  assumes en: "enumerates en" and dist: "distinct (map pr_id ms)"
    and ms: "mods = filter enabled (project_modules pid ms)" and g: "get_dependency_graph en' (map as_gmodule mods) = Some g"
    and en': "enumerates en'"
  shows "case get_execution_order en pid ms of
      Inl err \<Rightarrow> dg_has_cycle g
    | Inr layers \<Rightarrow> \<not> dg_has_cycle g \<and> distinct (concat layers) \<and> set (concat layers) = pr_id ` set mods \<and>
        [] \<notin> set layers \<and> layer_index layers = map_of (dg_layers g)"
proof -
  have dmods: "distinct (map pr_id mods)" using dist by (simp add: ms project_modules_def distinct_map_filter)
  define ids where "ids = en (map fst (module_by_id mods))"
  define deps where "deps = working_deps (module_by_id mods) ids"
  define gdeps where "gdeps = graph_rows (en' (map g_id (map as_gmodule mods))) (map as_gmodule mods) []"
  have ids: "distinct ids" "set ids = pr_id ` set mods"
    using enumerates_set [OF en] enumerates_distinct [OF en] by (auto simp: ids_def module_by_id_distinct [OF dmods] comp_def)
  have same: "deps_of gdeps = deps_of deps" unfolding gdeps_def deps_def
    by (rule working_deps_graph [OF dmods ids]) (simp add: enumerates_set [OF en'] ids as_gmodule_def image_image)
  have edges: "edges gdeps = edges deps" by (simp add: edges_def same)
  have ok: "layers_ok gdeps L \<longleftrightarrow> layers_ok deps L" for L by (simp add: layers_ok_def same)
  have gids: "g_id ` set (map as_gmodule mods) = pr_id ` set mods" by (simp add: as_gmodule_def image_image)
  have G: "dg_has_cycle g \<longleftrightarrow> \<not> acyclic (edges deps)"
    "\<not> dg_has_cycle g \<Longrightarrow> layers_ok deps (map_of (dg_layers g)) \<and> dom (map_of (dg_layers g)) = pr_id ` set mods"
    using dependency_graph_total [OF en', of "map as_gmodule mods"] unfolding g Let_def gdeps_def [symmetric] edges ok gids
    by auto
  show ?thesis
  proof (cases "mods = []")
    case True
    then have "acyclic (edges deps)"
      by (simp add: deps_def ids_def module_by_id_def edges_def working_deps_def deps_of_def dict_get_or_def acyclic_def
          enumerates_set [OF en, of "[]", simplified])
    then show ?thesis using True G by (auto simp: get_execution_order_def build_layers_def ms [symmetric])
  next
    case False
    have bl: "build_layers en pid ms = kahn_layers en False (module_by_id mods)"
      using False by (simp add: build_layers_def ms [symmetric])
    from kahn_layers_result [OF en ids_def deps_def, of False] show ?thesis
    proof (elim disjE conjE exE)
      fix err assume "kahn_layers en False (module_by_id mods) = Inl err" "\<not> acyclic (edges deps)"
      then show ?thesis using G by (simp add: get_execution_order_def bl)
    next
      fix layers assume k: "kahn_layers en False (module_by_id mods) = Inr (map (map (\<lambda>i. the (map_of (module_by_id mods) i))) layers)"
        and ac: "acyclic (edges deps)" and L: "distinct (concat layers)" "set (concat layers) = set ids" "[] \<notin> set layers"
          "layers_ok deps (layer_index layers)"
      have "get_execution_order en pid ms = Inr layers"
        using module_layers_ids [OF dmods, of layers] L(2) ids(2) by (simp add: get_execution_order_def bl k)
      moreover have "layer_index layers = map_of (dg_layers g)"
        using layers_ok_unique [OF L(4)] G ac layer_index_dom [of layers] L(2) ids(2) by (intro ext) (metis domIff)
      ultimately show ?thesis using G ac L ids(2) by simp
    qed
  qed
qed


definition demo_modules :: "project_module list" where
  "demo_modules = [demo_pm 1 [], demo_pm 2 [1], demo_pm 3 [1, 9], demo_pm 4 [2, 3], (demo_pm 5 [5])\<lparr>enabled := False\<rparr>]"


section \<open>The execution plan\<close>

definition DEFAULT_TIME_ESTIMATES :: "(string, int) dict" where
  "DEFAULT_TIME_ESTIMATES = [(''vpc'', 5), (''security'', 3), (''eks'', 15), (''rds'', 10), (''storage'', 7),
     (''gateway'', 7), (''route'', 2), (''policy'', 2), (''default'', 5)]"

text \<open>
  \<^verbatim>\<open>int(declared)\<close> truncates, so a declared estimate below one minute is zero.
\<close>

definition name_estimate :: "string \<Rightarrow> int" where
  "name_estimate module_name =
     (case map_of DEFAULT_TIME_ESTIMATES module_name of
        Some t \<Rightarrow> t
      | None \<Rightarrow> (case find (\<lambda>(key, time). str_contains key module_name) DEFAULT_TIME_ESTIMATES of
            Some (key, time) \<Rightarrow> time
          | None \<Rightarrow> dict_get_or DEFAULT_TIME_ESTIMATES ''default'' 0))"

definition get_module_time_estimate :: "project_module \<Rightarrow> int" where
  "get_module_time_estimate m =
     (case library_module m of
        None \<Rightarrow> dict_get_or DEFAULT_TIME_ESTIMATES ''default'' 0
      | Some lib \<Rightarrow> (case Option.bind (manifest lib) declared_minutes of
            Some declared \<Rightarrow> if declared > 0 then \<lfloor>declared\<rfloor> else name_estimate (str_lower (lib_name lib))
          | None \<Rightarrow> name_estimate (str_lower (lib_name lib))))"

record plan_module =
  pl_id :: int
  pl_name :: string
  pl_path :: string
  pl_minutes :: int
  pl_status :: module_status

record plan_layer =
  layer_no :: nat
  layer_modules :: "plan_module list"
  module_count :: nat
  layer_minutes :: int
  can_run_parallel :: bool

record execution_plan =
  plan_layers :: "plan_layer list"
  total_layers :: nat
  total_modules :: nat
  sequential_minutes :: int
  parallel_minutes :: int
  savings_minutes :: int
  savings_percent :: rat
  parallelization_factor :: rat

text \<open>
  The three shapes of the returned dictionary: with an \<^verbatim>\<open>error\<close>, the one without layers, which has
  no \<^verbatim>\<open>total_modules\<close> key, and the full one.
\<close>

datatype plan_result = PlanError string | PlanEmpty | Plan execution_plan

definition plan_module_of :: "project_module \<Rightarrow> plan_module" where
  "plan_module_of m =
     \<lparr>pl_id = pr_id m,
      pl_name = (case library_module m of Some lib \<Rightarrow> lib_name lib | None \<Rightarrow> ''Module '' @ str_of_int (pr_id m)),
      pl_path = (case library_module m of Some lib \<Rightarrow> lib_path lib | None \<Rightarrow> ''''),
      pl_minutes = get_module_time_estimate m, pl_status = status m\<rparr>"

definition layer_max_time :: "project_module list \<Rightarrow> int" where
  "layer_max_time ms = fold (\<lambda>m t. max t (get_module_time_estimate m)) ms 0"

definition plan_layer_of :: "nat \<Rightarrow> project_module list \<Rightarrow> plan_layer" where
  "plan_layer_of idx ms =
     \<lparr>layer_no = idx, layer_modules = map plan_module_of ms, module_count = length ms,
      layer_minutes = layer_max_time ms, can_run_parallel = (length ms > 1)\<rparr>"

definition plan_of :: "project_module list list \<Rightarrow> execution_plan" where
  "plan_of layers =
     (let sequential_total = sum_list (map get_module_time_estimate (concat layers));
          parallel_total = sum_list (map layer_max_time layers)
      in \<lparr>plan_layers = map (\<lambda>(i, l). plan_layer_of i l) (enumerate 0 layers), total_layers = length layers,
          total_modules = sum_list (map length layers), sequential_minutes = sequential_total,
          parallel_minutes = parallel_total,
          savings_minutes = (if sequential_total > 0 then sequential_total - parallel_total else 0),
          savings_percent = (if sequential_total > 0
            then round_digits 1 (of_int (sequential_total - parallel_total) / of_int sequential_total * 100) else 0),
          parallelization_factor = (if sequential_total > 0
            then round_digits 2 (of_int sequential_total / of_int parallel_total) else 1)\<rparr>)"

definition get_execution_plan :: "(int list \<Rightarrow> int list) \<Rightarrow> int \<Rightarrow> project_module list \<Rightarrow> plan_result" where
  "get_execution_plan en pid ms =
     (case build_layers en pid ms of
        Inl err \<Rightarrow> PlanError err
      | Inr layers \<Rightarrow> if layers = [] then PlanEmpty else Plan (plan_of layers))"

section \<open>Readiness\<close>

text \<open>
  The names of the variables a project states: \<^verbatim>\<open>None\<close> when the column is empty or not an object.
  \<^verbatim>\<open>variable_defaults\<close>, when present, replaces the object around it.
\<close>

record project_variables =
  pv_names :: "string list"
  pv_defaults :: "string list option"

definition project_var_names :: "project_variables option \<Rightarrow> string list" where
  "project_var_names pv =
     (case pv of None \<Rightarrow> [] | Some v \<Rightarrow> (case pv_defaults v of Some ds \<Rightarrow> ds | None \<Rightarrow> pv_names v))"

definition module_missing_vars :: "project_variables option \<Rightarrow> project_module \<Rightarrow> string list" where
  "module_missing_vars pv m =
     (if \<not> enabled m \<or> status m = APPLIED then []
      else case library_module m of
        None \<Rightarrow> []
      | Some lib \<Rightarrow>
          let user_vars = (if override_names m \<noteq> [] then override_names m else variable_names m);
              available = project_var_names pv @ user_vars
          in map in_name (filter (\<lambda>i.
               (case in_source i of None \<Rightarrow> ''user'' | Some src \<Rightarrow> src) \<notin> {''module'', ''project''} \<and>
               \<not> in_has_default i \<and> in_name i \<noteq> '''' \<and> in_name i \<notin> set available) (required_inputs lib)))"

definition missing_name :: "project_module \<Rightarrow> string" where
  "missing_name m =
     (case path_in_project m of
        Some (c # cs) \<Rightarrow> last (str_split CHR ''/'' (c # cs))
      | _ \<Rightarrow> ''module-'' @ str_of_int (pr_id m))"

definition check_missing_variables :: "project_variables option \<Rightarrow> project_module list \<Rightarrow> (string, string list) dict" where
  "check_missing_variables pv ms =
     fold (\<lambda>m d. if module_missing_vars pv m = [] then d else dict_set (missing_name m) (module_missing_vars pv m) d) ms []"

definition validate_project_ready ::
  "(int list \<Rightarrow> int list) \<Rightarrow> project_variables option \<Rightarrow> int \<Rightarrow> string \<Rightarrow> project_module list \<Rightarrow> bool \<times> string option" where
  "validate_project_ready en pv pid action ms =
     (case validate_no_cycles en pid ms of
        (False, cycle) \<Rightarrow> (False, Some (''Circular dependency detected: '' @
           (case cycle of None \<Rightarrow> ''None'' | Some ids \<Rightarrow> ''['' @ str_join '', '' (map str_of_int ids) @ '']'')))
      | (True, _) \<Rightarrow>
          let modules = project_modules pid ms
          in if modules = [] then (False, Some ''No modules in project'')
             else if action = ''deploy''
             then (let in_progress = filter (\<lambda>m. status m \<in> {INITIALIZING, PLANNING, APPLYING}) modules;
                       missing = check_missing_variables pv modules
                   in if in_progress \<noteq> [] then (False, Some (str_of_nat (length in_progress) @ '' modules already in progress''))
                      else if missing \<noteq> []
                      then (False, Some (''Missing required variables - '' @
                             str_join ''; '' (map (\<lambda>(m, v). m @ '': '' @ str_join '', '' v) missing)))
                      else (True, None))
             else (True, None))"

section \<open>Bounds of the plan\<close>

lemma estimates_positive: "(k, t) \<in> set DEFAULT_TIME_ESTIMATES \<Longrightarrow> 0 < t"
  by (auto simp: DEFAULT_TIME_ESTIMATES_def)

lemma default_estimate: "dict_get_or DEFAULT_TIME_ESTIMATES ''default'' 0 = 5"
  by (simp add: dict_get_or_def DEFAULT_TIME_ESTIMATES_def)

lemma name_estimate_positive: "0 < name_estimate n"
proof (cases "map_of DEFAULT_TIME_ESTIMATES n")
  case None
  show ?thesis
  proof (cases "find (\<lambda>(key, time). str_contains key n) DEFAULT_TIME_ESTIMATES")
    case (Some kt)
    then show ?thesis using None find_SomeD [OF Some] estimates_positive [of "fst kt" "snd kt"]
      by (simp add: name_estimate_def case_prod_unfold)
  qed (simp add: name_estimate_def None default_estimate)
qed (simp add: name_estimate_def estimates_positive [OF map_of_SomeD])

lemma estimate_nonneg: "0 \<le> get_module_time_estimate m"
  using name_estimate_positive
  by (auto simp: get_module_time_estimate_def default_estimate less_imp_le split: option.split)

lemma fold_max_ge: "(t :: int) \<le> fold (\<lambda>m t. max t (f m)) ms t"
proof (induction ms arbitrary: t)
  case (Cons m ms)
  from Cons.IH [of "max t (f m)"] show ?case by simp
qed simp

lemma fold_max_mem: "m \<in> set ms \<Longrightarrow> f m \<le> fold (\<lambda>m t. max t (f m)) ms (t :: int)"
proof (induction ms arbitrary: t)
  case (Cons x ms)
  show ?case
  proof (cases "m = x")
    case True
    have "f x \<le> max t (f x)" by simp
    also have "\<dots> \<le> fold (\<lambda>m t. max t (f m)) ms (max t (f x))" by (rule fold_max_ge)
    finally show ?thesis using True by simp
  qed (use Cons in auto)
qed simp

lemma fold_max_le_sum:
  "(\<And>m. 0 \<le> f m) \<Longrightarrow> 0 \<le> (t :: int) \<Longrightarrow> fold (\<lambda>m t. max t (f m)) ms t \<le> t + sum_list (map f ms)"
proof (induction ms arbitrary: t)
  case (Cons m ms)
  have "fold (\<lambda>m t. max t (f m)) ms (max t (f m)) \<le> max t (f m) + sum_list (map f ms)"
    using Cons.IH [of "max t (f m)"] Cons.prems by simp
  also have "\<dots> \<le> t + sum_list (map f (m # ms))" using Cons.prems by (simp add: max_def)
  finally show ?case by simp
qed simp

lemma layer_max_nonneg: "0 \<le> layer_max_time ms"
  unfolding layer_max_time_def by (rule fold_max_ge)

lemma layer_max_le_sum: "layer_max_time ms \<le> sum_list (map get_module_time_estimate ms)"
  using fold_max_le_sum [of get_module_time_estimate 0 ms] estimate_nonneg by (simp add: layer_max_time_def)

lemma layer_sum_le: "sum_list (map get_module_time_estimate ms) \<le> int (length ms) * layer_max_time ms"
proof -
  have "sum_list (map get_module_time_estimate ms) \<le> sum_list (map (\<lambda>m. layer_max_time ms) ms)"
    by (rule sum_list_mono) (simp add: layer_max_time_def fold_max_mem)
  then show ?thesis by (simp add: sum_list_triv)
qed

lemma plan_layer_counts:
  "map module_count (map (\<lambda>(i, l). plan_layer_of i l) (enumerate n layers)) = map length layers"
  by (induction layers arbitrary: n) (simp_all add: plan_layer_of_def)

lemma plan_totals:
  defines "par \<equiv> \<lambda>layers. sum_list (map layer_max_time layers)"
    and "seq \<equiv> \<lambda>layers. sum_list (map get_module_time_estimate (concat layers))"
  shows "0 \<le> par layers" "par layers \<le> seq layers"
    "(\<And>l. l \<in> set layers \<Longrightarrow> length l \<le> w) \<Longrightarrow> seq layers \<le> int w * par layers"
proof -
  show "0 \<le> par layers" unfolding par_def by (induction layers) (simp_all add: layer_max_nonneg)
  show "par layers \<le> seq layers" unfolding par_def seq_def
  proof (induction layers)
    case (Cons l layers)
    then show ?case using layer_max_le_sum [of l] by simp
  qed simp
  show "seq layers \<le> int w * par layers" if "\<And>l. l \<in> set layers \<Longrightarrow> length l \<le> w"
    using that unfolding par_def seq_def
  proof (induction layers)
    case (Cons l layers)
    have "int (length l) * layer_max_time l \<le> int w * layer_max_time l"
      using Cons.prems [of l] layer_max_nonneg by (intro mult_right_mono) simp_all
    then show ?case using Cons layer_sum_le [of l] by (simp add: distrib_left)
  qed simp
qed

lemma round_half_even_ge: "of_int a \<le> x \<Longrightarrow> a \<le> round_half_even x"
  unfolding round_half_even_def Let_def by (simp add: le_floor_iff [symmetric])

lemma round_half_even_le:
  assumes "x \<le> of_int b"
  shows "round_half_even x \<le> b"
proof (cases "x = of_int b")
  case True
  then show ?thesis by (simp add: round_half_even_def)
next
  case False
  then have "\<lfloor>x\<rfloor> < b" using assms by (simp add: floor_less_iff)
  then show ?thesis by (simp add: round_half_even_def Let_def)
qed

lemma round_digits_ge: "of_int a \<le> x \<Longrightarrow> of_int a \<le> round_digits n x"
  using round_half_even_ge [of "a * 10 ^ n" "x * 10 ^ n"] unfolding round_digits_def
  by (simp add: field_simps) (metis of_int_le_iff of_int_mult of_int_numeral of_int_power)

lemma round_digits_le: "x \<le> of_int b \<Longrightarrow> round_digits n x \<le> of_int b"
  using round_half_even_le [of "x * 10 ^ n" "b * 10 ^ n"] unfolding round_digits_def
  by (simp add: field_simps) (metis of_int_le_iff of_int_mult of_int_numeral of_int_power)

text \<open>
  The figures of a plan are within their bounds: the parallel time is non-negative and at most
  the sequential time, so the saving is between nothing and all of it; whenever there is
  anything to estimate the divisor of the parallelization factor is positive, and the factor
  lies between one and the width of the widest layer. A declared estimate below one minute
  counts as zero, which is why both totals may be zero.
\<close>

theorem execution_plan_bounds:
  assumes "get_execution_plan en pid ms = Plan p"
  shows "0 \<le> parallel_minutes p \<and> parallel_minutes p \<le> sequential_minutes p \<and>
    (0 < sequential_minutes p \<longrightarrow> 0 < parallel_minutes p) \<and>
    savings_minutes p = sequential_minutes p - parallel_minutes p \<and>
    0 \<le> savings_percent p \<and> savings_percent p \<le> 100 \<and> 1 \<le> parallelization_factor p \<and>
    (0 < sequential_minutes p \<longrightarrow>
       parallelization_factor p \<le> of_nat (Max (set (map module_count (plan_layers p)))))"
proof -
  obtain layers where p: "p = plan_of layers"
    using assms by (auto simp: get_execution_plan_def split: sum.splits if_splits)
  have seq: "sequential_minutes p = sum_list (map get_module_time_estimate (concat layers))"
    and par: "parallel_minutes p = sum_list (map layer_max_time layers)"
    and savings: "savings_minutes p = (if sequential_minutes p > 0 then sequential_minutes p - parallel_minutes p else 0)"
    and percent: "savings_percent p = (if sequential_minutes p > 0
      then round_digits 1 (of_int (sequential_minutes p - parallel_minutes p) / of_int (sequential_minutes p) * 100) else 0)"
    and factor: "parallelization_factor p = (if sequential_minutes p > 0
      then round_digits 2 (of_int (sequential_minutes p) / of_int (parallel_minutes p)) else 1)"
    and counts: "map module_count (plan_layers p) = map length layers"
    unfolding p plan_of_def Let_def by (simp_all add: plan_layer_counts del: map_map)
  define w where "w = Max (set (map module_count (plan_layers p)))"
  have "w = Max (set (map length layers))" by (simp only: w_def counts)
  then have w: "length l \<le> w" if "l \<in> set layers" for l using that by simp
  note T = plan_totals [of layers, folded seq par]
  have le: "sequential_minutes p \<le> int w * parallel_minutes p" using T(3) [OF w] by blast
  have pos: "0 < parallel_minutes p" if "0 < sequential_minutes p"
    using that le T(1) by (metis less_le_not_le mult_zero_right order_le_less)
  have percent_bounds: "of_int 0 \<le> savings_percent p" "savings_percent p \<le> of_int 100"
  proof -
    let ?x = "of_int (sequential_minutes p - parallel_minutes p) / of_int (sequential_minutes p) * 100 :: rat"
    have "of_int 0 \<le> ?x" "?x \<le> of_int 100" if "0 < sequential_minutes p"
      using T pos [OF that] that by (simp_all add: field_simps)
    then have "of_int 0 \<le> round_digits 1 ?x" "round_digits 1 ?x \<le> of_int 100" if "0 < sequential_minutes p"
      using that by (blast intro: round_digits_ge round_digits_le)+
    then show "of_int 0 \<le> savings_percent p" "savings_percent p \<le> of_int 100"
      unfolding percent by (auto simp del: One_nat_def of_int_diff)
  qed
  have "of_int 1 \<le> parallelization_factor p"
  proof (cases "sequential_minutes p > 0")
    case True
    then have "(of_int 1 :: rat) \<le> of_int (sequential_minutes p) / of_int (parallel_minutes p)"
      using T pos by (simp add: field_simps)
    from round_digits_ge [OF this] show ?thesis using True by (simp only: factor if_True)
  qed (simp add: factor)
  moreover have "parallelization_factor p \<le> of_nat w" if "0 < sequential_minutes p"
  proof -
    have "(of_int (sequential_minutes p) :: rat) \<le> of_int (int w * parallel_minutes p)" using le by (simp only: of_int_le_iff)
    then have "round_digits 2 (of_int (sequential_minutes p) / of_int (parallel_minutes p)) \<le> of_int (int w)"
      using pos [OF that] by (intro round_digits_le) (simp add: field_simps)
    then show ?thesis using that by (simp add: factor)
  qed
  moreover have "savings_minutes p = sequential_minutes p - parallel_minutes p" using T by (simp add: savings)
  ultimately show ?thesis using T pos percent_bounds by (simp add: w_def)
qed

theorem execution_plan_bounds_witness:
  "\<exists>p. get_execution_plan remdups 7 demo_modules = Plan p \<and> sequential_minutes p = 20 \<and> parallel_minutes p = 15 \<and>
     1 \<le> parallelization_factor p \<and> parallelization_factor p \<le> 2"
proof -
  have "(case get_execution_plan remdups 7 demo_modules of
      Plan p \<Rightarrow> Some (sequential_minutes p, parallel_minutes p, map module_count (plan_layers p)) | _ \<Rightarrow> None) =
      Some (20, 15, [1, 2, 1])"
    by code_simp
  then obtain p where p: "get_execution_plan remdups 7 demo_modules = Plan p" and
    "sequential_minutes p = 20" "parallel_minutes p = 15" "map module_count (plan_layers p) = [1, 2, 1]"
    by (auto split: plan_result.splits)
  then show ?thesis using execution_plan_bounds [OF p] by auto
qed

section \<open>The cycle report\<close>

lemma relax_distinct:
  "distinct ns \<Longrightarrow> relax ns deg q = (\<lambda>m. if m \<in> set ns then deg m - 1 else deg m, q @ filter (\<lambda>m. deg m = 1) ns)"
proof (induction ns arbitrary: deg q)
  case (Cons n ns)
  then have n: "n \<notin> set ns" and d: "distinct ns" by auto
  define deg1 where "deg1 = deg(n := deg n - 1)"
  have "filter (\<lambda>m. deg1 m = 1) ns = filter (\<lambda>m. deg m = 1) ns"
    using n by (intro filter_cong) (auto simp: deg1_def)
  moreover have "(\<lambda>m. if m \<in> set ns then deg1 m - 1 else deg1 m) = (\<lambda>m. if m \<in> set (n # ns) then deg m - 1 else deg m)"
    using n by (auto simp: deg1_def fun_eq_iff)
  moreover have "relax (n # ns) deg q = relax ns deg1 (if deg n = 1 then q @ [n] else q)"
    by (simp add: Let_def deg1_def)
  ultimately show ?case using Cons.IH [OF d, of deg1] by simp
qed simp

text \<open>
  The invariant of the sweep: no module is queued twice, and a set of modules each of which has
  a dependency inside the set is never touched, because an in-degree counts at least the
  distinct dependencies that are still unprocessed.
\<close>

definition sweep_inv ::
  "int set \<Rightarrow> (int \<Rightarrow> int set) \<Rightarrow> int set \<Rightarrow> (int \<Rightarrow> int) \<Rightarrow> int list \<Rightarrow> bool" where
  "sweep_inv B D P deg queue \<longleftrightarrow> distinct queue \<and> P \<inter> set queue = {} \<and>
     (\<forall>m \<in> P \<union> set queue. deg m \<le> 0) \<and> B \<inter> (P \<union> set queue) = {} \<and>
     (\<forall>b \<in> B. int (card (D b - P)) \<le> deg b)"

lemma sweep_inv_step:
  assumes inv: "sweep_inv B D P deg (mid # queue)" and fin: "\<And>b. finite (D b)"
    and B: "\<And>b. b \<in> B \<Longrightarrow> D b \<inter> B \<noteq> {}"
    and ns: "distinct ns" "\<And>b. b \<in> B \<Longrightarrow> b \<in> set ns \<longleftrightarrow> mid \<in> D b"
    and r: "relax ns deg queue = (deg', queue')"
  shows "sweep_inv B D (insert mid P) deg' queue'"
proof -
  have deg': "deg' = (\<lambda>m. if m \<in> set ns then deg m - 1 else deg m)"
    and q': "queue' = queue @ filter (\<lambda>m. deg m = 1) ns"
    using r relax_distinct [OF ns(1), of deg queue] by auto
  have mid: "mid \<notin> P" "mid \<notin> set queue" "mid \<notin> B" using inv by (auto simp: sweep_inv_def)
  have many: "1 < deg b" if b: "b \<in> B" "mid \<in> D b" for b
  proof -
    obtain c where c: "c \<in> D b" "c \<in> B" using B [OF b(1)] by blast
    have "c \<notin> P" "c \<noteq> mid" using c(2) inv by (auto simp: sweep_inv_def)
    then have "card {c, mid} \<le> card (D b - P)" using c b(2) mid(1) fin by (intro card_mono) auto
    then show ?thesis using inv b(1) \<open>c \<noteq> mid\<close> by (fastforce simp: sweep_inv_def)
  qed
  have "int (card (D b - insert mid P)) \<le> deg' b" if b: "b \<in> B" for b
  proof (cases "mid \<in> D b")
    case True
    then have "card (D b - P) = Suc (card (D b - insert mid P))"
      using mid(1) fin by (metis Diff_iff Diff_insert card.remove finite_Diff)
    then show ?thesis using True b inv ns(2) by (auto simp: deg' sweep_inv_def)
  next
    case False
    then show ?thesis using b inv ns(2) by (auto simp: deg' sweep_inv_def)
  qed
  moreover have "B \<inter> set queue' = {}" using inv many ns(2) by (fastforce simp: q' sweep_inv_def)
  moreover have "\<forall>m \<in> insert mid (P \<union> set queue). deg m \<le> 0" using inv by (auto simp: sweep_inv_def)
  then have "m \<notin> insert mid (P \<union> set queue)" if "deg m = 1" for m using that by force
  then have "distinct queue'" and "insert mid P \<inter> set queue' = {}"
    using inv ns(1) by (auto simp: sweep_inv_def q')
  moreover have "deg' m \<le> 0" if "m \<in> insert mid P \<union> set queue'" for m
  proof (cases "m \<in> insert mid (P \<union> set queue)")
    case True
    then have "deg m \<le> 0" using inv by (auto simp: sweep_inv_def)
    then show ?thesis by (simp add: deg')
  qed (use that in \<open>auto simp: q' deg'\<close>)
  ultimately show ?thesis using inv mid by (auto simp: sweep_inv_def)
qed

lemma sweep_loop_inv:
  assumes fin: "\<And>b. finite (D b)" and B: "\<And>b. b \<in> B \<Longrightarrow> D b \<inter> B \<noteq> {}"
    and ns: "\<And>mid. distinct (dict_get_or g mid [])" "\<And>mid b. b \<in> B \<Longrightarrow> b \<in> set (dict_get_or g mid []) \<longleftrightarrow> mid \<in> D b"
  shows "sweep_inv B D P deg queue \<Longrightarrow> b \<in> B \<Longrightarrow> 0 < sweep_loop g deg queue b"
  using ns
proof (induction g deg queue arbitrary: P rule: sweep_loop.induct)
  case (1 g deg)
  have "D b - P \<noteq> {}" using B [OF "1.prems"(2)] "1.prems"(1) by (auto simp: sweep_inv_def)
  then have "0 < card (D b - P)" using fin by (simp add: card_gt_0_iff)
  then show ?case using "1.prems" by (fastforce simp: sweep_inv_def)
next
  case (2 g deg mid queue)
  obtain deg' queue' where r: "relax (dict_get_or g mid []) deg queue = (deg', queue')" by fastforce
  have "sweep_inv B D (insert mid P) deg' queue'"
    using sweep_inv_step [OF "2.prems"(1) fin B "2.prems"(3) "2.prems"(4) r] by blast
  then show ?case using "2.IH" [OF r [symmetric]] "2.prems" r by simp
qed

text \<open>The dependency relation inside a project: module to dependency.\<close>

definition project_edges :: "int \<Rightarrow> project_module list \<Rightarrow> (int \<times> int) set" where
  "project_edges pid ms = {(pr_id m, d) |m d. m \<in> set (project_modules pid ms) \<and> d \<in> set (dependencies m) \<and>
     d \<in> pr_id ` set (project_modules pid ms)}"

lemma mapped_deps_row: "distinct (map pr_id ms) \<Longrightarrow> m \<in> set ms \<Longrightarrow> mapped_deps (module_by_id ms) (pr_id m) = dependencies m"
  using map_of_map_key [of pr_id ms m "\<lambda>m. m"] by (simp add: mapped_deps_def module_by_id_distinct)

lemma working_edges_project:
  assumes "distinct (map pr_id (project_modules pid ms))" and "distinct ids" and "set ids = pr_id ` set (project_modules pid ms)"
  shows "edges (working_deps (module_by_id (project_modules pid ms)) ids) = project_edges pid ms"
proof -
  have "(a, d) \<in> edges (working_deps (module_by_id (project_modules pid ms)) ids) \<longleftrightarrow>
      (\<exists>m. m \<in> set (project_modules pid ms) \<and> a = pr_id m \<and> d \<in> set (dependencies m) \<and> d \<in> pr_id ` set (project_modules pid ms))"
    for a d
    using assms(3) mapped_deps_row [OF assms(1)] by (auto simp: edges_def deps_of_working [OF assms(2)])
  then show ?thesis unfolding project_edges_def by fast
qed

lemma sweep_start:
  assumes "distinct ids"
  shows "dict_get_or (sweep_graph mm ids) mid [] =
    (if mid \<in> set ids then filter (\<lambda>other. mapped_deps mm other \<noteq> [] \<and> mid \<in> set (mapped_deps mm other)) ids else [])"
  by (auto simp: dict_get_or_def sweep_graph_def map_of_map_restrict restrict_map_def)

lemma cycle_members_reported:
  assumes dist: "distinct ids" and b: "(b, b) \<in> (edges (working_deps mm ids))\<^sup>+"
  shows "0 < sweep_loop (sweep_graph mm ids) (in_degrees mm ids) (filter (\<lambda>mid. in_degrees mm ids mid = 0) ids) b"
proof -
  define E where "E = edges (working_deps mm ids)"
  define B where "B = {b. (b, b) \<in> E\<^sup>+}"
  define D where "D = (\<lambda>b. {d \<in> set ids. d \<in> set (mapped_deps mm b)})"
  have E: "(a, d) \<in> E \<longleftrightarrow> a \<in> set ids \<and> d \<in> D a" for a d
    by (auto simp: E_def D_def edges_def deps_of_working [OF dist])
  have ids: "c \<in> set ids" if "c \<in> B" for c using that E by (auto simp: B_def dest!: tranclD)
  have next_in: "D c \<inter> B \<noteq> {}" if "c \<in> B" for c
  proof -
    from that obtain d where d: "(c, d) \<in> E" "(d, c) \<in> E\<^sup>*" unfolding B_def by (metis mem_Collect_eq tranclD)
    then have "(d, d) \<in> E\<^sup>+" by (meson rtrancl_into_trancl1)
    then show ?thesis using d(1) E by (auto simp: B_def)
  qed
  have deg: "int (card (D c)) \<le> in_degrees mm ids c" if "c \<in> set ids" for c
  proof -
    have "D c = set (filter (\<lambda>d. d \<in> set ids) (mapped_deps mm c))" by (auto simp: D_def)
    then show ?thesis using that card_length by (metis in_degrees_def of_nat_mono)
  qed
  have "0 < in_degrees mm ids c" if "c \<in> B" for c
  proof -
    have "0 < card (D c)" using next_in [OF that] by (auto simp: card_gt_0_iff D_def)
    then show ?thesis using deg [OF ids [OF that]] by simp
  qed
  then have "sweep_inv B D {} (in_degrees mm ids) (filter (\<lambda>mid. in_degrees mm ids mid = 0) ids)"
    using dist deg ids by (fastforce simp: sweep_inv_def)
  moreover have "b \<in> B" using b by (simp add: B_def E_def)
  moreover have "finite (D c)" for c by (simp add: D_def)
  moreover have "distinct (dict_get_or (sweep_graph mm ids) mid [])" for mid by (simp add: sweep_start [OF dist] dist)
  moreover have "c \<in> set (dict_get_or (sweep_graph mm ids) mid []) \<longleftrightarrow> mid \<in> D c" if "c \<in> B" for mid c
    using ids [OF that] by (auto simp: sweep_start [OF dist] D_def)
  ultimately show ?thesis using sweep_loop_inv [of D B "sweep_graph mm ids"] next_in by blast
qed

text \<open>
  The readiness check tells exactly when a project has a dependency cycle, over all its modules
  and not only the enabled ones, and when there is one the report leaves none of its members
  out: every module that lies on a cycle is listed, once, and only modules of the project are.
\<close>

theorem validate_no_cycles_complete:
  assumes "enumerates en" and "distinct (map pr_id ms)"
  shows "if acyclic (project_edges pid ms) then validate_no_cycles en pid ms = (True, None)
    else \<exists>ids. validate_no_cycles en pid ms = (False, Some ids) \<and> ids \<noteq> [] \<and> distinct ids \<and>
      {i. (i, i) \<in> (project_edges pid ms)\<^sup>+} \<subseteq> set ids \<and> set ids \<subseteq> pr_id ` set (project_modules pid ms)"
proof -
  let ?mods = "project_modules pid ms"
  let ?mm = "module_by_id ?mods"
  let ?ids = "en (map fst ?mm)"
  have dist: "distinct (map pr_id ?mods)" using assms(2) by (simp add: project_modules_def distinct_map_filter)
  have ids: "distinct ?ids" "set ?ids = pr_id ` set ?mods"
    using enumerates_set [OF assms(1)] enumerates_distinct [OF assms(1)]
    by (auto simp: module_by_id_distinct [OF dist] comp_def)
  note E = working_edges_project [OF dist ids]
  show ?thesis
  proof (cases "acyclic (project_edges pid ms)")
    case True
    with kahn_layers_result [OF assms(1) refl refl, where mm = ?mm and filt = False] show ?thesis
      by (auto simp: E validate_no_cycles_def Let_def)
  next
    case False
    define deg where "deg = sweep_loop (sweep_graph ?mm ?ids) (in_degrees ?mm ?ids) (filter (\<lambda>mid. in_degrees ?mm ?ids mid = 0) ?ids)"
    obtain err where "kahn_layers en False ?mm = Inl err"
      using False kahn_layers_result [OF assms(1) refl refl, where mm = ?mm and filt = False] by (auto simp: E)
    moreover have "?mods \<noteq> []" using False by (auto simp: project_edges_def acyclic_def)
    ultimately have v: "validate_no_cycles en pid ms = (False, Some (filter (\<lambda>mid. deg mid > 0) ?ids))"
      by (simp add: validate_no_cycles_def Let_def deg_def)
    have on: "i \<in> set (filter (\<lambda>mid. deg mid > 0) ?ids)" if "(i, i) \<in> (project_edges pid ms)\<^sup>+" for i
    proof -
      have "i \<in> set ?ids" using that by (auto simp: ids(2) project_edges_def dest!: tranclD)
      then show ?thesis using cycle_members_reported [OF ids(1), of i ?mm] that by (simp add: E deg_def)
    qed
    obtain i where "(i, i) \<in> (project_edges pid ms)\<^sup>+" using False by (auto simp: acyclic_def)
    with on have "filter (\<lambda>mid. deg mid > 0) ?ids \<noteq> []" by (metis empty_iff empty_set)
    then show ?thesis using False v on ids by auto
  qed
qed

theorem validate_no_cycles_complete_witness:
  "validate_no_cycles remdups 7 (demo_modules @ [demo_pm 6 [1, 1]]) = (False, Some [5, 6]) \<and>
   \<not> acyclic (project_edges 7 (demo_modules @ [demo_pm 6 [1, 1]]))"
proof -
  let ?ms = "demo_modules @ [demo_pm 6 [1, 1]]"
  have v: "validate_no_cycles remdups 7 ?ms = (False, Some [5, 6])" by code_simp
  have "distinct (map pr_id ?ms)" by (simp add: demo_modules_def demo_pm_def)
  from validate_no_cycles_complete [OF enumerates_remdups this, of 7] v show ?thesis by (auto split: if_splits)
qed

section \<open>Transitive dependencies\<close>

definition row_edges_of :: "project_module list \<Rightarrow> (int \<times> int) set" where
  "row_edges_of ms = {(a, b). b \<in> set (row_deps ms a)}"

lemma closed_reach:
  assumes "\<forall>d \<in> S. \<forall>b. (d, b) \<in> R \<longrightarrow> b \<in> S \<union> T" and "(a, b) \<in> R\<^sup>*" and "a \<in> S"
  shows "b \<in> S \<union> R\<^sup>* `` T"
  using assms(2,3)
proof (induction rule: rtrancl_induct)
  case (step y z)
  then show ?case using assms(1) by (auto intro: rtrancl_into_rtrancl)
qed simp

lemma visit_deps_set:
  "\<forall>d \<in> set all_deps. set (row_deps ms d) \<subseteq> set all_deps \<union> set todo \<Longrightarrow>
     set (visit_deps ms todo all_deps) = set all_deps \<union> (row_edges_of ms)\<^sup>* `` set todo \<and>
     (distinct all_deps \<longrightarrow> distinct (visit_deps ms todo all_deps))"
proof (induction ms todo all_deps rule: visit_deps.induct)
  case (2 ms d ds all_deps)
  let ?R = "row_edges_of ms" and ?rest = "butlast (d # ds)" and ?x = "last (d # ds)"
  have todo: "set (d # ds) = insert ?x (set ?rest)"
    by (metis append_butlast_last_id list.distinct(1) list.simps(15) set_append empty_set insert_is_Un sup_commute)
  show ?case
  proof (cases "?x \<in> set all_deps")
    case True
    have inv: "\<forall>d \<in> set all_deps. set (row_deps ms d) \<subseteq> set all_deps \<union> set ?rest"
      using "2.prems" True unfolding todo by blast
    have "?R\<^sup>* `` {?x} \<subseteq> set all_deps \<union> ?R\<^sup>* `` set ?rest"
    proof -
      have "\<forall>d \<in> set all_deps. \<forall>b. (d, b) \<in> ?R \<longrightarrow> b \<in> set all_deps \<union> set ?rest"
        using inv unfolding row_edges_of_def by blast
      from closed_reach [OF this _ True] show ?thesis by blast
    qed
    then have "set all_deps \<union> ?R\<^sup>* `` set (d # ds) = set all_deps \<union> ?R\<^sup>* `` set ?rest" unfolding todo by blast
    then show ?thesis using "2.IH"(1) [OF refl refl True] inv True by (simp add: Let_def)
  next
    case False
    have p: "\<forall>d \<in> set all_deps. set (row_deps ms d) \<subseteq> set all_deps \<union> insert ?x (set ?rest)"
      using "2.prems" unfolding todo .
    have inv: "\<forall>d \<in> set (all_deps @ [?x]). set (row_deps ms d) \<subseteq> set (all_deps @ [?x]) \<union> set (?rest @ row_deps ms ?x)"
      using p unfolding set_append list.set by blast
    have "?R\<^sup>* `` {?x} = insert ?x (?R\<^sup>* `` (?R `` {?x}))"
      using rtrancl_trancl_reflcl [of ?R] trancl_unfold_left [of ?R] by blast
    also have "?R `` {?x} = set (row_deps ms ?x)" by (auto simp: row_edges_of_def)
    finally have "?R\<^sup>* `` {?x} = insert ?x (?R\<^sup>* `` set (row_deps ms ?x))" .
    then have "set (all_deps @ [?x]) \<union> ?R\<^sup>* `` set (?rest @ row_deps ms ?x) = set all_deps \<union> ?R\<^sup>* `` set (d # ds)"
      unfolding todo set_append Image_Un insert_is_Un [of ?x "set ?rest"] by (simp add: Un_ac)
    then show ?thesis using "2.IH"(2) [OF refl refl False] inv False by (simp add: Let_def)
  qed
qed simp

text \<open>
  The recursive query returns exactly the transitive dependencies, each once, also when they form
  a cycle: its work list is emptied for every set of rows.
\<close>

theorem module_dependencies_recursive_correct:
  "distinct (get_module_dependencies_recursive ms i) \<and>
   set (get_module_dependencies_recursive ms i) = {d. (i, d) \<in> (row_edges_of ms)\<^sup>+}"
proof -
  have "(row_edges_of ms)\<^sup>* `` set (row_deps ms i) = {d. (i, d) \<in> (row_edges_of ms)\<^sup>+}"
    by (simp only: trancl_unfold_left) (auto simp: row_edges_of_def)
  then show ?thesis using visit_deps_set [of "[]" ms "row_deps ms i"]
    by (simp add: get_module_dependencies_recursive_def)
qed

end
