(* ===== verification/Deploy_Chain.thy ===== *)
theory Deploy_Chain
  imports Execution_Layers
begin

text \<open>
  The event chain that deploys a project: \<^verbatim>\<open>deploy_project_parallel\<close> and \<^verbatim>\<open>_dispatch_first_wave\<close> of
  \<^verbatim>\<open>src/backend/services/parallel_execution_service.py\<close>, the hooks that run when a module has been
  applied (\<^verbatim>\<open>src/backend/tasks/_tofu_helpers.py\<close>), the stack progress of
  \<^verbatim>\<open>src/backend/services/stack_deployment_service.py\<close>, and the row updates of an engine task that
  the chain builds on (\<^verbatim>\<open>src/backend/tasks/opentofu_tasks.py\<close>). Timestamps are left out: nothing
  here decides on them.
\<close>

section \<open>Rows and the session\<close>

datatype task_status = T_QUEUED | T_PENDING | T_IN_PROGRESS | T_COMPLETED | T_FAILED | T_CANCELLED

datatype stack_status = S_PENDING | S_DEPLOYING | S_DEPLOYED | S_DESTROYING | S_DESTROYED | S_FAILED

text \<open>\<open>t_scope\<close> is the \<^verbatim>\<open>destroy_scope\<close> entry of the task's metadata.\<close>

record task_row =
  t_id :: int
  t_type :: string
  t_status :: task_status
  t_project_id :: int
  t_module_id :: int
  t_run_handle :: "string option"
  t_celery_id :: "string option"
  t_scope :: "string option"
  t_error :: "string option"

record stack_row =
  s_id :: int
  s_project_id :: int
  s_status :: stack_status
  s_error :: "string option"
  current_step :: nat

record exec_db =
  module_rows :: "project_module list"
  tasks :: "task_row list"
  stacks :: "stack_row list"
  next_task :: int

text \<open>
  What the code asks the workspace on disk and the broker: whether the variables changed since the
  plan, whether a plan is saved and valid, and the Celery id of a message that was sent (\<open>None\<close>
  when sending raises).
\<close>

record deploy_env =
  vars_changed :: "project_module \<Rightarrow> bool"
  has_saved_plan :: "project_module \<Rightarrow> bool"
  plan_is_valid :: "project_module \<Rightarrow> bool"
  send :: "message \<Rightarrow> string option"

definition module_row :: "exec_db \<Rightarrow> int \<Rightarrow> project_module option" where
  "module_row db i = find (\<lambda>m. pr_id m = i) (module_rows db)"

definition stack_by_id :: "exec_db \<Rightarrow> int \<Rightarrow> stack_row option" where
  "stack_by_id db i = find (\<lambda>s. s_id s = i) (stacks db)"

text \<open>The modules of a stack come from the foreign key; the code's writes to the property are no-ops.\<close>

definition deployed_modules :: "exec_db \<Rightarrow> stack_row \<Rightarrow> int list" where
  "deployed_modules db s = map pr_id (filter (\<lambda>m. stack_instance_id m = Some (s_id s)) (module_rows db))"

definition upd_module :: "int \<Rightarrow> (project_module \<Rightarrow> project_module) \<Rightarrow> exec_db \<Rightarrow> exec_db" where
  "upd_module i f db = db\<lparr>module_rows := map (\<lambda>m. if pr_id m = i then f m else m) (module_rows db)\<rparr>"

definition upd_task :: "int \<Rightarrow> (task_row \<Rightarrow> task_row) \<Rightarrow> exec_db \<Rightarrow> exec_db" where
  "upd_task i f db = db\<lparr>tasks := map (\<lambda>t. if t_id t = i then f t else t) (tasks db)\<rparr>"

definition upd_stack :: "int \<Rightarrow> (stack_row \<Rightarrow> stack_row) \<Rightarrow> exec_db \<Rightarrow> exec_db" where
  "upd_stack i f db = db\<lparr>stacks := map (\<lambda>s. if s_id s = i then f s else s) (stacks db)\<rparr>"

definition set_status :: "int \<Rightarrow> module_status \<Rightarrow> exec_db \<Rightarrow> exec_db" where
  "set_status i st db = upd_module i (\<lambda>m. m\<lparr>status := st\<rparr>) db"

text \<open>Adding a task row and flushing it: the database assigns the key.\<close>

definition add_task ::
  "string \<Rightarrow> task_status \<Rightarrow> project_module \<Rightarrow> string option \<Rightarrow> string option \<Rightarrow> exec_db \<Rightarrow> int \<times> exec_db" where
  "add_task ty st m rh scope db =
     (next_task db,
      db\<lparr>tasks := tasks db @
           [\<lparr>t_id = next_task db, t_type = ty, t_status = st, t_project_id = pr_project_id m, t_module_id = pr_id m,
             t_run_handle = rh, t_celery_id = None, t_scope = scope, t_error = None\<rparr>],
         next_task := next_task db + 1\<rparr>)"

definition NON_TERMINAL_TASK_STATUSES :: "task_status list" where
  "NON_TERMINAL_TASK_STATUSES = [T_QUEUED, T_PENDING, T_IN_PROGRESS]"

definition is_active :: "int \<Rightarrow> task_row \<Rightarrow> bool" where
  "is_active i t \<longleftrightarrow> t_module_id t = i \<and> t_status t \<in> set NON_TERMINAL_TASK_STATUSES"

definition active_task :: "exec_db \<Rightarrow> int \<Rightarrow> task_row option" where
  "active_task db i = find (is_active i) (tasks db)"

text \<open>The most recent task that a condition selects: the one with the greatest key.\<close>

definition latest_task :: "(task_row \<Rightarrow> bool) \<Rightarrow> exec_db \<Rightarrow> task_row option" where
  "latest_task P db =
     (case filter P (tasks db) of
        [] \<Rightarrow> None
      | t # ts \<Rightarrow> Some (fold (\<lambda>x best. if t_id best < t_id x then x else best) ts t))"

section \<open>The first wave\<close>

definition deps_ready :: "exec_db \<Rightarrow> project_module \<Rightarrow> bool" where
  "deps_ready db m = list_all (\<lambda>d. case module_row db d of None \<Rightarrow> False | Some x \<Rightarrow> status x = APPLIED) (dependencies m)"

text \<open>
  The state of the loop: the session, the messages that left for the broker, and the handle. An
  exception ends the loop; the session then holds what was flushed before it.
\<close>

type_synonym wave = "exec_db \<times> message list \<times> string option"

definition wave_send ::
  "deploy_env \<Rightarrow> string + message \<Rightarrow> int \<Rightarrow> int \<Rightarrow> module_status \<Rightarrow> wave \<Rightarrow> string option \<times> wave" where
  "wave_send e msg tid i st w =
     (let (db, sent, first) = w
      in case msg of
           Inl err \<Rightarrow> (Some err, w)
         | Inr ms \<Rightarrow> (case send e ms of
               None \<Rightarrow> (Some ''broker unreachable'', w)
             | Some cid \<Rightarrow>
                 (None, set_status i st (upd_task tid (\<lambda>t. t\<lparr>t_celery_id := Some cid\<rparr>) db), sent @ [ms],
                  if first = None then Some cid else first)))"

definition force_new_plan :: "deploy_env \<Rightarrow> project_module \<Rightarrow> bool" where
  "force_new_plan e m =
     (let saved = has_saved_plan e m; valid = saved \<and> plan_serial m > 0 \<and> plan_is_valid e m
      in \<not> saved \<or> plan_serial m \<le> 0 \<or> \<not> valid)"

definition wave_candidate :: "deploy_env \<Rightarrow> exec_db \<Rightarrow> project_module \<Rightarrow> bool" where
  "wave_candidate e db m \<longleftrightarrow> enabled m \<and> \<not> (status m = APPLIED \<and> \<not> vars_changed e m) \<and>
     active_task db (pr_id m) = None \<and> deps_ready db m"

definition wave_module :: "deploy_env \<Rightarrow> string option \<Rightarrow> int \<Rightarrow> wave \<Rightarrow> string option \<times> wave" where
  "wave_module e rh i w =
     (let (db, sent, first) = w
      in case module_row db i of
           None \<Rightarrow> (None, w)
         | Some m \<Rightarrow>
             if \<not> wave_candidate e db m then (None, w)
             else if status m = NOT_INITIALIZED
             then (let (tid, db1) = add_task ''init'' T_QUEUED m rh None db
                   in wave_send e (dispatch_init tid m True False) tid i INITIALIZING (db1, sent, first))
             else (let (tid, db1) = add_task ''apply'' T_QUEUED m rh None db
                   in wave_send e (dispatch_apply tid m (force_new_plan e m)) tid i APPLYING (db1, sent, first)))"

fun wave_loop :: "deploy_env \<Rightarrow> string option \<Rightarrow> int list \<Rightarrow> wave \<Rightarrow> string option \<times> wave" where
  "wave_loop e rh [] w = (None, w)"
| "wave_loop e rh (i # is) w =
     (case wave_module e rh i w of
        (Some err, w') \<Rightarrow> (Some err, w')
      | (None, w') \<Rightarrow> wave_loop e rh is w')"

definition wave_order :: "int \<Rightarrow> exec_db \<Rightarrow> int list" where
  "wave_order pid db = map pr_id (sort_key deployment_order (project_modules pid (module_rows db)))"

definition dispatch_first_wave :: "deploy_env \<Rightarrow> int \<Rightarrow> string option \<Rightarrow> exec_db \<Rightarrow> string option \<times> wave" where
  "dispatch_first_wave e pid rh db = wave_loop e rh (wave_order pid db) (db, [], None)"

section \<open>Deploying a project\<close>

datatype deploy_error = DeployValueError string | DeployKeyError string

record deploy_response =
  dr_handle :: "string option"
  dr_plan :: "execution_plan option"
  dr_total_modules :: nat
  dr_total_layers :: nat
  dr_minutes :: int

text \<open>
  \<open>rh\<close> is the fresh \<^verbatim>\<open>uuid4().hex\<close>. The outcome comes with the session as the caller finds it; the
  route commits on success and rolls back otherwise, but messages that were sent stay sent.
\<close>

definition deploy_project_parallel ::
  "deploy_env \<Rightarrow> (int list \<Rightarrow> int list) \<Rightarrow> string \<Rightarrow> int list \<Rightarrow> int \<Rightarrow> bool \<Rightarrow> exec_db \<Rightarrow>
     (deploy_error + deploy_response) \<times> exec_db \<times> message list" where
  "deploy_project_parallel e en rh project_ids pid create_tasks db =
     (if pid \<notin> set project_ids then (Inl (DeployValueError (''Project '' @ str_of_int pid @ '' not found'')), db, [])
      else case get_execution_plan en pid (module_rows db) of
        PlanError err \<Rightarrow> (Inl (DeployValueError (''Cannot deploy: '' @ err)), db, [])
      | PlanEmpty \<Rightarrow> (Inl (DeployKeyError ''total_modules''), db, [])
      | Plan p \<Rightarrow>
          if total_modules p = 0
          then (Inr \<lparr>dr_handle = None, dr_plan = None, dr_total_modules = 0, dr_total_layers = 0, dr_minutes = 0\<rparr>, db, [])
          else if \<not> create_tasks
          then (Inr \<lparr>dr_handle = None, dr_plan = Some p, dr_total_modules = total_modules p,
                     dr_total_layers = total_layers p, dr_minutes = parallel_minutes p\<rparr>, db, [])
          else (case dispatch_first_wave e pid (Some rh) db of
              (Some err, db', sent, first) \<Rightarrow> (Inl (DeployValueError err), db', sent)
            | (None, db', sent, first) \<Rightarrow>
                (Inr \<lparr>dr_handle = Some rh, dr_plan = Some p, dr_total_modules = total_modules p,
                      dr_total_layers = total_layers p, dr_minutes = parallel_minutes p\<rparr>, db', sent)))"

definition deploy_all_modules ::
  "deploy_env \<Rightarrow> (int list \<Rightarrow> int list) \<Rightarrow> string \<Rightarrow> int list \<Rightarrow> project_variables option \<Rightarrow> int \<Rightarrow> exec_db \<Rightarrow>
     (deploy_error + deploy_response) \<times> exec_db \<times> message list" where
  "deploy_all_modules e en rh project_ids pv pid db =
     (if pid \<notin> set project_ids then (Inl (DeployValueError ''404''), db, [])
      else if list_ex (\<lambda>t. t_project_id t = pid \<and> t_status t \<in> set NON_TERMINAL_TASK_STATUSES) (tasks db)
      then (Inl (DeployValueError ''An operation is already in progress for this project''), db, [])
      else case validate_project_ready en pv pid ''deploy'' (module_rows db) of
        (False, err) \<Rightarrow> (Inl (DeployValueError (case err of Some m \<Rightarrow> m | None \<Rightarrow> '''')), db, [])
      | (True, _) \<Rightarrow> (case deploy_project_parallel e en rh project_ids pid True db of
            (Inl err, db', sent) \<Rightarrow> (Inl err, db, sent)
          | (Inr r, db', sent) \<Rightarrow> (Inr r, db', sent)))"

section \<open>The hooks of a finished module\<close>

definition predecessor_handle :: "exec_db \<Rightarrow> int \<Rightarrow> string option" where
  "predecessor_handle db i =
     Option.bind (latest_task (\<lambda>t. t_module_id t = i \<and> t_type t \<in> {''init'', ''apply''}) db) t_run_handle"

text \<open>An exception of the wave is swallowed; the session keeps what was flushed.\<close>

definition trigger_next_project_module :: "deploy_env \<Rightarrow> project_module \<Rightarrow> exec_db \<Rightarrow> exec_db \<times> message list" where
  "trigger_next_project_module e m db =
     (case dispatch_first_wave e (pr_project_id m) (predecessor_handle db (pr_id m)) db of
        (err, db', sent, first) \<Rightarrow> (db', sent))"

definition next_candidate :: "exec_db \<Rightarrow> int \<Rightarrow> project_module \<Rightarrow> bool" where
  "next_candidate db completed m \<longleftrightarrow> enabled m \<and> status m \<notin> {APPLIED, APPLYING, APPLY_FAILED, PLAN_FAILED} \<and>
     completed \<in> set (dependencies m) \<and> deps_ready db m \<and> active_task db (pr_id m) = None"

text \<open>The rows are committed before the message is sent; a failure to send ends the loop.\<close>

fun stack_loop ::
  "deploy_env \<Rightarrow> string option \<Rightarrow> int \<Rightarrow> int list \<Rightarrow> exec_db \<times> message list \<Rightarrow> exec_db \<times> message list" where
  "stack_loop e rh completed [] st = st"
| "stack_loop e rh completed (i # is) (db, sent) =
     (case module_row db i of
        None \<Rightarrow> stack_loop e rh completed is (db, sent)
      | Some m \<Rightarrow>
          if \<not> next_candidate db completed m then stack_loop e rh completed is (db, sent)
          else let init = (status m = NOT_INITIALIZED);
                   (tid, db1) = add_task (if init then ''init'' else ''apply'') T_PENDING m rh None db;
                   db2 = set_status i (if init then INITIALIZING else APPLYING) db1
               in case (if init then dispatch_init tid m True False else dispatch_apply tid m False) of
                    Inl err \<Rightarrow> (db2, sent)
                  | Inr ms \<Rightarrow> (case send e ms of
                        None \<Rightarrow> (db2, sent)
                      | Some cid \<Rightarrow> stack_loop e rh completed is
                          (upd_task tid (\<lambda>t. t\<lparr>t_celery_id := Some cid\<rparr>) db2, sent @ [ms])))"

definition trigger_next_stack_module ::
  "deploy_env \<Rightarrow> stack_row \<Rightarrow> project_module \<Rightarrow> exec_db \<Rightarrow> exec_db \<times> message list" where
  "trigger_next_stack_module e s completed db =
     (if deployed_modules db s = [] then (db, [])
      else stack_loop e (predecessor_handle db (pr_id completed)) (pr_id completed)
             (map pr_id (sort_key deployment_order (filter (\<lambda>m. pr_id m \<in> set (deployed_modules db s)) (module_rows db))))
             (db, []))"

section \<open>Stack progress\<close>

definition transitional_statuses :: "module_status list" where
  "transitional_statuses = [INITIALIZING, PLANNING, APPLYING, DESTROYING]"

definition is_failed_status :: "module_status \<Rightarrow> bool" where
  "is_failed_status st = str_contains ''failed'' (str_lower (status_value st))"

text \<open>The recovery of a module that is in a transitional state with no task at work.\<close>

definition failed_of :: "module_status \<Rightarrow> module_status" where
  "failed_of st = (case st of APPLYING \<Rightarrow> APPLY_FAILED | INITIALIZING \<Rightarrow> INIT_FAILED | PLANNING \<Rightarrow> PLAN_FAILED
     | DESTROYING \<Rightarrow> DESTROY_FAILED | other \<Rightarrow> other)"

definition recover_stale :: "exec_db \<Rightarrow> project_module \<Rightarrow> project_module" where
  "recover_stale db m =
     (if status m \<notin> set transitional_statuses \<or> active_task db (pr_id m) \<noteq> None then m
      else case latest_task (\<lambda>t. t_module_id t = pr_id m) db of
        None \<Rightarrow> m
      | Some t \<Rightarrow>
          if t_status t = T_FAILED
          then m\<lparr>status := failed_of (status m),
                 deployment_error := Some (case t_error t of Some (c # cs) \<Rightarrow> c # cs | _ \<Rightarrow> ''Task failed'')\<rparr>
          else if t_status t = T_COMPLETED
          then m\<lparr>status := (if status m = DESTROYING then DESTROYED else APPLIED)\<rparr>
          else m\<lparr>status := NOT_INITIALIZED,
                 deployment_error := Some ''Module was in a transitional state with no active task - reset''\<rparr>)"

definition error_text :: "project_module list \<Rightarrow> string" where
  "error_text ms = (case filter (\<lambda>m. is_failed_status (status m)) ms of
     [] \<Rightarrow> '''' | m # _ \<Rightarrow> (case deployment_error m of None \<Rightarrow> ''None'' | Some err \<Rightarrow> err))"

definition progress_of :: "project_module list \<Rightarrow> stack_row \<Rightarrow> stack_row" where
  "progress_of ms s =
     (let total = length ms;
          applied = length (filter (\<lambda>m. status m = APPLIED) ms);
          failed = length (filter (\<lambda>m. is_failed_status (status m)) ms);
          destroyed = length (filter (\<lambda>m. status m = DESTROYED) ms);
          active = length (filter (\<lambda>m. status m \<in> set transitional_statuses) ms)
      in if s_status s = S_DESTROYING
         then (if failed > 0 then s\<lparr>s_status := S_FAILED, s_error := Some (''Module destruction failed: '' @ error_text ms)\<rparr>
               else if destroyed = total then s\<lparr>s_status := S_DESTROYED\<rparr> else s)\<lparr>current_step := destroyed\<rparr>
         else if destroyed = total then s\<lparr>s_status := S_DESTROYED, current_step := destroyed\<rparr>
         else let s1 = s\<lparr>current_step := applied\<rparr>
              in if failed > 0 then s1\<lparr>s_status := S_FAILED, s_error := Some (''Module deployment failed: '' @ error_text ms)\<rparr>
                 else if applied = total then s1\<lparr>s_status := S_DEPLOYED\<rparr>
                 else if active > 0 then s1\<lparr>s_status := S_DEPLOYING\<rparr>
                 else if applied > 0 then s1\<lparr>s_status := S_PENDING\<rparr> else s1)"

definition update_stack_progress :: "int \<Rightarrow> exec_db \<Rightarrow> exec_db" where
  "update_stack_progress sid db =
     (case stack_by_id db sid of
        None \<Rightarrow> db
      | Some s \<Rightarrow>
          let mine = (\<lambda>m. stack_instance_id m = Some sid)
          in if filter mine (module_rows db) = []
             then (if s_status s = S_DESTROYING
                   then upd_stack sid (\<lambda>s. s\<lparr>s_status := S_DESTROYED\<rparr>) db else db)
             else let db1 = db\<lparr>module_rows := map (\<lambda>m. if mine m then recover_stale db m else m) (module_rows db)\<rparr>
                  in upd_stack sid (progress_of (filter mine (module_rows db1))) db1)"

text \<open>\<open>i\<close> is the module the caller holds; its attributes are read from the session.\<close>

definition update_stack_status_if_needed :: "deploy_env \<Rightarrow> int \<Rightarrow> exec_db \<Rightarrow> exec_db \<times> message list" where
  "update_stack_status_if_needed e i db =
     (case module_row db i of
        None \<Rightarrow> (db, [])
      | Some m \<Rightarrow> (case stack_instance_id m of
            None \<Rightarrow> if status m = APPLIED then trigger_next_project_module e m db else (db, [])
          | Some sid \<Rightarrow> (case stack_by_id db sid of
                None \<Rightarrow> (db, [])
              | Some s \<Rightarrow>
                  let should_chain = (s_status s \<in> {S_DEPLOYING, S_PENDING, S_FAILED} \<and> status m = APPLIED);
                      db1 = update_stack_progress sid db
                  in if should_chain
                     then trigger_next_stack_module e (case stack_by_id db1 sid of Some s1 \<Rightarrow> s1 | None \<Rightarrow> s) m db1
                     else (db1, []))))"

definition mark_task_failed ::
  "deploy_env \<Rightarrow> int \<Rightarrow> string \<Rightarrow> int option \<Rightarrow> module_status option \<Rightarrow> bool \<Rightarrow> exec_db \<Rightarrow> exec_db \<times> message list" where
  "mark_task_failed e tid err mod_id failed_status update_stack db =
     (let db1 = upd_task tid (\<lambda>t. t\<lparr>t_status := T_FAILED, t_error := Some (take 2000 err)\<rparr>) db;
          db2 = (case (mod_id, failed_status) of
                   (Some i, Some st) \<Rightarrow> upd_module i (\<lambda>m. m\<lparr>status := st, deployment_error := Some (take 2000 err)\<rparr>) db1
                 | _ \<Rightarrow> db1)
      in case mod_id of
           Some i \<Rightarrow> if update_stack \<and> Option.bind (module_row db2 i) stack_instance_id \<noteq> None
                     then update_stack_status_if_needed e i db2 else (db2, [])
         | None \<Rightarrow> (db2, []))"

section \<open>What an engine task does to the rows\<close>

definition can_execute :: "exec_db \<Rightarrow> project_module \<Rightarrow> bool" where
  "can_execute db m = list_all (\<lambda>d. case module_row db d of
     None \<Rightarrow> False | Some x \<Rightarrow> status x = APPLIED \<and> has_outputs x) (dependencies m)"

text \<open>
  The task of the OpenTofu engine. A successful init with \<^verbatim>\<open>auto_apply\<close>: the init task is completed, and the apply task that follows
  is created without a run handle. A successful apply: the task is completed, the module is
  applied with its outputs, and the hook runs.
\<close>

definition init_succeeded :: "deploy_env \<Rightarrow> int \<Rightarrow> int \<Rightarrow> exec_db \<Rightarrow> exec_db \<times> message list" where
  "init_succeeded e tid i db =
     (let db1 = set_status i INITIALIZED (upd_task tid (\<lambda>t. t\<lparr>t_status := T_COMPLETED\<rparr>) db)
      in case module_row db1 i of
           None \<Rightarrow> (db1, [])
         | Some m \<Rightarrow>
             if \<not> can_execute db1 m then (db1, [])
             else let (tid', db2) = add_task ''apply'' T_QUEUED m None None db1;
                      ms = plain_message ''run_opentofu_apply'' tid' m []
                  in case send e ms of
                       None \<Rightarrow> (db2, [])
                     | Some cid \<Rightarrow> (set_status i APPLYING (upd_task tid' (\<lambda>t. t\<lparr>t_celery_id := Some cid\<rparr>) db2), [ms]))"

definition apply_succeeded :: "deploy_env \<Rightarrow> int \<Rightarrow> int \<Rightarrow> exec_db \<Rightarrow> exec_db \<times> message list" where
  "apply_succeeded e tid i db =
     update_stack_status_if_needed e i
       (upd_module i (\<lambda>m. m\<lparr>status := APPLIED, has_outputs := True, deployment_error := None\<rparr>)
         (upd_task tid (\<lambda>t. t\<lparr>t_status := T_COMPLETED\<rparr>) db))"

text \<open>The failures: the last 2000 characters of the log become the module's error.\<close>

definition log_tail :: "string \<Rightarrow> string" where
  "log_tail logs = drop (length logs - 2000) logs"

definition init_failed :: "deploy_env \<Rightarrow> int \<Rightarrow> int \<Rightarrow> string \<Rightarrow> exec_db \<Rightarrow> exec_db \<times> message list" where
  "init_failed e tid i logs db =
     (let db1 = upd_module i (\<lambda>m. m\<lparr>status := INIT_FAILED, deployment_error := Some (log_tail logs)\<rparr>)
            (upd_task tid (\<lambda>t. t\<lparr>t_status := T_FAILED, t_error := Some ''Init failed''\<rparr>) db)
      in if Option.bind (module_row db1 i) stack_instance_id \<noteq> None then update_stack_status_if_needed e i db1 else (db1, []))"

definition apply_failed :: "deploy_env \<Rightarrow> int \<Rightarrow> int \<Rightarrow> string \<Rightarrow> exec_db \<Rightarrow> exec_db \<times> message list" where
  "apply_failed e tid i logs db =
     update_stack_status_if_needed e i
       (upd_module i (\<lambda>m. m\<lparr>status := APPLY_FAILED, deployment_error := Some (log_tail logs)\<rparr>)
         (upd_task tid (\<lambda>t. t\<lparr>t_status := T_FAILED, t_error := Some ''Apply failed''\<rparr>) db))"

section \<open>What a wave dispatches\<close>

lemma dispatch_init_message: "dispatch_init tid m a f = Inr ms \<Longrightarrow> msg_module_id ms = pr_id m \<and> msg_task_id ms = tid"
  by (auto simp: dispatch_init_def plain_message_def Let_def split: option.splits sum.splits if_splits)

lemma dispatch_apply_message: "dispatch_apply tid m f = Inr ms \<Longrightarrow> msg_module_id ms = pr_id m \<and> msg_task_id ms = tid"
  by (auto simp: dispatch_apply_def plain_message_def Let_def split: option.splits sum.splits if_splits)

text \<open>The session after one module was queued, and the two kinds of task a wave queues.\<close>

definition queued_task :: "int \<Rightarrow> string \<Rightarrow> project_module \<Rightarrow> string option \<Rightarrow> string \<Rightarrow> task_row" where
  "queued_task tid ty m rh cid =
     \<lparr>t_id = tid, t_type = ty, t_status = T_QUEUED, t_project_id = pr_project_id m, t_module_id = pr_id m,
      t_run_handle = rh, t_celery_id = Some cid, t_scope = None, t_error = None\<rparr>"

definition wave_kind :: "project_module \<Rightarrow> string \<times> module_status" where
  "wave_kind m = (if status m = NOT_INITIALIZED then (''init'', INITIALIZING) else (''apply'', APPLYING))"

definition tasks_fresh :: "exec_db \<Rightarrow> bool" where
  "tasks_fresh db \<longleftrightarrow> distinct (map t_id (tasks db)) \<and> (\<forall>t \<in> set (tasks db). t_id t < next_task db)"

definition after_queue :: "exec_db \<Rightarrow> project_module \<Rightarrow> string option \<Rightarrow> string \<Rightarrow> exec_db" where
  "after_queue db m rh cid = set_status (pr_id m) (snd (wave_kind m))
     (db\<lparr>tasks := tasks db @ [queued_task (next_task db) (fst (wave_kind m)) m rh cid], next_task := next_task db + 1\<rparr>)"

lemma upd_task_new:
  assumes "tasks_fresh db"
  shows "upd_task (next_task db) (\<lambda>t. t\<lparr>t_celery_id := Some cid\<rparr>) (snd (add_task ty T_QUEUED m rh None db)) =
    db\<lparr>tasks := tasks db @ [queued_task (next_task db) ty m rh cid], next_task := next_task db + 1\<rparr>"
proof -
  have "map (\<lambda>t. if t_id t = next_task db then t\<lparr>t_celery_id := Some cid\<rparr> else t) (tasks db) = tasks db"
    using assms by (intro map_idI) (auto simp: tasks_fresh_def)
  then show ?thesis by (simp add: upd_task_def add_task_def queued_task_def)
qed

definition wave_message :: "deploy_env \<Rightarrow> int \<Rightarrow> project_module \<Rightarrow> string + message" where
  "wave_message e tid m =
     (if status m = NOT_INITIALIZED then dispatch_init tid m True False else dispatch_apply tid m (force_new_plan e m))"

lemma wave_message_id: "wave_message e tid m = Inr ms \<Longrightarrow> msg_module_id ms = pr_id m \<and> msg_task_id ms = tid"
  by (auto simp: wave_message_def dispatch_init_message dispatch_apply_message split: if_splits)

lemma wave_module_send:
  "module_row db i = Some m \<Longrightarrow> wave_candidate e db m \<Longrightarrow>
     wave_module e rh i (db, sent, first) =
       wave_send e (wave_message e (next_task db) m) (next_task db) i (snd (wave_kind m))
         (snd (add_task (fst (wave_kind m)) T_QUEUED m rh None db), sent, first)"
  by (simp add: wave_module_def wave_message_def wave_kind_def add_task_def)

lemma wave_module_cases:
  assumes "wave_module e rh i (db, sent, first) = (err, db', sent', first')" and "tasks_fresh db"
  obtains (skip) "err = None" "db' = db" "sent' = sent" "first' = first"
      "\<And>m. module_row db i = Some m \<Longrightarrow> \<not> wave_candidate e db m"
    | (fail) m where "err \<noteq> None" "module_row db i = Some m" "wave_candidate e db m"
      "\<And>ms. wave_message e (next_task db) m = Inr ms \<Longrightarrow> send e ms = None"
    | (queue) m cid ms where "err = None" "module_row db i = Some m" "wave_candidate e db m"
      "db' = after_queue db m rh cid" "sent' = sent @ [ms]" "msg_module_id ms = i"
proof (cases "\<exists>m. module_row db i = Some m \<and> wave_candidate e db m")
  case False
  then have "wave_module e rh i (db, sent, first) = (None, db, sent, first)"
    by (auto simp: wave_module_def split: option.split)
  then show ?thesis using assms(1) False by (intro skip) auto
next
  case True
  then obtain m where m: "module_row db i = Some m" "wave_candidate e db m" by blast
  then have i: "pr_id m = i" by (auto simp: module_row_def dest: find_SomeD)
  note w = assms(1) [unfolded wave_module_send [OF m] wave_send_def, simplified]
  show ?thesis
  proof (cases err)
    case None
    then obtain ms cid where ms: "wave_message e (next_task db) m = Inr ms" "sent' = sent @ [ms]"
      "db' = set_status i (snd (wave_kind m)) (upd_task (next_task db) (\<lambda>t. t\<lparr>t_celery_id := Some cid\<rparr>)
         (snd (add_task (fst (wave_kind m)) T_QUEUED m rh None db)))"
      using w by (auto split: sum.splits option.splits)
    have "db' = after_queue db m rh cid" by (simp add: ms(3) i after_queue_def upd_task_new [OF assms(2)])
    then show ?thesis using queue [OF None m _ ms(2)] wave_message_id [OF ms(1)] i by blast
  next
    case (Some msg)
    then show ?thesis using w by (intro fail [OF _ m]) (auto split: sum.splits option.splits)
  qed
qed

lemma module_row_upd:
  assumes "\<And>m. pr_id (f m) = pr_id m"
  shows "module_row (upd_module i f db) j = (if j = i then map_option f (module_row db i) else module_row db j)"
  using find_map_upd [of pr_id f j i "module_rows db", OF assms] by (auto simp: module_row_def upd_module_def)

lemma module_row_tasks [simp]: "module_row (db\<lparr>tasks := ts, next_task := n\<rparr>) = module_row db" "module_row (db\<lparr>tasks := ts\<rparr>) = module_row db"
  by (simp_all add: module_row_def fun_eq_iff)

lemma module_row_queue:
  "module_row (after_queue db m rh cid) j =
     (if j = pr_id m then map_option (\<lambda>x. x\<lparr>status := snd (wave_kind m)\<rparr>) (module_row db j) else module_row db j)"
  by (simp add: after_queue_def set_status_def module_row_upd)

lemma tasks_queue [simp]:
  "tasks (after_queue db m rh cid) = tasks db @ [queued_task (next_task db) (fst (wave_kind m)) m rh cid]"
  "next_task (after_queue db m rh cid) = next_task db + 1"
  by (simp_all add: after_queue_def set_status_def upd_module_def)

lemma tasks_fresh_queue: "tasks_fresh db \<Longrightarrow> tasks_fresh (after_queue db m rh cid)"
  by (auto simp: tasks_fresh_def queued_task_def)

lemma active_None: "active_task db i = None \<longleftrightarrow> (\<forall>t \<in> set (tasks db). \<not> is_active i t)"
  by (auto simp: active_task_def find_None_iff)

definition applied :: "exec_db \<Rightarrow> int \<Rightarrow> bool" where
  "applied db i \<longleftrightarrow> (\<exists>m. module_row db i = Some m \<and> status m = APPLIED)"

lemma deps_ready_applied: "deps_ready db m \<longleftrightarrow> (\<forall>d \<in> set (dependencies m). applied db d)"
  by (auto simp: deps_ready_def applied_def list_all_iff split: option.splits)

definition is_candidate :: "deploy_env \<Rightarrow> exec_db \<Rightarrow> int \<Rightarrow> bool" where
  "is_candidate e db i \<longleftrightarrow> (case module_row db i of None \<Rightarrow> False | Some m \<Rightarrow> wave_candidate e db m)"

definition unchanged :: "deploy_env \<Rightarrow> exec_db \<Rightarrow> bool" where
  "unchanged e db \<longleftrightarrow> (\<forall>i m. module_row db i = Some m \<and> status m = APPLIED \<longrightarrow> \<not> vars_changed e m)"

lemma applied_queue:
  assumes "unchanged e db" and "module_row db (pr_id m) = Some m" and "wave_candidate e db m"
  shows "applied (after_queue db m rh cid) i \<longleftrightarrow> applied db i"
  using assms by (auto simp: applied_def module_row_queue wave_candidate_def unchanged_def wave_kind_def)

lemma unchanged_queue:
  assumes "unchanged e db" and "module_row db (pr_id m) = Some m" and "wave_candidate e db m"
  shows "unchanged e (after_queue db m rh cid)"
  using assms by (auto simp: unchanged_def module_row_queue wave_kind_def split: if_splits)

lemma candidate_queue:
  assumes "unchanged e db" and "module_row db (pr_id m) = Some m" and "wave_candidate e db m" and "j \<noteq> pr_id m"
  shows "is_candidate e (after_queue db m rh cid) j = is_candidate e db j"
proof -
  have "active_task (after_queue db m rh cid) j = None \<longleftrightarrow> active_task db j = None"
    using assms(4) by (auto simp: active_None is_active_def queued_task_def)
  moreover have "deps_ready (after_queue db m rh cid) x = deps_ready db x" for x
    by (simp add: deps_ready_applied applied_queue [OF assms(1-3)])
  moreover have "pr_id x = j" if "module_row db j = Some x" for x
    using that by (auto simp: module_row_def dest: find_SomeD)
  ultimately show ?thesis using assms(4)
    by (auto simp: is_candidate_def module_row_queue wave_candidate_def split: option.split)
qed

lemma wave_loop_ready:
  assumes "wave_loop e rh is (db, sent, first) = (None, db', sent', first')" and "tasks_fresh db" and "unchanged e db" and "distinct is"
  shows "map msg_module_id sent' = map msg_module_id sent @ filter (is_candidate e db) is \<and>
    (\<exists>new. tasks db' = tasks db @ new \<and> map t_module_id new = filter (is_candidate e db) is \<and>
       (\<forall>t \<in> set new. t_status t = T_QUEUED \<and> t_run_handle t = rh))"
  using assms
proof (induction "is" arbitrary: db sent first)
  case (Cons i "is")
  obtain err db1 sent1 first1 where w: "wave_module e rh i (db, sent, first) = (err, db1, sent1, first1)" by (metis prod_cases4)
  then have err: "err = None" and rest: "wave_loop e rh is (db1, sent1, first1) = (None, db', sent', first')"
    using Cons.prems(1) by (auto split: option.splits)
  from w Cons.prems(2) show ?case
  proof (cases rule: wave_module_cases)
    case skip
    then have "\<not> is_candidate e db i" by (auto simp: is_candidate_def split: option.split)
    then show ?thesis using Cons.IH [OF rest [unfolded skip]] Cons.prems(2-4) skip by simp
  next
    case (fail m)
    then show ?thesis using err by simp
  next
    case (queue m cid ms)
    have i: "pr_id m = i" using queue(2) by (auto simp: module_row_def dest: find_SomeD)
    note row = queue(2) [folded i]
    have same: "filter (is_candidate e (after_queue db m rh cid)) is = filter (is_candidate e db) is"
    proof (rule filter_cong [OF refl])
      fix j assume "j \<in> set is"
      then have "j \<noteq> pr_id m" using Cons.prems(4) i by auto
      then show "is_candidate e (after_queue db m rh cid) j = is_candidate e db j"
        by (rule candidate_queue [OF Cons.prems(3) row queue(3)])
    qed
    have "is_candidate e db i" using queue(2,3) by (simp add: is_candidate_def)
    then show ?thesis
      using Cons.IH [OF rest [unfolded queue]] tasks_fresh_queue [OF Cons.prems(2)] unchanged_queue [OF Cons.prems(3) row queue(3)]
        Cons.prems(4) queue i by (auto simp: same queued_task_def)
  qed
qed simp

lemma distinct_wave_order: "distinct (map pr_id (module_rows db)) \<Longrightarrow> distinct (wave_order pid db)"
  by (simp add: wave_order_def project_modules_def distinct_map_filter distinct_map inj_on_def)


section \<open>The chain as an abstract machine\<close>

text \<open>
  The specification: three sets of modules, the applied ones, those being initialised and those
  being applied. An initialisation that ends starts the apply; an apply that ends starts every
  module that became ready and is not at work.
\<close>

definition ready_set :: "'i set \<Rightarrow> ('i \<Rightarrow> 'i set) \<Rightarrow> 'i set \<Rightarrow> 'i set" where
  "ready_set ids deps A = {i \<in> ids. i \<notin> A \<and> deps i \<subseteq> A}"

type_synonym 'i machine = "'i set \<times> 'i set \<times> 'i set"

inductive machine_step :: "'i set \<Rightarrow> ('i \<Rightarrow> 'i set) \<Rightarrow> 'i machine \<Rightarrow> 'i machine \<Rightarrow> bool" for ids deps where
  init_done: "i \<in> I \<Longrightarrow> machine_step ids deps (A, I, P) (A, I - {i}, insert i P)"
| apply_done: "i \<in> P \<Longrightarrow> I' \<union> P' = ready_set ids deps (insert i A) - (I \<union> (P - {i})) \<Longrightarrow> I' \<inter> P' = {} \<Longrightarrow>
    machine_step ids deps (A, I, P) (insert i A, I \<union> I', (P - {i}) \<union> P')"

inductive_cases machine_stepE: "machine_step ids deps (A, I, P) s"

definition machine_inv :: "'i set \<Rightarrow> ('i \<Rightarrow> 'i set) \<Rightarrow> 'i machine \<Rightarrow> bool" where
  "machine_inv ids deps s \<longleftrightarrow> (case s of (A, I, P) \<Rightarrow> A \<subseteq> ids \<and> I \<subseteq> ids \<and> P \<subseteq> ids \<and>
     A \<inter> I = {} \<and> A \<inter> P = {} \<and> I \<inter> P = {} \<and> ready_set ids deps A \<subseteq> I \<union> P \<and> (\<forall>i \<in> I \<union> P. deps i \<subseteq> A))"

definition machine_work :: "'i set \<Rightarrow> 'i machine \<Rightarrow> nat" where
  "machine_work ids s = (case s of (A, I, P) \<Rightarrow> 2 * card (ids - A - P) + card P)"

locale wave_machine =
  fixes ids :: "'p \<Rightarrow> 'i set" and deps :: "'p \<Rightarrow> 'i \<Rightarrow> 'i set" and ok :: "'p \<Rightarrow> bool"
  assumes finite_ids: "ok p \<Longrightarrow> finite (ids p)"
    and closed_deps: "ok p \<Longrightarrow> i \<in> ids p \<Longrightarrow> deps p i \<subseteq> ids p"
    and acyclic_deps: "ok p \<Longrightarrow> acyclic {(i, d). i \<in> ids p \<and> d \<in> deps p i}"
begin

lemma step_keeps_inv:
  assumes "ok p" and "machine_step (ids p) (deps p) s t" and "machine_inv (ids p) (deps p) s"
  shows "machine_inv (ids p) (deps p) t"
  using assms(2,3)
proof (cases rule: machine_step.cases)
  case (init_done i I A P)
  then show ?thesis using assms(3) by (auto simp: machine_inv_def)
next
  case (apply_done i P I' P' A I)
  let ?N = "ready_set (ids p) (deps p) (insert i A)"
  have N: "?N \<subseteq> ids p" "?N \<inter> insert i A = {}" "\<forall>j \<in> ?N. deps p j \<subseteq> insert i A" by (auto simp: ready_set_def)
  have inv: "A \<subseteq> ids p" "I \<subseteq> ids p" "P \<subseteq> ids p" "A \<inter> I = {}" "A \<inter> P = {}" "I \<inter> P = {}" "\<forall>i \<in> I \<union> P. deps p i \<subseteq> A"
    using assms(3) apply_done(1) by (auto simp: machine_inv_def)
  note new = apply_done(3-5)
  have "insert i A \<inter> (I \<union> I') = {}" "insert i A \<inter> (P - {i} \<union> P') = {}" "(I \<union> I') \<inter> (P - {i} \<union> P') = {}"
    using inv N(2) new by blast+
  moreover have "insert i A \<subseteq> ids p" "I \<union> I' \<subseteq> ids p" "P - {i} \<union> P' \<subseteq> ids p" using inv N(1) new by blast+
  moreover have "?N \<subseteq> (I \<union> I') \<union> (P - {i} \<union> P')" using new(2) by blast
  moreover have "\<forall>j \<in> (I \<union> I') \<union> (P - {i} \<union> P'). deps p j \<subseteq> insert i A" using inv(7) N(3) new(2) by blast
  ultimately show ?thesis unfolding apply_done(2) machine_inv_def prod.case by blast
qed

lemma step_works:
  assumes "ok p" and "machine_step (ids p) (deps p) s t" and "machine_inv (ids p) (deps p) s"
  shows "machine_work (ids p) t < machine_work (ids p) s"
  using assms(2)
proof (cases rule: machine_step.cases)
  case (init_done i I A P)
  have fin: "finite (ids p - A - P)" "finite P" using finite_ids [OF assms(1)] assms(3) init_done
    by (auto simp: machine_inv_def intro: finite_subset)
  have i: "i \<in> ids p - A - P" "i \<notin> P" using init_done assms(3) by (auto simp: machine_inv_def)
  have "ids p - A - insert i P = ids p - A - P - {i}" by blast
  then have "card (ids p - A - insert i P) = card (ids p - A - P) - 1" using i(1) fin(1) by (simp add: card_Diff_singleton)
  moreover have "0 < card (ids p - A - P)" using i(1) fin(1) by (auto simp: card_gt_0_iff)
  ultimately show ?thesis using init_done i(2) fin(2) by (simp add: machine_work_def)
next
  case (apply_done i P I' P' A I)
  have inv: "A \<subseteq> ids p" "P \<subseteq> ids p" "A \<inter> P = {}" "I \<inter> P = {}" using assms(3) apply_done by (auto simp: machine_inv_def)
  have fin: "finite (ids p - A - P)" "finite P" "finite P'"
    using finite_ids [OF assms(1)] inv apply_done(4)
    by (auto intro: finite_subset [of _ "ids p"] simp: ready_set_def)
  have P': "P' \<subseteq> ids p - A - P" using apply_done(4,5) by (auto simp: ready_set_def)
  have "ids p - insert i A - (P - {i} \<union> P') = ids p - A - P - P'" using apply_done(3) by blast
  then have "card (ids p - insert i A - (P - {i} \<union> P')) + card P' = card (ids p - A - P)"
    using P' fin by (simp add: card_Diff_subset card_mono)
  moreover have "card (P - {i} \<union> P') \<le> card P - 1 + card P'"
    using card_Un_le [of "P - {i}" P'] apply_done(3) fin(2) by (simp add: card_Diff_singleton)
  moreover have "0 < card P" using apply_done(3) fin(2) by (auto simp: card_gt_0_iff)
  ultimately show ?thesis using apply_done by (simp add: machine_work_def)
qed

lemma progress:
  assumes "ok p" and "machine_inv (ids p) (deps p) (A, I, P)" and "A \<noteq> ids p"
  shows "I \<union> P \<noteq> {}"
proof -
  let ?R = "{(d, i). i \<in> ids p \<and> d \<in> deps p i}"
  have "?R = {(i, d). i \<in> ids p \<and> d \<in> deps p i}\<inverse>" by auto
  then have "acyclic ?R" using acyclic_deps [OF assms(1)] by simp
  moreover have "finite ?R"
    using finite_ids [OF assms(1)] closed_deps [OF assms(1)] by (intro finite_subset [of ?R "ids p \<times> ids p"]) auto
  ultimately have wf: "wf ?R" by (simp add: finite_acyclic_wf)
  obtain u where "u \<in> ids p - A" using assms(2,3) by (auto simp: machine_inv_def)
  from wfE_min [OF wf this] obtain z where z: "z \<in> ids p - A" "\<And>d. (d, z) \<in> ?R \<Longrightarrow> d \<notin> ids p - A" by blast
  then have "deps p z \<subseteq> A" using closed_deps [OF assms(1)] by blast
  then have "z \<in> ready_set (ids p) (deps p) A" using z(1) by (simp add: ready_set_def)
  then show ?thesis using assms(2) by (auto simp: machine_inv_def)
qed

end

section \<open>The rows refine the machine\<close>

text \<open>The part of a module row that a deployment never writes, and a project as the machine sees it.\<close>

definition static :: "project_module \<Rightarrow> project_module" where
  "static m = m\<lparr>status := NOT_INITIALIZED, has_outputs := False, deployment_error := None\<rparr>"

definition project_ids :: "int \<times> project_module list \<Rightarrow> int set" where
  "project_ids p = pr_id ` set (project_modules (fst p) (snd p))"

definition project_deps :: "int \<times> project_module list \<Rightarrow> int \<Rightarrow> int set" where
  "project_deps p i = {d. \<exists>m \<in> set (project_modules (fst p) (snd p)). pr_id m = i \<and> d \<in> set (dependencies m)}"

definition deployable :: "int \<times> project_module list \<Rightarrow> bool" where
  "deployable p \<longleftrightarrow> distinct (map pr_id (snd p)) \<and> acyclic (project_edges (fst p) (snd p)) \<and>
     (\<forall>m \<in> set (project_modules (fst p) (snd p)).
        enabled m \<and> stack_instance_id m = None \<and> set (dependencies m) \<subseteq> project_ids p)"

interpretation chain: wave_machine project_ids project_deps deployable
proof
  fix p assume ok: "deployable p"
  show "finite (project_ids p)" by (simp add: project_ids_def)
  show "project_deps p i \<subseteq> project_ids p" if "i \<in> project_ids p" for i
    using ok by (auto simp: deployable_def project_deps_def)
  have "{(i, d). i \<in> project_ids p \<and> d \<in> project_deps p i} \<subseteq> project_edges (fst p) (snd p)"
  proof clarify
    fix i d assume "d \<in> project_deps p i"
    then obtain m where m: "m \<in> set (project_modules (fst p) (snd p))" "pr_id m = i" "d \<in> set (dependencies m)"
      by (auto simp: project_deps_def)
    then have "d \<in> project_ids p" using ok by (auto simp: deployable_def)
    then show "(i, d) \<in> project_edges (fst p) (snd p)" using m unfolding project_edges_def project_ids_def by blast
  qed
  then show "acyclic {(i, d). i \<in> project_ids p \<and> d \<in> project_deps p i}"
    using ok acyclic_subset by (auto simp: deployable_def)
qed

definition busy :: "exec_db \<Rightarrow> string \<Rightarrow> int \<Rightarrow> bool" where
  "busy db ty i \<longleftrightarrow> (\<exists>t \<in> set (tasks db). is_active i t \<and> t_type t = ty)"

definition machine_of :: "int \<times> project_module list \<Rightarrow> exec_db \<Rightarrow> int machine" where
  "machine_of p db = ({i \<in> project_ids p. applied db i}, {i \<in> project_ids p. busy db ''init'' i},
     {i \<in> project_ids p. busy db ''apply'' i})"

definition chain_inv :: "int \<times> project_module list \<Rightarrow> exec_db \<Rightarrow> bool" where
  "chain_inv p db \<longleftrightarrow> map static (module_rows db) = snd p \<and> tasks_fresh db \<and>
     (\<forall>i m. module_row db i = Some m \<and> status m = APPLIED \<longrightarrow> has_outputs m) \<and>
     (\<forall>i \<in> project_ids p. \<forall>t \<in> set (tasks db). is_active i t \<longrightarrow>
        t_type t \<in> {''init'', ''apply''} \<and> \<not> applied db i \<and> (\<forall>d \<in> project_deps p i. applied db d) \<and>
        (\<forall>t' \<in> set (tasks db). is_active i t' \<longrightarrow> t' = t))"

definition chain_env :: "deploy_env \<Rightarrow> int \<times> project_module list \<Rightarrow> bool" where
  "chain_env e p \<longleftrightarrow> (\<forall>m \<in> set (project_modules (fst p) (snd p)). resolve_dispatch_engine m = Inr ''opentofu'') \<and>
     (\<forall>ms. send e ms \<noteq> None) \<and> (\<forall>m. \<not> vars_changed e m)"

lemma static_fields [simp]:
  "pr_id (static m) = pr_id m" "pr_project_id (static m) = pr_project_id m" "dependencies (static m) = dependencies m"
  "enabled (static m) = enabled m" "stack_instance_id (static m) = stack_instance_id m"
  "library_module (static m) = library_module m"
  by (simp_all add: static_def)

lemma resolve_static [simp]: "resolve_dispatch_engine (static m) = resolve_dispatch_engine m"
proof -
  have "get_explicit_execution_engine (static m) = get_explicit_execution_engine m"
    unfolding get_explicit_execution_engine_def static_fields ..
  moreover have "get_explicit_engine_type (static m) = get_explicit_engine_type m"
    by (simp add: get_explicit_engine_type_def)
  ultimately show ?thesis unfolding resolve_dispatch_engine_def static_fields by (simp only:)
qed

text \<open>What the invariant says of a row of the project.\<close>

lemma project_modules_static: "set (project_modules pid (map static ms)) = static ` set (project_modules pid ms)"
  by (auto simp: project_modules_def)

lemma chain_row:
  assumes "deployable p" and "map static (module_rows db) = snd p" and "i \<in> project_ids p"
  obtains m where "module_row db i = Some m" "pr_id m = i" "pr_project_id m = fst p" "m \<in> set (module_rows db)"
    "enabled m" "stack_instance_id m = None" "set (dependencies m) = project_deps p i"
    "static m \<in> set (project_modules (fst p) (snd p))"
proof -
  have "map pr_id (module_rows db) = map pr_id (snd p)"
    by (simp flip: assms(2) add: comp_def)
  then have dist: "distinct (map pr_id (module_rows db))" using assms(1) by (simp add: deployable_def)
  obtain m where m: "m \<in> set (project_modules (fst p) (module_rows db))" "pr_id m = i"
    using assms(3) by (auto simp: project_ids_def project_modules_static simp flip: assms(2))
  have sm: "static m \<in> set (project_modules (fst p) (snd p))"
    using m(1) by (simp flip: assms(2) add: project_modules_static)
  have mem: "m \<in> set (module_rows db)" "pr_project_id m = fst p" using m(1) by (auto simp: project_modules_def)
  have uniq: "x = m" if "x \<in> set (module_rows db)" "pr_id x = i" for x
    using that m(2) mem(1) dist by (auto simp: distinct_map inj_on_def)
  have "module_row db i \<noteq> None" using mem(1) m(2) by (auto simp: module_row_def find_None_iff)
  then have row: "module_row db i = Some m" using uniq by (auto simp: module_row_def dest: find_SomeD)
  have "set (dependencies m) = project_deps p i"
  proof -
    have "x = static m" if x: "x \<in> set (project_modules (fst p) (snd p))" "pr_id x = i" for x
    proof -
      obtain y where "x = static y" "y \<in> set (module_rows db)"
        using x(1) by (auto simp: project_modules_def simp flip: assms(2))
      then show ?thesis using uniq x(2) by simp
    qed
    note only = this
    show ?thesis
    proof (intro set_eqI iffI)
      fix d assume "d \<in> set (dependencies m)"
      then show "d \<in> project_deps p i" using sm m(2) by (auto simp: project_deps_def intro!: bexI [of _ "static m"])
    next
      fix d assume "d \<in> project_deps p i"
      then obtain x where "x \<in> set (project_modules (fst p) (snd p))" "pr_id x = i" "d \<in> set (dependencies x)"
        by (auto simp: project_deps_def)
      then show "d \<in> set (dependencies m)" using only [of x] by simp
    qed
  qed
  then show ?thesis using that [OF row m(2) mem(2,1)] sm assms(1) by (fastforce simp: deployable_def)
qed

lemma project_id_iff: "i \<in> set (wave_order (fst p) db) \<longleftrightarrow> i \<in> project_ids p" if "map static (module_rows db) = snd p"
  by (simp add: wave_order_def project_ids_def project_modules_static image_image flip: that)

lemma chain_candidate:
  assumes "deployable p" and "chain_inv p db" and "chain_env e p" and "i \<in> project_ids p"
  shows "is_candidate e db i \<longleftrightarrow> \<not> applied db i \<and> \<not> busy db ''init'' i \<and> \<not> busy db ''apply'' i \<and>
    (\<forall>d \<in> project_deps p i. applied db d)"
proof -
  have st: "map static (module_rows db) = snd p" using assms(2) by (simp add: chain_inv_def)
  obtain m where m: "module_row db i = Some m" "pr_id m = i" "enabled m" "set (dependencies m) = project_deps p i"
    using chain_row [OF assms(1) st assms(4)] by metis
  have "active_task db i = None \<longleftrightarrow> \<not> busy db ''init'' i \<and> \<not> busy db ''apply'' i"
    using assms(2,4) by (auto simp: active_None busy_def chain_inv_def)
  then show ?thesis using m assms(3)
    by (auto simp: is_candidate_def wave_candidate_def deps_ready_applied applied_def chain_env_def)
qed

lemma dispatch_succeeds:
  assumes "enabled m" and "resolve_dispatch_engine m = Inr g"
  shows "\<exists>ms. wave_message e tid m = Inr ms"
  using assms by (simp add: wave_message_def dispatch_init_def dispatch_apply_def assert_module_runnable_def Let_def)

lemma static_status [simp]: "static (m\<lparr>status := st\<rparr>) = static m" "static (m\<lparr>status := st, has_outputs := b, deployment_error := err\<rparr>) = static m"
  by (simp_all add: static_def)

lemma static_queue: "map static (module_rows (after_queue db m rh cid)) = map static (module_rows db)"
  by (simp add: after_queue_def set_status_def upd_module_def comp_def if_distrib cong: if_cong)

text \<open>What a wave changes besides the tasks it appends: no module becomes or stops being applied.\<close>

definition wave_frame :: "exec_db \<Rightarrow> exec_db \<Rightarrow> bool" where
  "wave_frame db db' \<longleftrightarrow> map static (module_rows db') = map static (module_rows db) \<and> tasks_fresh db' \<and>
     (\<forall>i. applied db' i = applied db i) \<and>
     (\<forall>i m'. module_row db' i = Some m' \<longrightarrow> (\<exists>m. module_row db i = Some m \<and> has_outputs m' = has_outputs m))"

lemma wave_frame_refl: "tasks_fresh db \<Longrightarrow> wave_frame db db"
  by (simp add: wave_frame_def)

lemma wave_frame_trans: "wave_frame a b \<Longrightarrow> wave_frame b c \<Longrightarrow> wave_frame a c"
  unfolding wave_frame_def by (metis (no_types, lifting))

lemma wave_frame_queue:
  assumes "unchanged e db" and "module_row db (pr_id m) = Some m" and "wave_candidate e db m" and "tasks_fresh db"
  shows "wave_frame db (after_queue db m rh cid)"
  using applied_queue [OF assms(1-3)] tasks_fresh_queue [OF assms(4)]
  by (auto simp: wave_frame_def static_queue module_row_queue)

lemma wave_loop_total:
  assumes p: "deployable p" and env: "chain_env e p"
  shows "map static (module_rows db) = snd p \<Longrightarrow> tasks_fresh db \<Longrightarrow> set is \<subseteq> project_ids p \<Longrightarrow>
    \<exists>db' sent' first'. wave_loop e rh is (db, sent, first) = (None, db', sent', first') \<and> wave_frame db db' \<and>
      (\<forall>t \<in> set (tasks db') - set (tasks db). t_type t \<in> {''init'', ''apply''})"
proof (induction "is" arbitrary: db sent first)
  case Nil
  then show ?case by (simp add: wave_frame_refl)
next
  case (Cons i "is")
  have un: "unchanged e db'" for db' using env by (simp add: unchanged_def chain_env_def)
  obtain err db1 sent1 first1 where w: "wave_module e rh i (db, sent, first) = (err, db1, sent1, first1)" by (metis prod_cases4)
  from w Cons.prems(2) show ?case
  proof (cases rule: wave_module_cases)
    case skip
    then show ?thesis using Cons w by simp
  next
    case (fail m)
    obtain x where x: "module_row db i = Some x" "enabled x" "static x \<in> set (project_modules (fst p) (snd p))"
      using chain_row [OF p Cons.prems(1)] Cons.prems(3) by (metis list.set_intros(1) subsetD)
    obtain g where g: "resolve_dispatch_engine x = Inr g" using env x(3) by (fastforce simp: chain_env_def)
    obtain ms where ms: "wave_message e (next_task db) m = Inr ms"
      using dispatch_succeeds [OF x(2) g, of e "next_task db"] x(1) fail(2) by auto
    have "send e ms \<noteq> None" using env by (simp add: chain_env_def)
    then show ?thesis using fail(4) [OF ms] by simp
  next
    case (queue m cid ms)
    have i: "pr_id m = i" using queue(2) by (auto simp: module_row_def dest: find_SomeD)
    note q = queue(2) [folded i] queue(3)
    have "set is \<subseteq> project_ids p" using Cons.prems(3) by simp
    then obtain db' sent' first' where l: "wave_loop e rh is (db1, sent1, first1) = (None, db', sent', first')"
      "wave_frame db1 db'" "\<forall>t \<in> set (tasks db') - set (tasks db1). t_type t \<in> {''init'', ''apply''}"
      using Cons.IH [of db1 sent1 first1] Cons.prems(1) tasks_fresh_queue [OF Cons.prems(2)] queue(4) static_queue by metis
    have "wave_frame db db'" using wave_frame_trans [OF wave_frame_queue [OF un q Cons.prems(2)]] l(2) queue(4) by simp
    moreover have "t_type t \<in> {''init'', ''apply''}" if "t \<in> set (tasks db') - set (tasks db)" for t
    proof (cases "t \<in> set (tasks db1)")
      case True
      then show ?thesis using that queue(4) by (auto simp: queued_task_def wave_kind_def split: if_splits)
    qed (use that l(3) in blast)
    ultimately show ?thesis using l(1) w queue(1) by auto
  qed
qed

lemma new_tasks_active:
  "t_status t = T_QUEUED \<Longrightarrow> is_active i t \<longleftrightarrow> t_module_id t = i"
  by (simp add: is_active_def NON_TERMINAL_TASK_STATUSES_def)

lemma wave_refines:
  assumes p: "deployable p" and env: "chain_env e p" and inv: "chain_inv p db"
    and m: "machine_of p db = (A, I, P)"
  obtains db' sent first I' P' where "dispatch_first_wave e (fst p) rh db = (None, db', sent, first)" "chain_inv p db'"
    "machine_of p db' = (A, I \<union> I', P \<union> P')" "I' \<union> P' = ready_set (project_ids p) (project_deps p) A - (I \<union> P)" "I' \<inter> P' = {}"
proof -
  have st: "map static (module_rows db) = snd p" and fresh: "tasks_fresh db" using inv by (auto simp: chain_inv_def)
  have un: "unchanged e db" using env by (simp add: unchanged_def chain_env_def)
  have dist: "distinct (map pr_id (module_rows db))"
  proof -
    have "map pr_id (module_rows db) = map pr_id (snd p)" by (simp flip: st add: comp_def)
    then show ?thesis using p by (simp add: deployable_def)
  qed
  obtain db' sent first where w: "wave_loop e rh (wave_order (fst p) db) (db, [], None) = (None, db', sent, first)"
    and fr: "wave_frame db db'" and ty: "\<forall>t \<in> set (tasks db') - set (tasks db). t_type t \<in> {''init'', ''apply''}"
    using wave_loop_total [OF p env st fresh, of "wave_order (fst p) db" rh "[]" None] project_id_iff [OF st] by blast
  obtain new where new: "tasks db' = tasks db @ new" "map t_module_id new = filter (is_candidate e db) (wave_order (fst p) db)"
    "\<forall>t \<in> set new. t_status t = T_QUEUED \<and> t_run_handle t = rh"
    using wave_loop_ready [OF w fresh un distinct_wave_order [OF dist]] by blast
  define cand where "cand = {i \<in> project_ids p. is_candidate e db i}"
  have mods: "t_module_id ` set new = cand"
    using arg_cong [OF new(2), of set] by (auto simp: cand_def project_id_iff [OF st])
  have one: "distinct (map t_module_id new)" using new(2) distinct_wave_order [OF dist] by simp
  have inj: "t = t'" if "t \<in> set new" "t' \<in> set new" "t_module_id t = t_module_id t'" for t t'
    using one that by (auto simp: distinct_map inj_on_def)
  have act: "is_active i t \<longleftrightarrow> t_module_id t = i" if "t \<in> set new" for i t using that new(3) new_tasks_active by blast
  have free: "\<not> is_active i t" if "i \<in> cand" "t \<in> set (tasks db)" for i t
  proof -
    have "active_task db i = None"
      using that(1) by (auto simp: cand_def is_candidate_def wave_candidate_def module_row_def dest!: find_SomeD split: option.splits)
    then show ?thesis using that(2) by (simp add: active_None)
  qed
  have newtype: "t_type t \<in> {''init'', ''apply''}" if "t \<in> set new" for t
  proof -
    have "t \<notin> set (tasks db)" using that free mods act by blast
    then show ?thesis using that ty new(1) by simp
  qed
  have app: "applied db' i = applied db i" for i using fr by (simp add: wave_frame_def)
  have cand_iff: "i \<in> cand \<longleftrightarrow> i \<in> ready_set (project_ids p) (project_deps p) A - (I \<union> P)" for i
    using chain_candidate [OF p inv env, of i] m chain.closed_deps [OF p, of i]
    by (auto simp: cand_def ready_set_def machine_of_def)
  have inv': "chain_inv p db'"
  proof -
    have "\<forall>t \<in> set (tasks db'). is_active i t \<longrightarrow> t_type t \<in> {''init'', ''apply''} \<and> \<not> applied db' i \<and>
        (\<forall>d \<in> project_deps p i. applied db' d) \<and> (\<forall>t' \<in> set (tasks db'). is_active i t' \<longrightarrow> t' = t)" if i: "i \<in> project_ids p" for i
    proof (cases "i \<in> cand")
      case True
      then have "\<not> applied db i" "\<forall>d \<in> project_deps p i. applied db d"
        using chain_candidate [OF p inv env i] by (auto simp: cand_def)
      then show ?thesis using free [OF True] newtype act inj by (auto simp: new(1) app)
    next
      case False
      then have "\<not> is_active i t" if "t \<in> set new" for t using act [OF that, of i] mods that by (metis imageI)
      then show ?thesis using inv i by (auto simp: new(1) app chain_inv_def)
    qed
    moreover have "has_outputs x" if "module_row db' i = Some x" "status x = APPLIED" for i x
    proof -
      have "applied db i" using that app [of i] by (auto simp: applied_def)
      then show ?thesis using that fr inv by (fastforce simp: wave_frame_def chain_inv_def applied_def)
    qed
    ultimately show ?thesis using fr st unfolding chain_inv_def wave_frame_def by auto
  qed
  define I' where "I' = {i \<in> cand. \<exists>t \<in> set new. t_module_id t = i \<and> t_type t = ''init''}"
  define P' where "P' = {i \<in> cand. \<exists>t \<in> set new. t_module_id t = i \<and> t_type t = ''apply''}"
  have union: "I' \<union> P' = cand" using mods newtype by (fastforce simp: I'_def P'_def)
  have disjoint: "I' \<inter> P' = {}" using inj by (fastforce simp: I'_def P'_def)
  have "busy db' ty i \<longleftrightarrow> busy db ty i \<or> i \<in> cand \<and> (\<exists>t \<in> set new. t_module_id t = i \<and> t_type t = ty)" for ty i
    using act mods by (auto simp: busy_def new(1))
  then have mach: "machine_of p db' = (A, I \<union> I', P \<union> P')"
    using m by (auto simp: machine_of_def app I'_def P'_def cand_def)
  have "I' \<union> P' = ready_set (project_ids p) (project_deps p) A - (I \<union> P)" using cand_iff unfolding union by blast
  from that [OF w [folded dispatch_first_wave_def] inv' mach this disjoint] show ?thesis .
qed

text \<open>
  A run in which every engine task succeeds, in whatever order the tasks end: a task at work for a
  module of the project ends, and the code of that task and its hook run.
\<close>

inductive deploy_step :: "deploy_env \<Rightarrow> int \<times> project_module list \<Rightarrow> exec_db \<Rightarrow> exec_db \<Rightarrow> bool" for e p where
  init_ends: "t \<in> set (tasks db) \<Longrightarrow> is_active i t \<Longrightarrow> t_type t = ''init'' \<Longrightarrow> i \<in> project_ids p \<Longrightarrow>
    deploy_step e p db (fst (init_succeeded e (t_id t) i db))"
| apply_ends: "t \<in> set (tasks db) \<Longrightarrow> is_active i t \<Longrightarrow> t_type t = ''apply'' \<Longrightarrow> i \<in> project_ids p \<Longrightarrow>
    deploy_step e p db (fst (apply_succeeded e (t_id t) i db))"

definition complete_task :: "int \<Rightarrow> exec_db \<Rightarrow> exec_db" where
  "complete_task tid db = upd_task tid (\<lambda>t. t\<lparr>t_status := T_COMPLETED\<rparr>) db"

lemma complete_rows [simp]: "module_rows (complete_task tid db) = module_rows db" "module_row (complete_task tid db) = module_row db"
  "next_task (complete_task tid db) = next_task db"
  by (simp_all add: complete_task_def upd_task_def module_row_def fun_eq_iff)

lemma complete_fresh: "tasks_fresh db \<Longrightarrow> tasks_fresh (complete_task tid db)"
  by (auto simp: tasks_fresh_def complete_task_def upd_task_def comp_def if_distrib cong: if_cong)

lemma complete_active:
  "t' \<in> set (tasks (complete_task tid db)) \<and> is_active i t' \<longleftrightarrow> t' \<in> set (tasks db) \<and> is_active i t' \<and> t_id t' \<noteq> tid"
  by (auto simp: complete_task_def upd_task_def is_active_def NON_TERMINAL_TASK_STATUSES_def)

lemma tasks_upd_module [simp]:
  "tasks (upd_module i f db) = tasks db" "tasks_fresh (upd_module i f db) = tasks_fresh db" "next_task (upd_module i f db) = next_task db"
  by (simp_all add: upd_module_def tasks_fresh_def)

lemma static_upd_module: "(\<And>m. static (f m) = static m) \<Longrightarrow> map static (module_rows (upd_module i f db)) = map static (module_rows db)"
  by (simp add: upd_module_def)

lemma only_active:
  assumes "chain_inv p db" and "i \<in> project_ids p" and "t \<in> set (tasks db)" and "is_active i t"
    and "s \<in> set (tasks db)" and "is_active i s"
  shows "s = t"
proof -
  have "\<forall>i \<in> project_ids p. \<forall>t \<in> set (tasks db). is_active i t \<longrightarrow> (\<forall>t' \<in> set (tasks db). is_active i t' \<longrightarrow> t' = t)"
    using assms(1) by (simp add: chain_inv_def)
  then show ?thesis using assms(2-6) by blast
qed

lemma busy_only:
  assumes "chain_inv p db" and "i \<in> project_ids p" and "t \<in> set (tasks db)" and "is_active i t"
  shows "busy db ty i \<longleftrightarrow> t_type t = ty"
proof
  assume "busy db ty i"
  then obtain s where s: "s \<in> set (tasks db)" "is_active i s" "t_type s = ty" by (auto simp: busy_def)
  from only_active [OF assms s(1,2)] s(3) show "t_type t = ty" by simp
next
  assume "t_type t = ty"
  then show "busy db ty i" using assms(3,4) by (auto simp: busy_def)
qed

lemma unique_active:
  assumes "chain_inv p db" and "i \<in> project_ids p" and "t \<in> set (tasks db)" and "is_active i t"
  shows "\<not> (t' \<in> set (tasks (complete_task (t_id t) db)) \<and> is_active i t')"
    and "j \<noteq> i \<Longrightarrow> t' \<in> set (tasks (complete_task (t_id t) db)) \<and> is_active j t' \<longleftrightarrow> t' \<in> set (tasks db) \<and> is_active j t'"
proof -
  have inj: "t_id a = t_id b \<Longrightarrow> a = b" if "a \<in> set (tasks db)" "b \<in> set (tasks db)" for a b
    using assms(1) that by (auto simp: chain_inv_def tasks_fresh_def distinct_map inj_on_def)
  show "\<not> (t' \<in> set (tasks (complete_task (t_id t) db)) \<and> is_active i t')"
    using assms unfolding complete_active chain_inv_def by metis
  show "t' \<in> set (tasks (complete_task (t_id t) db)) \<and> is_active j t' \<longleftrightarrow> t' \<in> set (tasks db) \<and> is_active j t'" if "j \<noteq> i"
    using that inj assms(3,4) unfolding complete_active by (auto simp: is_active_def)
qed

lemma init_step_refines:
  assumes p: "deployable p" and env: "chain_env e p" and inv: "chain_inv p db"
    and t: "t \<in> set (tasks db)" "is_active i t" "t_type t = ''init''" and i: "i \<in> project_ids p"
    and m: "machine_of p db = (A, I, P)"
  shows "chain_inv p (fst (init_succeeded e (t_id t) i db)) \<and> i \<in> I \<and>
    machine_of p (fst (init_succeeded e (t_id t) i db)) = (A, I - {i}, insert i P)"
proof -
  have st: "map static (module_rows db) = snd p" and fresh: "tasks_fresh db" using inv by (auto simp: chain_inv_def)
  obtain x where x: "module_row db i = Some x" "pr_id x = i" "set (dependencies x) = project_deps p i"
    using chain_row [OF p st i] by metis
  have ready: "\<not> applied db i" "\<forall>d \<in> project_deps p i. applied db d" using inv i t by (auto simp: chain_inv_def)
  define db1 where "db1 = set_status i INITIALIZED (complete_task (t_id t) db)"
  define y where "y = x\<lparr>status := INITIALIZED\<rparr>"
  have row1: "module_row db1 j = (if j = i then Some y else module_row db j)" for j
    using x(1) by (simp add: db1_def set_status_def module_row_upd y_def)
  have "can_execute db1 y"
    using ready inv x(3) unfolding can_execute_def list_all_iff
    by (auto simp: y_def row1 applied_def chain_inv_def split: option.split)
  moreover define tid where "tid = next_task db1"
  moreover define ms where "ms = plain_message ''run_opentofu_apply'' tid y []"
  moreover obtain cid where cid: "send e ms = Some cid" using env unfolding chain_env_def by blast
  ultimately have out: "fst (init_succeeded e (t_id t) i db) =
      set_status i APPLYING (upd_task tid (\<lambda>t. t\<lparr>t_celery_id := Some cid\<rparr>) (snd (add_task ''apply'' T_QUEUED y None None db1)))"
    using row1 [of i] by (simp add: init_succeeded_def db1_def [unfolded complete_task_def, symmetric] add_task_def Let_def)
  have fresh1: "tasks_fresh db1" using complete_fresh [OF fresh] by (simp add: db1_def set_status_def)
  define q where "q = queued_task tid ''apply'' y None cid"
  define db2 where "db2 = fst (init_succeeded e (t_id t) i db)"
  have db2: "db2 = set_status i APPLYING (db1\<lparr>tasks := tasks db1 @ [q], next_task := tid + 1\<rparr>)"
    using upd_task_new [OF fresh1] by (simp add: db2_def out q_def tid_def)
  have tasks2: "tasks db2 = tasks (complete_task (t_id t) db) @ [q]" by (simp add: db2 set_status_def db1_def)
  have row2: "module_row db2 j = (if j = i then Some (y\<lparr>status := APPLYING\<rparr>) else module_row db j)" for j
    by (simp add: db2 set_status_def module_row_upd row1)
  have app: "applied db2 j = applied db j" for j
    using ready(1) by (auto simp: applied_def row2)
  have q: "is_active j q \<longleftrightarrow> j = i" for j
    using x(2) by (auto simp: q_def queued_task_def is_active_def NON_TERMINAL_TASK_STATUSES_def y_def)
  have static2: "map static (module_rows db2) = snd p"
    using st by (simp add: db2 db1_def set_status_def static_upd_module [unfolded upd_module_def] upd_module_def comp_def if_distrib cong: if_cong)
  have fresh2: "tasks_fresh db2" using fresh1 by (auto simp: db2 set_status_def tasks_fresh_def q_def queued_task_def tid_def)
  note only = unique_active [OF inv i t(1,2)]
  have active: "t' \<in> set (tasks db2) \<and> is_active j t' \<longleftrightarrow> (if j = i then t' = q else t' \<in> set (tasks db) \<and> is_active j t')" for j t'
    using only q by (auto simp: tasks2)
  have "chain_inv p db2"
    unfolding chain_inv_def
  proof (intro conjI ballI allI impI)
    show "has_outputs z" if "module_row db2 j = Some z \<and> status z = APPLIED" for j z
      using that inv by (auto simp: row2 chain_inv_def split: if_splits)
    fix j t' assume j: "j \<in> project_ids p" and t': "t' \<in> set (tasks db2)" "is_active j t'"
    then have a: "if j = i then t' = q else t' \<in> set (tasks db) \<and> is_active j t'" using active [of t' j] by blast
    show "t_type t' \<in> {''init'', ''apply''}" using a inv j by (auto simp: q_def queued_task_def chain_inv_def split: if_splits)
    show "\<not> applied db2 j" using a ready(1) inv j by (auto simp: app chain_inv_def split: if_splits)
    show "applied db2 d" if "d \<in> project_deps p j" for d using a ready(2) inv j that by (auto simp: app chain_inv_def split: if_splits)
    show "s = t'" if "s \<in> set (tasks db2)" "is_active j s" for s
      using active [of s j] that a inv j by (auto simp: chain_inv_def split: if_splits)
  qed (use static2 fresh2 in auto)
  moreover have busy: "busy db2 ty j \<longleftrightarrow> (if j = i then ty = ''apply'' else busy db ty j)" for ty j
  proof -
    have "busy db2 ty j \<longleftrightarrow> (\<exists>t'. (t' \<in> set (tasks db2) \<and> is_active j t') \<and> t_type t' = ty)" by (auto simp: busy_def)
    then show ?thesis unfolding active by (auto simp: busy_def q_def queued_task_def)
  qed
  moreover have "\<not> busy db ''apply'' i" "busy db ''init'' i" by (simp_all add: busy_only [OF inv i t(1,2)] t(3))
  ultimately show ?thesis using m i unfolding db2_def [symmetric] by (auto simp: machine_of_def app)
qed

lemma apply_step_refines:
  assumes p: "deployable p" and env: "chain_env e p" and inv: "chain_inv p db"
    and t: "t \<in> set (tasks db)" "is_active i t" "t_type t = ''apply''" and i: "i \<in> project_ids p"
    and m: "machine_of p db = (A, I, P)"
  shows "chain_inv p (fst (apply_succeeded e (t_id t) i db)) \<and>
    machine_step (project_ids p) (project_deps p) (A, I, P) (machine_of p (fst (apply_succeeded e (t_id t) i db)))"
proof -
  have st: "map static (module_rows db) = snd p" and fresh: "tasks_fresh db" using inv by (auto simp: chain_inv_def)
  obtain x where x: "module_row db i = Some x" "pr_id x = i" "pr_project_id x = fst p" "stack_instance_id x = None"
    using chain_row [OF p st i] by metis
  have ready: "\<not> applied db i" using inv i t by (auto simp: chain_inv_def)
  define f :: "project_module \<Rightarrow> project_module" where "f = (\<lambda>m. m\<lparr>status := APPLIED, has_outputs := True, deployment_error := None\<rparr>)"
  define db1 where "db1 = upd_module i f (complete_task (t_id t) db)"
  have row1: "module_row db1 j = (if j = i then Some (f x) else module_row db j)" for j
    using x(1) by (simp add: db1_def module_row_upd f_def)
  have app: "applied db1 j \<longleftrightarrow> j = i \<or> applied db j" for j by (auto simp: applied_def row1 f_def)
  note only = unique_active [OF inv i t(1,2)]
  have active: "t' \<in> set (tasks db1) \<and> is_active j t' \<longleftrightarrow> j \<noteq> i \<and> t' \<in> set (tasks db) \<and> is_active j t'" for j t'
    unfolding db1_def tasks_upd_module using only(1) [of t'] only(2) [of j t'] by (cases "j = i") simp_all
  have inv1: "chain_inv p db1"
    unfolding chain_inv_def
  proof (intro conjI ballI allI impI)
    show "map static (module_rows db1) = snd p" using st by (simp add: db1_def f_def upd_module_def comp_def if_distrib cong: if_cong)
    show "tasks_fresh db1" using complete_fresh [OF fresh] by (simp add: db1_def)
    show "has_outputs z" if "module_row db1 j = Some z \<and> status z = APPLIED" for j z
      using that inv by (auto simp: row1 f_def chain_inv_def split: if_splits)
    fix j t' assume j: "j \<in> project_ids p" and t': "t' \<in> set (tasks db1)" "is_active j t'"
    then have a: "j \<noteq> i" "t' \<in> set (tasks db)" "is_active j t'" using active [of t' j] by blast+
    then have b: "t_type t' \<in> {''init'', ''apply''} \<and> \<not> applied db j \<and> (\<forall>d \<in> project_deps p j. applied db d) \<and>
        (\<forall>s \<in> set (tasks db). is_active j s \<longrightarrow> s = t')" using inv j unfolding chain_inv_def by blast
    show "t_type t' \<in> {''init'', ''apply''}" using b by blast
    show "\<not> applied db1 j" unfolding app using a(1) b by blast
    show "applied db1 d" if "d \<in> project_deps p j" for d unfolding app using b that by blast
    show "s = t'" if "s \<in> set (tasks db1)" "is_active j s" for s using active [of s j] that b by blast
  qed
  have busy: "busy db1 ty j \<longleftrightarrow> j \<noteq> i \<and> busy db ty j" for ty j
  proof -
    have "busy db1 ty j \<longleftrightarrow> (\<exists>t'. (t' \<in> set (tasks db1) \<and> is_active j t') \<and> t_type t' = ty)" by (auto simp: busy_def)
    then show ?thesis unfolding active by (auto simp: busy_def)
  qed
  have "\<not> busy db ''init'' i" "busy db ''apply'' i" by (simp_all add: busy_only [OF inv i t(1,2)] t(3))
  then have m1: "machine_of p db1 = (insert i A, I, P - {i})" and iP: "i \<in> P"
    using m i by (auto simp: machine_of_def app busy)
  obtain db' sent first I' P' where w: "dispatch_first_wave e (fst p) (predecessor_handle db1 i) db1 = (None, db', sent, first)"
    and r: "chain_inv p db'" "machine_of p db' = (insert i A, I \<union> I', (P - {i}) \<union> P')"
      "I' \<union> P' = ready_set (project_ids p) (project_deps p) (insert i A) - (I \<union> (P - {i}))" "I' \<inter> P' = {}"
    using wave_refines [OF p env inv1 m1] by metis
  have "fst (apply_succeeded e (t_id t) i db) = db'"
    using row1 [of i] x(2-4) w
    by (simp add: apply_succeeded_def complete_task_def [symmetric] db1_def [unfolded f_def, symmetric]
        update_stack_status_if_needed_def trigger_next_project_module_def f_def)
  then show ?thesis using r machine_step.apply_done [OF iP r(3,4)] by simp
qed

lemma deploy_step_refines:
  assumes "deployable p" and "chain_env e p" and "chain_inv p db" and "deploy_step e p db db'"
  shows "chain_inv p db' \<and> machine_step (project_ids p) (project_deps p) (machine_of p db) (machine_of p db')"
proof -
  obtain A I P where m: "machine_of p db = (A, I, P)" by (cases "machine_of p db")
  from assms(4) show ?thesis
  proof (cases rule: deploy_step.cases)
    case (init_ends t i)
    from init_step_refines [OF assms(1-3) init_ends(2-5) m] show ?thesis
      using m init_ends(1) machine_step.init_done by auto
  next
    case (apply_ends t i)
    from apply_step_refines [OF assms(1-3) apply_ends(2-5) m] show ?thesis using m apply_ends(1) by simp
  qed
qed

lemma chain_start:
  assumes p: "deployable p" and env: "chain_env e p" and inv: "chain_inv p db"
    and idle: "\<forall>i \<in> project_ids p. active_task db i = None"
  obtains db' sent first where "dispatch_first_wave e (fst p) rh db = (None, db', sent, first)" "chain_inv p db'"
    "machine_inv (project_ids p) (project_deps p) (machine_of p db')"
proof -
  define A where "A = {i \<in> project_ids p. applied db i}"
  have "\<not> busy db ty i" if "i \<in> project_ids p" for ty i
    using idle that by (auto simp: busy_def active_None)
  then have m: "machine_of p db = (A, {}, {})" by (auto simp: machine_of_def A_def)
  obtain db' sent first I' P' where w: "dispatch_first_wave e (fst p) rh db = (None, db', sent, first)" "chain_inv p db'"
    and m': "machine_of p db' = (A, I', P')" and new: "I' \<union> P' = ready_set (project_ids p) (project_deps p) A" "I' \<inter> P' = {}"
    using wave_refines [OF p env inv m] by (metis Diff_empty Un_empty_left)
  have "machine_inv (project_ids p) (project_deps p) (machine_of p db')"
    using new unfolding m' machine_inv_def prod.case by (auto simp: A_def ready_set_def)
  then show ?thesis using that w by blast
qed


lemma deploy_steps_inv:
  assumes "deployable p" and "chain_env e p" and "chain_inv p db" and "machine_inv (project_ids p) (project_deps p) (machine_of p db)"
    and "(deploy_step e p ^^ n) db db'"
  shows "chain_inv p db' \<and> machine_inv (project_ids p) (project_deps p) (machine_of p db') \<and>
    n + machine_work (project_ids p) (machine_of p db') \<le> machine_work (project_ids p) (machine_of p db)"
  using assms(5)
proof (induction n arbitrary: db')
  case 0
  then show ?case using assms(3,4) by simp
next
  case (Suc n)
  then obtain db1 where n: "(deploy_step e p ^^ n) db db1" and s: "deploy_step e p db1 db'" by auto
  note IH = Suc.IH [OF n]
  note R = deploy_step_refines [OF assms(1,2) conjunct1 [OF IH] s]
  have "machine_inv (project_ids p) (project_deps p) (machine_of p db')"
    "machine_work (project_ids p) (machine_of p db') < machine_work (project_ids p) (machine_of p db1)"
    using chain.step_keeps_inv [OF assms(1)] chain.step_works [OF assms(1)] R IH by blast+
  then show ?case using R IH by simp
qed


lemma latest_task_new:
  assumes "tasks db = ts @ [x]" and "P x" and "\<forall>t \<in> set ts. t_id t < t_id x"
  shows "latest_task P db = Some x"
proof (cases "filter P ts")
  case Nil
  then show ?thesis using assms by (simp add: latest_task_def)
next
  case (Cons t rest)
  let ?best = "fold (\<lambda>x best. if t_id best < t_id x then x else best)"
  have "?best rest t \<in> set (t # rest)" by (induction rest arbitrary: t) auto
  then have "?best rest t \<in> set (filter P ts)" by (simp only: Cons)
  then have "t_id (?best rest t) < t_id x" using assms(3) by simp
  then show ?thesis using assms Cons by (simp add: latest_task_def)
qed

text \<open>
  The run handle does not survive the automatic apply: as soon as an init task has started the apply
  task of its module, the newest task of the module is that apply task, which was created without a
  handle, so the hook that starts the next wave finds none, whatever the handle of the run was.
\<close>

theorem auto_apply_drops_run_handle:
  assumes "tasks_fresh db" and "snd (init_succeeded e tid i db) \<noteq> []"
  shows "predecessor_handle (fst (init_succeeded e tid i db)) i = None"
proof -
  define db1 where "db1 = set_status i INITIALIZED (upd_task tid (\<lambda>t. t\<lparr>t_status := T_COMPLETED\<rparr>) db)"
  obtain m where m: "module_row db1 i = Some m" "can_execute db1 m"
    using assms(2) by (auto simp: init_succeeded_def Let_def db1_def split: option.splits if_splits)
  then have i: "pr_id m = i" by (auto simp: module_row_def dest: find_SomeD)
  have fresh: "tasks_fresh db1"
    using assms(1) unfolding db1_def set_status_def by (simp add: complete_task_def [symmetric] complete_fresh)
  define ms where "ms = plain_message ''run_opentofu_apply'' (next_task db1) m []"
  obtain cid where cid: "send e ms = Some cid"
    using assms(2) m unfolding init_succeeded_def Let_def db1_def [symmetric] by (auto simp: add_task_def ms_def split: option.splits)
  have "fst (init_succeeded e tid i db) = set_status i APPLYING
      (db1\<lparr>tasks := tasks db1 @ [queued_task (next_task db1) ''apply'' m None cid], next_task := next_task db1 + 1\<rparr>)"
    using m cid upd_task_new [OF fresh]
    unfolding init_succeeded_def Let_def db1_def [symmetric] by (simp add: add_task_def ms_def queued_task_def)
  then have "tasks (fst (init_succeeded e tid i db)) = tasks db1 @ [queued_task (next_task db1) ''apply'' m None cid]"
    by (simp add: set_status_def)
  from latest_task_new [OF this] show ?thesis
    using fresh i by (simp add: predecessor_handle_def queued_task_def tasks_fresh_def)
qed

text \<open>
  Deploying a project that has no enabled module raises a \<^verbatim>\<open>KeyError\<close>, although the code has a
  branch that means to answer "No modules to deploy": the plan of such a project has no
  \<^verbatim>\<open>total_modules\<close> entry for that branch to read.
\<close>

theorem deploy_without_modules_raises:
  assumes "pid \<in> set pids" and "\<forall>m \<in> set (module_rows db). pr_project_id m = pid \<longrightarrow> \<not> enabled m"
  shows "deploy_project_parallel e en rh pids pid create db = (Inl (DeployKeyError ''total_modules''), db, [])"
proof -
  have "filter enabled (project_modules pid (module_rows db)) = []"
    using assms(2) by (auto simp: filter_empty_conv project_modules_def)
  then show ?thesis using assms(1) by (simp add: deploy_project_parallel_def get_execution_plan_def build_layers_def)
qed

section \<open>A run of a small project\<close>

definition demo_deploy_env :: deploy_env where
  "demo_deploy_env = \<lparr>vars_changed = (\<lambda>m. False), has_saved_plan = (\<lambda>m. False), plan_is_valid = (\<lambda>m. False),
     send = (\<lambda>ms. Some ''celery-id'')\<rparr>"

definition demo_project :: "int \<times> project_module list" where
  "demo_project = (7, [demo_pm 1 [], demo_pm 2 [1]])"

definition demo_exec :: exec_db where
  "demo_exec = \<lparr>module_rows = snd demo_project, tasks = [], stacks = [], next_task = 1\<rparr>"

text \<open>The session after the first wave: the init task of the first module is queued.\<close>

definition demo_started :: exec_db where
  "demo_started = demo_exec\<lparr>module_rows := [(demo_pm 1 [])\<lparr>status := INITIALIZING\<rparr>, demo_pm 2 [1]],
     tasks := [\<lparr>t_id = 1, t_type = ''init'', t_status = T_QUEUED, t_project_id = 7, t_module_id = 1,
       t_run_handle = Some ''run'', t_celery_id = Some ''celery-id'', t_scope = None, t_error = None\<rparr>],
     next_task := 2\<rparr>"

lemmas demo_simps = demo_deploy_env_def demo_project_def demo_exec_def demo_started_def demo_pm_def project_modules_def

lemma demo_project_ids: "project_ids demo_project = {1, 2}"
  by (simp add: project_ids_def demo_simps)

lemma demo_project_deps: "project_deps demo_project i = (if i = 2 then {1} else {})"
  by (auto simp: project_deps_def demo_simps)

lemma demo_deployable: "deployable demo_project"
proof -
  have "project_edges 7 [demo_pm 1 [], demo_pm 2 [1]] = {(2, 1)}"
    by (auto simp: project_edges_def demo_simps conj_disj_distribL conj_disj_distribR ex_disj_distrib)
  moreover have "acyclic {(2 :: int, 1)}" by (simp add: acyclic_insert) (simp add: acyclic_def)
  moreover have "set (project_modules (fst demo_project) (snd demo_project)) = {demo_pm 1 [], demo_pm 2 [1]}"
    by (simp add: demo_simps)
  moreover have "distinct (map pr_id (snd demo_project))" by (simp add: demo_simps)
  ultimately show ?thesis unfolding deployable_def demo_project_ids
    by (auto simp: demo_project_def demo_pm_def)
qed

lemma demo_chain_env: "chain_env demo_deploy_env demo_project"
proof -
  have "resolve_dispatch_engine (demo_pm i ds) = Inr ''opentofu''" for i ds by code_simp
  moreover have "set (project_modules (fst demo_project) (snd demo_project)) = {demo_pm 1 [], demo_pm 2 [1]}"
    by (simp add: demo_simps)
  ultimately show ?thesis unfolding chain_env_def by (simp add: demo_deploy_env_def)
qed

lemma demo_rows:
  "module_rows demo_exec = [demo_pm 1 [], demo_pm 2 [1]]" "tasks demo_exec = []" "next_task demo_exec = 1"
  "module_rows demo_started = [(demo_pm 1 [])\<lparr>status := INITIALIZING\<rparr>, demo_pm 2 [1]]"
  "tasks demo_started = [queued_task 1 ''init'' (demo_pm 1 []) (Some ''run'') ''celery-id'']" "next_task demo_started = 2"
  by (simp_all add: demo_simps queued_task_def)

lemma demo_chain_inv: "chain_inv demo_project demo_exec" "chain_inv demo_project demo_started"
  unfolding chain_inv_def demo_project_ids demo_project_deps demo_rows
  by (auto simp: demo_project_def demo_pm_def static_def tasks_fresh_def module_row_def demo_rows queued_task_def
      is_active_def applied_def split: if_splits)

lemma demo_first_wave: "\<exists>sent. dispatch_first_wave demo_deploy_env 7 (Some ''run'') demo_exec = (None, demo_started, sent, Some ''celery-id'')"
  by (rule exI [of _ "[plain_message ''run_opentofu_init'' 1 (demo_pm 1 []) [(''auto_apply'', True), (''force_reinit'', False)]]"])
    code_simp




theorem auto_apply_drops_run_handle_witness:
  "predecessor_handle demo_started 1 = Some ''run'' \<and>
   predecessor_handle (fst (init_succeeded demo_deploy_env 1 1 demo_started)) 1 = None"
proof -
  have "tasks_fresh demo_started" by (simp add: tasks_fresh_def demo_simps)
  moreover have "map msg_task_id (snd (init_succeeded demo_deploy_env 1 1 demo_started)) = [2]" by code_simp
  then have "snd (init_succeeded demo_deploy_env 1 1 demo_started) \<noteq> []" by auto
  moreover have "predecessor_handle demo_started 1 = Some ''run''" by code_simp
  ultimately show ?thesis using auto_apply_drops_run_handle by blast
qed

text \<open>The route lets a project whose only module is disabled through to the error.\<close>

theorem deploy_without_modules_raises_witness:
  "let db = demo_exec\<lparr>module_rows := [(demo_pm 1 [])\<lparr>enabled := False\<rparr>]\<rparr>
   in deploy_project_parallel demo_deploy_env remdups ''run'' [7] 7 True db = (Inl (DeployKeyError ''total_modules''), db, []) \<and>
      deploy_all_modules demo_deploy_env remdups ''run'' [7] None 7 db = (Inl (DeployKeyError ''total_modules''), db, [])"
proof -
  define db where "db = demo_exec\<lparr>module_rows := [(demo_pm 1 [])\<lparr>enabled := False\<rparr>]\<rparr>"
  have "deploy_project_parallel demo_deploy_env remdups ''run'' [7] 7 True db = (Inl (DeployKeyError ''total_modules''), db, [])"
    by (rule deploy_without_modules_raises) (simp_all add: db_def)
  moreover have "validate_project_ready remdups None 7 ''deploy'' (module_rows db) = (True, None)"
    unfolding db_def by code_simp
  moreover have "tasks db = []" by (simp add: db_def demo_exec_def)
  ultimately show ?thesis by (simp add: deploy_all_modules_def db_def)
qed

end
