(* ===== verification/Destroy_Chain.thy ===== *)
theory Destroy_Chain
  imports Deploy_Chain
begin

text \<open>
  The teardown of projects and stacks: the first destroy waves
  (\<^verbatim>\<open>src/backend/services/parallel_execution_service.py\<close> and
  \<^verbatim>\<open>src/backend/services/stack_deployment_service.py\<close>), the hook that a finished destroy runs with its
  terminal detection (\<^verbatim>\<open>src/backend/tasks/_tofu_helpers.py\<close> and \<^verbatim>\<open>src/backend/tasks/parallel_tasks.py\<close>),
  and the rows a destroy task writes (\<^verbatim>\<open>src/backend/tasks/opentofu_tasks.py\<close>).
\<close>

section \<open>Statuses and entities\<close>

definition NO_INFRA_STATUSES :: "module_status list" where
  "NO_INFRA_STATUSES = [DESTROYED, NOT_INITIALIZED, INITIALIZED, PLANNED, INIT_FAILED, PLAN_FAILED]"

definition TERMINAL_DESTROY_STATUSES :: "module_status list" where
  "TERMINAL_DESTROY_STATUSES = [DESTROYED, DESTROY_FAILED, NOT_INITIALIZED, INITIALIZED, PLANNED, INIT_FAILED, PLAN_FAILED]"

abbreviation no_infra :: "project_module \<Rightarrow> bool" where
  "no_infra m \<equiv> status m \<in> set NO_INFRA_STATUSES"

definition mark_entity_failed :: "string \<Rightarrow> int \<Rightarrow> string \<Rightarrow> exec_db \<Rightarrow> exec_db" where
  "mark_entity_failed kind i msg db =
     (if kind = ''stack'' then upd_stack i (\<lambda>s. s\<lparr>s_status := S_FAILED, s_error := Some msg\<rparr>) db else db)"

text \<open>A project has no status of its own: finalising it only writes a log line.\<close>

definition finalize_destroy :: "string \<Rightarrow> int \<Rightarrow> exec_db \<Rightarrow> exec_db" where
  "finalize_destroy kind i db =
     (if kind = ''stack''
      then (case stack_by_id db i of
              None \<Rightarrow> db
            | Some s \<Rightarrow> upd_stack i (\<lambda>s. s\<lparr>s_status := S_DESTROYED\<rparr>)
                (db\<lparr>module_rows := filter (\<lambda>m. pr_id m \<notin> set (deployed_modules db s)) (module_rows db)\<rparr>))
      else db)"

definition update_stack_status_after_deploy :: "int \<Rightarrow> int list \<Rightarrow> int list \<Rightarrow> exec_db \<Rightarrow> exec_db" where
  "update_stack_status_after_deploy pid successful failed db =
     db\<lparr>stacks := map (\<lambda>s. let mine = set (deployed_modules db s)
        in if s_project_id s \<noteq> pid \<or> mine = {} then s
           else if mine \<inter> set failed \<noteq> {} then s\<lparr>s_status := S_FAILED\<rparr>
           else if mine \<inter> set successful = mine then s\<lparr>s_status := S_DEPLOYED\<rparr> else s) (stacks db)\<rparr>"

section \<open>The scope of a run\<close>

definition truthy_text :: "string option \<Rightarrow> bool" where
  "truthy_text x \<longleftrightarrow> (case x of None \<Rightarrow> False | Some s \<Rightarrow> s \<noteq> '''')"

definition destroy_task_of :: "exec_db \<Rightarrow> int \<Rightarrow> task_row option" where
  "destroy_task_of db i = latest_task (\<lambda>t. t_module_id t = i \<and> t_type t = ''destroy'') db"

definition destroy_scope_for :: "exec_db \<Rightarrow> int \<Rightarrow> int option \<Rightarrow> string option" where
  "destroy_scope_for db i tid =
     (case (case tid of Some k \<Rightarrow> find (\<lambda>t. t_type t = ''destroy'' \<and> t_id t = k) (tasks db) | None \<Rightarrow> destroy_task_of db i) of
        None \<Rightarrow> None
      | Some row \<Rightarrow> if truthy_text (t_scope row) then t_scope row
                    else if truthy_text (t_run_handle row) then None else Some ''module'')"

section \<open>Terminal detection\<close>

text \<open>What the detection decided; the code logs it.\<close>

datatype detection = Idle | InProgress | EntityFailed string | Finalized

definition stopped_message :: "nat \<Rightarrow> string" where
  "stopped_message n = ''Destroy stopped: '' @ str_of_nat n @ '' module(s) failed to destroy''"

definition run_terminal_detection_stack :: "project_module \<Rightarrow> exec_db \<Rightarrow> detection \<times> exec_db" where
  "run_terminal_detection_stack m db =
     (case Option.bind (stack_instance_id m) (stack_by_id db) of
        None \<Rightarrow> (Idle, db)
      | Some s \<Rightarrow>
          if s_status s \<noteq> S_DESTROYING \<or> deployed_modules db s = [] then (Idle, db)
          else let scope = filter (\<lambda>x. pr_id x \<in> set (deployed_modules db s)) (module_rows db);
                   failed = filter (\<lambda>x. status x = DESTROY_FAILED) scope
               in if list_ex (\<lambda>x. status x \<notin> set TERMINAL_DESTROY_STATUSES) scope then (InProgress, db)
                  else if failed \<noteq> []
                  then (EntityFailed (stopped_message (length failed)),
                        mark_entity_failed ''stack'' (s_id s) (stopped_message (length failed)) db)
                  else (Finalized, finalize_destroy ''stack'' (s_id s) db))"

definition run_terminal_detection_project_legacy :: "project_module \<Rightarrow> exec_db \<Rightarrow> detection \<times> exec_db" where
  "run_terminal_detection_project_legacy m db =
     (let pid = pr_project_id m;
          active = filter (\<lambda>x. status x \<notin> {NOT_INITIALIZED, INITIALIZED, PLANNED, INIT_FAILED, PLAN_FAILED})
                     (project_modules pid (module_rows db));
          failed = filter (\<lambda>x. status x = DESTROY_FAILED) active
      in if list_ex (\<lambda>x. status x \<notin> set TERMINAL_DESTROY_STATUSES) active then (InProgress, db)
         else if failed \<noteq> []
         then (EntityFailed (stopped_message (length failed)), mark_entity_failed ''project'' pid (stopped_message (length failed)) db)
         else (Finalized, finalize_destroy ''project'' pid db))"

definition append_error :: "string option \<Rightarrow> string \<Rightarrow> string option" where
  "append_error err suffix = Some (take 2000 ((case err of None \<Rightarrow> '''' | Some s \<Rightarrow> s) @ suffix))"

definition run_terminal_detection_project :: "project_module \<Rightarrow> exec_db \<Rightarrow> detection \<times> exec_db" where
  "run_terminal_detection_project m db =
     (let pid = pr_project_id m
      in if \<not> truthy_text (Option.bind (destroy_task_of db (pr_id m)) t_run_handle)
         then run_terminal_detection_project_legacy m db
         else let to_destroy = filter (\<lambda>x. \<not> no_infra x) (project_modules pid (module_rows db));
                  failed = filter (\<lambda>x. status x = DESTROY_FAILED) to_destroy;
                  in_cluster_failed = filter is_in_cluster_module failed;
                  non_cluster_failed = filter (\<lambda>x. \<not> is_in_cluster_module x) failed
              in if list_ex (\<lambda>x. status x \<notin> set TERMINAL_DESTROY_STATUSES) to_destroy then (InProgress, db)
                 else if in_cluster_failed \<noteq> [] \<and> non_cluster_failed = []
                 then (Finalized, finalize_destroy ''project'' pid (db\<lparr>module_rows :=
                        map (\<lambda>x. if pr_project_id x = pid \<and> status x = DESTROY_FAILED \<and> is_in_cluster_module x
                          then x\<lparr>status := DESTROYED,
                                 deployment_error := append_error (deployment_error x)
                                   '' [reconciled-to-destroyed: cluster already torn down]''\<rparr>
                          else x) (module_rows db)\<rparr>))
                 else if failed \<noteq> []
                 then (EntityFailed (stopped_message (length failed)),
                       mark_entity_failed ''project'' pid (stopped_message (length failed)) db)
                 else (Finalized, finalize_destroy ''project'' pid db))"

definition run_terminal_detection :: "int \<Rightarrow> int option \<Rightarrow> exec_db \<Rightarrow> detection \<times> exec_db" where
  "run_terminal_detection i tid db =
     (case module_row db i of
        None \<Rightarrow> (Idle, db)
      | Some m \<Rightarrow>
          let scope = destroy_scope_for db i tid
          in if scope = Some ''module'' then (Idle, db)
             else if scope = Some ''project'' then run_terminal_detection_project m db
             else if scope = Some ''stack'' then run_terminal_detection_stack m db
             else if stack_instance_id m \<noteq> None then run_terminal_detection_stack m db
             else run_terminal_detection_project m db)"

section \<open>The hook of a finished destroy\<close>

definition is_active_destroy :: "int \<Rightarrow> task_row \<Rightarrow> bool" where
  "is_active_destroy i t \<longleftrightarrow> is_active i t \<and> t_type t = ''destroy''"

text \<open>The barrier: a dependent that still holds a dependency back.\<close>

definition uncleared :: "bool \<Rightarrow> project_module \<Rightarrow> bool" where
  "uncleared stack_scope d \<longleftrightarrow>
     \<not> (status d = DESTROYED \<or> no_infra d \<or> status d = DESTROY_FAILED \<and> \<not> stack_scope \<and> is_in_cluster_module d)"

definition in_scope :: "int list option \<Rightarrow> project_module \<Rightarrow> bool" where
  "in_scope scope_ids d \<longleftrightarrow> (case scope_ids of None \<Rightarrow> True | Some ids \<Rightarrow> pr_id d \<in> set ids)"

definition destroy_candidate :: "bool \<Rightarrow> int list option \<Rightarrow> int \<Rightarrow> exec_db \<Rightarrow> project_module \<Rightarrow> bool" where
  "destroy_candidate stack_scope scope_ids pid db dep \<longleftrightarrow>
     \<not> no_infra dep \<and>
     list_all (\<lambda>d. \<not> uncleared stack_scope d)
       (filter (in_scope scope_ids) (get_reverse_dependencies (pr_id dep) pid (module_rows db))) \<and>
     find (is_active_destroy (pr_id dep)) (tasks db) = None"

text \<open>
  Queueing one destroy: the row, the status, and the message. An exception (an unknown engine, an
  unreachable broker) leaves what was flushed in the session.
\<close>

definition queue_destroy ::
  "deploy_env \<Rightarrow> string option \<Rightarrow> string option \<Rightarrow> project_module \<Rightarrow> exec_db \<Rightarrow>
     string option \<times> exec_db \<times> message list \<times> string option" where
  "queue_destroy e rh scope m db =
     (let (tid, db1) = add_task ''destroy'' T_QUEUED m rh scope db;
          db2 = set_status (pr_id m) DESTROYING db1
      in case dispatch_destroy_signature tid m of
           Inl err \<Rightarrow> (Some err, db2, [], None)
         | Inr ms \<Rightarrow> (case send e ms of
               None \<Rightarrow> (Some ''broker unreachable'', db2, [], None)
             | Some cid \<Rightarrow> (None, upd_task tid (\<lambda>t. t\<lparr>t_celery_id := Some cid\<rparr>) db2, [ms], Some cid)))"

fun destroy_loop ::
  "deploy_env \<Rightarrow> bool \<Rightarrow> int list option \<Rightarrow> string option \<Rightarrow> int \<Rightarrow> int \<Rightarrow> int list \<Rightarrow> exec_db \<times> message list \<Rightarrow>
     exec_db \<times> message list" where
  "destroy_loop e stack_scope scope_ids meta i pid [] st = st"
| "destroy_loop e stack_scope scope_ids meta i pid (d # ds) (db, sent) =
     (case find (\<lambda>m. pr_id m = d \<and> pr_project_id m = pid) (module_rows db) of
        None \<Rightarrow> destroy_loop e stack_scope scope_ids meta i pid ds (db, sent)
      | Some dep \<Rightarrow>
          if \<not> destroy_candidate stack_scope scope_ids pid db dep
          then destroy_loop e stack_scope scope_ids meta i pid ds (db, sent)
          else (case queue_destroy e (Option.bind (destroy_task_of db i) t_run_handle) meta dep db of
              (Some err, db', new, cid) \<Rightarrow> (db', sent @ new)
            | (None, db', new, cid) \<Rightarrow> destroy_loop e stack_scope scope_ids meta i pid ds (db', sent @ new)))"

definition trigger_next_destroy_module ::
  "deploy_env \<Rightarrow> int \<Rightarrow> int option \<Rightarrow> exec_db \<Rightarrow> detection \<times> exec_db \<times> message list" where
  "trigger_next_destroy_module e i tid db =
     (case module_row db i of
        None \<Rightarrow> (Idle, db, [])
      | Some m \<Rightarrow>
          let meta = destroy_scope_for db i tid;
              stack_scope = (meta \<noteq> Some ''project'' \<and> stack_instance_id m \<noteq> None);
              scope_ids = (if stack_scope
                then (case Option.bind (stack_instance_id m) (stack_by_id db) of
                        Some s \<Rightarrow> if deployed_modules db s = [] then None else Some (deployed_modules db s)
                      | None \<Rightarrow> None)
                else None)
          in if meta = Some ''module'' then (Idle, db, [])
             else let (db1, sent) = destroy_loop e stack_scope scope_ids meta i (pr_project_id m) (dependencies m) (db, []);
                      (det, db2) = run_terminal_detection i tid db1
                  in (det, db2, sent))"

section \<open>First destroy waves\<close>

definition force_mark :: "int \<Rightarrow> exec_db \<Rightarrow> exec_db" where
  "force_mark pid db = db\<lparr>module_rows :=
     map (\<lambda>m. if pr_project_id m = pid \<and> \<not> no_infra m \<and> is_in_cluster_module m
       then m\<lparr>status := DESTROYED,
              deployment_error := append_error (deployment_error m) '' [force-destroyed: skipped by force_destroy flag]''\<rparr>
       else m) (module_rows db)\<rparr>"

text \<open>A task of another run that is at work is adopted into this one.\<close>

definition adopt_task :: "string option \<Rightarrow> task_row \<Rightarrow> task_row" where
  "adopt_task rh t =
     (if t_scope t \<noteq> Some ''project'' \<or> \<not> truthy_text (t_run_handle t)
      then t\<lparr>t_scope := Some ''project'', t_run_handle := (if truthy_text (t_run_handle t) then t_run_handle t else rh)\<rparr>
      else t)"

definition first_of :: "string option \<Rightarrow> string option \<Rightarrow> string option" where
  "first_of first cid = (if first = None then cid else first)"

fun first_destroy_loop ::
  "deploy_env \<Rightarrow> string option \<Rightarrow> int \<Rightarrow> int list \<Rightarrow> wave \<Rightarrow> string option \<times> wave" where
  "first_destroy_loop e rh pid [] w = (None, w)"
| "first_destroy_loop e rh pid (i # is) (db, sent, first) =
     (case module_row db i of
        None \<Rightarrow> first_destroy_loop e rh pid is (db, sent, first)
      | Some m \<Rightarrow>
          if no_infra m \<or> list_ex (\<lambda>d. \<not> no_infra d) (get_reverse_dependencies i pid (module_rows db))
          then first_destroy_loop e rh pid is (db, sent, first)
          else (case find (is_active_destroy i) (tasks db) of
              Some t \<Rightarrow> first_destroy_loop e rh pid is
                (upd_task (t_id t) (adopt_task rh) db, sent, first_of first (t_celery_id t))
            | None \<Rightarrow> (case queue_destroy e rh (Some ''project'') m db of
                  (Some err, db', new, cid) \<Rightarrow> (Some err, db', sent @ new, first)
                | (None, db', new, cid) \<Rightarrow> first_destroy_loop e rh pid is (db', sent @ new, first_of first cid))))"

definition dispatch_first_destroy_wave :: "deploy_env \<Rightarrow> int \<Rightarrow> string option \<Rightarrow> bool \<Rightarrow> exec_db \<Rightarrow> string option \<times> wave" where
  "dispatch_first_destroy_wave e pid rh force db =
     (let db1 = (if force then force_mark pid db else db)
      in if project_modules pid (module_rows db) = [] then (None, db, [], None)
         else case first_destroy_loop e rh pid (map pr_id (project_modules pid (module_rows db1))) (db1, [], None) of
           (Some err, w) \<Rightarrow> (Some err, w)
         | (None, db2, sent, first) \<Rightarrow>
             (None, if force \<and> first = None then finalize_destroy ''project'' pid db2 else db2, sent, first))"

definition destroy_project_parallel ::
  "deploy_env \<Rightarrow> (int list \<Rightarrow> int list) \<Rightarrow> string \<Rightarrow> int list \<Rightarrow> int \<Rightarrow> bool \<Rightarrow> bool \<Rightarrow> exec_db \<Rightarrow>
     (deploy_error + deploy_response) \<times> exec_db \<times> message list" where
  "destroy_project_parallel e en rh pids pid create_tasks force db =
     (if pid \<notin> set pids then (Inl (DeployValueError (''Project '' @ str_of_int pid @ '' not found'')), db, [])
      else case get_execution_plan en pid (module_rows db) of
        PlanError err \<Rightarrow> (Inl (DeployValueError (''Cannot destroy: '' @ err)), db, [])
      | PlanEmpty \<Rightarrow> (Inl (DeployKeyError ''total_modules''), db, [])
      | Plan p \<Rightarrow>
          if total_modules p = 0
          then (Inr \<lparr>dr_handle = None, dr_plan = None, dr_total_modules = 0, dr_total_layers = 0, dr_minutes = 0\<rparr>, db, [])
          else let answer = \<lparr>dr_handle = (if create_tasks then Some rh else None), dr_plan = Some p,
                 dr_total_modules = total_modules p, dr_total_layers = total_layers p, dr_minutes = parallel_minutes p\<rparr>
               in if \<not> create_tasks then (Inr answer, db, [])
                  else (case dispatch_first_destroy_wave e pid (Some rh) force db of
                      (Some err, db', sent, first) \<Rightarrow> (Inl (DeployValueError err), db', sent)
                    | (None, db', sent, first) \<Rightarrow> (Inr answer, db', sent)))"

text \<open>
  The route. The stacks are committed as destroying first; a later exception rolls the session
  back to that point, but messages that were sent stay sent.
\<close>

definition destroying_stacks :: "int \<Rightarrow> exec_db \<Rightarrow> exec_db" where
  "destroying_stacks pid db = db\<lparr>stacks :=
     map (\<lambda>s. if s_project_id s = pid \<and> s_status s \<in> {S_DEPLOYED, S_FAILED, S_PENDING}
       then s\<lparr>s_status := S_DESTROYING, s_error := None\<rparr> else s) (stacks db)\<rparr>"

definition destroy_all_modules ::
  "deploy_env \<Rightarrow> (int list \<Rightarrow> int list) \<Rightarrow> string \<Rightarrow> int list \<Rightarrow> int \<Rightarrow> bool \<Rightarrow> exec_db \<Rightarrow>
     (deploy_error + deploy_response) \<times> exec_db \<times> message list" where
  "destroy_all_modules e en rh pids pid force db =
     (if pid \<notin> set pids then (Inl (DeployValueError ''404''), db, [])
      else if list_ex (\<lambda>t. t_project_id t = pid \<and> t_status t \<in> set NON_TERMINAL_TASK_STATUSES) (tasks db)
      then (Inl (DeployValueError ''An operation is already in progress for this project''), db, [])
      else let db1 = destroying_stacks pid db
           in case destroy_project_parallel e en rh pids pid True force db1 of
                (Inl err, db2, sent) \<Rightarrow> (Inl err, db1, sent)
              | (Inr r, db2, sent) \<Rightarrow> (Inr r, db2, sent))"

section \<open>Destroying a stack\<close>

text \<open>
  The wave of a stack runs over the modules that need destroying; the tasks carry the handle of
  the run and no scope.
\<close>

fun stack_destroy_loop ::
  "deploy_env \<Rightarrow> string option \<Rightarrow> int list \<Rightarrow> int list \<Rightarrow> wave \<Rightarrow> string option \<times> wave" where
  "stack_destroy_loop e rh all [] w = (None, w)"
| "stack_destroy_loop e rh all (i # is) (db, sent, first) =
     (case module_row db i of
        None \<Rightarrow> stack_destroy_loop e rh all is (db, sent, first)
      | Some m \<Rightarrow>
          if no_infra m \<or>
             list_ex (\<lambda>d. pr_id d \<in> set all \<and> i \<in> set (dependencies d) \<and> \<not> no_infra d) (module_rows db)
          then stack_destroy_loop e rh all is (db, sent, first)
          else (case find (is_active_destroy i) (tasks db) of
              Some t \<Rightarrow> stack_destroy_loop e rh all is (db, sent, first_of first (t_celery_id t))
            | None \<Rightarrow> (case queue_destroy e rh None m db of
                  (Some err, db', new, cid) \<Rightarrow> (Some err, db', sent @ new, first)
                | (None, db', new, cid) \<Rightarrow> stack_destroy_loop e rh all is (db', sent @ new, first_of first cid))))"

text \<open>The recovery before a stack is destroyed.\<close>

definition recover_before_destroy :: "exec_db \<Rightarrow> project_module \<Rightarrow> project_module" where
  "recover_before_destroy db m =
     (if status m \<notin> set transitional_statuses \<or> active_task db (pr_id m) \<noteq> None then m
      else let last = latest_task (\<lambda>t. t_module_id t = pr_id m) db
           in if map_option t_status last = Some T_FAILED
              then m\<lparr>status := (if status m = APPLYING then APPLY_FAILED else if status m = DESTROYING then DESTROY_FAILED
                       else if status m = PLANNING then PLAN_FAILED else INIT_FAILED),
                     deployment_error := Some (case Option.bind last t_error of Some (c # cs) \<Rightarrow> c # cs | _ \<Rightarrow> ''Task failed'')\<rparr>
              else if map_option t_status last = Some T_COMPLETED
              then m\<lparr>status := (if status m = DESTROYING then DESTROYED else APPLIED)\<rparr>
              else if status m \<in> {APPLYING, DESTROYING}
              then m\<lparr>status := (if status m = APPLYING then APPLY_FAILED else DESTROY_FAILED),
                     deployment_error := Some (''Worker died mid-run; recovered during stack destroy. '' @
                       ''Resources may exist -- destroy will be attempted.'')\<rparr>
              else m\<lparr>status := NOT_INITIALIZED, deployment_error := Some ''Stale transitional state recovered during destroy''\<rparr>)"

definition plan_name :: "project_module \<Rightarrow> string" where
  "plan_name m = (case library_module m of Some lib \<Rightarrow> lib_name lib | None \<Rightarrow> ''Module '' @ str_of_int (pr_id m))"

definition in_stack :: "int \<Rightarrow> project_module \<Rightarrow> bool" where
  "in_stack sid m \<longleftrightarrow> stack_instance_id m = Some sid"

definition delete_stack :: "int \<Rightarrow> exec_db \<Rightarrow> exec_db" where
  "delete_stack sid db = db\<lparr>stacks := filter (\<lambda>s. s_id s \<noteq> sid) (stacks db)\<rparr>"

definition destroy_stack :: "deploy_env \<Rightarrow> string \<Rightarrow> stack_row \<Rightarrow> exec_db \<Rightarrow> (bool \<times> string) \<times> exec_db \<times> message list" where
  "destroy_stack e rh s db =
     (let sid = s_id s; mine = in_stack sid
      in if s_status s = S_DESTROYING then ((False, ''Stack is already being destroyed''), db, [])
         else if filter mine (module_rows db) = []
         then ((True, ''Stack deleted (no modules to destroy)''), delete_stack sid db, [])
         else let db1 = db\<lparr>module_rows := map (\<lambda>m. if mine m then recover_before_destroy db m else m) (module_rows db)\<rparr>
              in case find (\<lambda>m. mine m \<and> status m \<in> set transitional_statuses) (module_rows db1) of
                Some m \<Rightarrow> ((False, ''Cannot destroy stack: module '' @ quoted (plan_name m) @ '' has operation in progress (status: '' @
                  status_value (status m) @ ''). Wait for it to complete or cancel the operation first.''), db1, [])
              | None \<Rightarrow>
                  let deleted = (\<lambda>m. mine m \<and> no_infra m);
                      to_destroy = filter (\<lambda>m. mine m \<and> \<not> no_infra m) (module_rows db1);
                      n = length (filter deleted (module_rows db1));
                      db2 = db1\<lparr>module_rows := filter (\<lambda>m. \<not> deleted m) (module_rows db1)\<rparr>
                  in if to_destroy = []
                     then ((True, ''Stack deleted ('' @ str_of_nat n @ '' module records removed)''), delete_stack sid db2, [])
                     else let db3 = upd_stack sid (\<lambda>s. s\<lparr>s_status := S_DESTROYING, current_step := 0\<rparr>) db2;
                              ids = map pr_id to_destroy
                          in case stack_destroy_loop e (Some rh) ids ids (db3, [], None) of
                               (Some err, db4, sent, first) \<Rightarrow>
                                 ((False, ''Failed to start stack destruction: '' @ err),
                                  upd_stack sid (\<lambda>s. s\<lparr>s_status := S_FAILED,
                                    s_error := Some (''Failed to start stack destruction: '' @ err)\<rparr>) db4, sent)
                             | (None, db4, sent, first) \<Rightarrow> ((True, ''Stack destruction initiated for '' @ str_of_nat (length ids) @ '' modules (event-chain)'' @
                                  (if n = 0 then '''' else '' ('' @ str_of_nat n @ '' deleted directly)'')), db4, sent))"

section \<open>What a destroy task does to the rows\<close>

text \<open>The messages and the detection of the hook at the end of the task.\<close>

definition end_destroy :: "deploy_env \<Rightarrow> int \<Rightarrow> int \<Rightarrow> exec_db \<Rightarrow> detection \<times> exec_db \<times> message list" where
  "end_destroy e tid i db =
     (let (db1, sent1) = update_stack_status_if_needed e i db;
          (det, db2, sent2) = trigger_next_destroy_module e i (Some tid) db1
      in (det, db2, sent1 @ sent2))"

definition destroy_skipped :: "deploy_env \<Rightarrow> int \<Rightarrow> project_module \<Rightarrow> exec_db \<Rightarrow> detection \<times> exec_db \<times> message list" where
  "destroy_skipped e tid m db =
     end_destroy e tid (pr_id m) (set_status (pr_id m) DESTROYED (upd_task tid (\<lambda>t. t\<lparr>t_status := T_COMPLETED,
       t_error := Some (''Skipped: no deployed infrastructure (status: '' @ status_value (status m) @ '')'')\<rparr>) db))"

definition destroy_succeeded :: "deploy_env \<Rightarrow> int \<Rightarrow> int \<Rightarrow> exec_db \<Rightarrow> detection \<times> exec_db \<times> message list" where
  "destroy_succeeded e tid i db =
     end_destroy e tid i (upd_module i (\<lambda>m. m\<lparr>status := DESTROYED, has_outputs := False\<rparr>)
       (upd_task tid (\<lambda>t. t\<lparr>t_status := T_COMPLETED\<rparr>) db))"

definition destroy_failed :: "deploy_env \<Rightarrow> int \<Rightarrow> int \<Rightarrow> string \<Rightarrow> exec_db \<Rightarrow> detection \<times> exec_db \<times> message list" where
  "destroy_failed e tid i logs db =
     end_destroy e tid i (upd_module i (\<lambda>m. m\<lparr>status := DESTROY_FAILED, deployment_error := Some (log_tail logs)\<rparr>)
       (upd_task tid (\<lambda>t. t\<lparr>t_status := T_FAILED, t_error := Some ''Destroy failed''\<rparr>) db))"

text \<open>The early return when the init before the destroy fails: no hook runs.\<close>

definition destroy_init_failed :: "int \<Rightarrow> int \<Rightarrow> exec_db \<Rightarrow> exec_db" where
  "destroy_init_failed tid i db =
     set_status i DESTROY_FAILED (upd_task tid (\<lambda>t. t\<lparr>t_status := T_FAILED, t_error := Some ''Init failed''\<rparr>) db)"

text \<open>A lock that is not free or was lost, and any other exception.\<close>

definition destroy_lock_error :: "deploy_env \<Rightarrow> int \<Rightarrow> int \<Rightarrow> string \<Rightarrow> exec_db \<Rightarrow> detection \<times> exec_db \<times> message list" where
  "destroy_lock_error e tid i err db =
     trigger_next_destroy_module e i (Some tid)
       (set_status i DESTROY_FAILED (upd_task tid (\<lambda>t. t\<lparr>t_status := T_FAILED, t_error := Some err\<rparr>) db))"

definition destroy_raised :: "deploy_env \<Rightarrow> int \<Rightarrow> int \<Rightarrow> string \<Rightarrow> exec_db \<Rightarrow> detection \<times> exec_db \<times> message list" where
  "destroy_raised e tid i err db =
     (let (db1, sent1) = mark_task_failed e tid err (Some i) (Some DESTROY_FAILED) True db;
          (det, db2, sent2) = trigger_next_destroy_module e i (Some tid) db1
      in (det, db2, sent1 @ sent2))"

text \<open>The end of a plan, which any module but one at work may run.\<close>

definition plan_succeeded :: "int \<Rightarrow> int \<Rightarrow> exec_db \<Rightarrow> exec_db" where
  "plan_succeeded tid i db = set_status i PLANNED (upd_task tid (\<lambda>t. t\<lparr>t_status := T_COMPLETED\<rparr>) db)"

definition plan_failed :: "int \<Rightarrow> int \<Rightarrow> string \<Rightarrow> exec_db \<Rightarrow> exec_db" where
  "plan_failed tid i logs db =
     upd_module i (\<lambda>m. m\<lparr>status := PLAN_FAILED, deployment_error := Some (log_tail logs)\<rparr>)
       (upd_task tid (\<lambda>t. t\<lparr>t_status := T_FAILED, t_error := Some ''Plan failed''\<rparr>) db)"

section \<open>Queueing a destroy\<close>

definition destroy_row :: "int \<Rightarrow> project_module \<Rightarrow> string option \<Rightarrow> string option \<Rightarrow> string option \<Rightarrow> task_row" where
  "destroy_row tid m rh scope cid =
     \<lparr>t_id = tid, t_type = ''destroy'', t_status = T_QUEUED, t_project_id = pr_project_id m, t_module_id = pr_id m,
      t_run_handle = rh, t_celery_id = cid, t_scope = scope, t_error = None\<rparr>"

definition after_destroy :: "exec_db \<Rightarrow> project_module \<Rightarrow> string option \<Rightarrow> string option \<Rightarrow> string option \<Rightarrow> exec_db" where
  "after_destroy db m rh scope cid = set_status (pr_id m) DESTROYING
     (db\<lparr>tasks := tasks db @ [destroy_row (next_task db) m rh scope cid], next_task := next_task db + 1\<rparr>)"

lemma after_destroy_simps [simp]:
  "tasks (after_destroy db m rh scope cid) = tasks db @ [destroy_row (next_task db) m rh scope cid]"
  "next_task (after_destroy db m rh scope cid) = next_task db + 1" "stacks (after_destroy db m rh scope cid) = stacks db"
  "module_rows (after_destroy db m rh scope cid) =
     map (\<lambda>x. if pr_id x = pr_id m then x\<lparr>status := DESTROYING\<rparr> else x) (module_rows db)"
  by (simp_all add: after_destroy_def set_status_def upd_module_def)

lemma destroy_row_active [simp]: "is_active i (destroy_row tid m rh scope cid) \<longleftrightarrow> i = pr_id m"
  "is_active_destroy i (destroy_row tid m rh scope cid) \<longleftrightarrow> i = pr_id m"
  by (auto simp: is_active_def is_active_destroy_def destroy_row_def NON_TERMINAL_TASK_STATUSES_def)

lemma destroy_row_simps [simp]:
  "t_id (destroy_row tid m rh scope cid) = tid" "t_type (destroy_row tid m rh scope cid) = ''destroy''"
  "t_module_id (destroy_row tid m rh scope cid) = pr_id m" "t_run_handle (destroy_row tid m rh scope cid) = rh"
  "t_scope (destroy_row tid m rh scope cid) = scope" "t_status (destroy_row tid m rh scope cid) = T_QUEUED"
  by (simp_all add: destroy_row_def)

lemma module_row_destroy:
  "module_row (after_destroy db m rh scope cid) j =
     (if j = pr_id m then map_option (\<lambda>x. x\<lparr>status := DESTROYING\<rparr>) (module_row db j) else module_row db j)"
  by (simp add: after_destroy_def set_status_def module_row_upd)

lemma tasks_fresh_destroy: "tasks_fresh db \<Longrightarrow> tasks_fresh (after_destroy db m rh scope cid)"
  by (auto simp: tasks_fresh_def)

lemma destroy_message_id: "dispatch_destroy_signature tid m = Inr ms \<Longrightarrow> msg_module_id ms = pr_id m \<and> msg_task_id ms = tid"
  by (auto simp: dispatch_destroy_signature_def plain_message_def split: sum.splits if_splits)

text \<open>Whatever happens to the message, the row is in the session.\<close>

lemma queue_destroy_cases:
  assumes "queue_destroy e rh scope m db = (err, db', new, cid)" and "tasks_fresh db"
  obtains (raised) msg where "err = Some msg" "db' = after_destroy db m rh scope None" "new = []"
    | (queued) ms c where "err = None" "db' = after_destroy db m rh scope (Some c)" "new = [ms]" "cid = Some c"
      "dispatch_destroy_signature (next_task db) m = Inr ms" "send e ms = Some c"
proof -
  have id: "map (\<lambda>t. if t_id t = next_task db then t\<lparr>t_celery_id := Some c\<rparr> else t) (tasks db) = tasks db" for c
    using assms(2) by (intro map_idI) (auto simp: tasks_fresh_def)
  have row: "set_status (pr_id m) DESTROYING (snd (add_task ''destroy'' T_QUEUED m rh scope db)) = after_destroy db m rh scope None"
    by (simp add: add_task_def after_destroy_def destroy_row_def)
  have upd: "upd_task (next_task db) (\<lambda>t. t\<lparr>t_celery_id := Some c\<rparr>) (after_destroy db m rh scope None) =
      after_destroy db m rh scope (Some c)" for c
    by (simp add: upd_task_def after_destroy_def set_status_def upd_module_def id destroy_row_def)
  have "queue_destroy e rh scope m db = (case dispatch_destroy_signature (next_task db) m of
      Inl err \<Rightarrow> (Some err, after_destroy db m rh scope None, [], None)
    | Inr ms \<Rightarrow> (case send e ms of
          None \<Rightarrow> (Some ''broker unreachable'', after_destroy db m rh scope None, [], None)
        | Some cid \<Rightarrow> (None, after_destroy db m rh scope (Some cid), [ms], Some cid)))"
    unfolding queue_destroy_def using row by (simp add: add_task_def Let_def upd split: sum.split option.split)
  then show ?thesis using assms(1) raised queued by (auto split: sum.splits option.splits)
qed

section \<open>The barrier holds\<close>

lemma no_infra_destroying [simp]: "DESTROYING \<notin> set NO_INFRA_STATUSES" "DESTROYED \<in> set NO_INFRA_STATUSES"
  "APPLIED \<notin> set NO_INFRA_STATUSES" "DESTROY_FAILED \<notin> set NO_INFRA_STATUSES"
  by (simp_all add: NO_INFRA_STATUSES_def)

lemma reverse_dependencies_destroy:
  "get_reverse_dependencies j pid (module_rows (after_destroy db m rh scope cid)) =
     map (\<lambda>x. if pr_id x = pr_id m then x\<lparr>status := DESTROYING\<rparr> else x) (get_reverse_dependencies j pid (module_rows db))"
  by (simp add: get_reverse_dependencies_def project_modules_def filter_map comp_def if_distrib cong: if_cong filter_cong)

lemma candidate_after_destroy:
  assumes "destroy_candidate ss sc pid (after_destroy db m rh scope cid) dep"
  shows "destroy_candidate ss sc pid db dep \<and> pr_id dep \<noteq> pr_id m"
proof -
  let ?f = "\<lambda>x. if pr_id x = pr_id m then x\<lparr>status := DESTROYING\<rparr> else x"
  have ne: "pr_id dep \<noteq> pr_id m" using assms by (auto simp: destroy_candidate_def find_None_iff)
  have "\<not> uncleared ss d" if d: "d \<in> set (get_reverse_dependencies (pr_id dep) pid (module_rows db))" "in_scope sc d" for d
  proof -
    have "in_scope sc (?f d)" using d(2) by (auto simp: in_scope_def split: option.splits)
    then have "\<not> uncleared ss (?f d)"
      using assms d(1) unfolding destroy_candidate_def reverse_dependencies_destroy by (auto simp: list_all_iff)
    then show ?thesis by (auto simp: uncleared_def split: if_splits)
  qed
  then show ?thesis using assms ne by (auto simp: destroy_candidate_def list_all_iff find_None_iff)
qed

lemma module_of_project:
  assumes "distinct (map pr_id ms)" and "find (\<lambda>m. pr_id m = d \<and> pr_project_id m = pid) ms = Some dep"
  shows "find (\<lambda>m. pr_id m = d) ms = Some dep \<and> pr_id dep = d \<and> pr_project_id dep = pid"
  using assms by (induction ms) (auto split: if_splits dest: find_SomeD)

lemma destroy_loop_safe:
  assumes "destroy_loop e ss sc meta i pid ds (db, sent) = (db', sent')"
    and "distinct (map pr_id (module_rows db))" and "tasks_fresh db"
  shows "\<exists>new. sent' = sent @ new \<and> (\<forall>ms \<in> set new. \<exists>dep. module_row db (msg_module_id ms) = Some dep \<and>
    msg_module_id ms \<in> set ds \<and> pr_project_id dep = pid \<and> destroy_candidate ss sc pid db dep)"
  using assms
proof (induction ds arbitrary: db sent)
  case (Cons d ds)
  show ?case
  proof (cases "\<exists>dep. find (\<lambda>m. pr_id m = d \<and> pr_project_id m = pid) (module_rows db) = Some dep \<and> destroy_candidate ss sc pid db dep")
    case False
    then have "destroy_loop e ss sc meta i pid ds (db, sent) = (db', sent')"
      using Cons.prems(1) by (auto split: option.splits if_splits)
    from Cons.IH [OF this Cons.prems(2,3)] show ?thesis by fastforce
  next
    case True
    then obtain dep where f: "find (\<lambda>m. pr_id m = d \<and> pr_project_id m = pid) (module_rows db) = Some dep"
      and cand: "destroy_candidate ss sc pid db dep" by blast
    have dep: "module_row db d = Some dep" "pr_id dep = d" "pr_project_id dep = pid"
      using module_of_project [OF Cons.prems(2) f] by (simp_all add: module_row_def)
    obtain err db1 new cid where q: "queue_destroy e (Option.bind (destroy_task_of db i) t_run_handle) meta dep db = (err, db1, new, cid)"
      by (metis prod_cases4)
    from q Cons.prems(3) show ?thesis
    proof (cases rule: queue_destroy_cases)
      case (raised msg)
      then show ?thesis using Cons.prems(1) f cand q by simp
    next
      case (queued ms c)
      have rest: "destroy_loop e ss sc meta i pid ds (db1, sent @ [ms]) = (db', sent')"
        using Cons.prems(1) f cand q queued by simp
      have "distinct (map pr_id (module_rows db1))"
        using Cons.prems(2) by (simp add: queued(2) comp_def if_distrib cong: if_cong)
      moreover have "tasks_fresh db1" using tasks_fresh_destroy [OF Cons.prems(3)] by (simp add: queued(2))
      ultimately obtain more where more: "sent' = (sent @ [ms]) @ more"
        "\<forall>ms \<in> set more. \<exists>dep. module_row db1 (msg_module_id ms) = Some dep \<and> msg_module_id ms \<in> set ds \<and>
           pr_project_id dep = pid \<and> destroy_candidate ss sc pid db1 dep"
        using Cons.IH [OF rest] by blast
      have "\<exists>y. module_row db (msg_module_id x) = Some y \<and> msg_module_id x \<in> set (d # ds) \<and> pr_project_id y = pid \<and>
          destroy_candidate ss sc pid db y" if x: "x \<in> set (ms # more)" for x
      proof (cases "x = ms")
        case True
        then show ?thesis using destroy_message_id [OF queued(5)] dep cand by auto
      next
        case False
        then obtain y where y: "module_row db1 (msg_module_id x) = Some y" "msg_module_id x \<in> set ds" "pr_project_id y = pid"
          "destroy_candidate ss sc pid db1 y" using x more(2) by auto
        note c = candidate_after_destroy [OF y(4) [unfolded queued(2)]]
        have "pr_id y = msg_module_id x" using y(1) by (auto simp: module_row_def dest: find_SomeD)
        then show ?thesis using y c by (auto simp: queued(2) module_row_destroy split: if_splits)
      qed
      then show ?thesis using more(1) by (intro exI [of _ "ms # more"]) simp
    qed
  qed
qed simp

lemma stack_of: "Option.bind (stack_instance_id m) (stack_by_id db) = Some s \<Longrightarrow> stack_instance_id m = Some (s_id s) \<and> s \<in> set (stacks db)"
  by (auto simp: bind_eq_Some_conv stack_by_id_def dest: find_SomeD)

lemma detection_messages: "trigger_next_destroy_module e i tid db = (det, db', sent) \<Longrightarrow> sent \<noteq> [] \<Longrightarrow>
    \<exists>m. module_row db i = Some m \<and> destroy_scope_for db i tid \<noteq> Some ''module''"
  by (auto simp: trigger_next_destroy_module_def Let_def split: option.splits if_splits)

text \<open>
  C19. Teardown never pulls the ground from under a module: whatever a finished destroy queues is a
  dependency of the finished module, in its project, that still has infrastructure and no destroy
  at work, and every module that depends on it, in the scope of the run, is clear of
  infrastructure. Only in a project run may an in-cluster dependent have failed to be destroyed.
  A run that names a single module queues nothing.
\<close>

theorem destroy_respects_dependents:
  assumes "trigger_next_destroy_module e i tid db = (det, db', sent)" and "ms \<in> set sent"
    and "distinct (map pr_id (module_rows db))" and "tasks_fresh db"
  shows "destroy_scope_for db i tid \<noteq> Some ''module'' \<and>
    (\<exists>m dep. module_row db i = Some m \<and> module_row db (msg_module_id ms) = Some dep \<and>
      pr_id dep \<in> set (dependencies m) \<and> pr_project_id dep = pr_project_id m \<and> \<not> no_infra dep \<and>
      (\<forall>t \<in> set (tasks db). is_active (pr_id dep) t \<longrightarrow> t_type t \<noteq> ''destroy'') \<and>
      (\<forall>x \<in> set (module_rows db). pr_project_id x = pr_project_id m \<and> pr_id dep \<in> set (dependencies x) \<and>
         (destroy_scope_for db i tid = Some ''project'' \<or> stack_instance_id m = None \<or> stack_instance_id x = stack_instance_id m) \<longrightarrow>
         no_infra x \<or> status x = DESTROY_FAILED \<and> is_in_cluster_module x \<and>
           (destroy_scope_for db i tid = Some ''project'' \<or> stack_instance_id m = None)))"
proof -
  have "sent \<noteq> []" using assms(2) by auto
  from detection_messages [OF assms(1) this]
  obtain m where m: "module_row db i = Some m" and nm: "destroy_scope_for db i tid \<noteq> Some ''module''" by blast
  define ss where "ss = (destroy_scope_for db i tid \<noteq> Some ''project'' \<and> stack_instance_id m \<noteq> None)"
  define sc where "sc = (if ss then (case Option.bind (stack_instance_id m) (stack_by_id db) of
      Some s \<Rightarrow> if deployed_modules db s = [] then None else Some (deployed_modules db s) | None \<Rightarrow> None) else None)"
  obtain db1 where l: "destroy_loop e ss sc (destroy_scope_for db i tid) i (pr_project_id m) (dependencies m) (db, []) = (db1, sent)"
    using assms(1) m nm unfolding trigger_next_destroy_module_def Let_def ss_def [symmetric] sc_def [symmetric]
    by (auto simp: sc_def ss_def split: prod.splits)
  obtain dep where dep: "module_row db (msg_module_id ms) = Some dep" "msg_module_id ms \<in> set (dependencies m)"
    "pr_project_id dep = pr_project_id m" "destroy_candidate ss sc (pr_project_id m) db dep"
    using destroy_loop_safe [OF l assms(3,4)] assms(2) by auto
  have id: "pr_id dep = msg_module_id ms" using dep(1) by (auto simp: module_row_def dest: find_SomeD)
  have scope: "in_scope sc x" if "x \<in> set (module_rows db)" "\<not> ss \<or> stack_instance_id x = stack_instance_id m" for x
    using that stack_of [of m db] by (auto simp: sc_def in_scope_def deployed_modules_def split: option.splits)
  have cl: "no_infra x \<or> status x = DESTROY_FAILED \<and> is_in_cluster_module x \<and> \<not> ss"
    if "x \<in> set (module_rows db)" "pr_project_id x = pr_project_id m" "pr_id dep \<in> set (dependencies x)"
      "\<not> ss \<or> stack_instance_id x = stack_instance_id m" for x
  proof -
    have "x \<in> set (get_reverse_dependencies (pr_id dep) (pr_project_id m) (module_rows db))"
      using that(1-3) by (auto simp: get_reverse_dependencies_def project_modules_def)
    then have "\<not> uncleared ss x" using dep(4) scope [OF that(1,4)] by (auto simp: destroy_candidate_def list_all_iff)
    then show ?thesis by (auto simp: uncleared_def NO_INFRA_STATUSES_def)
  qed
  have "\<not> no_infra dep" "\<forall>t \<in> set (tasks db). is_active (pr_id dep) t \<longrightarrow> t_type t \<noteq> ''destroy''"
    using dep(4) by (auto simp: destroy_candidate_def find_None_iff is_active_destroy_def)
  then show ?thesis using nm m dep(1-3) id cl unfolding ss_def by (intro conjI exI [of _ m] exI [of _ dep]) auto
qed

section \<open>Detection is exact\<close>

text \<open>What a project run comes to, from the statuses of all modules of the project.\<close>

definition project_clean :: "int \<Rightarrow> exec_db \<Rightarrow> bool" where
  "project_clean pid db \<longleftrightarrow> (\<forall>m \<in> set (module_rows db). pr_project_id m = pid \<longrightarrow> no_infra m)"

lemma terminal_destroy: "st \<in> set TERMINAL_DESTROY_STATUSES \<longleftrightarrow> st \<in> set NO_INFRA_STATUSES \<or> st = DESTROY_FAILED"
  by (auto simp: TERMINAL_DESTROY_STATUSES_def NO_INFRA_STATUSES_def)

text \<open>
  The end of a project run is detected exactly, never early. With a handle on the run, the
  detection reports progress as long as any module of the project, dispatched or not, still has
  infrastructure and has not failed. It finalises exactly when nothing is left but failed
  in-cluster modules, and then none is left: they become destroyed and every module is clear. It
  reports a failure exactly when all that is left failed and some of it is cloud infrastructure, and
  then it changes no row.
\<close>

theorem project_detection_exact:
  assumes "truthy_text (Option.bind (destroy_task_of db (pr_id m)) t_run_handle)"
    and "run_terminal_detection_project m db = (det, db')"
  defines "left \<equiv> {x \<in> set (module_rows db). pr_project_id x = pr_project_id m \<and> \<not> no_infra x}"
  shows "(det = InProgress \<longleftrightarrow> (\<exists>x \<in> left. status x \<noteq> DESTROY_FAILED)) \<and>
    (det = Finalized \<longleftrightarrow> (\<forall>x \<in> left. status x = DESTROY_FAILED \<and> is_in_cluster_module x)) \<and>
    ((\<exists>msg. det = EntityFailed msg) \<longleftrightarrow>
       (\<forall>x \<in> left. status x = DESTROY_FAILED) \<and> (\<exists>x \<in> left. \<not> is_in_cluster_module x)) \<and>
    (det = Finalized \<longrightarrow> project_clean (pr_project_id m) db') \<and> (det \<noteq> Finalized \<longrightarrow> db' = db)"
proof -
  let ?td = "filter (\<lambda>x. \<not> no_infra x) (project_modules (pr_project_id m) (module_rows db))"
  let ?failed = "filter (\<lambda>x. status x = DESTROY_FAILED) ?td"
  have td: "set ?td = left" by (auto simp: left_def project_modules_def)
  have prog: "list_ex (\<lambda>x. status x \<notin> set TERMINAL_DESTROY_STATUSES) ?td \<longleftrightarrow> (\<exists>x \<in> left. status x \<noteq> DESTROY_FAILED)"
    unfolding list_ex_iff td terminal_destroy by (auto simp: left_def)
  have fl: "set ?failed = {x \<in> left. status x = DESTROY_FAILED}" using td by auto
  have some: "?failed = [] \<longleftrightarrow> \<not> (\<exists>x \<in> left. status x = DESTROY_FAILED)"
    by (metis (mono_tags, lifting) filter_empty_conv td)
  have inc: "filter is_in_cluster_module ?failed = [] \<longleftrightarrow> \<not> (\<exists>x \<in> left. status x = DESTROY_FAILED \<and> is_in_cluster_module x)"
    "filter (\<lambda>x. \<not> is_in_cluster_module x) ?failed = [] \<longleftrightarrow> \<not> (\<exists>x \<in> left. status x = DESTROY_FAILED \<and> \<not> is_in_cluster_module x)"
    unfolding filter_empty_conv fl by auto
  note D = assms(2) [unfolded run_terminal_detection_project_def Let_def, simplified assms(1) not_True_eq_False if_False]
  consider (going) "\<exists>x \<in> left. status x \<noteq> DESTROY_FAILED"
    | (soft) "\<forall>x \<in> left. status x = DESTROY_FAILED \<and> is_in_cluster_module x" "left \<noteq> {}"
    | (hard) "\<forall>x \<in> left. status x = DESTROY_FAILED" "\<exists>x \<in> left. \<not> is_in_cluster_module x"
    | (clean) "left = {}" by blast
  then show ?thesis
  proof cases
    case going
    then have "(det, db') = (InProgress, db)" using D unfolding prog by simp
    then show ?thesis using going by auto
  next
    case soft
    then have "\<not> (\<exists>x \<in> left. status x \<noteq> DESTROY_FAILED)" "filter is_in_cluster_module ?failed \<noteq> []"
      "filter (\<lambda>x. \<not> is_in_cluster_module x) ?failed = []" unfolding inc by auto
    then have d: "det = Finalized" and rows: "module_rows db' = map (\<lambda>x. if pr_project_id x = pr_project_id m \<and>
        status x = DESTROY_FAILED \<and> is_in_cluster_module x then x\<lparr>status := DESTROYED, deployment_error :=
          append_error (deployment_error x) '' [reconciled-to-destroyed: cluster already torn down]''\<rparr> else x) (module_rows db)"
      using D unfolding prog by (auto simp: finalize_destroy_def)
    have "project_clean (pr_project_id m) db'"
      using soft(1) unfolding project_clean_def rows by (auto simp: left_def split: if_splits)
    then show ?thesis using d soft by auto
  next
    case hard
    then have "\<not> (\<exists>x \<in> left. status x \<noteq> DESTROY_FAILED)" "?failed \<noteq> []"
      "filter (\<lambda>x. \<not> is_in_cluster_module x) ?failed \<noteq> []" unfolding inc some by auto
    then have "\<exists>msg. (det, db') = (EntityFailed msg, db)"
      using D unfolding prog by (auto simp: mark_entity_failed_def)
    then show ?thesis using hard by auto
  next
    case clean
    then have "\<not> (\<exists>x \<in> left. status x \<noteq> DESTROY_FAILED)" "?failed = []" unfolding some by auto
    then have "(det, db') = (Finalized, db)" using D unfolding prog by (auto simp: finalize_destroy_def)
    then show ?thesis using clean by (auto simp: project_clean_def left_def)
  qed
qed

section \<open>Stack runs\<close>

lemma ids_after_loop:
  assumes "destroy_loop e ss sc meta i pid ds (db, sent) = (db', sent')" and "tasks_fresh db"
  shows "map pr_id (module_rows db') = map pr_id (module_rows db) \<and> stacks db' = stacks db \<and>
    (\<forall>j x. module_row db j = Some x \<longrightarrow> (\<exists>st. module_row db' j = Some (x\<lparr>status := st\<rparr>))) \<and>
    map stack_instance_id (module_rows db') = map stack_instance_id (module_rows db) \<and>
    (\<exists>new. tasks db' = tasks db @ new \<and> (\<forall>t \<in> set new. t_type t = ''destroy'' \<and> t_status t = T_QUEUED)) \<and> tasks_fresh db'"
  using assms
proof (induction ds arbitrary: db sent)
  case Nil
  have "x = x\<lparr>status := status x\<rparr>" for x :: project_module by simp
  then have "\<exists>st. x = x\<lparr>status := st\<rparr>" for x :: project_module by metis
  then show ?case using Nil by auto
next
  case (Cons d ds)
  show ?case
  proof (cases "\<exists>dep. find (\<lambda>m. pr_id m = d \<and> pr_project_id m = pid) (module_rows db) = Some dep \<and> destroy_candidate ss sc pid db dep")
    case False
    then have "destroy_loop e ss sc meta i pid ds (db, sent) = (db', sent')"
      using Cons.prems(1) by (auto split: option.splits if_splits)
    from Cons.IH [OF this Cons.prems(2)] show ?thesis .
  next
    case True
    then obtain dep where f: "find (\<lambda>m. pr_id m = d \<and> pr_project_id m = pid) (module_rows db) = Some dep"
      and cand: "destroy_candidate ss sc pid db dep" by blast
    let ?rh = "Option.bind (destroy_task_of db i) t_run_handle"
    obtain err db1 new cid where q: "queue_destroy e ?rh meta dep db = (err, db1, new, cid)" by (metis prod_cases4)
    have after: "map pr_id (module_rows (after_destroy db dep ?rh meta c)) = map pr_id (module_rows db)"
      "map stack_instance_id (module_rows (after_destroy db dep ?rh meta c)) = map stack_instance_id (module_rows db)"
      "tasks_fresh (after_destroy db dep ?rh meta c)" for c
      using tasks_fresh_destroy [OF Cons.prems(2)] by (auto simp: comp_def if_distrib cong: if_cong)
    have row: "\<exists>st. module_row (after_destroy db dep ?rh meta c) j = Some (x\<lparr>status := st\<rparr>)" if "module_row db j = Some x" for c j x
      using that by (auto simp: module_row_destroy intro: exI [of _ "status x"])
    from q Cons.prems(2) show ?thesis
    proof (cases rule: queue_destroy_cases)
      case (raised msg)
      then have "db' = after_destroy db dep ?rh meta None" using Cons.prems(1) f cand q by simp
      then show ?thesis using after [of None] row [of _ _ None] by simp
    next
      case (queued ms c)
      have rest: "destroy_loop e ss sc meta i pid ds (db1, sent @ [ms]) = (db', sent')"
        using Cons.prems(1) f cand q queued by simp
      have fresh1: "tasks_fresh db1" using after by (simp add: queued(2))
      note IH = Cons.IH [OF rest fresh1]
      have rows: "\<exists>st. module_row db' j = Some (x\<lparr>status := st\<rparr>)" if jx: "module_row db j = Some x" for j x
      proof -
        obtain st where "module_row db1 j = Some (x\<lparr>status := st\<rparr>)" using row [OF jx] queued(2) by blast
        then obtain st' where "module_row db' j = Some (x\<lparr>status := st\<rparr>\<lparr>status := st'\<rparr>)" using IH by blast
        then show ?thesis by auto
      qed
      obtain new' where "tasks db' = tasks db1 @ new'" "\<forall>t \<in> set new'. t_type t = ''destroy'' \<and> t_status t = T_QUEUED" using IH by blast
      then have "\<exists>new. tasks db' = tasks db @ new \<and> (\<forall>t \<in> set new. t_type t = ''destroy'' \<and> t_status t = T_QUEUED)"
        by (simp add: queued(2))
      moreover have "map pr_id (module_rows db') = map pr_id (module_rows db)" "stacks db' = stacks db"
        "map stack_instance_id (module_rows db') = map stack_instance_id (module_rows db)" "tasks_fresh db'"
        using IH after by (simp_all only: queued(2) after_destroy_simps)
      ultimately show ?thesis using rows by (simp add: rows)
    qed
  qed
qed

lemma failed_status_values: "is_failed_status DESTROYED \<longleftrightarrow> False" "is_failed_status APPLIED \<longleftrightarrow> False"
  by code_simp+

lemma upd_stack_lookup:
  "(\<And>s. s_id (f s) = s_id s) \<Longrightarrow> stack_by_id (upd_stack sid f db) k = (if k = sid then map_option f (stack_by_id db sid) else stack_by_id db k)"
  using find_map_upd [of s_id f k sid "stacks db"] by (auto simp: stack_by_id_def upd_stack_def)

lemma upd_stack_frame [simp]: "module_rows (upd_stack sid f db) = module_rows db" "tasks (upd_stack sid f db) = tasks db"
  "module_row (upd_stack sid f db) = module_row db" "next_task (upd_stack sid f db) = next_task db"
  by (simp_all add: upd_stack_def module_row_def fun_eq_iff)

lemma progress_all_destroyed:
  assumes "\<forall>x \<in> set ms. status x = DESTROYED" and "s_status s = S_DESTROYING"
  shows "progress_of ms s = s\<lparr>s_status := S_DESTROYED, current_step := length ms\<rparr>"
proof -
  have "filter (\<lambda>m. status m = DESTROYED) ms = ms" "filter (\<lambda>m. is_failed_status (status m)) ms = []"
    using assms(1) by (auto simp: failed_status_values filter_id_conv filter_empty_conv)
  then show ?thesis using assms(2) by (simp add: progress_of_def Let_def)
qed

lemma scope_of_task:
  assumes "tasks_fresh db" and "t \<in> set (tasks db)" and "t_type t = ''destroy''"
  shows "destroy_scope_for db i (Some (t_id t)) =
    (if truthy_text (t_scope t) then t_scope t else if truthy_text (t_run_handle t) then None else Some ''module'')"
proof -
  have "x = t" if "x \<in> set (tasks db)" "t_id x = t_id t" for x
    using assms(1,2) that by (auto simp: tasks_fresh_def distinct_map inj_on_def)
  then have "find (\<lambda>x. t_type x = ''destroy'' \<and> t_id x = t_id t) (tasks db) = Some t"
    using assms(2,3) by (cases "find (\<lambda>x. t_type x = ''destroy'' \<and> t_id x = t_id t) (tasks db)")
      (auto simp: find_None_iff dest: find_SomeD)
  then show ?thesis by (simp add: destroy_scope_for_def)
qed

lemma last_destroy_closes_stack:
  assumes "module_row db i = Some m" and "stack_instance_id m = Some sid" and "stack_by_id db sid = Some s" and "s_status s = S_DESTROYING"
    and mine: "\<And>x. x \<in> set (module_rows db) \<Longrightarrow> stack_instance_id x = Some sid \<Longrightarrow> status x = DESTROYED"
  obtains f where "update_stack_status_if_needed e i db = (upd_stack sid f db, [])"
    and "\<And>x. s_id (f x) = s_id x" and "s_status (f s) = S_DESTROYED"
proof -
  define ms where "ms = filter (\<lambda>m. stack_instance_id m = Some sid) (module_rows db)"
  have ms: "\<forall>x \<in> set ms. status x = DESTROYED" "ms \<noteq> []"
    using mine assms(1,2) by (auto simp: ms_def module_row_def filter_empty_conv dest!: find_SomeD)
  have rec: "map (\<lambda>m. if stack_instance_id m = Some sid then recover_stale db m else m) (module_rows db) = module_rows db"
    using mine by (intro map_idI) (auto simp: recover_stale_def transitional_statuses_def)
  have upd: "update_stack_progress sid db = upd_stack sid (progress_of ms) db"
    using assms(3) ms(2) unfolding update_stack_progress_def Let_def rec by (simp add: ms_def [symmetric])
  have "update_stack_status_if_needed e i db = (upd_stack sid (progress_of ms) db, [])"
    using assms(1-4) upd by (simp add: update_stack_status_if_needed_def Let_def)
  moreover have "s_id (progress_of ms x) = s_id x" for x by (simp add: progress_of_def Let_def)
  ultimately show thesis using progress_all_destroyed [OF ms(1) assms(4)] by (intro that [of "progress_of ms"]) simp_all
qed

text \<open>
  C20. A stack run never cleans up after itself: when the last module of a stack is destroyed, the task
  updates the progress of the stack first, which closes it, and the detection that should delete the
  module rows then finds a stack that is no longer being destroyed. So the stack ends destroyed with
  all its module rows left.
\<close>

theorem stack_destroy_never_finalizes:
  assumes "module_row db i = Some m" and "stack_instance_id m = Some sid"
    and "stack_by_id db sid = Some s" and "s_status s = S_DESTROYING"
    and "\<forall>x \<in> set (module_rows db). stack_instance_id x = Some sid \<and> pr_id x \<noteq> i \<longrightarrow> status x = DESTROYED"
    and "t \<in> set (tasks db)" and "t_type t = ''destroy''" and "t_scope t = None" and "truthy_text (t_run_handle t)" and "tasks_fresh db"
    and "destroy_succeeded e (t_id t) i db = (det, db', sent)"
  shows "det = Idle \<and> map pr_id (module_rows db') = map pr_id (module_rows db) \<and>
    (\<exists>s'. stack_by_id db' sid = Some s' \<and> s_status s' = S_DESTROYED)"
proof -
  define f :: "project_module \<Rightarrow> project_module" where "f = (\<lambda>m. m\<lparr>status := DESTROYED, has_outputs := False\<rparr>)"
  define db1 where "db1 = upd_module i f (complete_task (t_id t) db)"
  have f: "pr_id (f x) = pr_id x" "stack_instance_id (f x) = stack_instance_id x" "status (f x) = DESTROYED" for x by (simp_all add: f_def)
  have rows1: "module_rows db1 = map (\<lambda>x. if pr_id x = i then f x else x) (module_rows db)" and st1: "stacks db1 = stacks db"
    by (simp_all add: db1_def upd_module_def complete_task_def upd_task_def)
  have row1: "module_row db1 i = Some (f m)" using assms(1) by (simp add: db1_def module_row_upd f)
  define t1 where "t1 = t\<lparr>t_status := T_COMPLETED\<rparr>"
  have t1: "t1 \<in> set (tasks db1)" "t_id t1 = t_id t" "t_type t1 = ''destroy''" "t_scope t1 = None" "t_run_handle t1 = t_run_handle t"
    using assms(6-8) by (auto simp: t1_def db1_def complete_task_def upd_task_def)
  have stack1: "stack_by_id db1 sid = Some s" using assms(3) by (simp add: stack_by_id_def st1)
  have mine: "status x = DESTROYED" if "x \<in> set (module_rows db1)" "stack_instance_id x = Some sid" for x
    using that assms(5) by (auto simp: rows1 f split: if_splits)
  obtain g where g: "update_stack_status_if_needed e i db1 = (upd_stack sid g db1, [])" "\<And>x. s_id (g x) = s_id x" "s_status (g s) = S_DESTROYED"
    using last_destroy_closes_stack [OF row1 _ stack1 assms(4) mine] f(2) assms(2) by metis
  define db2 where "db2 = upd_stack sid g db1"
  note u = g(1) [folded db2_def]
  have stack2: "stack_by_id db2 sid = Some (g s)" using stack1 by (simp add: db2_def upd_stack_lookup g(2))
  have fresh2: "tasks_fresh db2" using complete_fresh [OF assms(10)] by (simp add: tasks_fresh_def db2_def db1_def)
  have "destroy_scope_for x i (Some (t_id t)) = None" if "tasks_fresh x" "t1 \<in> set (tasks x)" for x
    using scope_of_task [OF that t1(3)] t1 assms(9) by (simp add: truthy_text_def)
  note scope = this
  have sc2: "destroy_scope_for db2 i (Some (t_id t)) = None" using scope [OF fresh2] t1(1) by (simp add: db2_def)
  have row2: "module_row db2 i = Some (f m)" using row1 by (simp add: db2_def)
  obtain det' db3 sent3 where tr: "trigger_next_destroy_module e i (Some (t_id t)) db2 = (det', db3, sent3)" by (metis prod_cases3)
  then have out: "det = det'" "db' = db3"
    using assms(11) u
    by (simp_all add: destroy_succeeded_def end_destroy_def f_def [symmetric] complete_task_def [symmetric] db1_def [symmetric])
  obtain ss sci db4 sent4 where l: "destroy_loop e ss sci None i (pr_project_id (f m)) (dependencies (f m)) (db2, []) = (db4, sent4)"
    and d: "(det', db3) = run_terminal_detection i (Some (t_id t)) db4"
    using tr row2 sc2 unfolding trigger_next_destroy_module_def Let_def
    by (auto split: prod.splits if_splits)
  note L = ids_after_loop [OF l fresh2]
  obtain st where row4: "module_row db4 i = Some ((f m)\<lparr>status := st\<rparr>)" using L row2 by blast
  have stack4: "stack_by_id db4 sid = stack_by_id db2 sid" using L by (simp add: stack_by_id_def)
  have "t1 \<in> set (tasks db4)" "tasks_fresh db4" using L t1(1) by (auto simp: db2_def)
  then have "run_terminal_detection i (Some (t_id t)) db4 = (Idle, db4)"
    using row4 scope stack4 stack2 assms(2) g(3)
    by (simp add: run_terminal_detection_def run_terminal_detection_stack_def f)
  then show ?thesis using out d L stack4 stack2 g(3) by (simp add: rows1 db2_def f comp_def if_distrib cong: if_cong)
qed

text \<open>
  A stack run leaves its stack: a finished module queues the destroy of a dependency that is not
  part of the stack, as soon as the modules of the stack that depend on it are clear. Modules outside the
  stack that depend on it are not looked at.
\<close>

theorem stack_destroy_leaves_stack:
  assumes "module_row db i = Some m" and "stack_instance_id m = Some sid" and "stack_by_id db sid = Some s" and "dependencies m = [d]"
    and "module_row db d = Some dep" and "pr_project_id dep = pr_project_id m" and "stack_instance_id dep \<noteq> Some sid" and "\<not> no_infra dep"
    and "\<forall>x \<in> set (module_rows db). stack_instance_id x = Some sid \<and> d \<in> set (dependencies x) \<longrightarrow> no_infra x"
    and "\<forall>t \<in> set (tasks db). is_active d t \<longrightarrow> t_type t \<noteq> ''destroy''"
    and "t \<in> set (tasks db)" and "t_type t = ''destroy''" and "t_scope t = None" and "truthy_text (t_run_handle t)"
    and "tasks_fresh db" and "distinct (map pr_id (module_rows db))"
    and "resolve_dispatch_engine dep = Inr g" and "\<And>ms. send e ms \<noteq> None"
  shows "\<exists>det db' ms. trigger_next_destroy_module e i (Some (t_id t)) db = (det, db', [ms]) \<and> msg_module_id ms = d"
proof -
  have meta: "destroy_scope_for db i (Some (t_id t)) = None"
    using scope_of_task [OF assms(15,11,12)] assms(13,14) by (simp add: truthy_text_def)
  have sid: "s_id s = sid" using assms(3) by (auto simp: stack_by_id_def dest: find_SomeD)
  have "i \<in> set (deployed_modules db s)"
    using assms(1,2) sid by (force simp: deployed_modules_def module_row_def dest!: find_SomeD)
  then have ne: "deployed_modules db s \<noteq> []" by auto
  have d: "pr_id dep = d" using assms(5) by (auto simp: module_row_def dest: find_SomeD)
  have "x \<in> set (module_rows db) \<Longrightarrow> pr_id x \<in> set (deployed_modules db s) \<Longrightarrow> stack_instance_id x = Some sid" for x
    using assms(16) sid by (auto simp: deployed_modules_def distinct_map inj_on_def)
  then have cand: "destroy_candidate True (Some (deployed_modules db s)) (pr_project_id m) db dep"
    using assms(8,9,10) d
    by (auto simp: destroy_candidate_def list_all_iff get_reverse_dependencies_def project_modules_def in_scope_def uncleared_def
        find_None_iff is_active_destroy_def)
  have "dep \<in> set (module_rows db)" using assms(5) by (auto simp: module_row_def dest: find_SomeD)
  then have "find (\<lambda>x. pr_id x = d \<and> pr_project_id x = pr_project_id m) (module_rows db) \<noteq> None"
    using d assms(6) by (auto simp: find_None_iff)
  then obtain y where y: "find (\<lambda>x. pr_id x = d \<and> pr_project_id x = pr_project_id m) (module_rows db) = Some y" by blast
  then have f: "find (\<lambda>x. pr_id x = d \<and> pr_project_id x = pr_project_id m) (module_rows db) = Some dep"
    using module_of_project [OF assms(16) y] assms(5) by (simp add: module_row_def)
  obtain fam where "(g, fam) \<in> set engine_families" using resolve_known [OF assms(17)] by auto
  then obtain ms where ms: "dispatch_destroy_signature (next_task db) dep = Inr ms"
    using dispatch_destroy_by_engine [OF assms(17)] by blast
  then obtain cid where cid: "send e ms = Some cid" using assms(18) by blast
  let ?rh = "Option.bind (destroy_task_of db i) t_run_handle"
  obtain err db1 new c where q: "queue_destroy e ?rh None dep db = (err, db1, new, c)" by (metis prod_cases4)
  have "err = None \<and> new = [ms]" using q ms cid unfolding queue_destroy_def Let_def add_task_def by auto
  then have l: "destroy_loop e True (Some (deployed_modules db s)) None i (pr_project_id m) [d] (db, []) = (db1, [ms])"
    using f cand q by simp
  obtain det db2 where det: "run_terminal_detection i (Some (t_id t)) db1 = (det, db2)" by fastforce
  have "trigger_next_destroy_module e i (Some (t_id t)) db = (det, db2, [ms])"
    using assms(1-4) meta ne l det unfolding trigger_next_destroy_module_def by (simp add: Let_def del: destroy_loop.simps)
  then show ?thesis using destroy_message_id [OF ms] d by blast
qed

lemma stack_destroy_loop_frame:
  assumes "stack_destroy_loop e rh all is (db, sent, first) = (err, db', sent', first')" and "tasks_fresh db"
  shows "map pr_id (module_rows db') = map pr_id (module_rows db) \<and>
    msg_module_id ` set sent' \<subseteq> msg_module_id ` set sent \<union> set is"
  using assms
proof (induction "is" arbitrary: db sent first)
  case (Cons i "is")
  have skip: ?case if "stack_destroy_loop e rh all is (db, sent, first'') = (err, db', sent', first')" for first''
    using Cons.IH [OF that Cons.prems(2)] by auto
  show ?case
  proof (cases "module_row db i")
    case None
    then show ?thesis using Cons.prems(1) skip by simp
  next
    case (Some m)
    then have i: "pr_id m = i" by (auto simp: module_row_def dest: find_SomeD)
    show ?thesis
    proof (cases "no_infra m \<or> list_ex (\<lambda>d. pr_id d \<in> set all \<and> i \<in> set (dependencies d) \<and> \<not> no_infra d) (module_rows db)")
      case True
      then show ?thesis using Cons.prems(1) Some skip by simp
    next
      case False
      note go = Cons.prems(1) [unfolded stack_destroy_loop.simps Some option.case if_not_P [OF False]]
      show ?thesis
      proof (cases "find (is_active_destroy i) (tasks db)")
        case None
        obtain er db1 new cid where q: "queue_destroy e rh None m db = (er, db1, new, cid)" by (metis prod_cases4)
        have after: "map pr_id (module_rows (after_destroy db m rh None c)) = map pr_id (module_rows db)" for c
          by (simp add: comp_def if_distrib cong: if_cong)
        from q Cons.prems(2) show ?thesis
        proof (cases rule: queue_destroy_cases)
          case (raised msg)
          then show ?thesis using go None q after by auto
        next
          case (queued ms c)
          have "stack_destroy_loop e rh all is (db1, sent @ [ms], first_of first cid) = (err, db', sent', first')"
            using go None q queued by simp
          from Cons.IH [OF this] tasks_fresh_destroy [OF Cons.prems(2)] show ?thesis
            using after destroy_message_id [OF queued(5)] i by (auto simp: queued(2))
        qed
      next
        case (Some t)
        then show ?thesis using go skip by simp
      qed
    qed
  qed
qed simp

text \<open>
  A module of the stack whose status stands for no infrastructure is not destroyed: its row is
  deleted and nothing is queued for it.
\<close>

lemma destroy_stack_drops:
  assumes m: "module_row db i = Some m" "no_infra m" "stack_instance_id m = Some (s_id s)"
    and distinct_rows: "distinct (map pr_id (module_rows db))" and fresh: "tasks_fresh db"
    and run: "destroy_stack e rh s db = ((True, msg), db', sent)"
  shows "module_row db' i = None \<and> i \<notin> msg_module_id ` set sent"
proof -
  let ?mine = "in_stack (s_id s)"
  have mem: "m \<in> set (module_rows db)" "pr_id m = i" using m(1) by (auto simp: module_row_def dest: find_SomeD)
  define db2 where "db2 = db\<lparr>module_rows := map (\<lambda>m. if ?mine m then recover_before_destroy db m else m) (module_rows db)\<rparr>"
  have rec_id: "pr_id (recover_before_destroy x y) = pr_id y" for x y by (simp add: recover_before_destroy_def Let_def)
  have gone: "?mine x \<and> no_infra x" if x: "x \<in> set (module_rows db2)" "pr_id x = i" for x
  proof -
    obtain y where y: "y \<in> set (module_rows db)" "x = (if ?mine y then recover_before_destroy db y else y)"
      using x(1) by (auto simp: db2_def)
    then have "y = m" using x(2) mem distinct_rows by (auto simp: rec_id distinct_map inj_on_def split: if_splits)
    then show ?thesis using y(2) m(2,3) by (auto simp: in_stack_def recover_before_destroy_def transitional_statuses_def NO_INFRA_STATUSES_def)
  qed
  define db3 where "db3 = db2\<lparr>module_rows := filter (\<lambda>m. \<not> (?mine m \<and> no_infra m)) (module_rows db2)\<rparr>"
  define ids where "ids = map pr_id (filter (\<lambda>m. ?mine m \<and> \<not> no_infra m) (module_rows db2))"
  have not3: "i \<notin> pr_id ` set (module_rows db3)" and notids: "i \<notin> set ids" using gone by (auto simp: db3_def ids_def)
  have none: "module_row x i = None" if "i \<notin> pr_id ` set (module_rows x)" for x
    using that by (auto simp: module_row_def find_None_iff)
  have mine1: "filter ?mine (module_rows db) \<noteq> []" using mem(1) m(3) by (auto simp: filter_empty_conv in_stack_def)
  note D = run [unfolded destroy_stack_def Let_def if_not_P [OF mine1], folded db2_def, folded db3_def, folded ids_def]
  from D consider (empty) "db' = delete_stack (s_id s) db3" "sent = []"
    | (wave) first where "stack_destroy_loop e (Some rh) ids ids
        (upd_stack (s_id s) (\<lambda>s. s\<lparr>s_status := S_DESTROYING, current_step := 0\<rparr>) db3, [], None) = (None, db', sent, first)"
    by (auto split: if_splits option.splits prod.splits)
  then show ?thesis
  proof cases
    case empty
    then show ?thesis using none not3 by (simp add: delete_stack_def)
  next
    case wave
    have "tasks_fresh (upd_stack (s_id s) (\<lambda>s. s\<lparr>s_status := S_DESTROYING, current_step := 0\<rparr>) db3)"
      using fresh by (simp add: tasks_fresh_def db3_def db2_def)
    from stack_destroy_loop_frame [OF wave this] have "pr_id ` set (module_rows db') = pr_id ` set (module_rows db3)"
      "msg_module_id ` set sent \<subseteq> set ids" by (auto simp flip: set_map)
    then show ?thesis using none not3 notids by auto
  qed
qed

text \<open>
  Planning an applied module makes its infrastructure invisible to teardown: once its plan has
  ended, destroying its stack deletes the row of the module and queues no destroy for it.
\<close>

theorem planned_infra_is_orphaned:
  assumes "module_row db i = Some m" and "stack_instance_id m = Some (s_id s)"
    and "distinct (map pr_id (module_rows db))" and "tasks_fresh db"
    and "destroy_stack e rh s (plan_succeeded tid i db) = ((True, msg), db', sent)"
  shows "module_row db' i = None \<and> i \<notin> msg_module_id ` set sent"
proof (rule destroy_stack_drops [OF _ _ _ _ _ assms(5)])
  show "module_row (plan_succeeded tid i db) i = Some (m\<lparr>status := PLANNED\<rparr>)"
    using assms(1) by (simp add: plan_succeeded_def set_status_def module_row_upd) (simp add: module_row_def upd_task_def)
  show "distinct (map pr_id (module_rows (plan_succeeded tid i db)))"
    using assms(3) by (simp add: plan_succeeded_def set_status_def upd_module_def upd_task_def comp_def if_distrib cong: if_cong)
  show "tasks_fresh (plan_succeeded tid i db)"
    using complete_fresh [OF assms(4), of tid] by (simp add: plan_succeeded_def set_status_def complete_task_def)
qed (simp_all add: assms(2) NO_INFRA_STATUSES_def)

section \<open>Small teardowns\<close>

definition demo_destroy_task :: "task_status \<Rightarrow> int \<Rightarrow> string option \<Rightarrow> task_row" where
  "demo_destroy_task st i scope = (destroy_row 1 (demo_pm i []) (Some ''run'') scope (Some ''celery-id''))\<lparr>t_status := st\<rparr>"

text \<open>The second module of a project is destroyed and its task has ended.\<close>

definition demo_torn :: exec_db where
  "demo_torn = \<lparr>module_rows = [(demo_pm 1 [])\<lparr>status := APPLIED\<rparr>, (demo_pm 2 [1])\<lparr>status := DESTROYED\<rparr>],
     tasks = [demo_destroy_task T_COMPLETED 2 (Some ''project'')], stacks = [], next_task = 2\<rparr>"

text \<open>A stack with one module, which depends on a module outside the stack.\<close>

definition demo_stack :: "module_status \<Rightarrow> stack_status \<Rightarrow> task_row list \<Rightarrow> exec_db" where
  "demo_stack st sst ts = \<lparr>module_rows = [(demo_pm 1 [])\<lparr>status := APPLIED\<rparr>, (demo_pm 3 [1])\<lparr>status := st, stack_instance_id := Some 5\<rparr>],
     tasks = ts, stacks = [\<lparr>s_id = 5, s_project_id = 7, s_status = sst, s_error = None, current_step = 0\<rparr>], next_task = 2\<rparr>"

lemmas demo_destroy_simps = demo_destroy_task_def demo_torn_def demo_stack_def demo_pm_def

theorem destroy_respects_dependents_witness:
  "map msg_module_id (snd (snd (trigger_next_destroy_module demo_deploy_env 2 (Some 1) demo_torn))) = [1] \<and>
   (\<exists>m dep. module_row demo_torn 2 = Some m \<and> module_row demo_torn 1 = Some dep \<and> 1 \<in> set (dependencies m) \<and> \<not> no_infra dep)"
proof -
  let ?out = "trigger_next_destroy_module demo_deploy_env 2 (Some 1) demo_torn"
  have sent: "map msg_module_id (snd (snd ?out)) = [1]" by code_simp
  then obtain ms where ms: "ms \<in> set (snd (snd ?out))" "msg_module_id ms = 1" by (cases "snd (snd ?out)") auto
  have "?out = (fst ?out, fst (snd ?out), snd (snd ?out))" by simp
  from destroy_respects_dependents [OF this ms(1)]
  have "distinct (map pr_id (module_rows demo_torn)) \<Longrightarrow> tasks_fresh demo_torn \<Longrightarrow> \<exists>m dep. module_row demo_torn 2 = Some m \<and>
      module_row demo_torn 1 = Some dep \<and> pr_id dep \<in> set (dependencies m) \<and> \<not> no_infra dep"
    unfolding ms(2) by blast
  moreover have "distinct (map pr_id (module_rows demo_torn))" "tasks_fresh demo_torn" by (simp_all add: demo_destroy_simps tasks_fresh_def)
  moreover have "pr_id dep = 1" if "module_row demo_torn 1 = Some dep" for dep using that by (auto simp: module_row_def dest: find_SomeD)
  ultimately show ?thesis using sent by metis
qed

theorem project_detection_exact_witness:
  "run_terminal_detection_project (demo_pm 2 [1]) demo_torn = (InProgress, demo_torn)"
proof -
  obtain det db' where d: "run_terminal_detection_project (demo_pm 2 [1]) demo_torn = (det, db')" by fastforce
  have "truthy_text (Option.bind (destroy_task_of demo_torn (pr_id (demo_pm 2 [1]))) t_run_handle)" by code_simp
  note E = project_detection_exact [OF this d]
  have "(demo_pm 1 [])\<lparr>status := APPLIED\<rparr> \<in> {x \<in> set (module_rows demo_torn). pr_project_id x = pr_project_id (demo_pm 2 [1]) \<and> \<not> no_infra x}"
    by (simp add: demo_torn_def) (simp add: demo_pm_def)
  moreover have "status ((demo_pm 1 [])\<lparr>status := APPLIED\<rparr>) \<noteq> DESTROY_FAILED" by simp
  ultimately have "det = InProgress" using E by blast
  then show ?thesis using E d by simp
qed

theorem stack_destroy_never_finalizes_witness:
  "\<exists>db' sent. destroy_succeeded demo_deploy_env 1 3 (demo_stack DESTROYING S_DESTROYING [demo_destroy_task T_IN_PROGRESS 3 None]) = (Idle, db', sent) \<and>
     map pr_id (module_rows db') = [1, 3]"
proof -
  let ?t = "demo_destroy_task T_IN_PROGRESS 3 None"
  let ?db = "demo_stack DESTROYING S_DESTROYING [?t]"
  let ?m = "(demo_pm 3 [1])\<lparr>status := DESTROYING, stack_instance_id := Some 5\<rparr>"
  obtain det db' sent where d: "destroy_succeeded demo_deploy_env (t_id ?t) 3 ?db = (det, db', sent)" by (metis prod_cases3)
  have "module_row ?db 3 = Some ?m" "stack_instance_id ?m = Some 5" by (simp_all add: module_row_def demo_destroy_simps)
  moreover have "stack_by_id ?db 5 = Some (hd (stacks ?db))" "s_status (hd (stacks ?db)) = S_DESTROYING" by (simp_all add: stack_by_id_def demo_stack_def)
  moreover have "\<forall>x \<in> set (module_rows ?db). stack_instance_id x = Some 5 \<and> pr_id x \<noteq> 3 \<longrightarrow> status x = DESTROYED" by (simp add: demo_destroy_simps)
  moreover have "?t \<in> set (tasks ?db)" "t_type ?t = ''destroy''" "t_scope ?t = None" "truthy_text (t_run_handle ?t)" "tasks_fresh ?db"
    by (simp_all add: demo_destroy_simps truthy_text_def tasks_fresh_def)
  ultimately have "det = Idle \<and> map pr_id (module_rows db') = map pr_id (module_rows ?db)"
    using stack_destroy_never_finalizes [OF _ _ _ _ _ _ _ _ _ _ d] by blast
  moreover have "map pr_id (module_rows ?db) = [1, 3]" "t_id ?t = 1" by (simp_all add: demo_destroy_simps)
  ultimately show ?thesis using d by auto
qed

theorem stack_destroy_leaves_stack_witness:
  "\<exists>det db' ms. trigger_next_destroy_module demo_deploy_env 3 (Some 1)
     (demo_stack DESTROYED S_DESTROYING [demo_destroy_task T_COMPLETED 3 None]) = (det, db', [ms]) \<and> msg_module_id ms = 1"
proof -
  let ?t = "demo_destroy_task T_COMPLETED 3 None"
  let ?db = "demo_stack DESTROYED S_DESTROYING [?t]"
  let ?m = "(demo_pm 3 [1])\<lparr>status := DESTROYED, stack_instance_id := Some 5\<rparr>"
  let ?dep = "(demo_pm 1 [])\<lparr>status := APPLIED\<rparr>"
  have "\<exists>det db' ms. trigger_next_destroy_module demo_deploy_env 3 (Some (t_id ?t)) ?db = (det, db', [ms]) \<and> msg_module_id ms = 1"
  proof (rule stack_destroy_leaves_stack)
    show "module_row ?db 3 = Some ?m" "module_row ?db 1 = Some ?dep" by (simp_all add: module_row_def demo_destroy_simps)
    show "stack_by_id ?db 5 = Some (hd (stacks ?db))" by (simp add: stack_by_id_def demo_stack_def)
    show "resolve_dispatch_engine ?dep = Inr ''opentofu''" by code_simp
    show "?t \<in> set (tasks ?db)" by (simp add: demo_stack_def)
    show "\<forall>t \<in> set (tasks ?db). is_active 1 t \<longrightarrow> t_type t \<noteq> ''destroy''"
      by (simp add: demo_destroy_simps is_active_def NON_TERMINAL_TASK_STATUSES_def)
  qed (simp_all add: demo_destroy_simps truthy_text_def tasks_fresh_def demo_deploy_env_def)
  then show ?thesis by (simp add: demo_destroy_task_def)
qed

theorem planned_infra_is_orphaned_witness:
  "\<exists>msg db' sent. destroy_stack demo_deploy_env ''run'' (hd (stacks (demo_stack APPLIED S_DEPLOYED [])))
     (plan_succeeded 1 3 (demo_stack APPLIED S_DEPLOYED [])) = ((True, msg), db', sent) \<and> module_row db' 3 = None"
proof -
  let ?db = "demo_stack APPLIED S_DEPLOYED []"
  let ?s = "hd (stacks ?db)"
  let ?m = "(demo_pm 3 [1])\<lparr>status := APPLIED, stack_instance_id := Some 5\<rparr>"
  obtain ok msg db' sent where d: "destroy_stack demo_deploy_env ''run'' ?s (plan_succeeded 1 3 ?db) = ((ok, msg), db', sent)" by (metis prod.exhaust)
  have "fst (fst (destroy_stack demo_deploy_env ''run'' ?s (plan_succeeded 1 3 ?db))) = True" by code_simp
  then have ok: "ok = True" using d by simp
  have "module_row ?db 3 = Some ?m" "stack_instance_id ?m = Some (s_id ?s)" "distinct (map pr_id (module_rows ?db))" "tasks_fresh ?db"
    by (simp_all add: module_row_def demo_destroy_simps tasks_fresh_def)
  from planned_infra_is_orphaned [OF this d [unfolded ok]] show ?thesis using d ok by blast
qed

end
