(* ===== verification/Module_Ops.thy ===== *)
theory Module_Ops
  imports Destroy_Chain
begin

text \<open>
  The operations on one module of \<^verbatim>\<open>src/backend/services/project_module_service.py\<close>: setting dependencies, submitting
  init, plan, apply and destroy, deploying, retrying, cancelling and removing. Every operation is a function on the
  session (the tables of \<^verbatim>\<open>Deploy_Chain\<close>, the audit log, the module locks, the messages sent and the tasks revoked)
  that returns its answer and the committed state, also when it raises. Snapshots, log lines and warnings are left out.
\<close>

section \<open>State and errors\<close>

record ops_state =
  os_db :: exec_db
  os_log :: "audit_row list"
  os_locked :: "int list"
  os_sent :: "message list"
  os_revoked :: "string list"

text \<open>
  The surroundings: workspace and broker, whether the library row has a git source, where the steps of a
  container run, whether a revocation reaches the broker, and what a worker answers that was asked to kill containers (the number killed and whether the
  endpoint was reachable, nothing when no answer comes).
\<close>

record ops_env =
  oe_deploy :: deploy_env
  oe_git_source :: "project_module \<Rightarrow> bool"
  oe_substrate :: "project_module \<Rightarrow> string"
  oe_revoke :: "string \<Rightarrow> bool"
  oe_kill :: "string list \<Rightarrow> (nat \<times> bool) option"

datatype refusal =
  No_Library | No_Git_Source | Disabled | Dependencies_Unmet "int list" | Not_Destroyable | Already_Deploying | Not_Failed
| Invalid_Dependencies dep_error

datatype ops_error =
  Module_Not_Found int | Refused "refusal list" | Dispatch_Raised string | Illegal_Transition int module_status module_status
| Operation_In_Progress int | Cancel_Failed

type_synonym 'a op_result = "(ops_error + 'a) \<times> ops_state"

definition get_module :: "int \<Rightarrow> ops_state \<Rightarrow> ops_error + project_module" where
  "get_module i st = (case module_row (os_db st) i of None \<Rightarrow> Inl (Module_Not_Found i) | Some m \<Rightarrow> Inr m)"

section \<open>Dependencies\<close>

definition as_gmodule :: "project_module \<Rightarrow> gmodule" where
  "as_gmodule m = \<lparr>g_id = pr_id m, g_project_id = Some (pr_project_id m), g_name = None, g_status = None, g_path = None, g_order = None,
     g_deps = Some (dependencies m)\<rparr>"

definition set_dependencies :: "int \<Rightarrow> int list \<Rightarrow> ops_state \<Rightarrow> int list op_result" where
  "set_dependencies i deps st =
     (case get_module i st of
        Inl e \<Rightarrow> (Inl e, st)
      | Inr m \<Rightarrow>
          (case validate_dependencies i deps (pr_project_id m)
                  (map as_gmodule (filter (\<lambda>x. pr_project_id x = pr_project_id m) (module_rows (os_db st)))) of
             (False, Some err) \<Rightarrow> (Inl (Refused [Invalid_Dependencies err]), st)
           | _ \<Rightarrow> (Inr deps, st\<lparr>os_db := upd_module i (\<lambda>x. x\<lparr>dependencies := deps\<rparr>) (os_db st)\<rparr>)))"

text \<open>The dependencies that are not applied, the missing ones included.\<close>

definition check_module_dependencies :: "project_module \<Rightarrow> exec_db \<Rightarrow> bool \<times> int list" where
  "check_module_dependencies m db =
     (let unmet = filter (\<lambda>d. case find (\<lambda>x. pr_id x = d \<and> pr_project_id x = pr_project_id m) (module_rows db) of
                                None \<Rightarrow> True | Some x \<Rightarrow> status x \<noteq> APPLIED) (dependencies m)
      in (unmet = [], unmet))"

section \<open>Tasks and statuses\<close>

definition create_task :: "string \<Rightarrow> project_module \<Rightarrow> string option \<Rightarrow> ops_state \<Rightarrow> int \<times> ops_state" where
  "create_task ty m scope st =
     (let (tid, db) = add_task ty T_QUEUED m None scope (os_db st) in (tid, st\<lparr>os_db := db\<rparr>))"

definition commit_before_dispatch :: "int \<Rightarrow> module_status \<Rightarrow> ops_state \<Rightarrow> ops_state" where
  "commit_before_dispatch i s st = st\<lparr>os_db := set_status i s (os_db st)\<rparr>"

text \<open>The transition without a lock: a legal one writes the status and one audit row.\<close>

definition transition :: "int \<Rightarrow> module_status \<Rightarrow> int \<Rightarrow> string \<Rightarrow> ops_state \<Rightarrow> ops_error + ops_state" where
  "transition i to tid reason st =
     (case module_row (os_db st) i of
        None \<Rightarrow> Inl (Module_Not_Found i)
      | Some m \<Rightarrow>
          if \<not> is_legal_transition (status_value (status m)) (status_value to) then Inl (Illegal_Transition i (status m) to)
          else Inr (st\<lparr>os_db := set_status i to (os_db st),
                       os_log := os_log st @ [\<lparr>a_module_id = i, a_from_status = status_value (status m), a_to_status = status_value to,
                                               a_task_id = Some tid, a_fence_token = None, a_reason = take 500 reason\<rparr>]\<rparr>))"

text \<open>Handing a message to the broker: the answer is the Celery id, or the exception.\<close>

definition hand_over :: "ops_env \<Rightarrow> string + message \<Rightarrow> ops_state \<Rightarrow> (string + string) \<times> ops_state" where
  "hand_over e msg st =
     (case msg of
        Inl err \<Rightarrow> (Inl err, st)
      | Inr ms \<Rightarrow> (case send (oe_deploy e) ms of
            None \<Rightarrow> (Inl ''broker unreachable'', st)
          | Some cid \<Rightarrow> (Inr cid, st\<lparr>os_sent := os_sent st @ [ms]\<rparr>)))"

definition record_celery_id :: "int \<Rightarrow> string \<Rightarrow> ops_state \<Rightarrow> ops_state" where
  "record_celery_id tid cid st = st\<lparr>os_db := upd_task tid (\<lambda>t. t\<lparr>t_celery_id := Some cid\<rparr>) (os_db st)\<rparr>"

section \<open>Submitting\<close>

definition module_problems :: "ops_env \<Rightarrow> project_module \<Rightarrow> refusal list" where
  "module_problems e m =
     (case library_module m of None \<Rightarrow> [No_Library] | Some l \<Rightarrow> if oe_git_source e m then [] else [No_Git_Source])"

definition validate_for_operation :: "ops_env \<Rightarrow> project_module \<Rightarrow> refusal list" where
  "validate_for_operation e m = (if enabled m then [] else [Disabled]) @ module_problems e m"

text \<open>
  The common end of the four submissions: the task row and the status are committed, the message is sent, the Celery
  id recorded, and the transition is audited from the status that was already written.
\<close>

definition submit ::
  "ops_env \<Rightarrow> string \<Rightarrow> string option \<Rightarrow> module_status \<Rightarrow> (int \<Rightarrow> string + message) \<Rightarrow> string \<Rightarrow> project_module \<Rightarrow> ops_state \<Rightarrow> int op_result" where
  "submit e ty scope s msg by_user m st =
     (let (tid, st1) = create_task ty m scope st;
          st2 = commit_before_dispatch (pr_id m) s st1
      in case hand_over e (msg tid) st2 of
           (Inl err, st3) \<Rightarrow> (Inl (Dispatch_Raised err), st3)
         | (Inr cid, st3) \<Rightarrow>
             (case transition (pr_id m) s tid (''submit_'' @ ty @ '' by '' @ by_user) (record_celery_id tid cid st3) of
                Inl err \<Rightarrow> (Inl err, record_celery_id tid cid st3)
              | Inr st4 \<Rightarrow> (Inr tid, st4)))"

definition submit_init :: "ops_env \<Rightarrow> int \<Rightarrow> string \<Rightarrow> ops_state \<Rightarrow> int op_result" where
  "submit_init e i by_user st =
     (case get_module i st of
        Inl err \<Rightarrow> (Inl err, st)
      | Inr m \<Rightarrow>
          if module_problems e m \<noteq> [] then (Inl (Refused (module_problems e m)), st)
          else if \<not> enabled m then (Inl (Refused [Disabled]), st)
          else submit e ''init'' None INITIALIZING (\<lambda>tid. dispatch_init tid m False False) by_user m st)"

definition submit_plan :: "ops_env \<Rightarrow> int \<Rightarrow> string \<Rightarrow> ops_state \<Rightarrow> int op_result" where
  "submit_plan e i by_user st =
     (case get_module i st of
        Inl err \<Rightarrow> (Inl err, st)
      | Inr m \<Rightarrow>
          if validate_for_operation e m \<noteq> [] then (Inl (Refused (validate_for_operation e m)), st)
          else submit e ''plan'' None PLANNING (\<lambda>tid. dispatch_plan tid m) by_user m st)"

definition submit_apply :: "ops_env \<Rightarrow> int \<Rightarrow> string \<Rightarrow> ops_state \<Rightarrow> int op_result" where
  "submit_apply e i by_user st =
     (case get_module i st of
        Inl err \<Rightarrow> (Inl err, st)
      | Inr m \<Rightarrow>
          if validate_for_operation e m \<noteq> [] then (Inl (Refused (validate_for_operation e m)), st)
          else (case check_module_dependencies m (os_db st) of
              (False, unmet) \<Rightarrow> (Inl (Refused [Dependencies_Unmet unmet]), st)
            | (True, _) \<Rightarrow> submit e ''apply'' None APPLYING (\<lambda>tid. dispatch_apply tid m False) by_user m st))"

definition DESTROYABLE :: "module_status list" where
  "DESTROYABLE = [APPLIED, INITIALIZED, PLANNED, PLAN_FAILED, APPLY_FAILED, DESTROY_FAILED, FAILED]"

definition submit_destroy :: "ops_env \<Rightarrow> int \<Rightarrow> string \<Rightarrow> ops_state \<Rightarrow> int op_result" where
  "submit_destroy e i by_user st =
     (case get_module i st of
        Inl err \<Rightarrow> (Inl err, st)
      | Inr m \<Rightarrow>
          if status m \<notin> set DESTROYABLE then (Inl (Refused [Not_Destroyable]), st)
          else submit e ''destroy'' (Some ''module'') DESTROYING (\<lambda>tid. dispatch_destroy tid m) by_user m st)"

section \<open>Deploying and retrying\<close>

text \<open>
  Both send the message before the transition, and the Celery id is written with it: a transition that raises leaves
  the task row as it was created.
\<close>

definition start :: "ops_env \<Rightarrow> string \<Rightarrow> module_status \<Rightarrow> (int \<Rightarrow> string + message) \<Rightarrow> string \<Rightarrow> project_module \<Rightarrow> ops_state \<Rightarrow> int op_result" where
  "start e ty s msg reason m st =
     (let (tid, st1) = create_task ty m None st
      in case hand_over e (msg tid) st1 of
           (Inl err, st2) \<Rightarrow> (Inl (Dispatch_Raised err), st2)
         | (Inr cid, st2) \<Rightarrow>
             (case transition (pr_id m) s tid reason (record_celery_id tid cid st2) of
                Inl err \<Rightarrow> (Inl err, st2)
              | Inr st3 \<Rightarrow> (Inr tid, st3)))"

definition clear_error :: "int \<Rightarrow> ops_state \<Rightarrow> ops_state" where
  "clear_error i st = st\<lparr>os_db := upd_module i (\<lambda>m. m\<lparr>deployment_error := None\<rparr>) (os_db st)\<rparr>"

definition deploy_module :: "ops_env \<Rightarrow> int \<Rightarrow> string \<Rightarrow> ops_state \<Rightarrow> int op_result" where
  "deploy_module e i by_user st =
     (case get_module i st of
        Inl err \<Rightarrow> (Inl err, st)
      | Inr m \<Rightarrow>
          if \<not> enabled m then (Inl (Refused [Disabled]), st)
          else if status m \<in> {APPLYING, INITIALIZING, PLANNING} then (Inl (Refused [Already_Deploying]), st)
          else if status m = NOT_INITIALIZED
          then start e ''init'' INITIALIZING (\<lambda>tid. dispatch_init tid m True False) (''deploy_module (auto-init) by '' @ by_user) m (clear_error i st)
          else start e ''apply'' APPLYING (\<lambda>tid. dispatch_apply tid m False) (''deploy_module by '' @ by_user) m (clear_error i st))"

definition RETRYABLE :: "module_status list" where
  "RETRYABLE = [FAILED, APPLY_FAILED, INIT_FAILED, DESTROY_FAILED]"

text \<open>
  The retry clears the error after the message was sent, in the transaction of the transition.
\<close>

definition retry_deployment :: "ops_env \<Rightarrow> int \<Rightarrow> string \<Rightarrow> ops_state \<Rightarrow> int op_result" where
  "retry_deployment e i by_user st =
     (case get_module i st of
        Inl err \<Rightarrow> (Inl err, st)
      | Inr m \<Rightarrow>
          if \<not> enabled m then (Inl (Refused [Disabled]), st)
          else if status m \<notin> set RETRYABLE then (Inl (Refused [Not_Failed]), st)
          else let init = (status m = INIT_FAILED);
                   e1 = oe_deploy e;
                   force = (\<not> has_saved_plan e1 m \<or> \<not> plan_is_valid e1 m);
                   (r, st') = (if init
                     then start e ''init'' INITIALIZING (\<lambda>tid. dispatch_init tid m False False) (''retry_deployment (init) by '' @ by_user) m st
                     else start e ''apply'' APPLYING (\<lambda>tid. dispatch_apply tid m force) (''retry_deployment (apply) by '' @ by_user) m st)
               in case r of Inl err \<Rightarrow> (Inl err, st') | Inr tid \<Rightarrow> (Inr tid, clear_error i st'))"

section \<open>Cancelling and removing\<close>

definition reset_status :: "module_status \<Rightarrow> module_status option" where
  "reset_status s = (case s of INITIALIZING \<Rightarrow> Some NOT_INITIALIZED | PLANNING \<Rightarrow> Some INITIALIZED | APPLYING \<Rightarrow> Some PLANNED
     | DESTROYING \<Rightarrow> Some APPLIED | _ \<Rightarrow> None)"

definition reset_module_status :: "string \<Rightarrow> project_module \<Rightarrow> project_module" where
  "reset_module_status msg m =
     (case reset_status (status m) of None \<Rightarrow> m | Some s \<Rightarrow> m\<lparr>status := s, deployment_error := Some msg\<rparr>)"

definition celery_ids :: "task_row list \<Rightarrow> string list" where
  "celery_ids ts = map (\<lambda>t. the (t_celery_id t)) (filter (\<lambda>t. truthy_text (t_celery_id t)) ts)"

definition kill_containers_for_tasks :: "ops_env \<Rightarrow> project_module \<Rightarrow> task_row list \<Rightarrow> nat \<times> bool" where
  "kill_containers_for_tasks e m ts =
     (if resolve_dispatch_engine m \<noteq> Inr ''container'' then (0, True)
      else if oe_substrate e m \<noteq> ''docker'' then (0, False)
      else if celery_ids ts = [] then (0, True)
      else (case oe_kill e (celery_ids ts) of None \<Rightarrow> (0, False) | Some r \<Rightarrow> r))"

record cancel_answer =
  ca_success :: bool
  ca_killed :: nat
  ca_confirmed :: bool
  ca_cancelled :: nat

definition cancel_message :: string where "cancel_message = ''Operation cancelled by user''"
definition stuck_message :: string where "stuck_message = ''Stuck deployment reset by user''"

definition cancel_task :: "task_row \<Rightarrow> task_row" where
  "cancel_task t = t\<lparr>t_status := T_CANCELLED, t_error := Some cancel_message\<rparr>"

definition cancel_operation :: "ops_env \<Rightarrow> int \<Rightarrow> ops_state \<Rightarrow> cancel_answer op_result" where
  "cancel_operation e i st =
     (case get_module i st of
        Inl err \<Rightarrow> (Inl err, st)
      | Inr m \<Rightarrow>
          let db = os_db st;
              cancellable = rev (filter (is_active i) (tasks db));
              ids = celery_ids cancellable
          in if ids \<noteq> [] \<and> \<not> list_all (oe_revoke e) ids
             then (Inl Cancel_Failed, st\<lparr>os_revoked := os_revoked st @ takeWhile (oe_revoke e) ids\<rparr>)
             else if ids \<noteq> []
             then let (killed, confirmed) = kill_containers_for_tasks e m cancellable;
                      db1 = db\<lparr>tasks := map (\<lambda>t. if is_active i t then cancel_task t else t) (tasks db)\<rparr>
                  in (Inr \<lparr>ca_success = True, ca_killed = killed, ca_confirmed = confirmed, ca_cancelled = length cancellable\<rparr>,
                      st\<lparr>os_db := upd_module i (reset_module_status cancel_message) db1,
                         os_locked := (if confirmed then filter (\<lambda>k. k \<noteq> i) (os_locked st) else os_locked st),
                         os_revoked := os_revoked st @ ids\<rparr>)
             else if status m \<in> {INITIALIZING, PLANNING, APPLYING, DESTROYING}
             then (Inr \<lparr>ca_success = True, ca_killed = 0, ca_confirmed = True, ca_cancelled = 0\<rparr>,
                   st\<lparr>os_db := upd_module i (reset_module_status stuck_message) db\<rparr>)
             else (Inr \<lparr>ca_success = False, ca_killed = 0, ca_confirmed = True, ca_cancelled = 0\<rparr>, st))"

definition remove_module :: "int \<Rightarrow> ops_state \<Rightarrow> unit op_result" where
  "remove_module i st =
     (case get_module i st of
        Inl err \<Rightarrow> (Inl err, st)
      | Inr m \<Rightarrow>
          if i \<in> set (os_locked st) then (Inl (Operation_In_Progress i), st)
          else (Inr (), st\<lparr>os_db := (os_db st)\<lparr>module_rows := filter (\<lambda>x. pr_id x \<noteq> i) (module_rows (os_db st))\<rparr>\<rparr>))"

section \<open>Deploying sends first\<close>

lemma module_row_set_status: "module_row (set_status i s db) i = map_option (\<lambda>m. m\<lparr>status := s\<rparr>) (module_row db i)"
  by (simp add: set_status_def module_row_upd)

lemma module_row_add_task [simp]: "module_row (snd (add_task ty ts m rh sc db)) = module_row db"
  by (simp add: add_task_def)

lemma module_row_next [simp]: "module_row (db\<lparr>next_task := n\<rparr>) = module_row db"
  by (simp add: module_row_def fun_eq_iff)

lemma module_row_upd_task [simp]: "module_row (upd_task tid f db) = module_row db"
  by (simp add: upd_task_def)

lemma dispatch_apply_ok: "enabled m \<Longrightarrow> resolve_dispatch_engine m = Inr en \<Longrightarrow> \<exists>ms. dispatch_apply tid m f = Inr ms"
  by (simp add: dispatch_apply_def assert_module_runnable_def)

lemma dispatch_init_ok: "enabled m \<Longrightarrow> resolve_dispatch_engine m = Inr en \<Longrightarrow> \<exists>ms. dispatch_init tid m a f = Inr ms"
  by (simp add: dispatch_init_def assert_module_runnable_def Let_def)

text \<open>
  The outcome of a start whose message can be sent: it is sent in every case; only then an illegal transition raises,
  and leaves the row of the task without its Celery id.
\<close>

lemma start_outcome:
  assumes m: "module_row (os_db st) (pr_id m) = Some m'" "status m' = status m"
    and ms: "msg (next_task (os_db st)) = Inr ms" and cid: "send (oe_deploy e) ms = Some cid"
  shows "\<exists>st'. start e ty s msg reason m st =
       ((if is_legal_transition (status_value (status m)) (status_value s) then Inr (next_task (os_db st))
         else Inl (Illegal_Transition (pr_id m) (status m) s)), st') \<and>
     os_sent st' = os_sent st @ [ms] \<and> map_option status (module_row (os_db st') (pr_id m)) =
       Some (if is_legal_transition (status_value (status m)) (status_value s) then s else status m) \<and>
     map t_celery_id (filter (\<lambda>t. t_id t = next_task (os_db st)) (drop (length (tasks (os_db st))) (tasks (os_db st')))) =
       [if is_legal_transition (status_value (status m)) (status_value s) then Some cid else None]"
proof -
  have tasks_set: "tasks (set_status j s db) = tasks db" for j s db
    by (simp add: set_status_def upd_module_def)
  show ?thesis
    using assms
    by (auto simp: start_def create_task_def add_task_def hand_over_def record_celery_id_def transition_def upd_task_def module_row_set_status tasks_set)
qed

lemma clear_error_row: "module_row (os_db (clear_error i st)) i = map_option (\<lambda>m. m\<lparr>deployment_error := None\<rparr>) (module_row (os_db st) i)"
  by (simp add: clear_error_def module_row_upd)

lemma clear_error_keeps [simp]: "os_sent (clear_error i st) = os_sent st" "next_task (os_db (clear_error i st)) = next_task (os_db st)"
  "tasks (os_db (clear_error i st)) = tasks (os_db st)"
  by (simp_all add: clear_error_def upd_module_def)

lemma module_row_id: "module_row db i = Some m \<Longrightarrow> pr_id m = i"
  by (auto simp: module_row_def dest: find_SomeD)

definition queued_message :: "int \<Rightarrow> ops_state \<Rightarrow> ops_state \<Rightarrow> bool" where
  "queued_message i st st' \<longleftrightarrow> (\<exists>ms. os_sent st' = os_sent st @ [ms] \<and> msg_module_id ms = i \<and> msg_task_id ms = next_task (os_db st))"

definition status_in :: "ops_state \<Rightarrow> int \<Rightarrow> module_status option" where
  "status_in st i = map_option status (module_row (os_db st) i)"

text \<open>
  C39. What deploying an enabled module does when its messages can be sent: a module that is being deployed is refused and
  nothing changes; in every other status a task is sent; but for a module that is destroyed, being destroyed, or failed in
  its destroy or otherwise, the operation then raises, with the task at the broker and the status as before.
\<close>

theorem deploy_module_outcome:
  assumes m: "module_row (os_db st) i = Some m" "enabled m" "resolve_dispatch_engine m = Inr en"
    and broker: "\<forall>ms. send (oe_deploy e) ms \<noteq> None"
  shows "if status m \<in> {APPLYING, INITIALIZING, PLANNING} then deploy_module e i u st = (Inl (Refused [Already_Deploying]), st)
     else \<exists>st'. queued_message i st st' \<and>
       (if status m = NOT_INITIALIZED then deploy_module e i u st = (Inr (next_task (os_db st)), st') \<and> status_in st' i = Some INITIALIZING
        else if status m \<in> {DESTROYING, DESTROYED, DESTROY_FAILED, FAILED}
        then deploy_module e i u st = (Inl (Illegal_Transition i (status m) APPLYING), st') \<and> status_in st' i = Some (status m)
        else deploy_module e i u st = (Inr (next_task (os_db st)), st') \<and> status_in st' i = Some APPLYING)"
proof -
  let ?st = "clear_error i st"
  have id: "pr_id m = i" using m(1) by (rule module_row_id)
  have row: "module_row (os_db ?st) (pr_id m) = Some (m\<lparr>deployment_error := None\<rparr>)" "status (m\<lparr>deployment_error := None\<rparr>) = status m"
    using m(1) by (simp_all add: id clear_error_row)
  obtain mi where mi: "dispatch_init (next_task (os_db ?st)) m True False = Inr mi"
    using dispatch_init_ok[OF m(2,3)] by blast
  obtain ma where ma: "dispatch_apply (next_task (os_db ?st)) m False = Inr ma"
    using dispatch_apply_ok[OF m(2,3)] by blast
  obtain ci ca where cid: "send (oe_deploy e) mi = Some ci" "send (oe_deploy e) ma = Some ca"
    using broker by blast
  have ids: "msg_module_id mi = i" "msg_task_id mi = next_task (os_db st)" "msg_module_id ma = i" "msg_task_id ma = next_task (os_db st)"
    using dispatch_init_message[OF mi] dispatch_apply_message[OF ma] id by simp_all
  note init = start_outcome[OF row, of "\<lambda>tid. dispatch_init tid m True False", OF mi cid(1), of "''init''" INITIALIZING]
  note app = start_outcome[OF row, of "\<lambda>tid. dispatch_apply tid m False", OF ma cid(2), of "''apply''" APPLYING]
  have get: "get_module i st = Inr m"
    using m(1) by (simp add: get_module_def)
  consider "status m \<in> {APPLYING, INITIALIZING, PLANNING}" | "status m = NOT_INITIALIZED" | "status m \<notin> {APPLYING, INITIALIZING, PLANNING, NOT_INITIALIZED}"
    by blast
  then show ?thesis
  proof cases
    case 1
    then show ?thesis using get m(2) by (simp add: deploy_module_def)
  next
    case 2
    have "is_legal_transition (status_value NOT_INITIALIZED) (status_value INITIALIZING)"
      by code_simp
    then show ?thesis
      using init[of "''deploy_module (auto-init) by '' @ u"] get m(2) 2 id ids
      by (auto simp: deploy_module_def queued_message_def status_in_def)
  next
    case 3
    then have "is_legal_transition (status_value (status m)) (status_value APPLYING) \<longleftrightarrow> status m \<notin> {DESTROYING, DESTROYED, DESTROY_FAILED, FAILED}"
      unfolding is_legal_status_value by (cases "status m") (auto simp: outcome_defs status_step_def)
    then show ?thesis
      using app[of "''deploy_module by '' @ u"] get m(2) 3 id ids
      by (auto simp: deploy_module_def queued_message_def status_in_def)
  qed
qed

text \<open>The same for a retry: of the four statuses it accepts, two raise after the apply was sent, a failed destroy among them.\<close>

lemma retry_outcome:
  assumes m: "module_row (os_db st) i = Some m" "enabled m" "resolve_dispatch_engine m = Inr en" "status m \<in> {FAILED, DESTROY_FAILED}"
    and broker: "\<forall>ms. send (oe_deploy e) ms \<noteq> None"
  shows "\<exists>st'. retry_deployment e i u st = (Inl (Illegal_Transition i (status m) APPLYING), st') \<and> queued_message i st st' \<and> status_in st' i = Some (status m)"
proof -
  let ?f = "\<not> has_saved_plan (oe_deploy e) m \<or> \<not> plan_is_valid (oe_deploy e) m"
  have id: "pr_id m = i" using m(1) by (rule module_row_id)
  obtain ma where ma: "dispatch_apply (next_task (os_db st)) m ?f = Inr ma"
    using dispatch_apply_ok[OF m(2,3)] by blast
  obtain ca where cid: "send (oe_deploy e) ma = Some ca"
    using broker by blast
  have illegal: "\<not> is_legal_transition (status_value (status m)) (status_value APPLYING)"
    using m(4) unfolding is_legal_status_value by (auto simp: outcome_defs status_step_def)
  obtain st' where "start e ''apply'' APPLYING (\<lambda>tid. dispatch_apply tid m ?f) (''retry_deployment (apply) by '' @ u) m st = (Inl (Illegal_Transition i (status m) APPLYING), st')"
    "os_sent st' = os_sent st @ [ma]" "map_option status (module_row (os_db st') i) = Some (status m)"
    using start_outcome[of st m m "\<lambda>tid. dispatch_apply tid m ?f", OF _ refl ma cid, of "''apply''" APPLYING "''retry_deployment (apply) by '' @ u"] m(1) illegal
    by (auto simp: id)
  then show ?thesis
    using m dispatch_apply_message[OF ma] id
    by (auto simp: retry_deployment_def get_module_def RETRYABLE_def queued_message_def status_in_def Let_def)
qed

section \<open>The audit of a submission\<close>

lemma submit_audits_self_loop:
  assumes "submit e ty scope s msg u m st = (Inr tid, st')"
  shows "\<exists>r. os_log st' = os_log st @ [r] \<and> a_module_id r = pr_id m \<and> a_from_status r = status_value s \<and> a_to_status r = status_value s"
  using assms
  by (auto simp: submit_def create_task_def add_task_def commit_before_dispatch_def hand_over_def record_celery_id_def transition_def
      module_row_set_status Let_def split: prod.splits sum.splits option.splits if_splits)

text \<open>
  A submission writes the status outside the state machine and audits a step from the new status to itself, so the log
  no longer leads from the initial status to the current one.
\<close>

lemma submit_breaks_replay:
  assumes "submit e ty scope s msg u m st = (Inr tid, st')" "replay (pr_id m) s0 (os_log st) = Some (status_value (status m))" "status m \<noteq> s"
  shows "replay (pr_id m) s0 (os_log st') = None"
proof -
  obtain r where "os_log st' = os_log st @ [r]" "a_module_id r = pr_id m" "a_from_status r = status_value s"
    using submit_audits_self_loop[OF assms(1)] by blast
  then show ?thesis
    using assms(2,3) by (auto simp: replay_append status_value_inject)
qed

section \<open>A destroy of one module\<close>

text \<open>What the chain looks at in a task row.\<close>

definition scope_row :: "task_row \<Rightarrow> int \<times> string \<times> string option" where
  "scope_row t = (t_id t, t_type t, t_scope t)"

lemma submit_task_row:
  assumes "submit e ty scope s msg u m st = (Inr tid, st')"
  shows "\<exists>t. map scope_row (tasks (os_db st')) = map scope_row (tasks (os_db st)) @ [(tid, ty, scope)] \<and> tid = next_task (os_db st)"
  using assms
  by (auto simp: submit_def create_task_def add_task_def commit_before_dispatch_def hand_over_def record_celery_id_def transition_def
      set_status_def upd_module_def upd_task_def scope_row_def comp_def if_distrib Let_def split: prod.splits sum.splits option.splits if_splits cong: if_cong)

lemma find_scope_row: "find (\<lambda>t. t_type t = ty \<and> t_id t = k) ts = Some t \<Longrightarrow>
   find (\<lambda>(i, y, sc). y = ty \<and> i = k) (map scope_row ts) = Some (scope_row t)"
  by (induction ts) (auto simp: scope_row_def split: if_splits)

lemma find_scope_row_None: "find (\<lambda>t. t_type t = ty \<and> t_id t = k) ts = None \<Longrightarrow>
   find (\<lambda>(i, y, sc). y = ty \<and> i = k) (map scope_row ts) = None"
  by (induction ts) (auto simp: scope_row_def split: if_splits)


section \<open>Cancelling\<close>

lemma cancel_resets:
  assumes "module_row (os_db st) i = Some m" "reset_status (status m) = Some s" "cancel_operation e i st = (Inr a, st')"
  shows "(\<exists>m'. module_row (os_db st') i = Some m' \<and> status m' = s \<and> stack_instance_id m' = stack_instance_id m) \<and>
     map pr_id (module_rows (os_db st')) = map pr_id (module_rows (os_db st)) \<and>
     map t_id (tasks (os_db st')) = map t_id (tasks (os_db st)) \<and> next_task (os_db st') = next_task (os_db st)"
proof -
  have keeps: "pr_id (reset_module_status msg x) = pr_id x" for msg x
    by (simp add: reset_module_status_def split: option.splits)
  have rows: "map pr_id (module_rows (upd_module i (reset_module_status msg) db)) = map pr_id (module_rows db)" for msg db
    by (simp add: upd_module_def keeps)
  have row: "\<exists>m'. module_row (upd_module i (reset_module_status msg) db) i = Some m' \<and> status m' = s \<and> stack_instance_id m' = stack_instance_id m"
    if "module_row db i = Some m" for msg db
    unfolding module_row_upd[of "reset_module_status msg", OF keeps] using that assms(2) by (simp add: reset_module_status_def)
  have "status m \<in> {INITIALIZING, PLANNING, APPLYING, DESTROYING}"
    using assms(2) by (simp add: reset_status_def split: module_status.splits)
  then obtain msg ts where "os_db st' = upd_module i (reset_module_status msg) ((os_db st)\<lparr>tasks := ts\<rparr>)" "map t_id ts = map t_id (tasks (os_db st))"
  proof (cases "celery_ids (rev (filter (is_active i) (tasks (os_db st)))) = []")
    case True
    then have "os_db st' = upd_module i (reset_module_status stuck_message) ((os_db st)\<lparr>tasks := tasks (os_db st)\<rparr>)"
      using assms(1,3) \<open>status m \<in> _\<close> by (auto simp: cancel_operation_def get_module_def Let_def)
    then show ?thesis using that by blast
  next
    case False
    then have "os_db st' = upd_module i (reset_module_status cancel_message)
        ((os_db st)\<lparr>tasks := map (\<lambda>t. if is_active i t then cancel_task t else t) (tasks (os_db st))\<rparr>)"
      using assms(1,3) by (auto simp: cancel_operation_def get_module_def Let_def split: if_splits prod.splits)
    moreover have "map t_id (map (\<lambda>t. if is_active i t then cancel_task t else t) (tasks (os_db st))) = map t_id (tasks (os_db st))"
      by (simp add: cancel_task_def)
    ultimately show ?thesis using that by blast
  qed
  then show ?thesis
    using row[of "(os_db st)\<lparr>tasks := ts\<rparr>" msg] rows[of msg "(os_db st)\<lparr>tasks := ts\<rparr>"] assms(1) by (simp add: upd_module_def)
qed


section \<open>Dependencies stay acyclic\<close>

lemma set_dependencies_ok:
  assumes "set_dependencies i deps st = (Inr ds, st')"
  shows "ds = deps \<and> (\<exists>m. module_row (os_db st) i = Some m \<and>
     fst (validate_dependencies i deps (pr_project_id m)
       (map as_gmodule (filter (\<lambda>x. pr_project_id x = pr_project_id m) (module_rows (os_db st))))) \<and>
     module_row (os_db st') i = Some (m\<lparr>dependencies := deps\<rparr>))"
  using assms
  by (auto simp: set_dependencies_def get_module_def validate_dependencies_def module_row_upd split: sum.splits option.splits prod.splits bool.splits if_splits dfs_result.splits)

definition dependency_rel :: "int \<Rightarrow> project_module list \<Rightarrow> (int \<times> int) set" where
  "dependency_rel pid ms = {(pr_id m, d) | m d. m \<in> set ms \<and> pr_project_id m = pid \<and> d \<in> set (dependencies m)}"

text \<open>
  C38. Dependencies that are accepted leave the project without a cycle and name modules of the project only, whatever
  the dependencies were before.
\<close>

theorem set_dependencies_acyclic:
  assumes ids: "distinct (map pr_id (module_rows (os_db st)))" and row: "module_row (os_db st) i = Some m"
    and run: "set_dependencies i deps st = (Inr ds, st')"
  shows "acyclic (dependency_rel (pr_project_id m) (module_rows (os_db st'))) \<and>
     set deps \<subseteq> {pr_id x | x. x \<in> set (module_rows (os_db st)) \<and> pr_project_id x = pr_project_id m} - {i}"
proof -
  let ?pid = "pr_project_id m" and ?rows = "module_rows (os_db st)"
  define mods where "mods = map as_gmodule (filter (\<lambda>x. pr_project_id x = ?pid) ?rows)"
  have ok: "fst (validate_dependencies i deps ?pid mods)"
    using set_dependencies_ok[OF run] row by (auto simp: mods_def)
  have mods_ids: "distinct (map g_id mods)"
    using ids by (simp add: mods_def as_gmodule_def comp_def distinct_map inj_on_def)
  have rows': "module_rows (os_db st') = map (\<lambda>x. if pr_id x = i then x\<lparr>dependencies := deps\<rparr> else x) ?rows"
    using run by (auto simp: set_dependencies_def upd_module_def split: sum.splits prod.splits bool.splits option.splits)
  have "dependency_rel ?pid (module_rows (os_db st')) \<subseteq> edges (proposed_graph i deps ?pid mods [])"
  proof
    fix ed assume "ed \<in> dependency_rel ?pid (module_rows (os_db st'))"
    then obtain x d where ed: "ed = (pr_id (if pr_id x = i then x\<lparr>dependencies := deps\<rparr> else x), d)" and x: "x \<in> set ?rows"
      and d: "d \<in> set (dependencies (if pr_id x = i then x\<lparr>dependencies := deps\<rparr> else x))"
      and pid: "pr_project_id (if pr_id x = i then x\<lparr>dependencies := deps\<rparr> else x) = ?pid"
      unfolding dependency_rel_def rows' by fastforce
    have "as_gmodule x \<in> set mods" "g_project_id (as_gmodule x) = Some ?pid"
      using x pid by (auto simp: mods_def as_gmodule_def split: if_splits)
    from validate_dependencies_graph[OF mods_ids this, of i deps] d
    show "ed \<in> edges (proposed_graph i deps ?pid mods [])"
      by (auto simp: ed edges_def as_gmodule_def g_deps_list_def)
  qed
  then have "acyclic (dependency_rel ?pid (module_rows (os_db st')))"
    using ok acyclic_subset by (auto simp: validate_dependencies_iff)
  moreover have "set deps \<subseteq> {pr_id x | x. x \<in> set ?rows \<and> pr_project_id x = ?pid} - {i}"
    using ok by (auto simp: validate_dependencies_iff project_module_ids_def mods_def as_gmodule_def)
  ultimately show ?thesis by blast
qed

text \<open>A submitted apply starts only with every dependency of the module applied.\<close>

lemma submit_apply_dependencies:
  assumes "submit_apply e i u st = (Inr tid, st')"
  shows "\<exists>m. module_row (os_db st) i = Some m \<and> enabled m \<and>
     (\<forall>d \<in> set (dependencies m). \<exists>x \<in> set (module_rows (os_db st)). pr_id x = d \<and> pr_project_id x = pr_project_id m \<and> status x = APPLIED)"
proof -
  obtain m where m: "module_row (os_db st) i = Some m" "enabled m" "fst (check_module_dependencies m (os_db st))"
    using assms by (auto simp: submit_apply_def get_module_def validate_for_operation_def split: sum.splits option.splits if_splits prod.splits bool.splits)
  have "\<exists>x \<in> set (module_rows (os_db st)). pr_id x = d \<and> pr_project_id x = pr_project_id m \<and> status x = APPLIED" if d: "d \<in> set (dependencies m)" for d
  proof -
    obtain x where "find (\<lambda>x. pr_id x = d \<and> pr_project_id x = pr_project_id m) (module_rows (os_db st)) = Some x" "status x = APPLIED"
      using m(3) d by (auto simp: check_module_dependencies_def Let_def filter_empty_conv split: option.splits)
    then show ?thesis by (auto dest!: find_SomeD)
  qed
  then show ?thesis
    using m(1,2) by blast
qed

section \<open>Examples\<close>

definition demo_ops_env :: ops_env where
  "demo_ops_env = \<lparr>oe_deploy = demo_deploy_env, oe_git_source = (\<lambda>_. True), oe_substrate = (\<lambda>_. ''docker''), oe_revoke = (\<lambda>_. True), oe_kill = (\<lambda>_. None)\<rparr>"

definition demo_ops :: "module_status \<Rightarrow> ops_state" where
  "demo_ops s = \<lparr>os_db = demo_stack s S_DEPLOYED [], os_log = [], os_locked = [], os_sent = [], os_revoked = []\<rparr>"

lemma demo_ops_row: "module_row (os_db (demo_ops s)) 3 = Some ((demo_pm 3 [1])\<lparr>status := s, stack_instance_id := Some 5\<rparr>)"
  by (simp add: demo_ops_def module_row_def demo_destroy_simps)

definition demo_linked :: ops_state where
  "demo_linked = snd (set_dependencies 3 [1] (demo_ops APPLIED))"

theorem set_dependencies_acyclic_witness: "acyclic (dependency_rel 7 (module_rows (os_db demo_linked)))"
proof -
  let ?st = "demo_ops APPLIED"
  have "fst (set_dependencies 3 [1] ?st) = Inr [1]"
    by code_simp
  then have run: "set_dependencies 3 [1] ?st = (Inr [1], demo_linked)"
    by (cases "set_dependencies 3 [1] ?st") (simp add: demo_linked_def)
  have "distinct (map pr_id (module_rows (os_db ?st)))"
    by (simp add: demo_ops_def demo_destroy_simps)
  from set_dependencies_acyclic[OF this demo_ops_row run] show ?thesis
    by (simp add: demo_pm_def)
qed

theorem deploy_module_outcome_witness:
  "\<exists>st'. queued_message 3 (demo_ops DESTROYED) st' \<and> deploy_module demo_ops_env 3 ''ann'' (demo_ops DESTROYED) = (Inl (Illegal_Transition 3 DESTROYED APPLYING), st')"
proof -
  let ?m = "(demo_pm 3 [1])\<lparr>status := DESTROYED, stack_instance_id := Some 5\<rparr>"
  have "enabled ?m" "resolve_dispatch_engine ?m = Inr ''opentofu''"
    by code_simp+
  moreover have "\<forall>ms. send (oe_deploy demo_ops_env) ms \<noteq> None"
    by (simp add: demo_ops_env_def demo_deploy_env_def)
  ultimately show ?thesis
    using deploy_module_outcome[OF demo_ops_row[of DESTROYED], of "''opentofu''" demo_ops_env "''ann''"] by auto
qed

definition demo_destroying :: ops_state where
  "demo_destroying = snd (submit_destroy demo_ops_env 3 ''ann'' (demo_ops APPLIED))"


definition demo_cancelled :: ops_state where
  "demo_cancelled = snd (cancel_operation demo_ops_env 3 (demo_ops APPLYING))"


end
