(* ===== verification/Bnk_Scan.thy ===== *)
theory Bnk_Scan
  imports Prelude
begin

text \<open>
  What a cluster scan finds of a BNK installation: the discovery and the classification of F5 pods
  (\<^verbatim>\<open>src/backend/services/bnk_pod_discovery.py\<close>) and the analysis of the installation
  (\<^verbatim>\<open>src/backend/services/scanner/bnk_install.py\<close>). The answers of the Kubernetes API are arguments; pods are
  the plain dictionaries the scanner makes of them. Text is ASCII, and an image reference is one line.
\<close>

section \<open>Pods and hints\<close>

record container =
  c_name :: string
  c_ready :: bool
  c_image :: string

record pod =
  p_name :: string
  p_namespace :: string
  p_phase :: string
  p_containers :: "container list"
  p_labels :: "(string, string) dict"

definition starts_with :: "string \<Rightarrow> string \<Rightarrow> bool" where
  "starts_with p s \<longleftrightarrow> take (length p) s = p"

definition BNK_NAMESPACES :: "string list" where
  "BNK_NAMESPACES = [''f5-bnk'', ''f5-operator'', ''f5-utils'', ''default'']"

definition TENANT_PREFIXES :: "string list" where
  "TENANT_PREFIXES = [''f5-tmm'', ''flo-f5-lifecycle'', ''f5-lifecycle'', ''f5-cne-controller'', ''f5ingress'',
     ''f5-analyzer'', ''f5-afm'', ''f5-observer'', ''otel-collector'']"

definition UTILS_PREFIXES :: "string list" where
  "UTILS_PREFIXES = [''crd-installer'', ''f5-coremond'', ''f5-crdconversion'', ''f5-dssm'', ''f5-ipam'', ''f5-rabbit'',
     ''f5-spk-'', ''spk-csrc'', ''f5-toda'', ''f5-cwc'', ''f5-spk-cwc'']"

definition ALL_F5_PREFIXES :: "string list" where
  "ALL_F5_PREFIXES = [''f5-tmm'', ''flo-f5-lifecycle'', ''f5-lifecycle'', ''f5-cne-controller'', ''f5ingress'', ''f5-analyzer'',
     ''f5-afm'', ''f5-observer'', ''otel-collector'', ''crd-installer'', ''f5-coremond'', ''f5-crdconversion'', ''f5-dssm'',
     ''f5-ipam'', ''f5-rabbit'', ''f5-spk-'', ''spk-csrc'', ''f5-toda'', ''f5-cwc'', ''f5-spk-cwc'']"

definition LABEL_HINTS :: "(string, (string \<times> string) list) dict" where
  "LABEL_HINTS = [
     (''tmm'', [(''app'', ''f5-tmm'')]),
     (''flo'', [(''app'', ''flo''), (''app.kubernetes.io/name'', ''f5-lifecycle-operator'')]),
     (''controller'', [(''app'', ''f5-cne-controller''), (''app'', ''f5ingress-f5ingress''),
        (''app.kubernetes.io/name'', ''f5ingress'')]),
     (''ipam'', [(''app'', ''ipam-operator'')]),
     (''crd_installer'', [(''app'', ''crd-installer'')])]"

definition SWEEP_LABEL_ROLES :: "string list" where
  "SWEEP_LABEL_ROLES = [''tmm'', ''flo'', ''controller'']"

definition CONTAINER_NAME_HINTS :: "(string, string list) dict" where
  "CONTAINER_NAME_HINTS = [(''tmm'', [''tmm'']), (''flo'', [''flo'']), (''controller'', [''f5ingress-f5ingress''])]"

definition CONTAINER_IMAGE_HINTS :: "(string, string list) dict" where
  "CONTAINER_IMAGE_HINTS = [(''flo'', [''ln-operator''])]"

definition TENANT_ROLES :: "string list" where
  "TENANT_ROLES = [''tmm'', ''flo'', ''controller'', ''analyzer'']"

definition label_hit :: "(string, string) dict \<Rightarrow> (string \<times> string) list \<Rightarrow> bool" where
  "label_hit labels pairs \<longleftrightarrow> list_ex (\<lambda>(k, v). map_of labels k = Some v) pairs"

definition match_label_hints :: "(string, string) dict \<Rightarrow> string option" where
  "match_label_hints labels = map_option fst (find (\<lambda>(role, pairs). label_hit labels pairs) LABEL_HINTS)"

text \<open>The first container with a hint decides: its name first, then its image.\<close>

fun match_container_hints :: "container list \<Rightarrow> string option" where
  "match_container_hints [] = None"
| "match_container_hints (c # cs) =
     (case find (\<lambda>(role, hints). c_name c \<in> set hints) CONTAINER_NAME_HINTS of
        Some (role, _) \<Rightarrow> Some role
      | None \<Rightarrow> (case find (\<lambda>(role, hints). list_ex (\<lambda>h. str_contains h (c_image c)) hints) CONTAINER_IMAGE_HINTS of
            Some (role, _) \<Rightarrow> Some role
          | None \<Rightarrow> match_container_hints cs))"

definition is_bnk_pod :: "pod \<Rightarrow> bool" where
  "is_bnk_pod p \<longleftrightarrow>
     list_ex (\<lambda>role. label_hit (p_labels p) (dict_get_or LABEL_HINTS role [])) SWEEP_LABEL_ROLES \<or>
     list_ex (\<lambda>pre. starts_with pre (p_name p)) ALL_F5_PREFIXES"

section \<open>Discovery\<close>

definition pod_key :: "pod \<Rightarrow> string \<times> string" where
  "pod_key p = (p_namespace p, p_name p)"

text \<open>
  The namespaces of the fast path; they are the keys of a dictionary of futures, so a namespace
  given twice is read once.
\<close>

definition fast_path_ns :: "string list \<Rightarrow> string list" where
  "fast_path_ns extra = rev (remdups (rev (BNK_NAMESPACES @ filter (\<lambda>ns. ns \<notin> set BNK_NAMESPACES) extra)))"

definition sweep_all_namespaces :: "pod list \<Rightarrow> pod list" where
  "sweep_all_namespaces all = filter is_bnk_pod all"

definition phase1_pods :: "(string \<Rightarrow> pod list) \<Rightarrow> string list \<Rightarrow> pod list" where
  "phase1_pods fetch extra =
     filter (\<lambda>p. p_name p \<noteq> '''' \<and> is_bnk_pod p) (concat (map fetch (fast_path_ns extra)))"

fun merge_sweep :: "pod list \<Rightarrow> pod list \<Rightarrow> pod list" where
  "merge_sweep all [] = all"
| "merge_sweep all (p # ps) =
     (if pod_key p \<in> pod_key ` set all then merge_sweep all ps else merge_sweep (all @ [p]) ps)"

datatype bucket = Tenant | Utils

definition bucket_of :: "pod \<Rightarrow> bucket option" where
  "bucket_of p =
     (let role = (case match_label_hints (p_labels p) of
            Some r \<Rightarrow> Some r
          | None \<Rightarrow> (case match_container_hints (p_containers p) of
                Some r \<Rightarrow> Some r
              | None \<Rightarrow> if list_ex (\<lambda>pre. starts_with pre (p_name p)) TENANT_PREFIXES then Some ''tenant''
                        else if list_ex (\<lambda>pre. starts_with pre (p_name p)) UTILS_PREFIXES then Some ''utils'' else None))
      in case role of
           None \<Rightarrow> None
         | Some r \<Rightarrow> if r \<in> set TENANT_ROLES \<or> r = ''tenant'' then Some Tenant
                     else if r \<in> {''ipam'', ''crd_installer'', ''utils''} then Some Utils else None)"

definition discover_f5_pods :: "(string \<Rightarrow> pod list) \<Rightarrow> pod list option \<Rightarrow> string list \<Rightarrow> pod list \<times> pod list" where
  "discover_f5_pods fetch cluster extra =
     (let all = merge_sweep (phase1_pods fetch extra)
                  (case cluster of None \<Rightarrow> [] | Some ps \<Rightarrow> sweep_all_namespaces ps)
      in (filter (\<lambda>p. bucket_of p = Some Tenant) all, filter (\<lambda>p. bucket_of p = Some Utils) all))"

definition discovered_namespaces :: "pod list \<times> pod list \<Rightarrow> string list" where
  "discovered_namespaces found =
     sort (remdups (filter (\<lambda>ns. ns \<noteq> '''') (map p_namespace (fst found @ snd found))))"

section \<open>Classification\<close>

definition ROLE_PREFIXES :: "(string \<times> string) list" where
  "ROLE_PREFIXES = [(''tmm'', ''f5-tmm''), (''flo'', ''flo-f5-lifecycle''), (''flo'', ''f5-lifecycle''),
     (''controller'', ''f5-cne-controller''), (''controller'', ''f5ingress''), (''analyzer'', ''f5-analyzer''),
     (''crd_installer'', ''crd-installer'')]"

definition classify_pod :: "pod \<Rightarrow> string option" where
  "classify_pod p =
     (case match_label_hints (p_labels p) of
        Some r \<Rightarrow> Some r
      | None \<Rightarrow> (case match_container_hints (p_containers p) of
            Some r \<Rightarrow> Some r
          | None \<Rightarrow> map_option fst (find (\<lambda>(r, pre). starts_with pre (p_name p)) ROLE_PREFIXES)))"

fun classify_loop :: "(string \<times> string) list \<Rightarrow> (string, pod list) dict \<Rightarrow> pod list \<Rightarrow> (string, pod list) dict" where
  "classify_loop seen result [] = result"
| "classify_loop seen result (p # ps) =
     (if pod_key p \<in> set seen then classify_loop seen result ps
      else classify_loop (pod_key p # seen)
        (case classify_pod p of
           None \<Rightarrow> result
         | Some role \<Rightarrow> (case map_of result role of
               None \<Rightarrow> result
             | Some found \<Rightarrow> dict_set role (found @ [p]) result)) ps)"

definition classify_f5_pods :: "pod list \<Rightarrow> pod list \<Rightarrow> (string, pod list) dict" where
  "classify_f5_pods tenant utils =
     classify_loop [] [(''tmm'', []), (''flo'', []), (''controller'', []), (''analyzer'', []), (''crd_installer'', [])]
       (tenant @ utils)"

definition detect_install_shape :: "(string, pod list) dict \<Rightarrow> string" where
  "detect_install_shape cls =
     (if dict_get_or cls ''flo'' [] \<noteq> [] then ''flo''
      else if dict_get_or cls ''tmm'' [] \<noteq> [] \<or> dict_get_or cls ''controller'' [] \<noteq> [] then ''helm'' else ''unknown'')"

definition pod_is_healthy :: "pod \<Rightarrow> bool" where
  "pod_is_healthy p \<longleftrightarrow> p_phase p = ''Running'' \<and> list_all c_ready (p_containers p)"

definition pod_is_completed :: "pod \<Rightarrow> bool" where
  "pod_is_completed p \<longleftrightarrow> p_phase p \<in> {''Succeeded'', ''Completed''}"

section \<open>Versions in image references\<close>

text \<open>
  \<^verbatim>\<open>re.search\<close> tries the positions from the left: the first suffix on which a match function answers.
\<close>

fun search_from :: "(string \<Rightarrow> 'a option) \<Rightarrow> string \<Rightarrow> 'a option" where
  "search_from f [] = f []"
| "search_from f (c # cs) = (case f (c # cs) of Some x \<Rightarrow> Some x | None \<Rightarrow> search_from f cs)"

definition drop_v :: "string \<Rightarrow> string" where
  "drop_v s = (case s of c # cs \<Rightarrow> if c = CHR ''v'' then cs else s | [] \<Rightarrow> [])"

text \<open>\<^verbatim>\<open>:v?([\d][\d.-]+)\<close>\<close>

definition version_tag :: "string \<Rightarrow> string option" where
  "version_tag s =
     (case s of
        c # rest \<Rightarrow>
          if c \<noteq> CHR '':'' then None
          else (case drop_v rest of
              d # ds \<Rightarrow> let tail = takeWhile (\<lambda>x. is_digit x \<or> x = CHR ''.'' \<or> x = CHR ''-'') ds
                          in if is_digit d \<and> tail \<noteq> [] then Some (d # tail) else None
            | [] \<Rightarrow> None)
      | [] \<Rightarrow> None)"

text \<open>\<^verbatim>\<open>f5-lifecycle.*?:v?([\d][\d.-]+)\<close>: the lazy gap makes the first tag after the name the match.\<close>

definition lifecycle_tag :: "string \<Rightarrow> string option" where
  "lifecycle_tag s = (if starts_with ''f5-lifecycle'' s then search_from version_tag (drop 12 s) else None)"

definition image_flo_version :: "string \<Rightarrow> string option" where
  "image_flo_version img =
     (case search_from lifecycle_tag img of Some v \<Rightarrow> Some v | None \<Rightarrow> search_from version_tag img)"

text \<open>The first image, over all containers of all pods in order, that yields a value.\<close>

fun first_value :: "('a \<Rightarrow> 'b option) \<Rightarrow> 'a list \<Rightarrow> 'b option" where
  "first_value f [] = None"
| "first_value f (x # xs) = (case f x of Some y \<Rightarrow> Some y | None \<Rightarrow> first_value f xs)"

definition images :: "pod list \<Rightarrow> string list" where
  "images pods = concat (map (\<lambda>p. map c_image (p_containers p)) pods)"

definition extract_flo_version :: "pod list \<Rightarrow> string option" where
  "extract_flo_version pods = first_value image_flo_version (images pods)"

definition is_word :: "char \<Rightarrow> bool" where
  "is_word c \<longleftrightarrow> is_digit c \<or> c = CHR ''_'' \<or> (let n = of_char c :: nat in 65 \<le> n \<and> n \<le> 90 \<or> 97 \<le> n \<and> n \<le> 122)"

text \<open>\<^verbatim>\<open>:(v?\d[\w.\-]*)$\<close>\<close>

definition end_tag :: "string \<Rightarrow> string option" where
  "end_tag s =
     (case s of
        c # rest \<Rightarrow>
          if c = CHR '':'' \<and> (case drop_v rest of
               d # ds \<Rightarrow> is_digit d \<and> list_all (\<lambda>x. is_word x \<or> x = CHR ''.'' \<or> x = CHR ''-'') ds
             | [] \<Rightarrow> False)
          then Some rest else None
      | [] \<Rightarrow> None)"

definition image_tag :: "string \<Rightarrow> string option" where
  "image_tag img = search_from end_tag img"

definition extract_image_version :: "pod list \<Rightarrow> string \<Rightarrow> string option" where
  "extract_image_version pods hint =
     (case first_value image_tag (filter (str_contains hint) (images pods)) of
        Some tag \<Rightarrow> Some tag
      | None \<Rightarrow> first_value image_tag (images pods))"

section \<open>The analysis\<close>

record helm_release =
  hr_name :: "string option"
  hr_namespace :: "string option"
  hr_chart :: "string option"

definition release_name_has :: "string \<Rightarrow> helm_release \<Rightarrow> bool" where
  "release_name_has token r \<longleftrightarrow> str_contains token (str_lower (case hr_name r of None \<Rightarrow> '''' | Some n \<Rightarrow> n))"

definition find_flo_helm_release :: "helm_release list \<Rightarrow> helm_release option" where
  "find_flo_helm_release rs =
     (case find (\<lambda>r. release_name_has ''f5'' r \<and> release_name_has ''lifecycle'' r) rs of
        Some r \<Rightarrow> Some r
      | None \<Rightarrow> (case find (\<lambda>r. release_name_has ''f5ingress'' r \<or> release_name_has ''cne'' r) rs of
            Some r \<Rightarrow> Some r
          | None \<Rightarrow> find (\<lambda>r. hr_namespace r = Some ''f5-operator'') rs))"

datatype json_val = JInt int | JStr string

text \<open>The readiness of the containers of the first TMM pod, as the dictionary the scan reports.\<close>

definition tmm_container_summary :: "pod list \<Rightarrow> (string, json_val) dict option" where
  "tmm_container_summary pods =
     (case pods of
        [] \<Rightarrow> None
      | p # _ \<Rightarrow>
          let total = length (p_containers p); ready = length (filter c_ready (p_containers p))
          in Some [(''total_containers'', JInt (int total)), (''ready_containers'', JInt (int ready)),
                   (''containers'', JStr (str_of_nat ready @ ''/'' @ str_of_nat total))])"

text \<open>
  A CNEInstance resource: its name and its spec, where an entry is a dictionary with the truth of its
  \<^verbatim>\<open>enabled\<close> entry if it has one, or something else.
\<close>

datatype spec_val = Spec_Dict "bool option" | Spec_Other

record cne_resource =
  cn_name :: string
  cn_spec :: "(string, spec_val) dict"

record cne_info =
  cne_name :: string
  cne_features :: "(string, bool) dict"

definition parse_cneinstance :: "cne_resource list \<Rightarrow> cne_info option" where
  "parse_cneinstance cs =
     (case cs of
        [] \<Rightarrow> None
      | c # _ \<Rightarrow> Some \<lparr>cne_name = cn_name c,
          cne_features = concat (map (\<lambda>(k, v). case v of Spec_Dict (Some b) \<Rightarrow> [(k, b)] | _ \<Rightarrow> []) (cn_spec c))\<rparr>)"

record vlan_resource =
  vr_name :: string
  vr_interfaces :: "string list"
  vr_self_ips :: "string list"
  vr_mtu :: "int option"
  vr_conditions :: "(string \<times> string) list"

record vlan_info =
  vl_name :: string
  vl_interfaces :: "string list"
  vl_self_ips :: "string list"
  vl_mtu :: "int option"
  vl_programmed :: bool

definition parse_vlans :: "vlan_resource list \<Rightarrow> vlan_info list" where
  "parse_vlans vs = map (\<lambda>v. \<lparr>vl_name = vr_name v, vl_interfaces = vr_interfaces v, vl_self_ips = vr_self_ips v,
     vl_mtu = vr_mtu v, vl_programmed = (''Programmed'', ''True'') \<in> set (vr_conditions v)\<rparr>) vs"

definition F5_CRD_GROUPS :: "string list" where
  "F5_CRD_GROUPS = [''k8s.f5.com'', ''k8s.f5net.com'', ''gateway.k8s.f5net.com'', ''fic.f5.com'']"

text \<open>The number of pods and of running pods of a component.\<close>

record component_info =
  ci_pods :: nat
  ci_running :: nat

record bnk_install =
  bi_status :: string
  bi_health :: "string option"
  bi_install_shape :: string
  bi_namespaces :: "(string, bool) dict"
  bi_crd_total :: nat
  bi_crd_groups :: "string list"
  bi_flo_version :: "string option"
  bi_flo :: component_info
  bi_helm_release :: "helm_release option"
  bi_tmm :: component_info
  bi_tmm_containers :: "(string, json_val) dict option"
  bi_tmm_version :: "string option"
  bi_controller :: component_info
  bi_controller_version :: "string option"
  bi_analyzer :: component_info
  bi_crd_installer_completed :: bool
  bi_crd_installer_pods :: nat
  bi_cne_instance :: "cne_info option"
  bi_vlans :: "vlan_info list"

definition determine_status ::
  "bool \<Rightarrow> bool \<Rightarrow> bool \<Rightarrow> (string, json_val) dict option \<Rightarrow> (string, bool) dict \<Rightarrow> bool \<Rightarrow> bool \<Rightarrow> string \<times> string option" where
  "determine_status tmm_running flo_running has_crds containers ns controller_running cne_present =
     (if tmm_running \<and> has_crds \<and> (flo_running \<or> controller_running \<or> cne_present)
      then (''installed'', Some (case containers of
          None \<Rightarrow> ''degraded''
        | Some d \<Rightarrow> if map_of d ''ready_containers'' = map_of d ''total_containers'' then ''healthy'' else ''degraded''))
      else if has_crds \<or> flo_running \<or> dict_get_or ns ''f5_operator'' False \<or> dict_get_or ns ''f5_bnk'' False
      then (''partial'', Some ''degraded'')
      else (''not_installed'', None))"

definition running_pods :: "pod list \<Rightarrow> pod list" where
  "running_pods ps = filter (\<lambda>p. p_phase p = ''Running'') ps"

definition component_of :: "pod list \<Rightarrow> component_info" where
  "component_of ps = \<lparr>ci_pods = length ps, ci_running = length (running_pods ps)\<rparr>"

definition analyze_bnk_install ::
  "string list \<Rightarrow> pod list \<Rightarrow> pod list \<Rightarrow> helm_release list \<Rightarrow> cne_resource list \<Rightarrow> vlan_resource list \<Rightarrow> string list \<Rightarrow> bnk_install" where
  "analyze_bnk_install crds tenant utils releases cnes vlans namespaces =
     (let f5_crds = filter (\<lambda>g. g \<in> set F5_CRD_GROUPS) crds;
          ns = [(''f5_operator'', ''f5-operator'' \<in> set namespaces), (''f5_bnk'', ''f5-bnk'' \<in> set namespaces),
                (''f5_utils'', ''f5-utils'' \<in> set namespaces), (''f5_cne_core'', ''f5-cne-core'' \<in> set namespaces)];
          cls = classify_f5_pods tenant utils;
          group = (\<lambda>r. dict_get_or cls r []);
          containers = tmm_container_summary (group ''tmm'');
          cne = parse_cneinstance cnes;
          (st, health) = determine_status (running_pods (group ''tmm'') \<noteq> []) (running_pods (group ''flo'') \<noteq> [])
            (f5_crds \<noteq> []) containers ns (running_pods (group ''controller'') \<noteq> []) (cne \<noteq> None)
      in \<lparr>bi_status = st, bi_health = health, bi_install_shape = detect_install_shape cls, bi_namespaces = ns,
          bi_crd_total = length f5_crds, bi_crd_groups = sort (remdups f5_crds),
          bi_flo_version = extract_flo_version (group ''flo''), bi_flo = component_of (group ''flo''),
          bi_helm_release = find_flo_helm_release releases,
          bi_tmm = component_of (group ''tmm''), bi_tmm_containers = containers,
          bi_tmm_version = extract_image_version (group ''tmm'') ''tmm'',
          bi_controller = component_of (group ''controller''),
          bi_controller_version = extract_image_version (group ''controller'') ''f5ingress'',
          bi_analyzer = component_of (group ''analyzer''),
          bi_crd_installer_completed = list_ex pod_is_completed (group ''crd_installer''),
          bi_crd_installer_pods = length (group ''crd_installer''),
          bi_cne_instance = cne, bi_vlans = parse_vlans vlans\<rparr>)"

section \<open>Discovery loses no pod\<close>

lemma match_label_roles: "match_label_hints labels = Some r \<Longrightarrow> r \<in> {''tmm'', ''flo'', ''controller'', ''ipam'', ''crd_installer''}"
  by (auto simp: match_label_hints_def LABEL_HINTS_def split: if_splits)

lemma match_container_roles: "match_container_hints cs = Some r \<Longrightarrow> r \<in> {''tmm'', ''flo'', ''controller''}"
proof (induction cs)
  case (Cons c cs)
  then show ?case
    by (auto simp: CONTAINER_NAME_HINTS_def CONTAINER_IMAGE_HINTS_def split: if_splits option.splits)
qed simp

lemma sweep_label_matches:
  assumes "role \<in> set SWEEP_LABEL_ROLES" and "label_hit labels (dict_get_or LABEL_HINTS role [])"
  shows "match_label_hints labels \<noteq> None"
proof -
  have "(role, dict_get_or LABEL_HINTS role []) \<in> set LABEL_HINTS"
    using assms(1) by (auto simp: SWEEP_LABEL_ROLES_def LABEL_HINTS_def dict_get_or_def)
  then have "find (\<lambda>(role, pairs). label_hit labels pairs) LABEL_HINTS \<noteq> None"
    using assms(2) unfolding find_None_iff by blast
  then show ?thesis by (simp add: match_label_hints_def)
qed

lemma prefixes_split: "set ALL_F5_PREFIXES = set TENANT_PREFIXES \<union> set UTILS_PREFIXES"
  by (simp add: ALL_F5_PREFIXES_def TENANT_PREFIXES_def UTILS_PREFIXES_def insert_commute)

lemma bnk_pod_has_bucket:
  assumes "is_bnk_pod p"
  shows "bucket_of p \<noteq> None"
proof (cases "match_label_hints (p_labels p)")
  case (Some r)
  from match_label_roles [OF this] Some show ?thesis by (auto simp: bucket_of_def TENANT_ROLES_def)
next
  case None
  note no_label = this
  show ?thesis
  proof (cases "match_container_hints (p_containers p)")
    case (Some r)
    from match_container_roles [OF this] Some no_label show ?thesis by (auto simp: bucket_of_def TENANT_ROLES_def)
  next
    case None
    have "list_ex (\<lambda>pre. starts_with pre (p_name p)) ALL_F5_PREFIXES"
      using assms sweep_label_matches [of _ "p_labels p"] no_label unfolding is_bnk_pod_def list_ex_iff by blast
    then have "list_ex (\<lambda>pre. starts_with pre (p_name p)) TENANT_PREFIXES \<or> list_ex (\<lambda>pre. starts_with pre (p_name p)) UTILS_PREFIXES"
      using prefixes_split by (auto simp: list_ex_iff)
    then show ?thesis using no_label None by (auto simp: bucket_of_def)
  qed
qed

lemma merge_sweep_keys: "pod_key ` set (merge_sweep all ps) = pod_key ` (set all \<union> set ps)"
proof (induction all ps rule: merge_sweep.induct)
  case (2 all p ps)
  then show ?case by (cases "pod_key p \<in> pod_key ` set all") auto
qed simp

lemma merge_sweep_mem: "set (merge_sweep all ps) \<subseteq> set all \<union> set ps"
  by (induction all ps rule: merge_sweep.induct) (auto split: if_splits)

lemma merge_sweep_distinct: "distinct (map pod_key all) \<Longrightarrow> distinct (map pod_key (merge_sweep all ps))"
  by (induction all ps rule: merge_sweep.induct) auto

lemma distinct_fast_path: "distinct (fast_path_ns extra)"
  by (simp add: fast_path_ns_def)

lemma distinct_phase1:
  assumes "\<And>ns. distinct (map p_name (fetch ns))" and "\<And>ns p. p \<in> set (fetch ns) \<Longrightarrow> p_namespace p = ns"
  shows "distinct (map pod_key (phase1_pods fetch extra))"
proof -
  have "distinct (map pod_key (concat (map fetch nss)))" if "distinct nss" for nss
    using that
  proof (induction nss)
    case (Cons ns nss)
    have "distinct (map pod_key (fetch ns))"
      using assms(1) [of ns] by (auto simp: distinct_map inj_on_def pod_key_def)
    moreover have "pod_key ` set (fetch ns) \<inter> pod_key ` (\<Union>x \<in> set nss. set (fetch x)) = {}"
      using Cons.prems assms(2) by (auto simp: pod_key_def)
    ultimately show ?case using Cons by (simp add: image_Union)
  qed simp
  then show ?thesis using distinct_fast_path by (simp add: phase1_pods_def distinct_map_filter)
qed

text \<open>
  C21. Discovery loses no pod and counts none twice. What it returns, over both groups, are by
  namespace and name exactly the BNK pods that the namespaces of the fast path and the sweep hold.
  The groups are disjoint, and if the API lists each pod of a namespace once, no pod is
  returned twice, however often both phases see it.
\<close>

theorem discovery_partitions_pods:
  assumes "discover_f5_pods fetch cluster extra = (tenant, utils)"
    and "\<And>ns. distinct (map p_name (fetch ns))" and "\<And>ns p. p \<in> set (fetch ns) \<Longrightarrow> p_namespace p = ns"
  shows "pod_key ` (set tenant \<union> set utils) = pod_key ` {p. is_bnk_pod p \<and>
      (p_name p \<noteq> '''' \<and> (\<exists>ns \<in> set BNK_NAMESPACES \<union> set extra. p \<in> set (fetch ns)) \<or> (\<exists>ps. cluster = Some ps \<and> p \<in> set ps))} \<and>
    distinct (map pod_key (tenant @ utils))"
proof -
  define found where "found = merge_sweep (phase1_pods fetch extra) (case cluster of None \<Rightarrow> [] | Some ps \<Rightarrow> sweep_all_namespaces ps)"
  have tu: "tenant = filter (\<lambda>p. bucket_of p = Some Tenant) found" "utils = filter (\<lambda>p. bucket_of p = Some Utils) found"
    using assms(1) by (simp_all add: discover_f5_pods_def found_def Let_def)
  have "is_bnk_pod p" if "p \<in> set found" for p
    using that merge_sweep_mem [of "phase1_pods fetch extra"]
    by (fastforce simp: found_def phase1_pods_def sweep_all_namespaces_def split: option.splits)
  then have bucket: "bucket_of p = Some Tenant \<or> bucket_of p = Some Utils" if "p \<in> set found" for p
    using bnk_pod_has_bucket [of p] that by (metis bucket.exhaust option.exhaust)
  have both: "set tenant \<union> set utils = set found" using bucket by (auto simp: tu)
  have ns: "set (fast_path_ns extra) = set BNK_NAMESPACES \<union> set extra" by (auto simp: fast_path_ns_def)
  have "pod_key ` set found = pod_key ` {p. is_bnk_pod p \<and>
      (p_name p \<noteq> '''' \<and> (\<exists>ns \<in> set BNK_NAMESPACES \<union> set extra. p \<in> set (fetch ns)) \<or> (\<exists>ps. cluster = Some ps \<and> p \<in> set ps))}"
    unfolding found_def merge_sweep_keys
    by (rule arg_cong [of _ _ "(`) pod_key"]) (auto simp: phase1_pods_def ns sweep_all_namespaces_def split: option.splits)
  moreover have dist: "distinct (map pod_key found)"
    unfolding found_def by (rule merge_sweep_distinct [OF distinct_phase1 [OF assms(2,3)]])
  have "distinct (map pod_key (tenant @ utils))"
  proof -
    have "distinct (map pod_key tenant)" "distinct (map pod_key utils)" using dist by (simp_all add: tu distinct_map_filter)
    moreover have "pod_key ` set tenant \<inter> pod_key ` set utils = {}"
      using dist by (auto simp: tu distinct_map inj_on_def)
    ultimately show ?thesis by simp
  qed
  ultimately show ?thesis using both by simp
qed

section \<open>Classification is a filter\<close>

fun first_pods :: "(string \<times> string) list \<Rightarrow> pod list \<Rightarrow> pod list" where
  "first_pods seen [] = []"
| "first_pods seen (p # ps) = (if pod_key p \<in> set seen then first_pods seen ps else p # first_pods (pod_key p # seen) ps)"

lemma classify_loop_filter:
  "map_of (classify_loop seen result ps) r =
     map_option (\<lambda>found. found @ filter (\<lambda>p. classify_pod p = Some r) (first_pods seen ps)) (map_of result r)"
proof (induction seen result ps rule: classify_loop.induct)
  case (2 seen result p ps)
  show ?case
  proof (cases "pod_key p \<in> set seen")
    case True
    then show ?thesis using 2(1) by simp
  next
    case False
    show ?thesis
    proof (cases "classify_pod p")
      case None
      then show ?thesis using 2(2) False by simp
    next
      case (Some role)
      then show ?thesis using 2(2) False by (cases "map_of result role"; cases "r = role") (auto simp: fun_upd_apply)
    qed
  qed
qed (simp add: option.map_ident)

lemma classified_group:
  assumes "r \<in> {''tmm'', ''flo'', ''controller'', ''analyzer'', ''crd_installer''}"
  shows "dict_get_or (classify_f5_pods tenant utils) r [] = filter (\<lambda>p. classify_pod p = Some r) (first_pods [] (tenant @ utils))"
  using assms by (auto simp: dict_get_or_def classify_f5_pods_def classify_loop_filter)

text \<open>A scan in which both phases see the TMM pod, and the sweep also a utility pod and a foreign one.\<close>

definition demo_pod :: "string \<Rightarrow> string \<Rightarrow> pod" where
  "demo_pod ns n = \<lparr>p_name = n, p_namespace = ns, p_phase = ''Running'',
     p_containers = [\<lparr>c_name = ''main'', c_ready = True, c_image = ''repo.f5.com/images/x:v1.2.3''\<rparr>], p_labels = []\<rparr>"

theorem discovery_partitions_pods_witness:
  "\<exists>tenant utils. discover_f5_pods (\<lambda>ns. if ns = ''f5-bnk'' then [demo_pod ns ''f5-tmm-0''] else [])
     (Some [demo_pod ''f5-bnk'' ''f5-tmm-0'', demo_pod ''x'' ''f5-dssm-1'', demo_pod ''x'' ''nginx'']) [] = (tenant, utils) \<and>
   map pod_key tenant = [(''f5-bnk'', ''f5-tmm-0'')] \<and> map pod_key utils = [(''x'', ''f5-dssm-1'')] \<and> distinct (map pod_key (tenant @ utils))"
proof -
  let ?fetch = "\<lambda>ns. if ns = ''f5-bnk'' then [demo_pod ns ''f5-tmm-0''] else []"
  let ?out = "discover_f5_pods ?fetch (Some [demo_pod ''f5-bnk'' ''f5-tmm-0'', demo_pod ''x'' ''f5-dssm-1'', demo_pod ''x'' ''nginx'']) []"
  have out: "?out = (fst ?out, snd ?out)" by simp
  have "distinct (map pod_key (fst ?out @ snd ?out))"
    by (rule conjunct2 [OF discovery_partitions_pods [OF out]]) (auto simp: demo_pod_def)
  moreover have "map pod_key (fst ?out) = [(''f5-bnk'', ''f5-tmm-0'')]" "map pod_key (snd ?out) = [(''x'', ''f5-dssm-1'')]"
    by code_simp+
  ultimately show ?thesis using out by (intro exI [of _ "fst ?out"] exI [of _ "snd ?out"] conjI)
qed

section \<open>What the analysis reports\<close>

lemma component_bounds: "ci_running (component_of ps) \<le> ci_pods (component_of ps)"
  by (simp add: component_of_def running_pods_def)

lemma install_fields:
  fixes tenant utils
  defines "g \<equiv> \<lambda>r. dict_get_or (classify_f5_pods tenant utils) r []"
  shows "bi_tmm_containers (analyze_bnk_install crds tenant utils rs cnes vlans nss) = tmm_container_summary (g ''tmm'')"
    and "bi_tmm (analyze_bnk_install crds tenant utils rs cnes vlans nss) = component_of (g ''tmm'')"
    and "bi_flo (analyze_bnk_install crds tenant utils rs cnes vlans nss) = component_of (g ''flo'')"
    and "bi_install_shape (analyze_bnk_install crds tenant utils rs cnes vlans nss) = detect_install_shape (classify_f5_pods tenant utils)"
  by (simp_all add: analyze_bnk_install_def g_def Let_def split: prod.split)

lemma shape_flo_iff:
  "bi_install_shape (analyze_bnk_install crds tenant utils rs cnes vlans nss) = ''flo'' \<longleftrightarrow>
     0 < ci_pods (bi_flo (analyze_bnk_install crds tenant utils rs cnes vlans nss))"
  by (simp add: install_fields detect_install_shape_def component_of_def)

text \<open>The summary has an entry for neither of the two names that a reader might expect.\<close>

lemma container_summary_keys:
  "tmm_container_summary ps = Some d \<Longrightarrow> map_of d ''total'' = None \<and> map_of d ''ready'' = None"
  by (auto simp: tmm_container_summary_def Let_def split: list.splits)

end
