(* ===== verification/Bnk_Plan.thy ===== *)
theory Bnk_Plan
  imports Bnk_Scan
begin

text \<open>
  Upgrade plans: the version helpers of \<^verbatim>\<open>src/backend/services/bnk_upgrade_service.py\<close>, and the checks and
  the plan of \<^verbatim>\<open>src/backend/services/bnk_upgrade_plan_service.py\<close>. The arrows and dashes of messages are
  written in ASCII. A scan has every key that the code reads with a default, so no default of those
  reads is ever used.
\<close>

section \<open>Versions\<close>

type_synonym version = "int list"

text \<open>\<^verbatim>\<open>re.split(r"[-.]", v)\<close> and the leading integers of the parts.\<close>

fun split_at :: "(char \<Rightarrow> bool) \<Rightarrow> string \<Rightarrow> string list" where
  "split_at P [] = [[]]"
| "split_at P (c # cs) =
     (if P c then [] # split_at P cs else (case split_at P cs of [] \<Rightarrow> [[c]] | p # ps \<Rightarrow> (c # p) # ps))"

fun leading_ints :: "string list \<Rightarrow> int list" where
  "leading_ints [] = []"
| "leading_ints (p # ps) = (case int_of_str p of None \<Rightarrow> [] | Some i \<Rightarrow> i # leading_ints ps)"

definition parse_version :: "string \<Rightarrow> version" where
  "parse_version v =
     (let parts = split_at (\<lambda>c. c = CHR ''-'' \<or> c = CHR ''.'') (lstrip_by (\<lambda>c. c = CHR ''v'') v);
          result = leading_ints parts
      in if result = [] then [0] else result)"

definition version_gt :: "string \<Rightarrow> string \<Rightarrow> bool" where
  "version_gt a b \<longleftrightarrow> parse_version b < parse_version a"

definition version_eq :: "string \<Rightarrow> string \<Rightarrow> bool" where
  "version_eq a b \<longleftrightarrow> parse_version a = parse_version b"

record version_range =
  min_version :: version
  max_version :: version
  vr_label :: string
  min_k8s :: string
  max_k8s :: string

definition VERSION_RANGES :: "version_range list" where
  "VERSION_RANGES = [
     \<lparr>min_version = parse_version ''2.20.0'', max_version = parse_version ''3.0.0'', vr_label = ''BNK 2.3 GA'', min_k8s = ''1.30'', max_k8s = ''1.33''\<rparr>,
     \<lparr>min_version = parse_version ''2.0.0'', max_version = parse_version ''2.20.0'', vr_label = ''BNK 2.2 GA'', min_k8s = ''1.30'', max_k8s = ''1.33''\<rparr>,
     \<lparr>min_version = parse_version ''v1.198.0'', max_version = parse_version ''v1.199.0'', vr_label = ''BNK 2.1 GA'', min_k8s = ''1.26'', max_k8s = ''1.29''\<rparr>,
     \<lparr>min_version = parse_version ''v1.0.0'', max_version = parse_version ''v1.198.0'', vr_label = ''BNK 2.0'', min_k8s = ''1.25'', max_k8s = ''1.28''\<rparr>]"

definition in_range :: "version \<Rightarrow> version_range \<Rightarrow> bool" where
  "in_range v r \<longleftrightarrow> min_version r \<le> v \<and> v < max_version r"

definition get_known_version_info :: "string \<Rightarrow> version_range option" where
  "get_known_version_info v = find (in_range (parse_version v)) VERSION_RANGES"

text \<open>\<^verbatim>\<open>-(\d+\.\d+\.\d+(?:-[\d.]+)?)$\<close>\<close>

definition digits :: "string \<Rightarrow> bool" where
  "digits s \<longleftrightarrow> s \<noteq> '''' \<and> list_all is_digit s"

definition chart_version :: "string \<Rightarrow> string option" where
  "chart_version s =
     (case s of
        c # rest \<Rightarrow>
          if c = CHR ''-'' \<and>
             (case str_split (CHR ''-'') rest of
                a # tail \<Rightarrow> (case str_split (CHR ''.'') a of [x, y, z] \<Rightarrow> digits x \<and> digits y \<and> digits z | _ \<Rightarrow> False) \<and>
                  (case tail of [] \<Rightarrow> True
                   | [b] \<Rightarrow> b \<noteq> '''' \<and> list_all (\<lambda>x. is_digit x \<or> x = CHR ''.'') b
                   | _ \<Rightarrow> False)
              | [] \<Rightarrow> False)
          then Some rest else None
      | [] \<Rightarrow> None)"

definition truthy_str :: "string option \<Rightarrow> bool" where
  "truthy_str x \<longleftrightarrow> x \<noteq> None \<and> x \<noteq> Some ''''"

definition detect_current_bnk_version :: "bnk_install \<Rightarrow> string option" where
  "detect_current_bnk_version bi =
     (if truthy_str (bi_flo_version bi) then bi_flo_version bi
      else search_from chart_version (case Option.bind (bi_helm_release bi) hr_chart of None \<Rightarrow> '''' | Some c \<Rightarrow> c))"

record version_entry =
  ve_version :: string
  ve_label :: string
  ve_min_k8s :: "string option"
  ve_max_k8s :: "string option"
  ve_source :: string

definition fallback_entry :: "version_range \<Rightarrow> version_entry list" where
  "fallback_entry r =
     (let entry = (\<lambda>tag. [\<lparr>ve_version = tag, ve_label = vr_label r, ve_min_k8s = Some (min_k8s r), ve_max_k8s = Some (max_k8s r),
            ve_source = ''known''\<rparr>])
      in case min_version r of
           a # b # c # _ \<Rightarrow> entry (''v'' @ str_of_int a @ ''.'' @ str_of_int b @ ''.'' @ str_of_int c)
         | [a, b] \<Rightarrow> entry (''v'' @ str_of_int a @ ''.'' @ str_of_int b @ ''.0'')
         | _ \<Rightarrow> [])"

definition get_fallback_versions :: "version_entry list" where
  "get_fallback_versions = concat (map fallback_entry VERSION_RANGES)"

text \<open>
  The tags of the registry: those that look like a version, newest first (the sort is stable, and
  reversing keeps the order of equal tags), with the label of the release registry if it knows one.
\<close>

definition version_like :: "string \<Rightarrow> bool" where
  "version_like t \<longleftrightarrow> (let s = drop_v t; ds = takeWhile is_digit s in ds \<noteq> '''' \<and> starts_with ''.'' (drop (length ds) s))"

definition tag_entry :: "(string \<Rightarrow> version_range option) \<Rightarrow> string \<Rightarrow> version_entry" where
  "tag_entry resolve_ga tag =
     (case (case resolve_ga tag of Some r \<Rightarrow> Some r | None \<Rightarrow> get_known_version_info tag) of
        Some r \<Rightarrow> \<lparr>ve_version = tag, ve_label = vr_label r, ve_min_k8s = Some (min_k8s r), ve_max_k8s = Some (max_k8s r), ve_source = ''registry''\<rparr>
      | None \<Rightarrow> \<lparr>ve_version = tag, ve_label = tag, ve_min_k8s = None, ve_max_k8s = None, ve_source = ''registry''\<rparr>)"

definition sorted_tags :: "string list \<Rightarrow> string list" where
  "sorted_tags tags = rev (sort_key parse_version (rev (filter version_like tags)))"

text \<open>An answer of the registry is \<open>None\<close> on every failure: no credentials, a bad status, an exception.\<close>

definition fetch_oci_versions :: "(string \<Rightarrow> version_range option) \<Rightarrow> string list option \<Rightarrow> version_entry list" where
  "fetch_oci_versions resolve_ga tags = (case tags of None \<Rightarrow> [] | Some ts \<Rightarrow> map (tag_entry resolve_ga) (sorted_tags ts))"

definition get_available_versions ::
  "(string \<Rightarrow> version_range option) \<Rightarrow> string list option \<Rightarrow> int option \<Rightarrow> version_entry list \<times> string option" where
  "get_available_versions resolve_ga tags cluster_id =
     (if cluster_id = None then ([], Some ''No cluster specified - cannot query OCI registry'')
      else let versions = fetch_oci_versions resolve_ga tags
           in if versions \<noteq> [] then (versions, None)
              else if get_fallback_versions \<noteq> []
              then (get_fallback_versions, Some (''OCI registry unavailable - showing known BNK versions. '' @
                     ''Configure cne_pull_secret for exact chart versions.''))
              else ([], Some ''No versions available - OCI registry unreachable and no known versions defined''))"

section \<open>Checks before an upgrade\<close>

record pre_check =
  ck_name :: string
  ck_label :: string
  ck_status :: string
  ck_detail :: string
  ck_critical :: bool

definition check :: "string \<Rightarrow> string \<Rightarrow> string \<Rightarrow> string \<Rightarrow> bool \<Rightarrow> pre_check" where
  "check n l st d crit = \<lparr>ck_name = n, ck_label = l, ck_status = st, ck_detail = d, ck_critical = crit\<rparr>"

definition pass_or :: "string \<Rightarrow> bool \<Rightarrow> string" where
  "pass_or bad ok = (if ok then ''pass'' else bad)"

definition opt_str :: "string option \<Rightarrow> string \<Rightarrow> string" where
  "opt_str x d = (if truthy_str x then the x else d)"

definition version_check :: "string option \<Rightarrow> string \<Rightarrow> pre_check list" where
  "version_check current target =
     (if \<not> truthy_str current \<or> target = '''' then []
      else let cur = the current
           in [if version_eq target cur
               then check ''version_change'' ''Version Change'' ''fail''
                 (''Target version ('' @ target @ '') is the same as current ('' @ cur @ '')'') True
               else if \<not> version_gt target cur
               then check ''version_change'' ''Version Change (Downgrade)'' ''warn''
                 (''Target version ('' @ target @ '') is older than current ('' @ cur @ ''). This is a downgrade.'') False
               else check ''version_change'' ''Version Change'' ''pass'' (''Upgrade: '' @ cur @ '' -> '' @ target) True])"

definition pods_check :: "string \<Rightarrow> string \<Rightarrow> string \<Rightarrow> component_info \<Rightarrow> pre_check" where
  "pods_check n l what ci = check n l (pass_or ''warn'' (ci_running ci = ci_pods ci \<and> 0 < ci_pods ci))
     (what @ '' pods: '' @ str_of_nat (ci_running ci) @ ''/'' @ str_of_nat (ci_pods ci) @ '' running'') False"

text \<open>\<^verbatim>\<open>re.match(r"v?(\d+\.\d+)", s)\<close>\<close>

definition k8s_version :: "string \<Rightarrow> string option" where
  "k8s_version s =
     (let t = drop_v s; a = takeWhile is_digit t; u = drop (length a) t; b = takeWhile is_digit (drop 1 u)
      in if a \<noteq> '''' \<and> starts_with ''.'' u \<and> b \<noteq> '''' then Some (a @ ''.'' @ b) else None)"

definition k8s_check :: "string \<Rightarrow> string \<Rightarrow> pre_check list" where
  "k8s_check cluster_version target =
     (case (get_known_version_info target, if cluster_version = '''' then None else k8s_version cluster_version) of
        (Some r, Some k) \<Rightarrow>
          [if parse_version k < parse_version (min_k8s r)
           then check ''k8s_compat'' ''Kubernetes Compatibility'' ''fail''
             (''K8s '' @ k @ '' is older than the minimum supported version ('' @ min_k8s r @ '') for target BNK version'') True
           else if parse_version (max_k8s r) < parse_version k
           then check ''k8s_compat'' ''Kubernetes Compatibility'' ''warn''
             (''K8s '' @ k @ '' is newer than the validated range ('' @ min_k8s r @ ''-'' @ max_k8s r @ '') - likely compatible but not explicitly tested'') False
           else check ''k8s_compat'' ''Kubernetes Compatibility'' ''pass''
             (''K8s '' @ k @ '' is compatible with target BNK version (requires '' @ min_k8s r @ ''-'' @ max_k8s r @ '')'') True]
      | _ \<Rightarrow> [])"

definition run_pre_checks :: "bnk_install \<Rightarrow> string \<Rightarrow> string option \<Rightarrow> string \<Rightarrow> pre_check list" where
  "run_pre_checks bi cluster_version current target =
     (let programmed = list_all vl_programmed (bi_vlans bi)
      in [check ''bnk_installed'' ''BNK Installation'' (pass_or ''fail'' (bi_status bi = ''installed''))
            (if bi_status bi \<noteq> ''installed'' then ''BNK is '' @ bi_status bi
             else ''BNK is installed (version '' @ opt_str current ''unknown'' @ '')'') True,
          check ''version_detected'' ''Current Version Detection'' (pass_or ''fail'' (truthy_str current))
            (if truthy_str current then ''Current version: '' @ the current
             else ''Cannot detect current BNK version - checked FLO pods and Helm release chart'') True] @
         version_check current target @
         [if bi_install_shape bi = ''helm''
          then check ''flo_health'' ''FLO Health'' ''pass''
            ''FLO not used on a helm/manual install (install shape: helm) - check skipped'' False
          else pods_check ''flo_health'' ''FLO Health'' ''FLO'' (bi_flo bi),
          pods_check ''tmm_health'' ''TMM Health'' ''TMM'' (bi_tmm bi),
          check ''vlans_programmed'' ''VLAN Status'' (pass_or ''warn'' programmed)
            (if programmed then ''All '' @ str_of_nat (length (bi_vlans bi)) @ '' VLANs programmed''
             else ''Some VLANs not programmed - upgrade may cause transient connectivity loss'') False] @
         k8s_check cluster_version target @
         [check ''helm_release'' ''Helm Release'' (pass_or ''warn'' (bi_helm_release bi \<noteq> None))
            (case bi_helm_release bi of
               Some r \<Rightarrow> ''Helm release '' @ quoted (case hr_name r of None \<Rightarrow> ''flo'' | Some n \<Rightarrow> n) @ '' found (revision available for rollback)''
             | None \<Rightarrow> if bi_install_shape bi = ''flo'' then ''No Helm release found - FLO may have been installed outside BNK-Forge''
                       else ''No Helm release discovered for this install - rollback via Helm may not be available'') False])"

definition critical_failures :: "pre_check list \<Rightarrow> pre_check list" where
  "critical_failures cs = filter (\<lambda>c. ck_status c = ''fail'' \<and> ck_critical c) cs"

section \<open>The plan\<close>

definition STEP_HELM_UPGRADE :: string where "STEP_HELM_UPGRADE = ''helm_upgrade''"

definition STEP_MANIFEST_APPLY :: string where "STEP_MANIFEST_APPLY = ''manifest_apply''"

definition STEP_HEALTH_GATE :: string where "STEP_HEALTH_GATE = ''health_gate''"

definition STEP_CRD_WAIT :: string where "STEP_CRD_WAIT = ''crd_wait''"

record plan_step =
  ps_step :: nat
  ps_action :: string
  ps_label :: string
  ps_module :: "string option"
  ps_phase :: string
  ps_checks :: "string list"
  ps_timeout :: nat
  ps_release_name :: "string option"
  ps_namespace :: "string option"
  ps_chart :: "string option"
  ps_version :: "string option"
  ps_detail :: "string option"

definition step :: "string \<Rightarrow> string \<Rightarrow> string option \<Rightarrow> string \<Rightarrow> string list \<Rightarrow> nat \<Rightarrow> plan_step" where
  "step action label md phase checks timeout =
     \<lparr>ps_step = 0, ps_action = action, ps_label = label, ps_module = md, ps_phase = phase, ps_checks = checks, ps_timeout = timeout,
      ps_release_name = None, ps_namespace = None, ps_chart = None, ps_version = None, ps_detail = None\<rparr>"

definition flo_chart :: "bnk_install \<Rightarrow> string option" where
  "flo_chart bi =
     (let chart = Option.bind (bi_helm_release bi) hr_chart
      in if truthy_str chart then chart
         else if bi_install_shape bi = ''flo''
         then Some (''oci://repo.f5.com/charts/'' @ opt_str (Option.bind (bi_helm_release bi) hr_name) ''f5-lifecycle-operator'')
         else chart)"

definition flo_namespace :: "bnk_install \<Rightarrow> string option" where
  "flo_namespace bi =
     (let ns = Option.bind (bi_helm_release bi) hr_namespace
      in if truthy_str ns then ns else if bi_install_shape bi = ''flo'' then Some ''f5-cne-core'' else ns)"

definition fallback_note :: "string \<Rightarrow> string option \<Rightarrow> string" where
  "fallback_note what v = (if truthy_str v then what @ '' (using fallback: '' @ the v @ '')'' else what @ '' (no fallback available)'')"

definition warn_steps :: "bnk_install \<Rightarrow> plan_step list" where
  "warn_steps bi =
     (let no_chart = \<not> truthy_str (Option.bind (bi_helm_release bi) hr_chart);
          no_ns = \<not> truthy_str (Option.bind (bi_helm_release bi) hr_namespace);
          missing = (if no_chart then [fallback_note ''chart'' (flo_chart bi)] else []) @
                    (if no_ns then [fallback_note ''namespace'' (flo_namespace bi)] else [])
      in if \<not> no_chart \<and> \<not> no_ns then []
         else [(step ''warn'' ''Helm release reference could not be fully read'' None ''pre_upgrade'' [] 0)
                 \<lparr>ps_detail := Some (''The installed Helm release secret could not be fully decoded (missing: '' @ str_join '', '' missing @ ''). '' @
                   (if bi_install_shape bi = ''flo''
                    then ''The plan uses a best-effort fallback. If this cluster uses an airgapped registry, '' @
                         ''override the chart reference before executing.''
                    else ''This install shape has no well-known chart to fall back to - '' @
                         ''confirm the chart/namespace before executing this step.''))\<rparr>])"

definition helm_step :: "bnk_install \<Rightarrow> string \<Rightarrow> plan_step" where
  "helm_step bi target =
     (let rn = Option.bind (bi_helm_release bi) hr_name
      in (step STEP_HELM_UPGRADE (''Upgrade '' @ (if bi_install_shape bi = ''flo'' then ''FLO'' else opt_str rn ''BNK release'') @ '' to '' @ target)
            (Some ''bnk/flo'') ''flo_upgrade'' [] 600)
           \<lparr>ps_release_name := Some (opt_str rn ''flo''), ps_namespace := flo_namespace bi, ps_chart := flo_chart bi, ps_version := Some target\<rparr>)"

text \<open>The steps in order; the counter of the code numbers them from one.\<close>

definition unnumbered_plan :: "bnk_install \<Rightarrow> string \<Rightarrow> plan_step list" where
  "unnumbered_plan bi target =
     [step STEP_HEALTH_GATE ''Capture pre-upgrade health snapshot'' None ''pre_upgrade'' [] 30] @
     warn_steps bi @
     [helm_step bi target,
      step STEP_CRD_WAIT ''Wait for CRD installer to complete'' None ''crd_migration'' [] 120,
      step STEP_HEALTH_GATE ''Verify FLO pods healthy'' None ''flo_health'' [''flo_pods_ready'', ''controller_pods_ready''] 120] @
     (if truthy_str (map_option cne_name (bi_cne_instance bi))
      then [step STEP_MANIFEST_APPLY ''Re-apply CNEInstance (triggers TMM rolling restart)'' (Some ''bnk/cneinstance'') ''cneinstance_update'' [] 300]
      else []) @
     [step STEP_HEALTH_GATE ''Verify TMM pods healthy (all containers ready)'' None ''tmm_health'' [''tmm_pods_ready'', ''tmm_containers_ready''] 300] @
     (if bi_vlans bi \<noteq> []
      then [step STEP_MANIFEST_APPLY ''Re-apply VLANs (pick up CRD schema changes)'' (Some ''bnk/bnk-vlans'') ''vlans_update'' [] 120] else []) @
     [step STEP_MANIFEST_APPLY ''Re-apply GatewayClass'' (Some ''bnk/bnk-gatewayclass'') ''gatewayclass_update'' [] 60,
      step STEP_HEALTH_GATE ''Post-upgrade health verification'' None ''post_upgrade''
        [''flo_pods_ready'', ''tmm_pods_ready'', ''tmm_containers_ready'', ''vlans_programmed'', ''gatewayclass_accepted''] 120]"

definition number_steps :: "plan_step list \<Rightarrow> plan_step list" where
  "number_steps ss = map (\<lambda>(n, s). s\<lparr>ps_step := n + 1\<rparr>) (enumerate 0 ss)"

definition build_plan :: "bnk_install \<Rightarrow> string \<Rightarrow> plan_step list" where
  "build_plan bi target = number_steps (unnumbered_plan bi target)"

section \<open>Known versions\<close>

lemma ranges_descend:
  "map min_version VERSION_RANGES = [[2, 20, 0], [2, 0, 0], [1, 198, 0], [1, 0, 0]]"
  "map max_version VERSION_RANGES = [[3, 0, 0], [2, 20, 0], [1, 199, 0], [1, 198, 0]]"
  by code_simp+

lemma at_most_one:
  assumes "sorted_wrt (\<lambda>r r'. \<not> (P r \<and> P r')) rs"
  shows "length (filter P rs) \<le> 1"
  using assms
proof (induction rs)
  case (Cons r rs)
  show ?case
  proof (cases "P r")
    case True
    then have "filter P rs = []" using Cons.prems by (auto simp: filter_empty_conv)
    then show ?thesis using True by simp
  qed (use Cons in simp)
qed simp

text \<open>
  The table of known versions is consistent with itself: every version lies in at most one range,
  so the order of the table does not matter, and the tag that the fallback list shows for a range is a
  version that is recognised as exactly that range.
\<close>

theorem known_versions_roundtrip:
  "length (filter (in_range v) VERSION_RANGES) \<le> 1 \<and>
   map (\<lambda>e. get_known_version_info (ve_version e)) get_fallback_versions = map Some VERSION_RANGES"
proof
  obtain a b c d where r: "VERSION_RANGES = [a, b, c, d]" by (simp add: VERSION_RANGES_def)
  have m: "min_version a = [2, 20, 0]" "min_version b = [2, 0, 0]" "min_version c = [1, 198, 0]"
    "max_version b = [2, 20, 0]" "max_version c = [1, 199, 0]" "max_version d = [1, 198, 0]"
    using ranges_descend unfolding r by simp_all
  have lt: "([1, 198, 0] :: int list) \<le> [1, 199, 0]" "([1, 199, 0] :: int list) \<le> [2, 0, 0]" "([2, 0, 0] :: int list) \<le> [2, 20, 0]"
    by simp_all
  have "\<not> (in_range v a \<and> in_range v b)" "\<not> (in_range v a \<and> in_range v c)" "\<not> (in_range v a \<and> in_range v d)"
    "\<not> (in_range v b \<and> in_range v c)" "\<not> (in_range v b \<and> in_range v d)" "\<not> (in_range v c \<and> in_range v d)"
    using lt unfolding in_range_def m by (meson leD order_trans le_less_trans)+
  then show "length (filter (in_range v) VERSION_RANGES) \<le> 1" by (intro at_most_one) (simp add: r)
  show "map (\<lambda>e. get_known_version_info (ve_version e)) get_fallback_versions = map Some VERSION_RANGES" by code_simp
qed

text \<open>The version that the documentation of the lookup gives as an example of BNK 2.2 is in no range.\<close>

lemma documented_example_unknown: "get_known_version_info ''v1.199.0-0.1.0'' = None"
  by code_simp

section \<open>The shape of a plan\<close>

lemma number_steps_nth: "map ps_step (number_steps ss) = [1..<Suc (length ss)]"
proof -
  have "map ps_step (number_steps ss) = map Suc (map fst (enumerate 0 ss))"
    unfolding number_steps_def map_map by (rule map_cong [OF refl]) auto
  then show ?thesis by (simp add: map_Suc_upt)
qed

lemma number_steps_keeps:
  assumes "\<And>s n. f (s\<lparr>ps_step := n\<rparr>) = f s"
  shows "map f (number_steps ss) = map f ss"
proof -
  have "map f (number_steps ss) = map f (map snd (enumerate 0 ss))"
    unfolding number_steps_def map_map by (rule map_cong [OF refl]) (auto simp: assms)
  then show ?thesis by simp
qed

lemma warn_steps_short: "length (warn_steps bi) \<le> 1" and warn_steps_action: "map ps_action (warn_steps bi) = (if warn_steps bi = [] then [] else [''warn''])"
  by (simp_all add: warn_steps_def Let_def step_def)

lemma plan_actions:
  "map ps_action (build_plan bi target) =
     [STEP_HEALTH_GATE] @ (if warn_steps bi = [] then [] else [''warn'']) @ [STEP_HELM_UPGRADE, STEP_CRD_WAIT, STEP_HEALTH_GATE] @
     (if truthy_str (map_option cne_name (bi_cne_instance bi)) then [STEP_MANIFEST_APPLY] else []) @ [STEP_HEALTH_GATE] @
     (if bi_vlans bi \<noteq> [] then [STEP_MANIFEST_APPLY] else []) @ [STEP_MANIFEST_APPLY, STEP_HEALTH_GATE]"
proof -
  have "map ps_action (build_plan bi target) = map ps_action (unnumbered_plan bi target)"
    unfolding build_plan_def by (rule number_steps_keeps) simp
  then show ?thesis by (simp add: unnumbered_plan_def warn_steps_action helm_step_def Let_def step_def)
qed

lemma flo_references:
  "bi_install_shape bi = ''flo'' \<Longrightarrow> truthy_str (flo_chart bi) \<and> truthy_str (flo_namespace bi)"
  by (auto simp: flo_chart_def flo_namespace_def truthy_str_def Let_def)

text \<open>
  C22. Every plan has the same shape. Its steps are numbered one, two and so on; there are seven to ten of
  them; there is exactly one Helm upgrade, to the target version, with only the health snapshot and a
  warning before it and every manifest behind it; the last step verifies the health. For an
  installation that FLO manages the Helm step always names a chart and a namespace, whatever the scan
  could read of the release.
\<close>

theorem plan_wellformed:
  "map ps_step (build_plan bi target) = [1..<Suc (length (build_plan bi target))] \<and>
   7 \<le> length (build_plan bi target) \<and> length (build_plan bi target) \<le> 10 \<and>
   (\<exists>before h after. build_plan bi target = before @ h # after \<and>
      ps_action h = STEP_HELM_UPGRADE \<and> ps_version h = Some target \<and>
      set (map ps_action before) \<subseteq> {STEP_HEALTH_GATE, ''warn''} \<and>
      set (map ps_action after) \<subseteq> {STEP_CRD_WAIT, STEP_HEALTH_GATE, STEP_MANIFEST_APPLY} \<and>
      ps_phase (last after) = ''post_upgrade'' \<and>
      (bi_install_shape bi = ''flo'' \<longrightarrow> truthy_str (ps_chart h) \<and> truthy_str (ps_namespace h)))"
proof -
  have len: "length (build_plan bi target) = length (unnumbered_plan bi target)"
    by (simp add: build_plan_def number_steps_def)
  have nums: "map ps_step (build_plan bi target) = [1..<Suc (length (build_plan bi target))]"
    using number_steps_nth [of "unnumbered_plan bi target"] len by (simp add: build_plan_def)
  have size: "7 \<le> length (build_plan bi target)" "length (build_plan bi target) \<le> 10"
    using warn_steps_short [of bi] unfolding len by (simp_all add: unnumbered_plan_def)
  define k where "k = Suc (length (warn_steps bi))"
  let ?p = "build_plan bi target"
  let ?u = "unnumbered_plan bi target"
  have k: "k < length ?p" using warn_steps_short [of bi] size(1) by (simp add: k_def)
  have nth: "f (?p ! i) = f (?u ! i)" if "i < length ?p" "\<And>s n. f (s\<lparr>ps_step := n\<rparr>) = f s" for i and f :: "plan_step \<Rightarrow> 'a"
  proof -
    have "map f ?p = map f ?u" unfolding build_plan_def by (rule number_steps_keeps [OF that(2)])
    from arg_cong [OF this, of "\<lambda>xs. xs ! i"] show ?thesis using that(1) len by simp
  qed
  have uk: "?u ! k = helm_step bi target" by (simp add: unnumbered_plan_def k_def nth_append)
  have split: "?p = take k ?p @ ?p ! k # drop (Suc k) ?p" using k by (rule id_take_nth_drop)
  have acts: "map ps_action ?p = map ps_action ?u" unfolding build_plan_def by (rule number_steps_keeps) simp
  have "set (map ps_action (take k ?p)) \<subseteq> {STEP_HEALTH_GATE, ''warn''}"
    unfolding take_map [symmetric] acts by (auto simp: unnumbered_plan_def k_def take_map warn_steps_def step_def Let_def split: if_splits)
  moreover have "set (map ps_action (drop (Suc k) ?p)) \<subseteq> {STEP_CRD_WAIT, STEP_HEALTH_GATE, STEP_MANIFEST_APPLY}"
    unfolding drop_map [symmetric] acts by (auto simp: unnumbered_plan_def k_def drop_map step_def)
  moreover have "ps_phase (last (drop (Suc k) ?p)) = ''post_upgrade''"
  proof -
    have "Suc k < length ?p" using warn_steps_short [of bi] size(1) by (simp add: k_def)
    then have "last (drop (Suc k) ?p) = last ?p" by (simp add: last_drop)
    also have "ps_phase \<dots> = ps_phase (last ?u)"
    proof -
      have "?p \<noteq> []" "?u \<noteq> []" using size(1) len by auto
      moreover have "map ps_phase ?p = map ps_phase ?u" unfolding build_plan_def by (rule number_steps_keeps) simp
      ultimately show ?thesis by (metis last_map)
    qed
    finally show ?thesis by (simp add: unnumbered_plan_def step_def)
  qed
  moreover have "ps_action (?p ! k) = STEP_HELM_UPGRADE" "ps_version (?p ! k) = Some target"
    "ps_chart (?p ! k) = flo_chart bi" "ps_namespace (?p ! k) = flo_namespace bi"
    using nth [OF k, of ps_action] nth [OF k, of ps_version] nth [OF k, of ps_chart] nth [OF k, of ps_namespace]
    by (simp_all add: uk helm_step_def step_def Let_def)
  ultimately show ?thesis using nums size split flo_references [of bi] by metis
qed

text \<open>The plan for a healthy installation without a readable Helm release still names chart and namespace.\<close>

definition demo_bare :: bnk_install where
  "demo_bare = analyze_bnk_install [''k8s.f5.com''] [demo_pod ''f5-bnk'' ''flo-f5-lifecycle-operator-0''] [] [] [] [] []"

theorem plan_wellformed_witness:
  "\<exists>before h after. build_plan demo_bare ''v2.20.0'' = before @ h # after \<and> truthy_str (ps_chart h) \<and> truthy_str (ps_namespace h)"
proof -
  have "bi_install_shape demo_bare = ''flo''" by code_simp
  then show ?thesis using plan_wellformed [of demo_bare "''v2.20.0''"] by blast
qed

end
