(* ===== verification/Catalog.thy ===== *)
theory Catalog
  imports Bnk_Plan "HOL-Library.Product_Lexorder"
begin

text \<open>
  The versioned catalog of modules and blueprints: the version order of \<^verbatim>\<open>src/backend/utils/catalog_versioning.py\<close>,
  the latest flag of \<^verbatim>\<open>src/backend/services/module_version_query.py\<close>, the import of a manifest and the retirement
  of stale ones (\<^verbatim>\<open>src/backend/services/module_sync_service.py\<close>), pruning
  (\<^verbatim>\<open>src/backend/services/catalog_prune_service.py\<close>) the deletion of a version (\<^verbatim>\<open>src/backend/routes/module_library.py\<close>) and
  the re-pinning of a project module (\<^verbatim>\<open>src/backend/services/project_module_service.py\<close>).
  The content hash of a manifest is an argument. Columns that only describe a module are left out.
\<close>

section \<open>Versions\<close>

type_synonym version_key = "int list \<times> int \<times> string"

definition version_sort_key :: "string option \<Rightarrow> version_key" where
  "version_sort_key v =
     (case v of
        None \<Rightarrow> ([], 0, '''')
      | Some s \<Rightarrow>
          if s = '''' then ([], 0, '''')
          else let bare = fst (str_partition CHR ''+'' (lstrip_by (\<lambda>c. c = CHR ''v'' \<or> c = CHR ''V'') (str_strip s)));
                   (core, _, prerelease) = str_partition CHR ''-'' bare
               in (leading_ints (str_split CHR ''.'' core), if prerelease = '''' then 1 else 0, prerelease))"

section \<open>Rows\<close>

record library_row =
  lr_id :: int
  lr_source :: "int option"
  lr_path :: "string option"
  lr_source_path :: "string option"
  lr_version :: "string option"
  lr_sha :: "string option"
  lr_kind :: "string option"
  lr_engine :: "string option"
  lr_git_source :: string
  lr_manifest :: bool
  lr_official :: bool
  lr_active :: bool
  lr_latest :: bool

record release_row =
  rr_id :: int
  rr_source :: int
  rr_blueprint :: string
  rr_version :: string
  rr_active :: bool

text \<open>
  The tables: the ids of the sources, the rows, and for every project module and every stack the row it
  points at.
\<close>

record catalog =
  ct_sources :: "int list"
  ct_rows :: "library_row list"
  ct_pins :: "int list"
  ct_blueprint_sources :: "int list"
  ct_releases :: "release_row list"
  ct_stacks :: "int list"
  ct_next :: int

section \<open>The latest version\<close>

text \<open>\<^verbatim>\<open>max(rows, key=...)\<close>: the first row with the largest key.\<close>

fun max_by :: "('a \<Rightarrow> 'k::linorder) \<Rightarrow> 'a list \<Rightarrow> 'a option" where
  "max_by k [] = None"
| "max_by k (x # xs) = (case max_by k xs of None \<Rightarrow> Some x | Some y \<Rightarrow> if k x < k y then Some y else Some x)"

definition row_key :: "library_row \<Rightarrow> version_key \<times> int" where
  "row_key r = (version_sort_key (lr_version r), lr_id r)"

definition at_path :: "int option \<Rightarrow> string \<Rightarrow> library_row \<Rightarrow> bool" where
  "at_path s p r \<longleftrightarrow> lr_source r = s \<and> lr_path r = Some p"

definition latest_id :: "library_row list \<Rightarrow> int option" where
  "latest_id rows = map_option lr_id (max_by row_key (filter lr_active rows))"

definition recompute_is_latest :: "int option \<Rightarrow> string \<Rightarrow> library_row list \<Rightarrow> bool \<times> library_row list" where
  "recompute_is_latest s p rows =
     (let latest = latest_id (filter (at_path s p) rows);
          rows' = map (\<lambda>r. if at_path s p r then r\<lparr>lr_latest := (Some (lr_id r) = latest)\<rparr> else r) rows
      in (rows' \<noteq> rows, rows'))"

text \<open>The versions offered for a path: the latest first, then by descending id; empty ones are dropped.\<close>

definition available_module_versions :: "string option \<Rightarrow> int option \<Rightarrow> library_row list \<Rightarrow> string list" where
  "available_module_versions p s rows =
     (let mine = filter (\<lambda>r. lr_path r = p \<and> lr_active r \<and> (case s of None \<Rightarrow> True | Some i \<Rightarrow> lr_source r = Some i)) rows
      in concat (map (\<lambda>r. case lr_version r of None \<Rightarrow> [] | Some v \<Rightarrow> if v = '''' then [] else [v])
           (sort_key (\<lambda>r. (if lr_latest r then 0 else 1 :: int, - lr_id r)) mine)))"

section \<open>Import\<close>

datatype outcome = Created | Updated | Unchanged | Conflict | Skipped

datatype catalog_error = NotFound int | StillReferenced int | IntegrityErr | Forbidden int | EmptyVersion | VersionNotFound "string list"

text \<open>A normalised manifest: its path is the path of its directory.\<close>

record pack =
  pk_version :: "string option"
  pk_kind :: "string option"
  pk_engine :: "string option"
  pk_sha :: string

definition import_candidate :: "int \<Rightarrow> string \<Rightarrow> string option \<Rightarrow> library_row list \<Rightarrow> library_row option" where
  "import_candidate s p v rows =
     (let mine = (\<lambda>r. lr_source r = Some s);
          legacy = (\<lambda>r. lr_sha r = None \<and> (v \<noteq> None \<and> lr_version r = v \<or> lr_version r = None))
      in case find (\<lambda>r. mine r \<and> lr_source_path r = Some p \<and> lr_version r = v) rows of
           Some r \<Rightarrow> Some r
         | None \<Rightarrow> (case find (\<lambda>r. mine r \<and> lr_source_path r = Some p \<and> legacy r) rows of
               Some r \<Rightarrow> Some r
             | None \<Rightarrow> find (\<lambda>r. mine r \<and> lr_path r = Some p \<and> legacy r) rows))"

definition some_or :: "string option \<Rightarrow> string option \<Rightarrow> string option" where
  "some_or a b = (if truthy_str a then a else b)"

text \<open>The constraint on source, path and version; null values never collide.\<close>

definition version_taken :: "int \<Rightarrow> string \<Rightarrow> string option \<Rightarrow> library_row list \<Rightarrow> bool" where
  "version_taken s p v rows \<longleftrightarrow> v \<noteq> None \<and> list_ex (\<lambda>r. lr_source r = Some s \<and> lr_path r = Some p \<and> lr_version r = v) rows"

definition set_lib_row :: "library_row \<Rightarrow> library_row list \<Rightarrow> library_row list" where
  "set_lib_row u rows = map (\<lambda>r. if lr_id r = lr_id u then u else r) rows"

definition row_path :: "library_row \<Rightarrow> string \<Rightarrow> string" where
  "row_path r p = opt_str (lr_path r) p"

definition import_pack_module ::
  "int \<Rightarrow> string \<Rightarrow> pack \<Rightarrow> string \<Rightarrow> catalog \<Rightarrow> (catalog_error + outcome) \<times> catalog" where
  "import_pack_module s p pk url db =
     (let rows = ct_rows db
      in case import_candidate s p (pk_version pk) rows of
           Some r \<Rightarrow>
             if lr_kind r = Some ''builtin'' \<and> lr_engine r = Some ''ssh'' then (Inr Skipped, db)
             else (case lr_sha r of
                 Some h \<Rightarrow>
                   let rows1 = (if lr_active r then rows
                                else snd (recompute_is_latest (Some s) (row_path r p) (set_lib_row (r\<lparr>lr_active := True\<rparr>) rows)))
                   in (Inr (if h = pk_sha pk then Unchanged else Conflict), db\<lparr>ct_rows := rows1\<rparr>)
               | None \<Rightarrow>
                   let r1 = r\<lparr>lr_path := some_or (Some p) (lr_path r), lr_version := some_or (pk_version pk) (lr_version r),
                              lr_kind := some_or (pk_kind pk) (Some ''git_catalog''), lr_engine := some_or (pk_engine pk) (lr_engine r),
                              lr_manifest := True, lr_source := Some s, lr_source_path := Some p, lr_git_source := url, lr_official := False,
                              lr_active := True, lr_sha := Some (pk_sha pk)\<rparr>
                   in if version_taken s (row_path r1 p) (lr_version r1) (filter (\<lambda>x. lr_id x \<noteq> lr_id r) rows) then (Inl IntegrityErr, db)
                      else (Inr Updated, db\<lparr>ct_rows := snd (recompute_is_latest (Some s) (row_path r1 p) (set_lib_row r1 rows))\<rparr>))
         | None \<Rightarrow>
             if list_ex (\<lambda>r. lr_path r = Some p \<and> lr_engine r = Some ''ssh'' \<and> starts_with ''builtin://'' (lr_git_source r)) rows
             then (Inr Skipped, db)
             else let r1 = \<lparr>lr_id = ct_next db, lr_source = Some s, lr_path = Some p, lr_source_path = Some p, lr_version = pk_version pk,
                            lr_sha = Some (pk_sha pk), lr_kind = some_or (pk_kind pk) (Some ''git_catalog''),
                            lr_engine = some_or (pk_engine pk) (Some ''opentofu''), lr_git_source = url, lr_manifest = True, lr_official = False,
                            lr_active = True, lr_latest = True\<rparr>
                  in if version_taken s p (pk_version pk) rows then (Inl IntegrityErr, db)
                     else (Inr Created, db\<lparr>ct_rows := snd (recompute_is_latest (Some s) p (rows @ [r1])), ct_next := ct_next db + 1\<rparr>))"

section \<open>Pruning\<close>

text \<open>
  Modules and blueprint releases are pruned by the same loop over the rows of a source; a \<^verbatim>\<open>row_view\<close> names
  the columns it reads and the one it clears.
\<close>

record 'r row_view =
  rv_id :: "'r \<Rightarrow> int"
  rv_group :: "'r \<Rightarrow> string"
  rv_version :: "'r \<Rightarrow> string option"
  rv_active :: "'r \<Rightarrow> bool"
  rv_hide :: "'r \<Rightarrow> 'r"

record prune_opts =
  po_keep :: nat
  po_delete :: bool
  po_dry_run :: bool
  po_include :: bool

datatype prune_verdict = Newest | Spared | In_Use nat | Hidden nat | Removed | Retired | Already_Inactive

definition ordered_key :: "'r row_view \<Rightarrow> 'r \<Rightarrow> version_key \<times> int" where
  "ordered_key v r = (version_sort_key (rv_version v r), rv_id v r)"

definition ordered :: "'r row_view \<Rightarrow> 'r list \<Rightarrow> 'r list" where
  "ordered v rows = rev (sort_key (ordered_key v) (rev rows))"

definition spare_last_active :: "'r row_view \<Rightarrow> 'r list \<Rightarrow> 'r list \<Rightarrow> (int \<Rightarrow> nat) \<Rightarrow> bool \<Rightarrow> 'r option" where
  "spare_last_active v kept cands refs incl =
     (if list_ex (rv_active v) kept \<or> list_ex (\<lambda>r. rv_active v r \<and> refs (rv_id v r) \<noteq> 0 \<and> \<not> incl) cands then None
      else find (rv_active v) cands)"

definition prune_verdict_of :: "'r row_view \<Rightarrow> (int \<Rightarrow> nat) \<Rightarrow> prune_opts \<Rightarrow> 'r option \<Rightarrow> 'r \<Rightarrow> prune_verdict" where
  "prune_verdict_of v refs po spared r =
     (let n = refs (rv_id v r)
      in if map_option (rv_id v) spared = Some (rv_id v r) then Spared
         else if n \<noteq> 0 \<and> \<not> po_include po then In_Use n
         else if n \<noteq> 0 then Hidden n
         else if po_delete po then Removed
         else if rv_active v r then Retired
         else Already_Inactive)"

definition prune_group :: "'r row_view \<Rightarrow> (int \<Rightarrow> nat) \<Rightarrow> prune_opts \<Rightarrow> 'r list \<Rightarrow> ('r \<times> prune_verdict) list" where
  "prune_group v refs po rows =
     (let kept = take (po_keep po) (ordered v rows);
          cands = drop (po_keep po) (ordered v rows);
          spared = spare_last_active v kept cands refs (po_include po)
      in map (\<lambda>r. (r, Newest)) kept @ map (\<lambda>r. (r, prune_verdict_of v refs po spared r)) cands)"

text \<open>The groups in the order in which they first occur.\<close>

definition groups_of :: "'r row_view \<Rightarrow> 'r list \<Rightarrow> string list" where
  "groups_of v rows = rev (remdups (rev (map (rv_group v) rows)))"

definition prune_items :: "'r row_view \<Rightarrow> (int \<Rightarrow> nat) \<Rightarrow> prune_opts \<Rightarrow> 'r list \<Rightarrow> ('r \<times> prune_verdict) list" where
  "prune_items v refs po rows =
     concat (map (\<lambda>g. prune_group v refs po (filter (\<lambda>r. rv_group v r = g) rows)) (groups_of v rows))"

text \<open>The effect of the loop on the table; a row that is removed is checked for references once more.\<close>

fun prune_apply :: "'r row_view \<Rightarrow> (int \<Rightarrow> nat) \<Rightarrow> ('r \<times> prune_verdict) list \<Rightarrow> 'r list \<Rightarrow> catalog_error + 'r list" where
  "prune_apply v refs [] rows = Inr rows"
| "prune_apply v refs ((r, a) # items) rows =
     (case a of
        Removed \<Rightarrow>
          if refs (rv_id v r) \<noteq> 0 then Inl (StillReferenced (rv_id v r))
          else prune_apply v refs items (filter (\<lambda>x. rv_id v x \<noteq> rv_id v r) rows)
      | Hidden _ \<Rightarrow> prune_apply v refs items (map (\<lambda>x. if rv_id v x = rv_id v r then rv_hide v x else x) rows)
      | Retired \<Rightarrow> prune_apply v refs items (map (\<lambda>x. if rv_id v x = rv_id v r then rv_hide v x else x) rows)
      | _ \<Rightarrow> prune_apply v refs items rows)"

text \<open>The groups whose latest flag is recomputed.\<close>

definition is_touched :: "'r row_view \<Rightarrow> 'r \<times> prune_verdict \<Rightarrow> bool" where
  "is_touched v it =
     (case snd it of Spared \<Rightarrow> True | Removed \<Rightarrow> True | Retired \<Rightarrow> True | Hidden _ \<Rightarrow> rv_active v (fst it) | _ \<Rightarrow> False)"

definition touched_paths :: "'r row_view \<Rightarrow> ('r \<times> prune_verdict) list \<Rightarrow> string list" where
  "touched_paths v items = remdups (map (\<lambda>it. rv_group v (fst it)) (filter (is_touched v) items))"

definition module_group :: "library_row \<Rightarrow> string" where
  "module_group r = opt_str (lr_path r) ''''"

definition module_view :: "library_row row_view" where
  "module_view = \<lparr>rv_id = lr_id, rv_group = module_group, rv_version = lr_version,
                  rv_active = lr_active, rv_hide = (\<lambda>r. r\<lparr>lr_active := False\<rparr>)\<rparr>"

definition release_view :: "release_row row_view" where
  "release_view = \<lparr>rv_id = rr_id, rv_group = rr_blueprint, rv_version = (\<lambda>r. Some (rr_version r)),
                   rv_active = rr_active, rv_hide = (\<lambda>r. r\<lparr>rr_active := False\<rparr>)\<rparr>"

definition recompute_paths :: "int \<Rightarrow> string list \<Rightarrow> library_row list \<Rightarrow> library_row list" where
  "recompute_paths s ps rows = fold (\<lambda>p rs. snd (recompute_is_latest (Some s) p rs)) ps rows"

definition prune_module_source ::
  "int \<Rightarrow> prune_opts \<Rightarrow> catalog \<Rightarrow> catalog_error + (library_row \<times> prune_verdict) list \<times> catalog" where
  "prune_module_source s po db =
     (if s \<notin> set (ct_sources db) then Inl (NotFound s)
      else let refs = count_list (ct_pins db);
               items = prune_items module_view refs po (filter (\<lambda>r. lr_source r = Some s) (ct_rows db))
           in if po_dry_run po then Inr (items, db)
              else (case prune_apply module_view refs items (ct_rows db) of
                      Inl e \<Rightarrow> Inl e
                    | Inr rows \<Rightarrow> Inr (items, db\<lparr>ct_rows := recompute_paths s (touched_paths module_view items) rows\<rparr>)))"

definition prune_blueprint_source ::
  "int \<Rightarrow> prune_opts \<Rightarrow> catalog \<Rightarrow> catalog_error + (release_row \<times> prune_verdict) list \<times> catalog" where
  "prune_blueprint_source s po db =
     (if s \<notin> set (ct_blueprint_sources db) then Inl (NotFound s)
      else let refs = count_list (ct_stacks db);
               items = prune_items release_view refs po (filter (\<lambda>r. rr_source r = s) (ct_releases db))
           in if po_dry_run po then Inr (items, db)
              else (case prune_apply release_view refs items (ct_releases db) of
                      Inl e \<Rightarrow> Inl e
                    | Inr rows \<Rightarrow> Inr (items, db\<lparr>ct_releases := rows\<rparr>)))"

section \<open>Retirement and deletion\<close>

definition is_stale_manifest :: "int \<Rightarrow> string list \<Rightarrow> library_row \<Rightarrow> bool" where
  "is_stale_manifest s found r \<longleftrightarrow>
     lr_source r = Some s \<and> lr_active r \<and> lr_manifest r \<and>
     (case lr_source_path r of Some p \<Rightarrow> p | None \<Rightarrow> opt_str (lr_path r) '''') \<notin> set found"

definition stale_paths :: "library_row list \<Rightarrow> string list" where
  "stale_paths stale = remdups (concat (map (\<lambda>r. if truthy_str (lr_path r) then [the (lr_path r)] else []) stale))"

definition inactivate_stale_manifest_modules :: "int \<Rightarrow> string list \<Rightarrow> catalog \<Rightarrow> (nat \<times> int list) \<times> catalog" where
  "inactivate_stale_manifest_modules s found db =
     (let stale = filter (is_stale_manifest s found) (ct_rows db);
          pinned = filter (\<lambda>i. i \<in> set (ct_pins db)) (map lr_id stale);

          rows = map (\<lambda>r. if is_stale_manifest s found r then r\<lparr>lr_active := False\<rparr> else r) (ct_rows db)
      in ((length stale, pinned), db\<lparr>ct_rows := recompute_paths s (stale_paths stale) rows\<rparr>))"

text \<open>The answer is whether the module was deleted.\<close>

definition delete_user_module :: "int \<Rightarrow> catalog \<Rightarrow> catalog_error + bool \<times> catalog" where
  "delete_user_module i db =
     (case find (\<lambda>r. lr_id r = i) (ct_rows db) of
        None \<Rightarrow> Inl (NotFound i)
      | Some r \<Rightarrow>
          if lr_official r then Inl (Forbidden i)
          else if i \<in> set (ct_pins db) then Inr (False, db)
          else let rows = filter (\<lambda>x. lr_id x \<noteq> i) (ct_rows db)
               in Inr (True, db\<lparr>ct_rows := (if truthy_str (lr_path r) then snd (recompute_is_latest (lr_source r) (the (lr_path r)) rows)
                                            else rows)\<rparr>))"

section \<open>What pruning leaves\<close>

text \<open>The columns a prune relies on: hiding a row clears its active flag and nothing else it reads.\<close>

definition inert :: "prune_verdict \<Rightarrow> bool" where
  "inert a = (case a of Newest \<Rightarrow> True | Spared \<Rightarrow> True | In_Use _ \<Rightarrow> True | Already_Inactive \<Rightarrow> True | _ \<Rightarrow> False)"

definition hides :: "prune_verdict \<Rightarrow> bool" where
  "hides a = (case a of Hidden _ \<Rightarrow> True | Retired \<Rightarrow> True | _ \<Rightarrow> False)"

lemma verdict_kinds: "inert a \<longleftrightarrow> \<not> hides a \<and> a \<noteq> Removed"
  by (cases a) (auto simp: inert_def hides_def)

locale versioned_rows =
  fixes v :: "'r row_view"
  assumes hide_id [simp]: "rv_id v (rv_hide v r) = rv_id v r"
    and hide_group [simp]: "rv_group v (rv_hide v r) = rv_group v r"
    and hide_inactive [simp]: "\<not> rv_active v (rv_hide v r)"
    and hide_noop [simp]: "\<not> rv_active v r \<Longrightarrow> rv_hide v r = r"
begin

definition after_prune :: "('r \<times> prune_verdict) list \<Rightarrow> 'r list \<Rightarrow> 'r list" where
  "after_prune items rows =
     map (\<lambda>x. if \<exists>it \<in> set items. rv_id v (fst it) = rv_id v x \<and> hides (snd it) then rv_hide v x else x)
       (filter (\<lambda>x. \<not> (\<exists>it \<in> set items. rv_id v (fst it) = rv_id v x \<and> snd it = Removed)) rows)"

lemma set_ordered [simp]: "set (ordered v rows) = set rows"
  by (simp add: ordered_def)

lemma distinct_ordered [simp]: "distinct (map (rv_id v) (ordered v rows)) = distinct (map (rv_id v) rows)"
  by (simp add: distinct_map ordered_def)

lemma group_row: "it \<in> set (prune_group v refs po xs) \<Longrightarrow> fst it \<in> set xs"
  using set_take_subset[of "po_keep po" "ordered v xs"] set_drop_subset[of "po_keep po" "ordered v xs"]
  by (auto simp: prune_group_def Let_def)

lemma item_iff:
  "it \<in> set (prune_items v refs po rows) \<longleftrightarrow>
     it \<in> set (prune_group v refs po (filter (\<lambda>r. rv_group v r = rv_group v (fst it)) rows))" (is "?l \<longleftrightarrow> ?r")
proof
  assume ?l
  then obtain g where g: "it \<in> set (prune_group v refs po (filter (\<lambda>r. rv_group v r = g) rows))"
    by (auto simp: prune_items_def)
  show ?r
    using g group_row[OF g] by simp
next
  assume ?r
  then show ?l
    using group_row[OF \<open>?r\<close>] by (auto simp: prune_items_def groups_of_def)
qed

lemma item_row: "(r, a) \<in> set (prune_items v refs po rows) \<Longrightarrow> r \<in> set rows"
  using group_row by (subst (asm) item_iff) fastforce

lemma row_item: "r \<in> set rows \<Longrightarrow> \<exists>a. (r, a) \<in> set (prune_items v refs po rows)"
proof -
  assume "r \<in> set rows"
  let ?o = "ordered v (filter (\<lambda>x. rv_group v x = rv_group v r) rows)"
  have "r \<in> set (take (po_keep po) ?o @ drop (po_keep po) ?o)"
    unfolding append_take_drop_id using \<open>r \<in> set rows\<close> by simp
  then have "r \<in> set (take (po_keep po) ?o) \<or> r \<in> set (drop (po_keep po) ?o)"
    unfolding set_append by blast
  then show ?thesis
    by (subst item_iff) (force simp: prune_group_def Let_def image_iff)
qed

lemma after_prune_Nil: "after_prune [] rows = rows"
  by (simp add: after_prune_def)

lemma after_prune_Removed:
  "after_prune ((r, Removed) # items) rows = after_prune items (filter (\<lambda>x. rv_id v x \<noteq> rv_id v r) rows)"
  by (induction rows) (auto simp: after_prune_def hides_def)

lemma after_prune_hides:
  "hides a \<Longrightarrow> after_prune ((r, a) # items) rows = after_prune items (map (\<lambda>x. if rv_id v x = rv_id v r then rv_hide v x else x) rows)"
  by (induction rows) (auto simp: after_prune_def hides_def)

lemma after_prune_inert: "inert a \<Longrightarrow> after_prune ((r, a) # items) rows = after_prune items rows"
  by (induction rows) (auto simp: after_prune_def verdict_kinds)

lemmas after_prune_simps = after_prune_Nil after_prune_Removed after_prune_hides after_prune_inert

lemma prune_apply_closed:
  assumes "\<And>r. (r, Removed) \<in> set items \<Longrightarrow> refs (rv_id v r) = 0"
  shows "prune_apply v refs items rows = Inr (after_prune items rows)"
  using assms
proof (induction items arbitrary: rows)
  case Nil
  then show ?case by (simp add: after_prune_simps)
next
  case (Cons it items)
  obtain r a where it: "it = (r, a)" by (cases it)
  have IH: "prune_apply v refs items xs = Inr (after_prune items xs)" for xs
    using Cons by auto
  show ?case
    using Cons.prems[of r]
    by (cases a) (auto simp: it IH after_prune_simps hides_def inert_def)
qed

lemma removed_unreferenced: "(r, Removed) \<in> set (prune_items v refs po rows) \<Longrightarrow> refs (rv_id v r) = 0"
  by (subst (asm) item_iff) (auto simp: prune_group_def prune_verdict_of_def Let_def split: if_splits)

lemma prune_apply_items: "prune_apply v refs (prune_items v refs po rows) table = Inr (after_prune (prune_items v refs po rows) table)"
  by (rule prune_apply_closed) (rule removed_unreferenced)

lemma verdict_unique:
  assumes "distinct (map (rv_id v) rows)" "(r, a) \<in> set (prune_items v refs po rows)" "(r, b) \<in> set (prune_items v refs po rows)"
  shows "a = b"
proof -
  let ?o = "ordered v (filter (\<lambda>x. rv_group v x = rv_group v r) rows)"
  have "distinct ?o"
    using assms(1) by (simp add: ordered_def distinct_map)
  then have "set (take (po_keep po) ?o) \<inter> set (drop (po_keep po) ?o) = {}"
    by (rule set_take_disj_set_drop_if_distinct) simp
  then show ?thesis
    using assms(2,3) by (subst (asm) (1 2) item_iff) (auto simp: prune_group_def Let_def)
qed

lemma inert_stays:
  assumes ids: "distinct (map (rv_id v) table)" and it: "(r, a) \<in> set (prune_items v refs po (filter P table))" and "inert a"
  shows "r \<in> set (after_prune (prune_items v refs po (filter P table)) table)"
proof -
  have "distinct (map (rv_id v) (filter P table))"
    using ids by (simp add: distinct_map inj_on_def)
  moreover have "x = r" if "(x, b) \<in> set (prune_items v refs po (filter P table))" "rv_id v x = rv_id v r" for x b
    using item_row[OF it] item_row[OF that(1)] that(2) ids by (auto simp: distinct_map inj_on_def)
  ultimately have "\<not> hides (snd i) \<and> snd i \<noteq> Removed"
    if "i \<in> set (prune_items v refs po (filter P table))" "rv_id v (fst i) = rv_id v r" for i
    using that it \<open>inert a\<close> verdict_unique verdict_kinds by (metis prod.collapse)
  moreover have "r \<in> set table"
    using item_row[OF it] by simp
  ultimately show ?thesis
    by (force simp: after_prune_def image_iff)
qed

lemma other_stays:
  assumes ids: "distinct (map (rv_id v) table)" and r: "r \<in> set table" "\<not> P r"
  shows "r \<in> set (after_prune (prune_items v refs po (filter P table)) table)"
proof -
  have "rv_id v (fst i) \<noteq> rv_id v r" if "i \<in> set (prune_items v refs po (filter P table))" for i
  proof -
    have "fst i \<in> set (filter P table)"
      using item_row[of "fst i" "snd i" refs po "filter P table"] that by simp
    then show ?thesis
      using r ids by (auto simp: distinct_map inj_on_def)
  qed
  then show ?thesis
    using r by (force simp: after_prune_def image_iff)
qed

lemma referenced_survives:
  assumes "r \<in> set table" "refs (rv_id v r) \<noteq> 0"
  shows "r \<in> set (after_prune (prune_items v refs po rows) table) \<or> rv_hide v r \<in> set (after_prune (prune_items v refs po rows) table)"
proof -
  have "\<not> (\<exists>it \<in> set (prune_items v refs po rows). rv_id v (fst it) = rv_id v r \<and> snd it = Removed)"
    using removed_unreferenced assms(2) by (metis prod.collapse)
  then show ?thesis
    using assms(1) by (auto simp: after_prune_def image_iff)
qed

lemma newest_inert:
  assumes "r \<in> set (take (po_keep po) (ordered v (filter (\<lambda>x. rv_group v x = rv_group v r) rows)))"
  shows "(r, Newest) \<in> set (prune_items v refs po rows)"
  using assms by (subst item_iff) (auto simp: prune_group_def Let_def)

lemma in_use_inert:
  assumes "r \<in> set rows" "refs (rv_id v r) \<noteq> 0" "\<not> po_include po"
  shows "\<exists>a. (r, a) \<in> set (prune_items v refs po rows) \<and> inert a"
proof -
  obtain a where "(r, a) \<in> set (prune_items v refs po rows)"
    using row_item[OF assms(1)] by blast
  moreover have "inert a"
    using calculation assms(2,3)
    by (subst (asm) item_iff) (auto simp: prune_group_def prune_verdict_of_def inert_def Let_def split: if_splits)
  ultimately show ?thesis by blast
qed

lemma spared_or_survivor:
  assumes "r \<in> set rows" "rv_active v r"
  shows "\<exists>x a. x \<in> set rows \<and> rv_group v x = rv_group v r \<and> rv_active v x \<and> (x, a) \<in> set (prune_items v refs po rows) \<and> inert a"
proof -
  let ?o = "ordered v (filter (\<lambda>x. rv_group v x = rv_group v r) rows)"
  let ?kept = "take (po_keep po) ?o" and ?cands = "drop (po_keep po) ?o"
  let ?sp = "spare_last_active v ?kept ?cands refs (po_include po)"
  have o: "x \<in> set rows \<and> rv_group v x = rv_group v r" if "x \<in> set ?kept \<or> x \<in> set ?cands" for x
    using that by (auto dest: in_set_takeD in_set_dropD)
  have g: "(x, a) \<in> set (prune_items v refs po rows)" if "(x, a) \<in> set (prune_group v refs po (filter (\<lambda>x. rv_group v x = rv_group v r) rows))" for x a
    using that o[of x] by (subst item_iff) (auto simp: prune_group_def Let_def)
  have "r \<in> set (?kept @ ?cands)"
    unfolding append_take_drop_id using assms(1) by simp
  then have r: "r \<in> set ?kept \<or> r \<in> set ?cands"
    unfolding set_append by blast
  consider (kept) x where "x \<in> set ?kept" "rv_active v x"
    | (used) x where "x \<in> set ?cands" "rv_active v x" "refs (rv_id v x) \<noteq> 0" "\<not> po_include po"
    | (spared) x where "?sp = Some x"
  proof (cases ?sp)
    case None
    then show ?thesis
      using r assms(2) kept used by (auto simp: spare_last_active_def list_ex_iff find_None_iff split: if_splits)
  qed (rule spared)
  then show ?thesis
  proof cases
    case kept
    then have "(x, Newest) \<in> set (prune_items v refs po rows)"
      by (intro g) (auto simp: prune_group_def Let_def)
    moreover have "inert Newest"
      by (simp add: inert_def)
    ultimately show ?thesis
      using kept o[of x] by blast
  next
    case used
    then show ?thesis
      using o[of x] in_use_inert[of x rows refs po] by blast
  next
    case spared
    then have x: "x \<in> set ?cands" "rv_active v x"
      by (auto simp: spare_last_active_def split: if_splits dest: find_SomeD)
    have "(x, Spared) \<in> set (prune_items v refs po rows)"
      using x(1) by (intro g) (auto simp: prune_group_def Let_def spared prune_verdict_of_def image_iff)
    moreover have "inert Spared"
      by (simp add: inert_def)
    ultimately show ?thesis
      using x o[of x] by blast
  qed
qed

lemma ordered_nth_mono:
  assumes "i \<le> j" "j < length (ordered v rows)"
  shows "ordered_key v (ordered v rows ! j) \<le> ordered_key v (ordered v rows ! i)"
proof -
  have "sorted (rev (map (ordered_key v) (ordered v rows)))"
    by (simp add: ordered_def rev_map)
  then show ?thesis
    using assms by (simp add: sorted_rev_iff_nth_mono)
qed

text \<open>A row with fewer than \<^verbatim>\<open>keep\<close> newer ones in its group is among those kept.\<close>

lemma newest_kept:
  assumes ids: "distinct (map (rv_id v) rows)" and r: "r \<in> set rows"
    and few: "card {x \<in> set rows. ordered_key v r < ordered_key v x} < k"
  shows "r \<in> set (take k (ordered v rows))"
proof (rule ccontr)
  let ?o = "ordered v rows"
  assume out: "r \<notin> set (take k ?o)"
  obtain i where i: "i < length ?o" "?o ! i = r"
    using r by (metis in_set_conv_nth set_ordered)
  have "k \<le> i"
    using out i by (metis in_set_conv_nth length_take min_less_iff_conj not_le nth_take)
  have o: "distinct (map (rv_id v) ?o)" "distinct ?o"
    using ids by (auto simp: ordered_def distinct_map)
  have "ordered_key v r < ordered_key v (?o ! j)" if "j < k" for j
  proof -
    have "rv_id v (?o ! j) \<noteq> rv_id v r"
      using nth_eq_iff_index_eq[OF o(1), of j i] i that \<open>k \<le> i\<close> by simp
    moreover have "ordered_key v r \<le> ordered_key v (?o ! j)"
      using ordered_nth_mono[of j i rows] i that \<open>k \<le> i\<close> by simp
    ultimately show ?thesis
      by (auto simp: ordered_key_def)
  qed
  moreover have "\<exists>j < k. x = ?o ! j" if "x \<in> set (take k ?o)" for x
    using that by (auto simp: in_set_conv_nth)
  ultimately have "set (take k ?o) \<subseteq> {x \<in> set rows. ordered_key v r < ordered_key v x}"
    using in_set_takeD[of _ k ?o] by fastforce
  then have "card (set (take k ?o)) \<le> card {x \<in> set rows. ordered_key v r < ordered_key v x}"
    by (intro card_mono) auto
  moreover have "card (set (take k ?o)) = k"
    using o(2) i \<open>k \<le> i\<close> by (simp add: distinct_card)
  ultimately show False
    using few by simp
qed

text \<open>The table after a prune of the rows that satisfy \<^verbatim>\<open>P\<close>.\<close>

definition pruned :: "(int \<Rightarrow> nat) \<Rightarrow> prune_opts \<Rightarrow> ('r \<Rightarrow> bool) \<Rightarrow> 'r list \<Rightarrow> 'r list" where
  "pruned refs po P table = after_prune (prune_items v refs po (filter P table)) table"

lemma pruned_referenced:
  assumes ids: "distinct (map (rv_id v) table)" and r: "r \<in> set table" and refs: "refs (rv_id v r) \<noteq> 0"
  shows "r \<in> set (pruned refs po P table) \<or> po_include po \<and> rv_hide v r \<in> set (pruned refs po P table)"
proof (cases "P r \<and> \<not> po_include po")
  case True
  then have "r \<in> set (filter P table)"
    using r by simp
  then obtain a where "(r, a) \<in> set (prune_items v refs po (filter P table))" "inert a"
    using in_use_inert[of r "filter P table" refs po] refs True by blast
  then show ?thesis
    using inert_stays[OF ids, of r a refs po P] by (auto simp: pruned_def)
next
  case False
  then show ?thesis
    using other_stays[where P = P, OF ids r] referenced_survives[where refs = refs and po = po, OF r refs]
    by (cases "P r") (auto simp: pruned_def)
qed

lemma pruned_newest:
  assumes ids: "distinct (map (rv_id v) table)" and r: "r \<in> set table" "P r"
    and few: "card {x \<in> set table. P x \<and> rv_group v x = rv_group v r \<and> ordered_key v r < ordered_key v x} < po_keep po"
  shows "r \<in> set (pruned refs po P table)"
proof -
  let ?g = "filter (\<lambda>x. rv_group v x = rv_group v r) (filter P table)"
  have "{x \<in> set ?g. ordered_key v r < ordered_key v x} =
        {x \<in> set table. P x \<and> rv_group v x = rv_group v r \<and> ordered_key v r < ordered_key v x}"
    by auto
  then have "r \<in> set (take (po_keep po) (ordered v ?g))"
    using ids r few by (intro newest_kept) (auto simp: distinct_map inj_on_def)
  then have "(r, Newest) \<in> set (prune_items v refs po (filter P table))"
    by (rule newest_inert)
  then show ?thesis
    unfolding pruned_def by (rule inert_stays[OF ids]) (simp add: inert_def)
qed

lemma pruned_active:
  assumes ids: "distinct (map (rv_id v) table)" and r: "r \<in> set table" "P r" "rv_active v r"
  shows "\<exists>x \<in> set (pruned refs po P table). rv_active v x \<and> P x \<and> rv_group v x = rv_group v r"
  using spared_or_survivor[of r "filter P table" refs po] r inert_stays[OF ids, of _ _ refs po P]
  by (auto simp: pruned_def)

lemma pruned_origin: "x \<in> set (pruned refs po P table) \<Longrightarrow> \<exists>r \<in> set table. x = r \<or> x = rv_hide v r"
  by (auto simp: pruned_def after_prune_def)

end

interpretation module_rows: versioned_rows module_view
  by unfold_locales (auto simp: module_view_def module_group_def)

interpretation release_rows: versioned_rows release_view
  by unfold_locales (auto simp: release_view_def)

section \<open>The latest flag\<close>

definition unflag :: "library_row \<Rightarrow> library_row" where
  "unflag r = r\<lparr>lr_latest := False\<rparr>"

definition latest_at :: "int option \<Rightarrow> string \<Rightarrow> library_row list \<Rightarrow> bool" where
  "latest_at s p rows \<longleftrightarrow>
     (\<forall>r \<in> set rows. at_path s p r \<longrightarrow> lr_latest r = (Some (lr_id r) = latest_id (filter (at_path s p) rows)))"

lemma unflag_columns:
  assumes "unflag a = unflag b"
  shows "lr_id a = lr_id b" "lr_source a = lr_source b" "lr_path a = lr_path b" "lr_source_path a = lr_source_path b"
    "lr_version a = lr_version b" "lr_sha a = lr_sha b" "lr_active a = lr_active b" "a = b\<lparr>lr_latest := lr_latest a\<rparr>"
  using assms by (cases a; cases b; simp add: unflag_def)+

lemma max_by_map: "(\<And>x. k (f x) = k x) \<Longrightarrow> max_by k (map f xs) = map_option f (max_by k xs)"
  by (induction xs) (auto split: option.splits)

lemma max_by_None [simp]: "max_by k xs = None \<longleftrightarrow> xs = []"
  by (cases xs) (auto split: option.splits)

lemma max_by_Some: "max_by k xs = Some x \<Longrightarrow> x \<in> set xs \<and> (\<forall>y \<in> set xs. k y \<le> k x)"
proof (induction xs arbitrary: x)
  case (Cons a xs)
  then show ?case
    by (cases "max_by k xs") (auto split: if_splits intro: order.trans less_imp_le)
qed simp

lemma map_unflag_id: "map unflag xs = map unflag ys \<Longrightarrow> map lr_id xs = map lr_id ys"
proof -
  assume "map unflag xs = map unflag ys"
  then have "map lr_id (map unflag xs) = map lr_id (map unflag ys)"
    by simp
  then show ?thesis
    by (simp add: comp_def unflag_def)
qed

lemma flag_map:
  assumes "\<And>r. unflag (f r) = unflag r"
  shows "filter (at_path s p) (map f rows) = map f (filter (at_path s p) rows)"
    and "latest_id (filter (at_path s p) (map f rows)) = latest_id (filter (at_path s p) rows)"
proof -
  note c = unflag_columns[OF assms]
  show f: "filter (at_path s p) (map f rows) = map f (filter (at_path s p) rows)"
    by (simp add: filter_map comp_def at_path_def[abs_def] c(2,3))
  show "latest_id (filter (at_path s p) (map f rows)) = latest_id (filter (at_path s p) rows)"
    by (simp add: latest_id_def filter_map comp_def c(1-3,5,7) max_by_map row_key_def at_path_def option.map_comp)
qed

text \<open>The map that a recomputation applies to the rows.\<close>

definition reflag :: "int option \<Rightarrow> string \<Rightarrow> library_row list \<Rightarrow> library_row \<Rightarrow> library_row" where
  "reflag s p rows r =
     (if at_path s p r then r\<lparr>lr_latest := (Some (lr_id r) = latest_id (filter (at_path s p) rows))\<rparr> else r)"

lemma recompute_map: "snd (recompute_is_latest s p rows) = map (reflag s p rows) rows"
  by (simp add: recompute_is_latest_def reflag_def Let_def)

lemma unflag_reflag: "unflag (reflag s p rows r) = unflag r"
  by (simp add: unflag_def reflag_def)

lemma unflag_recompute: "map unflag (snd (recompute_is_latest s p rows)) = map unflag rows"
  by (simp add: recompute_map comp_def unflag_reflag)

lemma recompute_establishes: "latest_at s p (snd (recompute_is_latest s p rows))"
proof -
  have "lr_latest (reflag s p rows x) = (Some (lr_id x) = latest_id (filter (at_path s p) rows))"
    if "at_path s p (reflag s p rows x)" for x
    using that by (cases "at_path s p x") (simp_all add: reflag_def)
  then show ?thesis
    unfolding recompute_map latest_at_def flag_map(2)[OF unflag_reflag]
    using unflag_columns(1)[OF unflag_reflag] by auto
qed

lemma recompute_keeps: "latest_at s' p' rows \<Longrightarrow> latest_at s' p' (snd (recompute_is_latest s p rows))"
proof (cases "s' = s \<and> p' = p")
  case True
  then show ?thesis using recompute_establishes by simp
next
  case False
  assume "latest_at s' p' rows"
  then show ?thesis
    using False unfolding recompute_map latest_at_def flag_map(2)[OF unflag_reflag]
    by (auto simp: reflag_def at_path_def)
qed

lemma unflag_recompute_paths: "map unflag (recompute_paths s ps rows) = map unflag rows"
  by (induction ps arbitrary: rows) (simp_all add: recompute_paths_def unflag_recompute)

lemma recompute_paths_keeps: "latest_at s' p' rows \<Longrightarrow> latest_at s' p' (recompute_paths s ps rows)"
  by (induction ps arbitrary: rows) (simp_all add: recompute_paths_def recompute_keeps)

lemma recompute_paths_establishes: "p \<in> set ps \<Longrightarrow> latest_at (Some s) p (recompute_paths s ps rows)"
proof (induction ps arbitrary: rows)
  case (Cons q ps)
  then show ?case
    using recompute_paths_keeps[of "Some s" p _ s ps] recompute_establishes
    by (auto simp: recompute_paths_def)
qed simp

lemma recompute_paths_other: "r \<in> set rows \<Longrightarrow> lr_source r \<noteq> Some s \<Longrightarrow> r \<in> set (recompute_paths s ps rows)"
proof (induction ps arbitrary: rows)
  case (Cons q ps)
  have "reflag (Some s) q rows r = r"
    using Cons.prems(2) by (simp add: reflag_def at_path_def)
  then have "r \<in> set (snd (recompute_is_latest (Some s) q rows))"
    using Cons.prems(1) unfolding recompute_map by force
  then show ?case
    using Cons by (simp add: recompute_paths_def)
qed (simp add: recompute_paths_def)

text \<open>Rows that agree up to the flag stand in both tables.\<close>

lemma unflag_member: "map unflag xs = map unflag ys \<Longrightarrow> r \<in> set ys \<Longrightarrow> \<exists>l. r\<lparr>lr_latest := l\<rparr> \<in> set xs"
proof -
  assume "map unflag xs = map unflag ys" "r \<in> set ys"
  then have "unflag r \<in> set (map unflag xs)"
    by simp
  then obtain x where "x \<in> set xs" "unflag x = unflag r"
    by auto
  then show ?thesis
    using unflag_columns(8)[of x r] by metis
qed

section \<open>Pruning is safe\<close>

text \<open>The rows of the same module with a newer version.\<close>

definition newer_rows :: "library_row list \<Rightarrow> library_row \<Rightarrow> library_row set" where
  "newer_rows rows r =
     {x \<in> set rows. lr_source x = lr_source r \<and> module_group x = module_group r \<and> row_key r < row_key x}"

lemma module_view_simps [simp]:
  "rv_id module_view = lr_id" "rv_active module_view = lr_active" "rv_version module_view = lr_version"
  "rv_group module_view = module_group" "rv_hide module_view = (\<lambda>r. r\<lparr>lr_active := False\<rparr>)"
  "ordered_key module_view = row_key"
  by (simp_all add: module_view_def ordered_key_def[abs_def] row_key_def[abs_def])

lemma release_view_simps [simp]:
  "rv_id release_view = rr_id" "rv_active release_view = rr_active" "rv_group release_view = rr_blueprint"
  "rv_version release_view = (\<lambda>r. Some (rr_version r))" "rv_hide release_view = (\<lambda>r. r\<lparr>rr_active := False\<rparr>)"
  by (simp_all add: release_view_def)

text \<open>The rows after a prune: unchanged by a dry run, else pruned and reflagged.\<close>

definition prune_table :: "int \<Rightarrow> prune_opts \<Rightarrow> string list \<Rightarrow> catalog \<Rightarrow> library_row list" where
  "prune_table s po ps db =
     (if po_dry_run po then ct_rows db
      else recompute_paths s ps (module_rows.pruned (count_list (ct_pins db)) po (\<lambda>r. lr_source r = Some s) (ct_rows db)))"

lemma prune_module_source_eq:
  assumes "s \<in> set (ct_sources db)"
  shows "\<exists>items. prune_module_source s po db = Inr (items, db\<lparr>ct_rows := prune_table s po (touched_paths module_view items) db\<rparr>)"
  using assms
  by (auto simp: prune_module_source_def module_rows.prune_apply_items module_rows.pruned_def prune_table_def Let_def)

lemma prune_table_lift:
  assumes "if po_dry_run po then r \<in> set (ct_rows db)
           else r \<in> set (module_rows.pruned (count_list (ct_pins db)) po (\<lambda>r. lr_source r = Some s) (ct_rows db))"
  shows "\<exists>l. r\<lparr>lr_latest := l\<rparr> \<in> set (prune_table s po ps db)"
  using assms unflag_member[OF unflag_recompute_paths] unflag_member[OF refl]
  by (simp add: prune_table_def split: if_splits)

lemma prune_table_dry: "po_dry_run po \<Longrightarrow> prune_table s po ps db = ct_rows db"
  by (simp add: prune_table_def)

lemma prune_table_other:
  assumes "distinct (map lr_id (ct_rows db))" "r \<in> set (ct_rows db)" "lr_source r \<noteq> Some s"
  shows "r \<in> set (prune_table s po ps db)"
  using assms module_rows.other_stays[of "ct_rows db" r "\<lambda>r. lr_source r = Some s" "count_list (ct_pins db)" po]
  by (auto simp: prune_table_def module_rows.pruned_def intro!: recompute_paths_other)

lemma count_list_pinned: "count_list xs i \<noteq> 0 \<longleftrightarrow> i \<in> set xs"
  by (simp add: count_list_0_iff)

lemma pruned_pinned:
  assumes "distinct (map lr_id rows)" "r \<in> set rows" "lr_id r \<in> set pins"
  shows "\<exists>a. r\<lparr>lr_active := a\<rparr> \<in> set (module_rows.pruned (count_list pins) po P rows) \<and> (po_include po \<or> a = lr_active r)"
  using module_rows.pruned_referenced[of rows r "count_list pins" po P] assms count_list_pinned[of pins "lr_id r"]
  by (auto intro: exI[of _ "lr_active r"])

lemma prune_table_pinned:
  assumes "distinct (map lr_id (ct_rows db))" "r \<in> set (ct_rows db)" "lr_id r \<in> set (ct_pins db)"
  shows "\<exists>l a. r\<lparr>lr_active := a, lr_latest := l\<rparr> \<in> set (prune_table s po ps db) \<and> (po_include po \<or> a = lr_active r)"
proof -
  obtain a where "if po_dry_run po then r\<lparr>lr_active := a\<rparr> \<in> set (ct_rows db)
           else r\<lparr>lr_active := a\<rparr> \<in> set (module_rows.pruned (count_list (ct_pins db)) po (\<lambda>r. lr_source r = Some s) (ct_rows db))"
    and "po_include po \<or> a = lr_active r"
  proof (cases "po_dry_run po")
    case True
    then show ?thesis
      using assms(2) that[of "lr_active r"] by simp
  next
    case False
    then show ?thesis
      using pruned_pinned[OF assms, of po "\<lambda>r. lr_source r = Some s"] that by auto
  qed
  then show ?thesis
    using prune_table_lift[of po "r\<lparr>lr_active := a\<rparr>" db s ps] by blast
qed

lemma prune_table_newest:
  assumes ids: "distinct (map lr_id (ct_rows db))" and r: "r \<in> set (ct_rows db)"
    and few: "card (newer_rows (ct_rows db) r) < po_keep po"
  shows "\<exists>l. r\<lparr>lr_latest := l\<rparr> \<in> set (prune_table s po ps db)"
proof (rule prune_table_lift)
  let ?P = "\<lambda>r. lr_source r = Some s" and ?n = "count_list (ct_pins db)"
  have "r \<in> set (module_rows.pruned ?n po ?P (ct_rows db))"
  proof (cases "?P r")
    case True
    then show ?thesis
      using ids r few by (intro module_rows.pruned_newest) (auto simp: newer_rows_def)
  next
    case False
    then show ?thesis
      using module_rows.other_stays[of "ct_rows db" r ?P ?n po] ids r by (simp add: module_rows.pruned_def)
  qed
  then show "if po_dry_run po then r \<in> set (ct_rows db) else r \<in> set (module_rows.pruned ?n po ?P (ct_rows db))"
    using r by simp
qed

lemma prune_table_active:
  assumes ids: "distinct (map lr_id (ct_rows db))" and r: "r \<in> set (ct_rows db)" "lr_active r"
  shows "\<exists>x \<in> set (prune_table s po ps db). lr_active x \<and> lr_source x = lr_source r \<and> module_group x = module_group r"
proof (cases "po_dry_run po \<or> lr_source r \<noteq> Some s")
  case True
  then show ?thesis
    using r prune_table_other[OF ids r(1), of s po ps] by (auto simp: prune_table_def)
next
  case False
  let ?P = "\<lambda>r. lr_source r = Some s" and ?n = "count_list (ct_pins db)"
  obtain x where x: "x \<in> set (module_rows.pruned ?n po ?P (ct_rows db))" "lr_active x" "lr_source x = Some s"
    "module_group x = module_group r"
    using module_rows.pruned_active[of "ct_rows db" r ?P ?n po] r ids False by auto
  obtain l where "x\<lparr>lr_latest := l\<rparr> \<in> set (prune_table s po ps db)"
    using prune_table_lift[of po x db s ps] x(1) False by auto
  then show ?thesis
    using x False by (auto simp: module_group_def intro!: bexI[of _ "x\<lparr>lr_latest := l\<rparr>"])
qed

text \<open>
  C31. Pruning a module source that exists succeeds, and whatever the options: rows of other sources are untouched;
  a version a project pins stays in the catalog, and stays as visible as it was unless hiding versions in use was asked for;
  a version with fewer than \<^verbatim>\<open>keep\<close> newer ones of its module is untouched but for the latest flag; a
  module with an active version still has one; a dry run changes nothing.
\<close>

theorem prune_module_safe:
  assumes ids: "distinct (map lr_id (ct_rows db))" and s: "s \<in> set (ct_sources db)"
  shows "\<exists>items rows. prune_module_source s po db = Inr (items, db\<lparr>ct_rows := rows\<rparr>) \<and>
     (po_dry_run po \<longrightarrow> rows = ct_rows db) \<and>
     (\<forall>r \<in> set (ct_rows db).
        (lr_source r \<noteq> Some s \<longrightarrow> r \<in> set rows) \<and>
        (lr_id r \<in> set (ct_pins db) \<longrightarrow>
           (\<exists>l a. r\<lparr>lr_active := a, lr_latest := l\<rparr> \<in> set rows \<and> (po_include po \<or> a = lr_active r))) \<and>
        (card (newer_rows (ct_rows db) r) < po_keep po \<longrightarrow> (\<exists>l. r\<lparr>lr_latest := l\<rparr> \<in> set rows)) \<and>
        (lr_active r \<longrightarrow>
           (\<exists>x \<in> set rows. lr_active x \<and> lr_source x = lr_source r \<and> module_group x = module_group r)))"
proof -
  obtain items where run: "prune_module_source s po db = Inr (items, db\<lparr>ct_rows := prune_table s po (touched_paths module_view items) db\<rparr>)"
    using prune_module_source_eq[OF s] by blast
  show ?thesis
    unfolding run
    by (rule exI[of _ items], rule exI[of _ "prune_table s po (touched_paths module_view items) db"])
      (simp add: ids prune_table_other prune_table_pinned prune_table_newest prune_table_active prune_table_dry)
qed

text \<open>The same for the releases of a blueprint source, whose references are the stacks built from them.\<close>

theorem prune_blueprint_safe:
  assumes ids: "distinct (map rr_id (ct_releases db))" and s: "s \<in> set (ct_blueprint_sources db)"
  shows "\<exists>items rows. prune_blueprint_source s po db = Inr (items, db\<lparr>ct_releases := rows\<rparr>) \<and>
     (po_dry_run po \<longrightarrow> rows = ct_releases db) \<and>
     (\<forall>r \<in> set (ct_releases db).
        (rr_source r \<noteq> s \<longrightarrow> r \<in> set rows) \<and>
        (rr_id r \<in> set (ct_stacks db) \<longrightarrow> r \<in> set rows \<or> po_include po \<and> r\<lparr>rr_active := False\<rparr> \<in> set rows) \<and>
        (rr_active r \<longrightarrow> (\<exists>x \<in> set rows. rr_active x \<and> rr_source x = rr_source r \<and> rr_blueprint x = rr_blueprint r)))"
proof -
  let ?P = "\<lambda>r. rr_source r = s" and ?n = "count_list (ct_stacks db)"
  define rows where "rows = (if po_dry_run po then ct_releases db else release_rows.pruned ?n po ?P (ct_releases db))"
  have run: "\<exists>items. prune_blueprint_source s po db = Inr (items, db\<lparr>ct_releases := rows\<rparr>)"
    using s by (auto simp: prune_blueprint_source_def release_rows.prune_apply_items release_rows.pruned_def rows_def Let_def)
  have other: "r \<in> set rows" if "r \<in> set (ct_releases db)" "rr_source r \<noteq> s" for r
    using that ids release_rows.other_stays[of "ct_releases db" r ?P ?n po] by (simp add: rows_def release_rows.pruned_def)
  have used: "r \<in> set rows \<or> po_include po \<and> r\<lparr>rr_active := False\<rparr> \<in> set rows"
    if "r \<in> set (ct_releases db)" "rr_id r \<in> set (ct_stacks db)" for r
    using that ids release_rows.pruned_referenced[of "ct_releases db" r ?n po ?P] count_list_pinned[of "ct_stacks db" "rr_id r"]
    by (auto simp: rows_def)
  have active: "\<exists>x \<in> set rows. rr_active x \<and> rr_source x = rr_source r \<and> rr_blueprint x = rr_blueprint r"
    if "r \<in> set (ct_releases db)" "rr_active r" for r
    using that ids other[of r] release_rows.pruned_active[of "ct_releases db" r ?P ?n po]
    by (cases "rr_source r = s") (auto simp: rows_def)
  have dry: "po_dry_run po \<longrightarrow> rows = ct_releases db"
    by (simp add: rows_def)
  show ?thesis
    using run other used active dry by blast
qed

section \<open>The catalog over time\<close>

definition row_ok :: "int \<Rightarrow> library_row \<Rightarrow> bool" where
  "row_ok n r \<longleftrightarrow> lr_id r < n \<and> truthy_str (lr_path r) \<and> (lr_source_path r = None \<or> lr_source_path r = lr_path r)"

definition table_ok :: "catalog \<Rightarrow> bool" where
  "table_ok db \<longleftrightarrow>
     distinct (map lr_id (ct_rows db)) \<and> list_all (row_ok (ct_next db)) (ct_rows db) \<and>
     set (ct_pins db) \<subseteq> lr_id ` set (ct_rows db)"

definition catalog_ok :: "catalog \<Rightarrow> bool" where
  "catalog_ok db \<longleftrightarrow> table_ok db \<and> (\<forall>s p. latest_at s p (ct_rows db))"

inductive catalog_step :: "catalog \<Rightarrow> catalog \<Rightarrow> bool" where
  import_step: "p \<noteq> '''' \<Longrightarrow> import_pack_module s p pk url db = (res, db') \<Longrightarrow> catalog_step db db'"
| stale_step: "inactivate_stale_manifest_modules s found db = (res, db') \<Longrightarrow> catalog_step db db'"
| prune_step: "prune_module_source s po db = Inr (items, db') \<Longrightarrow> catalog_step db db'"
| prune_blueprint_step: "prune_blueprint_source s po db = Inr (releases, db') \<Longrightarrow> catalog_step db db'"
| delete_step: "delete_user_module i db = Inr (b, db') \<Longrightarrow> catalog_step db db'"
| pin_step: "set pins \<subseteq> lr_id ` set (ct_rows db) \<Longrightarrow> catalog_step db (db\<lparr>ct_pins := pins\<rparr>)"

text \<open>A flag depends only on the rows at its path.\<close>

lemma latest_at_frame: "filter (at_path s p) rows' = filter (at_path s p) rows \<Longrightarrow> latest_at s p rows \<Longrightarrow> latest_at s p rows'"
  unfolding latest_at_def by (metis (mono_tags, lifting) mem_Collect_eq set_filter)

lemma latest_after_recompute:
  assumes "\<And>s p. latest_at s p rows" and "\<And>s' p'. (s', p') \<noteq> (s, p) \<Longrightarrow> filter (at_path s' p') rows' = filter (at_path s' p') rows"
  shows "latest_at s' p' (snd (recompute_is_latest s p rows'))"
proof (cases "(s', p') = (s, p)")
  case True
  then show ?thesis using recompute_establishes by simp
next
  case False
  show ?thesis
    by (rule recompute_keeps, rule latest_at_frame[OF assms(2)[OF False] assms(1)])
qed

lemma latest_after_recompute_paths:
  assumes "\<And>s p. latest_at s p rows"
    and "\<And>s' p'. \<not> (s' = Some s \<and> p' \<in> set ps) \<Longrightarrow> filter (at_path s' p') rows' = filter (at_path s' p') rows"
  shows "latest_at s' p' (recompute_paths s ps rows')"
proof (cases "s' = Some s \<and> p' \<in> set ps")
  case True
  then show ?thesis using recompute_paths_establishes by simp
next
  case False
  show ?thesis
    by (rule recompute_paths_keeps, rule latest_at_frame[OF assms(2)[OF False] assms(1)])
qed

lemma filter_frame:
  assumes "\<And>x. x \<in> set rows \<Longrightarrow> Q x \<Longrightarrow> g x \<and> f x = x" "\<And>x. x \<in> set rows \<Longrightarrow> \<not> Q x \<Longrightarrow> \<not> Q (f x)"
  shows "filter Q (map f (filter g rows)) = filter Q rows"
  using assms by (induction rows) auto

lemma row_ok_unflag: "map unflag xs = map unflag ys \<Longrightarrow> list_all (row_ok n) xs = list_all (row_ok n) ys"
proof -
  assume "map unflag xs = map unflag ys"
  then have "list_all (row_ok n) (map unflag xs) = list_all (row_ok n) (map unflag ys)"
    by simp
  moreover have "row_ok n (unflag r) = row_ok n r" for r
    by (simp add: row_ok_def unflag_def)
  ultimately show ?thesis
    by (simp add: list.pred_map comp_def)
qed

text \<open>Reflagging keeps everything but the flags.\<close>

lemma table_ok_unflag:
  assumes "map unflag xs = map unflag ys"
  shows "table_ok (db\<lparr>ct_rows := xs\<rparr>) = table_ok (db\<lparr>ct_rows := ys\<rparr>)"
proof -
  have "lr_id ` set xs = lr_id ` set ys"
    using map_unflag_id[OF assms] by (metis list.set_map)
  then show ?thesis
    using map_unflag_id[OF assms] row_ok_unflag[OF assms] by (simp add: table_ok_def)
qed

lemma table_ok_recompute: "table_ok (db\<lparr>ct_rows := snd (recompute_is_latest s p rows)\<rparr>) = table_ok (db\<lparr>ct_rows := rows\<rparr>)"
  by (rule table_ok_unflag) (rule unflag_recompute)

lemma table_ok_recompute_paths: "table_ok (db\<lparr>ct_rows := recompute_paths s ps rows\<rparr>) = table_ok (db\<lparr>ct_rows := rows\<rparr>)"
  by (rule table_ok_unflag) (rule unflag_recompute_paths)

lemma set_lib_row_ids [simp]: "map lr_id (set_lib_row u rows) = map lr_id rows"
  by (simp add: set_lib_row_def)

lemma set_lib_row_id_set [simp]: "lr_id ` set (set_lib_row u rows) = lr_id ` set rows"
  by (metis list.set_map set_lib_row_ids)

lemma set_lib_row_all: "P u \<Longrightarrow> list_all P rows \<Longrightarrow> list_all P (set_lib_row u rows)"
  by (auto simp: list_all_iff set_lib_row_def)

lemma row_same_id: "distinct (map lr_id rows) \<Longrightarrow> x \<in> set rows \<Longrightarrow> y \<in> set rows \<Longrightarrow> lr_id x = lr_id y \<Longrightarrow> x = y"
  by (auto simp: distinct_map inj_on_def)

lemma set_row_ok:
  assumes ok: "catalog_ok db" and r: "r \<in> set (ct_rows db)" "at_path (Some s) p r"
    and u: "lr_id u = lr_id r" "at_path (Some s) p u" "row_ok (ct_next db) u"
  shows "catalog_ok (db\<lparr>ct_rows := snd (recompute_is_latest (Some s) p (set_lib_row u (ct_rows db)))\<rparr>)"
proof -
  have t: "table_ok db" and l: "\<And>s p. latest_at s p (ct_rows db)"
    using ok by (auto simp: catalog_ok_def)
  have frame: "filter (at_path s' p') (set_lib_row u (ct_rows db)) = filter (at_path s' p') (ct_rows db)" if "(s', p') \<noteq> (Some s, p)" for s' p'
  proof -
    have "filter (at_path s' p') (map (\<lambda>x. if lr_id x = lr_id u then u else x) (filter (\<lambda>_. True) (ct_rows db))) =
          filter (at_path s' p') (ct_rows db)"
    proof (rule filter_frame)
      fix x assume x: "x \<in> set (ct_rows db)"
      have "\<not> at_path s' p' r" "\<not> at_path s' p' u"
        using that r(2) u(2) by (auto simp: at_path_def)
      moreover have "x = r" if "lr_id x = lr_id u"
        using row_same_id[OF _ x r(1)] t that u(1) by (simp add: table_ok_def)
      ultimately show "at_path s' p' x \<Longrightarrow> True \<and> (if lr_id x = lr_id u then u else x) = x"
        and "\<not> at_path s' p' x \<Longrightarrow> \<not> at_path s' p' (if lr_id x = lr_id u then u else x)"
        by auto
    qed
    then show ?thesis by (simp add: set_lib_row_def)
  qed
  have "table_ok (db\<lparr>ct_rows := set_lib_row u (ct_rows db)\<rparr>)"
    using t u(3) set_lib_row_all[of "row_ok (ct_next db)" u "ct_rows db"] by (simp add: table_ok_def)
  then show ?thesis
    using latest_after_recompute[OF l frame] by (simp add: catalog_ok_def table_ok_recompute)
qed

lemma add_row_ok:
  assumes ok: "catalog_ok db" and u: "lr_id u = ct_next db" "at_path (Some s) p u" "row_ok (ct_next db + 1) u"
  shows "catalog_ok (db\<lparr>ct_rows := snd (recompute_is_latest (Some s) p (ct_rows db @ [u])), ct_next := ct_next db + 1\<rparr>)"
proof -
  have t: "table_ok db" and l: "\<And>s p. latest_at s p (ct_rows db)"
    using ok by (auto simp: catalog_ok_def)
  have frame: "filter (at_path s' p') (ct_rows db @ [u]) = filter (at_path s' p') (ct_rows db)" if "(s', p') \<noteq> (Some s, p)" for s' p'
    using that u(2) by (auto simp: at_path_def)
  have "table_ok (db\<lparr>ct_next := ct_next db + 1, ct_rows := ct_rows db @ [u]\<rparr>)"
    using t u by (force simp: table_ok_def list_all_iff row_ok_def)
  then have "table_ok (db\<lparr>ct_next := ct_next db + 1, ct_rows := snd (recompute_is_latest (Some s) p (ct_rows db @ [u]))\<rparr>)"
    by (simp only: table_ok_recompute)
  then have "table_ok (db\<lparr>ct_rows := snd (recompute_is_latest (Some s) p (ct_rows db @ [u])), ct_next := ct_next db + 1\<rparr>)"
    by (simp add: table_ok_def)
  then show ?thesis
    using latest_after_recompute[OF l frame] by (simp add: catalog_ok_def)
qed

lemma import_candidate_at:
  assumes "table_ok db" "import_candidate s p v (ct_rows db) = Some r"
  shows "r \<in> set (ct_rows db) \<and> at_path (Some s) p r"
proof -
  have r: "r \<in> set (ct_rows db)" "lr_source r = Some s" "lr_source_path r = Some p \<or> lr_path r = Some p"
    using assms(2) by (auto simp: import_candidate_def Let_def split: option.splits dest!: find_SomeD)
  then have "row_ok (ct_next db) r"
    using assms(1) by (auto simp: table_ok_def list_all_iff)
  then show ?thesis
    using r by (auto simp: row_ok_def at_path_def)
qed

lemma import_ok:
  assumes ok: "catalog_ok db" and p: "p \<noteq> ''''" and run: "import_pack_module s p pk url db = (res, db')"
  shows "catalog_ok db'"
proof (cases "import_candidate s p (pk_version pk) (ct_rows db)")
  case None
  then show ?thesis
    using run ok p
    by (auto simp: import_pack_module_def Let_def at_path_def row_ok_def truthy_str_def split: if_splits intro!: add_row_ok)
next
  case (Some r)
  have t: "table_ok db" using ok by (simp add: catalog_ok_def)
  then have r: "r \<in> set (ct_rows db)" "at_path (Some s) p r"
    using import_candidate_at Some by auto
  then have rk: "row_ok (ct_next db) r"
    using t by (auto simp: table_ok_def list_all_iff)
  have path: "row_path x p = p" if "lr_path x = Some p" for x
    using that p by (simp add: row_path_def opt_str_def truthy_str_def)
  have some: "some_or (Some p) q = Some p" for q
    using p by (simp add: some_or_def truthy_str_def)
  show ?thesis
    using run ok Some r rk path some
    by (auto simp: import_pack_module_def Let_def at_path_def row_ok_def truthy_str_def p split: if_splits option.splits intro!: set_row_ok[where r = r])
qed

lemma table_ok_same_ids:
  assumes "table_ok db" "map lr_id xs = map lr_id (ct_rows db)" "list_all (row_ok (ct_next db)) xs"
  shows "table_ok (db\<lparr>ct_rows := xs\<rparr>)"
proof -
  have "lr_id ` set xs = lr_id ` set (ct_rows db)"
    using assms(2) by (metis list.set_map)
  then show ?thesis
    using assms by (simp add: table_ok_def)
qed

lemma stale_ok:
  assumes ok: "catalog_ok db" and run: "inactivate_stale_manifest_modules s found db = (res, db')"
  shows "catalog_ok db'"
proof -
  let ?f = "\<lambda>r. if is_stale_manifest s found r then r\<lparr>lr_active := False\<rparr> else r"
  have t: "table_ok db" and l: "\<And>s p. latest_at s p (ct_rows db)"
    using ok by (auto simp: catalog_ok_def)
  define ps where "ps = stale_paths (filter (is_stale_manifest s found) (ct_rows db))"
  have db': "db' = db\<lparr>ct_rows := recompute_paths s ps (map ?f (ct_rows db))\<rparr>"
    using run by (auto simp: inactivate_stale_manifest_modules_def Let_def ps_def)
  have ps: "p \<in> set ps" if "r \<in> set (ct_rows db)" "is_stale_manifest s found r" "lr_path r = Some p" "truthy_str (lr_path r)" for r p
    using that by (force simp: ps_def stale_paths_def)

  have frame: "filter (at_path s' p') (map ?f (ct_rows db)) = filter (at_path s' p') (ct_rows db)"
    if out: "\<not> (s' = Some s \<and> p' \<in> set ps)" for s' p'
  proof -
    have "\<not> is_stale_manifest s found x" if "x \<in> set (ct_rows db)" "at_path s' p' x" for x
    proof
      assume "is_stale_manifest s found x"
      moreover have "truthy_str (lr_path x)"
        using that(1) t by (simp add: table_ok_def list_all_iff row_ok_def)
      ultimately show False
        using ps[of x p'] that out by (auto simp: at_path_def is_stale_manifest_def)
    qed
    then have "filter (at_path s' p') (map ?f (filter (\<lambda>_. True) (ct_rows db))) = filter (at_path s' p') (ct_rows db)"
      by (intro filter_frame) (auto simp: at_path_def)
    then show ?thesis by simp
  qed
  have "table_ok (db\<lparr>ct_rows := map ?f (ct_rows db)\<rparr>)"
    using t by (rule table_ok_same_ids) (use t in \<open>auto simp: table_ok_def list_all_iff row_ok_def\<close>)

  then show ?thesis
    using latest_after_recompute_paths[OF l frame] by (simp add: db' catalog_ok_def table_ok_recompute_paths)
qed

lemma delete_ok:
  assumes ok: "catalog_ok db" and run: "delete_user_module i db = Inr (b, db')"
  shows "catalog_ok db'"
proof (cases "db' = db")
  case False
  have t: "table_ok db" and l: "\<And>s p. latest_at s p (ct_rows db)"
    using ok by (auto simp: catalog_ok_def)
  let ?rows = "filter (\<lambda>x. lr_id x \<noteq> i) (ct_rows db)"
  obtain r where r: "r \<in> set (ct_rows db)" "lr_id r = i" and i: "i \<notin> set (ct_pins db)"
    and db: "db' = db\<lparr>ct_rows := if truthy_str (lr_path r) then snd (recompute_is_latest (lr_source r) (the (lr_path r)) ?rows) else ?rows\<rparr>"
    using run False by (auto simp: delete_user_module_def Let_def split: option.splits if_splits dest!: find_SomeD)
  have "truthy_str (lr_path r)"
    using r t by (auto simp: table_ok_def list_all_iff row_ok_def)
  then obtain p where p: "lr_path r = Some p"
    by (auto simp: truthy_str_def)
  have db': "db' = db\<lparr>ct_rows := snd (recompute_is_latest (lr_source r) p ?rows)\<rparr>"
    using db \<open>truthy_str (lr_path r)\<close> p by simp
  have frame: "filter (at_path s' p') ?rows = filter (at_path s' p') (ct_rows db)" if "(s', p') \<noteq> (lr_source r, p)" for s' p'
  proof -
    have "at_path s' p' x \<Longrightarrow> lr_id x \<noteq> i" if "x \<in> set (ct_rows db)" for x
      using row_same_id[OF _ that r(1)] t r(2) p \<open>(s', p') \<noteq> (lr_source r, p)\<close> by (auto simp: table_ok_def at_path_def)
    then show ?thesis
      by (auto intro!: filter_cong)
  qed
  have "table_ok (db\<lparr>ct_rows := ?rows\<rparr>)"
    using t i by (auto simp: table_ok_def list_all_iff distinct_map inj_on_def)
  then show ?thesis
    using latest_after_recompute[OF l frame] by (simp add: db' catalog_ok_def table_ok_recompute)
qed (use ok in simp)

lemma pruned_ids: "distinct (map lr_id rows) \<Longrightarrow> distinct (map lr_id (module_rows.pruned refs po P rows))"
proof -
  let ?items = "prune_items module_view refs po (filter P rows)"
  have "map lr_id (module_rows.after_prune items rows) =
        map lr_id (filter (\<lambda>x. \<not> (\<exists>it \<in> set items. lr_id (fst it) = lr_id x \<and> snd it = Removed)) rows)" for items
    by (simp add: module_rows.after_prune_def)
  then show "distinct (map lr_id rows) \<Longrightarrow> ?thesis"
    by (simp add: module_rows.pruned_def distinct_map inj_on_def)
qed

text \<open>At a path that the prune did not touch every row stays as it is.\<close>

lemma untouched_path:
  assumes ids: "distinct (map lr_id rows)" and paths: "list_all (\<lambda>r. truthy_str (lr_path r)) rows"
    and items: "items = prune_items module_view refs po (filter (\<lambda>r. lr_source r = Some s) rows)"
    and out: "\<not> (s' = Some s \<and> p' \<in> set (touched_paths module_view items))"
  shows "filter (at_path s' p') (module_rows.after_prune items rows) = filter (at_path s' p') rows"
proof -
  have still: "a \<noteq> Removed \<and> (hides a \<longrightarrow> \<not> lr_active x)"
    if x: "x \<in> set rows" "at_path s' p' x" and r: "(r, a) \<in> set items" "lr_id r = lr_id x" for x r a
  proof -
    have "r \<in> set rows" "lr_source r = Some s"
      using module_rows.item_row[OF r(1)[unfolded items]] by auto
    then have rx: "r = x"
      using row_same_id[OF ids _ x(1) r(2)] by blast
    then have "s' = Some s" "module_group r = p'"
      using x paths \<open>lr_source r = Some s\<close> by (auto simp: at_path_def module_group_def opt_str_def list_all_iff)
    then have "\<not> is_touched module_view (r, a)"
      using out r(1) by (force simp: touched_paths_def)
    then show ?thesis
      using rx by (cases a) (auto simp: is_touched_def hides_def)
  qed
  show ?thesis
    unfolding module_rows.after_prune_def
  proof (rule filter_frame)
    fix x assume x: "x \<in> set rows"
    show "at_path s' p' x \<Longrightarrow> \<not> (\<exists>it \<in> set items. rv_id module_view (fst it) = rv_id module_view x \<and> snd it = Removed) \<and>
        (if \<exists>it \<in> set items. rv_id module_view (fst it) = rv_id module_view x \<and> hides (snd it) then rv_hide module_view x else x) = x"
      using still[OF x] module_rows.hide_noop[of x] by fastforce
    show "\<not> at_path s' p' x \<Longrightarrow>
        \<not> at_path s' p' (if \<exists>it \<in> set items. rv_id module_view (fst it) = rv_id module_view x \<and> hides (snd it) then rv_hide module_view x else x)"
      by (auto simp: at_path_def)
  qed
qed

lemma prune_ok:
  assumes ok: "catalog_ok db" and run: "prune_module_source s po db = Inr (items, db')"
  shows "catalog_ok db'"
proof (cases "po_dry_run po")
  case True
  then show ?thesis
    using run ok by (auto simp: prune_module_source_def Let_def split: if_splits)
next
  case False
  have t: "table_ok db" and l: "\<And>s p. latest_at s p (ct_rows db)"
    using ok by (auto simp: catalog_ok_def)
  have ids: "distinct (map lr_id (ct_rows db))" and rows: "list_all (row_ok (ct_next db)) (ct_rows db)"
    using t by (auto simp: table_ok_def)
  let ?t = "module_rows.pruned (count_list (ct_pins db)) po (\<lambda>r. lr_source r = Some s) (ct_rows db)"
  have items: "items = prune_items module_view (count_list (ct_pins db)) po (filter (\<lambda>r. lr_source r = Some s) (ct_rows db))"
    and db': "db' = db\<lparr>ct_rows := recompute_paths s (touched_paths module_view items) ?t\<rparr>"
    using run False
    by (auto simp: prune_module_source_def module_rows.prune_apply_items module_rows.pruned_def Let_def split: if_splits)
  have "list_all (\<lambda>r. truthy_str (lr_path r)) (ct_rows db)"
    using rows by (auto simp: list_all_iff row_ok_def)
  then have frame: "filter (at_path s' p') ?t = filter (at_path s' p') (ct_rows db)"
    if "\<not> (s' = Some s \<and> p' \<in> set (touched_paths module_view items))" for s' p'
    using untouched_path[OF ids _ items that] items by (simp add: module_rows.pruned_def)
  have "list_all (row_ok (ct_next db)) ?t"
    using rows module_rows.pruned_origin by (fastforce simp: list_all_iff row_ok_def)
  moreover have "i \<in> lr_id ` set ?t" if i: "i \<in> set (ct_pins db)" for i
  proof -
    obtain r where r: "r \<in> set (ct_rows db)" "lr_id r = i"
      using i t by (auto simp: table_ok_def)
    then obtain a where "r\<lparr>lr_active := a\<rparr> \<in> set ?t"
      using pruned_pinned[OF ids r(1)] i by blast
    then show ?thesis
      using r(2) by (intro image_eqI[of _ _ "r\<lparr>lr_active := a\<rparr>"]) auto
  qed
  ultimately have "table_ok (db\<lparr>ct_rows := ?t\<rparr>)"
    using pruned_ids[OF ids] by (auto simp: table_ok_def)
  then show ?thesis
    using latest_after_recompute_paths[OF l frame] by (simp add: db' catalog_ok_def table_ok_recompute_paths)
qed

lemma catalog_step_ok: "catalog_step db db' \<Longrightarrow> catalog_ok db \<Longrightarrow> catalog_ok db'"
proof (induction rule: catalog_step.induct)
  case (prune_blueprint_step s po db releases db')
  then obtain rs where "db' = db\<lparr>ct_releases := rs\<rparr>"
    by (auto simp: prune_blueprint_source_def Let_def split: if_splits sum.splits) (metis catalog.surjective catalog.update_convs(5))
  then show ?case
    using prune_blueprint_step by (simp add: catalog_ok_def table_ok_def)
next
  case (pin_step pins db)
  then show ?case
    by (simp add: catalog_ok_def table_ok_def)
qed (auto intro: import_ok stale_ok prune_ok delete_ok)

interpretation catalog_history: invariant_system catalog_ok catalog_step catalog_ok
  by unfold_locales (auto intro: catalog_step_ok)

lemma latest_id_active:
  assumes "latest_id rows = Some i"
  shows "\<exists>r \<in> set rows. lr_id r = i \<and> lr_active r \<and> (\<forall>x \<in> set rows. lr_active x \<longrightarrow> row_key x \<le> row_key r)"
  using assms by (auto simp: latest_id_def dest!: max_by_Some)

lemma latest_id_max:
  assumes "r \<in> set rows" "lr_active r" "\<forall>x \<in> set rows. lr_active x \<longrightarrow> row_key x \<le> row_key r"
  shows "latest_id rows = Some (lr_id r)"
proof -
  have "max_by row_key (filter lr_active rows) \<noteq> None"
    using assms(1,2) by (auto simp: filter_empty_conv)
  then obtain m where m: "max_by row_key (filter lr_active rows) = Some m"
    by blast
  then have "m \<in> set rows" "lr_active m" "row_key r \<le> row_key m"
    using max_by_Some[OF m] assms(1,2) by auto
  then have "row_key m = row_key r"
    using assms(3) by (simp add: antisym)
  then show ?thesis
    using m by (simp add: latest_id_def row_key_def)
qed

lemma latest_iff_newest:
  assumes "catalog_ok db" "r \<in> set (ct_rows db)"
  shows "lr_latest r \<longleftrightarrow> lr_active r \<and>
     (\<forall>x \<in> set (ct_rows db). lr_active x \<and> lr_source x = lr_source r \<and> lr_path x = lr_path r \<longrightarrow> row_key x \<le> row_key r)"
proof -
  have t: "table_ok db" using assms(1) by (simp add: catalog_ok_def)
  then obtain p where p: "lr_path r = Some p"
    using assms(2) by (auto simp: table_ok_def list_all_iff row_ok_def truthy_str_def)
  let ?mine = "filter (at_path (lr_source r) p) (ct_rows db)"
  have r: "r \<in> set ?mine"
    using assms(2) p by (simp add: at_path_def)
  have "lr_latest r \<longleftrightarrow> latest_id ?mine = Some (lr_id r)"
    using assms r by (auto simp: catalog_ok_def latest_at_def)
  also have "\<dots> \<longleftrightarrow> lr_active r \<and> (\<forall>x \<in> set ?mine. lr_active x \<longrightarrow> row_key x \<le> row_key r)"
  proof
    assume "latest_id ?mine = Some (lr_id r)"
    then obtain y where "y \<in> set ?mine" "lr_id y = lr_id r" "lr_active y" "\<forall>x \<in> set ?mine. lr_active x \<longrightarrow> row_key x \<le> row_key y"
      using latest_id_active by blast
    moreover have "y = r"
      using calculation(1,2) row_same_id[of "ct_rows db" y r] assms(2) t by (simp add: table_ok_def)
    ultimately show "lr_active r \<and> (\<forall>x \<in> set ?mine. lr_active x \<longrightarrow> row_key x \<le> row_key r)"
      by simp
  qed (use latest_id_max[OF r] in blast)
  finally show ?thesis
    using p by (auto simp: at_path_def)
qed


section \<open>Frozen content\<close>

text \<open>Everything of a row but its two flags.\<close>

definition content :: "library_row \<Rightarrow> library_row" where
  "content r = r\<lparr>lr_active := False, lr_latest := False\<rparr>"

definition frozen_as :: "library_row \<Rightarrow> catalog \<Rightarrow> bool" where
  "frozen_as c db \<longleftrightarrow> catalog_ok db \<and> lr_id c < ct_next db \<and> lr_sha c \<noteq> None \<and>
     (\<forall>x \<in> set (ct_rows db). lr_id x = lr_id c \<longrightarrow> content x = content c)"

lemma content_columns: "content a = content b \<Longrightarrow> lr_id a = lr_id b \<and> lr_sha a = lr_sha b"
  by (cases a; cases b) (simp add: content_def)

lemma content_flags [simp]: "content (r\<lparr>lr_active := a\<rparr>) = content r" "content (r\<lparr>lr_latest := l\<rparr>) = content r" "content (unflag r) = content r"
  "lr_id (content r) = lr_id r"
  by (simp_all add: content_def unflag_def)

text \<open>A step that only makes rows out of rows with the same content, or out of fresh or unfrozen ones, keeps what is frozen.\<close>

lemma frozen_step:
  assumes "frozen_as c db" "catalog_ok db'" "ct_next db \<le> ct_next db'"
    and "\<And>x. x \<in> set (ct_rows db') \<Longrightarrow> lr_id x < ct_next db \<Longrightarrow> \<exists>r \<in> set (ct_rows db). lr_id r = lr_id x \<and> (lr_sha r = None \<or> content x = content r)"
  shows "frozen_as c db'"
  unfolding frozen_as_def
proof (intro conjI ballI impI)
  fix x assume x: "x \<in> set (ct_rows db')" "lr_id x = lr_id c"
  then obtain r where r: "r \<in> set (ct_rows db)" "lr_id r = lr_id x" "lr_sha r = None \<or> content x = content r"
    using assms(1) assms(4)[of x] by (auto simp: frozen_as_def)
  then have "content r = content c"
    using assms(1) x(2) by (simp add: frozen_as_def)
  then show "content x = content c"
    using r(3) content_columns[of r c] assms(1) by (auto simp: frozen_as_def)
qed (use assms in \<open>auto simp: frozen_as_def\<close>)

lemma content_of_unflag:
  assumes "map unflag xs = map unflag ys" "x \<in> set xs"
  shows "\<exists>y \<in> set ys. content x = content y"
proof -
  have "unflag x \<in> set (map unflag ys)"
    using assms by (metis image_eqI list.set_map)
  then obtain y where "y \<in> set ys" "unflag x = unflag y"
    by auto
  then show ?thesis
    by (metis content_flags(3))
qed

lemmas content_recompute = content_of_unflag[OF unflag_recompute]
lemmas content_recompute_paths = content_of_unflag[OF unflag_recompute_paths]

text \<open>The rows of \<^verbatim>\<open>xs\<close> below \<^verbatim>\<open>n\<close> come from unfrozen rows or keep their content.\<close>

definition carries :: "int \<Rightarrow> library_row list \<Rightarrow> library_row list \<Rightarrow> bool" where
  "carries n rows xs \<longleftrightarrow>
     (\<forall>x \<in> set xs. lr_id x < n \<longrightarrow> (\<exists>r \<in> set rows. lr_id r = lr_id x \<and> (lr_sha r = None \<or> content x = content r)))"

lemma carries_same: "(\<And>x. x \<in> set xs \<Longrightarrow> \<exists>r \<in> set rows. content x = content r) \<Longrightarrow> carries n rows xs"
  unfolding carries_def by (metis content_columns)

lemma carries_unflag: "map unflag xs = map unflag ys \<Longrightarrow> carries n rows ys \<Longrightarrow> carries n rows xs"
  unfolding carries_def by (metis content_columns content_of_unflag)

lemma carries_recompute: "carries n rows ys \<Longrightarrow> carries n rows (snd (recompute_is_latest s p ys))"
  by (rule carries_unflag[OF unflag_recompute])

lemma carries_recompute_paths: "carries n rows ys \<Longrightarrow> carries n rows (recompute_paths s ps ys)"
  by (rule carries_unflag[OF unflag_recompute_paths])

lemma carries_refl: "carries n rows rows"
  by (rule carries_same) blast

lemma carries_set_row:
  assumes "r \<in> set rows" "lr_id u = lr_id r" "lr_sha r = None \<or> content u = content r"
  shows "carries n rows (set_lib_row u rows)"
  unfolding carries_def using assms by (auto simp: set_lib_row_def)

lemma carries_add_row: "lr_id u = n \<Longrightarrow> carries n rows (rows @ [u])"
  using carries_refl[of n rows] by (auto simp: carries_def)

lemma import_carries:
  assumes "table_ok db" "import_pack_module s p pk url db = (res, db')"
  shows "carries (ct_next db) (ct_rows db) (ct_rows db') \<and> ct_next db \<le> ct_next db'"
proof (cases "import_candidate s p (pk_version pk) (ct_rows db)")
  case None
  then show ?thesis
    using assms(2)
    by (auto simp: import_pack_module_def Let_def carries_refl split: if_splits intro!: carries_recompute carries_add_row)
next
  case (Some r)
  then have "r \<in> set (ct_rows db)"
    using import_candidate_at assms(1) by blast
  then show ?thesis
    using assms(2) Some
    by (auto simp: import_pack_module_def Let_def carries_refl split: if_splits option.splits intro!: carries_recompute carries_set_row[of r])
qed

lemma pruned_carries: "carries n rows (module_rows.pruned refs po P rows)"
  by (rule carries_same) (use module_rows.pruned_origin[of _ refs po P rows] in fastforce)

lemma step_carries: "catalog_step db db' \<Longrightarrow> table_ok db \<Longrightarrow> carries (ct_next db) (ct_rows db) (ct_rows db') \<and> ct_next db \<le> ct_next db'"
proof (induction rule: catalog_step.induct)
  case (import_step p s pk url db res db')
  then show ?case by (intro import_carries)
next
  case (stale_step s found db res db')
  have "carries (ct_next db) (ct_rows db) (map (\<lambda>r. if is_stale_manifest s found r then r\<lparr>lr_active := False\<rparr> else r) (ct_rows db))"
    by (rule carries_same) auto
  then show ?case
    using stale_step by (auto simp: inactivate_stale_manifest_modules_def Let_def carries_recompute_paths)
next
  case (prune_step s po db items db')
  then show ?case
    using pruned_carries[of "ct_next db" "ct_rows db" "count_list (ct_pins db)" po "\<lambda>r. lr_source r = Some s"]
    by (auto simp: prune_module_source_def module_rows.prune_apply_items module_rows.pruned_def Let_def carries_refl
        split: if_splits intro!: carries_recompute_paths)
next
  case (prune_blueprint_step s po db releases db')
  then show ?case
    by (auto simp: prune_blueprint_source_def release_rows.prune_apply_items Let_def carries_refl split: if_splits)
next
  case (delete_step i db b db')
  have "carries (ct_next db) (ct_rows db) (filter (\<lambda>x. lr_id x \<noteq> i) (ct_rows db))"
    by (rule carries_same) auto
  then show ?case
    using delete_step by (auto simp: delete_user_module_def Let_def carries_refl carries_recompute split: option.splits if_splits)
next
  case (pin_step pins db)
  then show ?case by (simp add: carries_refl)
qed

lemma frozen_as_step: "catalog_step db db' \<Longrightarrow> frozen_as c db \<Longrightarrow> frozen_as c db'"
  using step_carries[of db db'] catalog_step_ok[of db db'] frozen_step[of c db db']
  by (auto simp: frozen_as_def catalog_ok_def carries_def)

interpretation frozen_history: invariant_system "frozen_as c" catalog_step "frozen_as c"
  by unfold_locales (auto intro: frozen_as_step)


section \<open>Re-pinning\<close>

text \<open>
  The pin of the project module at position \<^verbatim>\<open>k\<close> is moved to another active version of the same path and source; of
  several the one with the greatest id.
\<close>

definition change_module_version :: "nat \<Rightarrow> string \<Rightarrow> catalog \<Rightarrow> catalog_error + library_row \<times> catalog" where
  "change_module_version k v db =
     (if length (ct_pins db) \<le> k then Inl (NotFound (int k))
      else (case find (\<lambda>r. lr_id r = ct_pins db ! k) (ct_rows db) of
          None \<Rightarrow> Inl (NotFound (ct_pins db ! k))
        | Some cur \<Rightarrow>
            let t = str_strip v;
                fits = (\<lambda>r. lr_path r = lr_path cur \<and> lr_version r = Some t \<and> lr_source r = lr_source cur \<and> lr_active r)
            in if t = '''' then Inl EmptyVersion
               else if lr_version cur = Some t then Inr (cur, db)
               else (case max_by lr_id (filter fits (ct_rows db)) of
                   None \<Rightarrow> Inl (VersionNotFound (available_module_versions (lr_path cur) (lr_source cur) (ct_rows db)))
                 | Some target \<Rightarrow> Inr (target, db\<lparr>ct_pins := (ct_pins db)[k := lr_id target]\<rparr>))))"

text \<open>A re-pin never leaves the source and the path, and the version it pins is offered at the time.\<close>

lemma repin_stays:
  assumes "change_module_version k v db = Inr (r, db')"
  shows "\<exists>cur \<in> set (ct_rows db). lr_id cur = ct_pins db ! k \<and> r \<in> set (ct_rows db) \<and> lr_path r = lr_path cur \<and> lr_source r = lr_source cur \<and>
     lr_version r = Some (str_strip v) \<and> db' = db\<lparr>ct_pins := (ct_pins db)[k := lr_id r]\<rparr> \<and> (lr_active r \<or> db' = db)"
  using assms
  by (auto simp: change_module_version_def Let_def split: if_splits option.splits dest!: find_SomeD max_by_Some intro!: bexI)

lemma repin_is_step:
  assumes "change_module_version k v db = Inr (r, db')" "table_ok db"
  shows "catalog_step db db'"
proof -
  have r: "r \<in> set (ct_rows db)" "db' = db\<lparr>ct_pins := (ct_pins db)[k := lr_id r]\<rparr>"
    using repin_stays[OF assms(1)] by auto
  have "set ((ct_pins db)[k := lr_id r]) \<subseteq> insert (lr_id r) (set (ct_pins db))"
    by (rule set_update_subset_insert)
  also have "\<dots> \<subseteq> lr_id ` set (ct_rows db)"
    using assms(2) r(1) by (auto simp: table_ok_def)
  finally show ?thesis
    unfolding r(2) by (rule pin_step)
qed

section \<open>Examples\<close>

definition demo_pack :: "string \<Rightarrow> pack" where
  "demo_pack v = \<lparr>pk_version = Some v, pk_kind = None, pk_engine = None, pk_sha = ''h'' @ v\<rparr>"

definition empty_catalog :: catalog where
  "empty_catalog = \<lparr>ct_sources = [7], ct_rows = [], ct_pins = [], ct_blueprint_sources = [], ct_releases = [], ct_stacks = [], ct_next = 1\<rparr>"

definition synced :: "string list \<Rightarrow> catalog" where
  "synced vs = fold (\<lambda>v db. snd (import_pack_module 7 ''net/vpc'' (demo_pack v) ''git'' db)) vs empty_catalog"

lemma empty_catalog_ok: "catalog_ok empty_catalog"
  by (simp add: catalog_ok_def table_ok_def latest_at_def empty_catalog_def)

lemma synced_snoc: "synced (vs @ [v]) = snd (import_pack_module 7 ''net/vpc'' (demo_pack v) ''git'' (synced vs))"
  by (simp add: synced_def)

lemma synced_reachable: "catalog_step\<^sup>*\<^sup>* empty_catalog (synced vs)"
proof (induction vs rule: rev_induct)
  case Nil
  then show ?case by (simp add: synced_def)
next
  case (snoc v vs)
  have "catalog_step (synced vs) (synced (vs @ [v]))"
    unfolding synced_snoc
    by (rule import_step[of "''net/vpc''" 7 "demo_pack v" "''git''" _ "fst (import_pack_module 7 ''net/vpc'' (demo_pack v) ''git'' (synced vs))"]) auto
  then show ?case
    using snoc by simp
qed

definition demo_prune :: prune_opts where
  "demo_prune = \<lparr>po_keep = 1, po_delete = True, po_dry_run = False, po_include = False\<rparr>"

definition demo_row :: "int \<Rightarrow> string \<Rightarrow> library_row" where
  "demo_row i v = \<lparr>lr_id = i, lr_source = Some 7, lr_path = Some ''net/vpc'', lr_source_path = Some ''net/vpc'', lr_version = Some v,
     lr_sha = Some (''h'' @ v), lr_kind = Some ''git_catalog'', lr_engine = Some ''opentofu'', lr_git_source = ''git'', lr_manifest = True,
     lr_official = False, lr_active = True, lr_latest = False\<rparr>"

lemma synced_demo: "ct_rows (synced [''1.9.0'', ''1.10.0'']) = [demo_row 1 ''1.9.0'', (demo_row 2 ''1.10.0'')\<lparr>lr_latest := True\<rparr>]"
  by code_simp

definition pinned_demo :: catalog where
  "pinned_demo = (synced [''1.9.0'', ''1.10.0''])\<lparr>ct_pins := [1]\<rparr>"

lemma pinned_demo_facts: "ct_sources pinned_demo = [7] \<and> ct_pins pinned_demo = [1] \<and> map lr_id (ct_rows pinned_demo) = [1, 2]"
  by code_simp

theorem prune_module_safe_witness:
  "\<exists>items rows l. prune_module_source 7 demo_prune pinned_demo = Inr (items, pinned_demo\<lparr>ct_rows := rows\<rparr>) \<and>
     (demo_row 1 ''1.9.0'')\<lparr>lr_latest := l\<rparr> \<in> set rows"
proof -
  have "\<exists>items rows. prune_module_source 7 demo_prune pinned_demo = Inr (items, pinned_demo\<lparr>ct_rows := rows\<rparr>) \<and>
     (\<forall>r \<in> set (ct_rows pinned_demo). lr_id r \<in> set (ct_pins pinned_demo) \<longrightarrow>
           (\<exists>l a. r\<lparr>lr_active := a, lr_latest := l\<rparr> \<in> set rows \<and> (po_include demo_prune \<or> a = lr_active r)))"
  proof -
    have ids: "distinct (map lr_id (ct_rows pinned_demo))" and s: "7 \<in> set (ct_sources pinned_demo)"
      by (simp_all add: pinned_demo_facts)
    show ?thesis
      using prune_module_safe[OF ids s, of demo_prune] by blast
  qed
  moreover have "demo_row 1 ''1.9.0'' \<in> set (ct_rows pinned_demo)" "lr_id (demo_row 1 ''1.9.0'') \<in> set (ct_pins pinned_demo)" "\<not> po_include demo_prune"
    by (simp_all add: pinned_demo_def synced_demo demo_prune_def demo_row_def)
  moreover have "(demo_row 1 ''1.9.0'')\<lparr>lr_active := lr_active (demo_row 1 ''1.9.0''), lr_latest := l\<rparr> = (demo_row 1 ''1.9.0'')\<lparr>lr_latest := l\<rparr>" for l
    by simp
  ultimately show ?thesis by metis
qed



text \<open>Build numbers after the dash compare as text: the later build is not the latest.\<close>

lemma prerelease_builds_compare_as_text:
  "map lr_latest (ct_rows (synced [''2.3.1-3.2598.3-0.0.53'', ''2.3.1-3.2598.3-0.0.304''])) = [True, False]"
  by code_simp

end
