(* ===== verification/Bare_Metal.thy ===== *)
theory Bare_Metal
  imports Prelude
begin

text \<open>
  Bare-metal deployments (\<^verbatim>\<open>src/backend/services/bare_metal/orchestrator.py\<close>, the routes in
  \<^verbatim>\<open>src/backend/routes/bare_metal_deployments.py\<close> and the task in \<^verbatim>\<open>src/backend/tasks/bare_metal_tasks.py\<close>)
  and the default of the deployable releases (\<^verbatim>\<open>src/backend/services/bare_metal/version_profiles.py\<close>): the step
  registries of the topologies, creation with a selection of steps, preview, execution, resume and cancel. What a
  step does is a parameter of the execution. Times, descriptions and the frozen release matrix are left out.
\<close>

section \<open>Step registries\<close>

datatype phase = Phase_1_Dpu | Phase_2_K8s | Phase_3_Join | Phase_4_Platform

fun phase_value :: "phase \<Rightarrow> string" where
  "phase_value Phase_1_Dpu = ''phase_1_dpu''"
| "phase_value Phase_2_K8s = ''phase_2_k8s''"
| "phase_value Phase_3_Join = ''phase_3_join''"
| "phase_value Phase_4_Platform = ''phase_4_platform''"

record step_definition =
  sd_phase :: phase
  sd_name :: string
  sd_risk :: bool
  sd_mechanism :: "string option"
  sd_duration :: nat
  sd_prerequisites :: "string list"
  sd_idempotent :: bool

abbreviation step_def :: "phase \<Rightarrow> string \<Rightarrow> bool \<Rightarrow> string option \<Rightarrow> nat \<Rightarrow> string list \<Rightarrow> bool \<Rightarrow> step_definition" where
  "step_def ph n risk mech dur pre idem \<equiv>
     \<lparr>sd_phase = ph, sd_name = n, sd_risk = risk, sd_mechanism = mech, sd_duration = dur, sd_prerequisites = pre, sd_idempotent = idem\<rparr>"

definition REGULAR_STEPS :: "step_definition list" where
  "REGULAR_STEPS =
    [step_def Phase_1_Dpu ''probe_dpu_state'' False None 30 [] True,
     step_def Phase_1_Dpu ''flash_dpu'' False None 600 [''probe_dpu_state''] False,
     step_def Phase_1_Dpu ''wait_dpu_ready'' False None 300 [''flash_dpu''] True,
     step_def Phase_1_Dpu ''install_dpu_prereqs'' False None 120 [''wait_dpu_ready''] True,
     step_def Phase_2_K8s ''install_k8s_prereqs'' False None 120 [] True,
     step_def Phase_2_K8s ''kubeadm_init'' False None 180 [''install_k8s_prereqs''] False,
     step_def Phase_2_K8s ''install_cni'' False None 60 [''kubeadm_init''] True,
     step_def Phase_2_K8s ''install_cert_manager'' False None 60 [''kubeadm_init''] True,
     step_def Phase_2_K8s ''install_sriov'' False None 60 [''kubeadm_init''] True,
     step_def Phase_2_K8s ''install_multus'' False None 60 [''kubeadm_init''] True,
     step_def Phase_2_K8s ''install_storage'' False None 60 [''kubeadm_init''] True,
     step_def Phase_3_Join ''kubeadm_join'' False None 120 [''install_k8s_prereqs''] False,
     step_def Phase_3_Join ''label_dpu_node'' False None 10 [''kubeadm_join''] True,
     step_def Phase_3_Join ''taint_dpu_node'' False None 10 [''kubeadm_join''] True,
     step_def Phase_4_Platform ''install_flo'' False None 180 [''kubeadm_join''] True,
     step_def Phase_4_Platform ''deploy_bnk_cr'' False None 120 [''install_flo''] True,
     step_def Phase_4_Platform ''install_cwc_certs'' False None 30 [''deploy_bnk_cr''] True,
     step_def Phase_4_Platform ''install_otel_certs'' False None 30 [''deploy_bnk_cr''] True,
     step_def Phase_4_Platform ''deploy_observability'' False None 120 [''deploy_bnk_cr''] True]"

definition SHARED_PHASE_2_4 :: "step_definition list" where
  "SHARED_PHASE_2_4 = drop 4 REGULAR_STEPS"

definition BF3_STEPS :: "step_definition list" where
  "BF3_STEPS =
    [step_def Phase_1_Dpu ''probe_dpu_state'' False None 30 [] True,
     step_def Phase_1_Dpu ''stage_vf_netplan'' False None 30 [''probe_dpu_state''] True,
     step_def Phase_1_Dpu ''install_fallback_timer'' False None 30 [''probe_dpu_state''] True,
     step_def Phase_1_Dpu ''flash_dpu'' True (Some ''pre_staged_netplan'') 600 [''probe_dpu_state''] False,
     step_def Phase_1_Dpu ''wait_connectivity_restore'' False None 300 [''flash_dpu''] True,
     step_def Phase_1_Dpu ''install_dpu_prereqs'' False None 120 [''wait_connectivity_restore''] True] @ SHARED_PHASE_2_4"

definition BF3_IPMI_STEPS :: "step_definition list" where
  "BF3_IPMI_STEPS =
    [step_def Phase_1_Dpu ''probe_dpu_state'' False None 30 [] True,
     step_def Phase_1_Dpu ''set_nic_mode_mlxconfig'' False None 30 [''probe_dpu_state''] True,
     step_def Phase_1_Dpu ''deposit_phase_c'' False None 60 [''set_nic_mode_mlxconfig''] True,
     step_def Phase_1_Dpu ''ipmi_power_cycle'' True (Some ''phase_c_bootstrap'') 120 [''deposit_phase_c''] False,
     step_def Phase_1_Dpu ''wait_connectivity_restore'' False None 300 [''ipmi_power_cycle''] True,
     step_def Phase_1_Dpu ''flash_dpu'' True (Some ''post_flash_watcher'') 600 [''wait_connectivity_restore''] False,
     step_def Phase_1_Dpu ''wait_dpu_ready'' False None 300 [''flash_dpu''] True,
     step_def Phase_1_Dpu ''install_dpu_prereqs'' False None 120 [''wait_dpu_ready''] True] @ SHARED_PHASE_2_4"

definition BMC_STEPS :: "step_definition list" where
  "BMC_STEPS =
    [step_def Phase_1_Dpu ''probe_dpu_state'' False None 30 [] True,
     step_def Phase_1_Dpu ''set_nic_mode_redfish'' False None 30 [''probe_dpu_state''] True,
     step_def Phase_1_Dpu ''deposit_phase_c'' False None 60 [''set_nic_mode_redfish''] True,
     step_def Phase_1_Dpu ''redfish_cold_boot'' True (Some ''phase_c_bootstrap'') 120 [''deposit_phase_c''] False,
     step_def Phase_1_Dpu ''wait_connectivity_restore'' False None 300 [''redfish_cold_boot''] True,
     step_def Phase_1_Dpu ''flash_dpu'' True (Some ''post_flash_watcher'') 600 [''wait_connectivity_restore''] False,
     step_def Phase_1_Dpu ''wait_dpu_ready'' False None 300 [''flash_dpu''] True,
     step_def Phase_1_Dpu ''install_dpu_prereqs'' False None 120 [''wait_dpu_ready''] True] @ SHARED_PHASE_2_4"

definition DUAL_DPU_OBMC_STEPS :: "step_definition list" where
  "DUAL_DPU_OBMC_STEPS =
    [step_def Phase_1_Dpu ''probe_dpu_state'' False None 45 [] True,
     step_def Phase_1_Dpu ''flash_dpu'' False None 600 [''probe_dpu_state''] False,
     step_def Phase_1_Dpu ''wait_dpu_ready'' False None 300 [''flash_dpu''] True,
     step_def Phase_1_Dpu ''setup_dpu_networking'' False None 30 [''wait_dpu_ready''] True,
     step_def Phase_1_Dpu ''install_dpu_prereqs'' False None 120 [''setup_dpu_networking''] True] @ SHARED_PHASE_2_4"

definition TOPOLOGY_STEPS :: "(string \<times> step_definition list) list" where
  "TOPOLOGY_STEPS =
    [(''regular'', REGULAR_STEPS), (''bf3'', BF3_STEPS), (''bf3_ipmi'', BF3_IPMI_STEPS), (''bmc'', BMC_STEPS),
     (''dual_dpu_obmc'', DUAL_DPU_OBMC_STEPS)]"

section \<open>Rows\<close>

datatype deployment_status = Pending | Discovering | Planning | In_Progress | Paused | Completed | Failed | Cancelled

datatype step_status = Step_Pending | Step_Running | Step_Completed | Step_Failed | Step_Skipped

definition terminal_states :: "deployment_status set" where
  "terminal_states = {Completed, Failed, Cancelled}"

record bstep =
  bs_index :: nat
  bs_phase :: string
  bs_name :: string
  bs_status :: step_status
  bs_already_done :: bool
  bs_risk :: bool
  bs_mechanism :: "string option"
  bs_exit_code :: "int option"
  bs_output :: "string option"
  bs_error :: "string option"

record deployment =
  bd_id :: int
  bd_host :: int
  bd_project :: int
  bd_topology :: string
  bd_release :: int
  bd_status :: deployment_status
  bd_phase :: "string option"
  bd_index :: nat
  bd_task :: "int option"
  bd_resume :: "int option"
  bd_selected_phases :: "string list option"
  bd_selected_steps :: "string list option"
  bd_error :: "string option"
  bd_error_phase :: "string option"
  bd_error_index :: "nat option"
  bd_steps :: "bstep list"

record bm_host =
  bh_id :: int
  bh_project :: int
  bh_topology :: "string option"
  bh_bmc_ip :: "string option"
  bh_dpu_pci :: "string option"
  bh_rshim :: "bool option"
  bh_k8s_running :: bool
  bh_cluster :: "int option"
  bh_release :: "int option"

record bm_release =
  br_id :: int
  br_name :: string
  br_active :: bool
  br_default :: bool

text \<open>The tables, the next ids, and the tasks handed to the broker.\<close>

record bm_db =
  bm_hosts :: "bm_host list"
  bm_releases :: "bm_release list"
  bm_deployments :: "deployment list"
  bm_next :: int
  bm_queue :: "(int \<times> int) list"
  bm_next_task :: int

datatype bm_error =
  Host_Missing int | Topology_Unset | Topology_Incomplete "string list" | Workers_Missing "int list"
| Active_Deployment int int deployment_status | Unknown_Topology string | Release_Missing int | Release_Inactive int
| No_Default_Release | Deployment_Missing int | Cannot_Resume deployment_status | Cannot_Cancel deployment_status | Step_Raised string

definition get_steps_for_topology :: "string \<Rightarrow> bm_error + step_definition list" where
  "get_steps_for_topology t =
     (case map_of TOPOLOGY_STEPS t of None \<Rightarrow> Inl (Unknown_Topology t) | Some steps \<Rightarrow> Inr steps)"

definition set_deployment :: "deployment \<Rightarrow> bm_db \<Rightarrow> bm_db" where
  "set_deployment d db = db\<lparr>bm_deployments := map (\<lambda>x. if bd_id x = bd_id d then d else x) (bm_deployments db)\<rparr>"

definition set_host :: "bm_host \<Rightarrow> bm_db \<Rightarrow> bm_db" where
  "set_host h db = db\<lparr>bm_hosts := map (\<lambda>x. if bh_id x = bh_id h then h else x) (bm_hosts db)\<rparr>"

definition blank :: "string option \<Rightarrow> bool" where
  "blank x \<longleftrightarrow> x = None \<or> x = Some ''''"

section \<open>Creation and preview\<close>

definition get_host_for_project :: "int \<Rightarrow> int \<Rightarrow> bm_db \<Rightarrow> bm_error + bm_host" where
  "get_host_for_project h p db =
     (case find (\<lambda>x. bh_id x = h \<and> bh_project x = p) (bm_hosts db) of None \<Rightarrow> Inl (Host_Missing h) | Some x \<Rightarrow> Inr x)"

definition validate_topology_prerequisites :: "bm_host \<Rightarrow> bm_error option" where
  "validate_topology_prerequisites h =
     (if bh_topology h = Some ''dual_dpu_obmc''
      then let missing = (if blank (bh_bmc_ip h) then [''bmc_ip''] else []) @
                         (if blank (bh_dpu_pci h) then [''deploy_dpu_pci_address''] else [])
           in if missing \<noteq> [] then Some (Topology_Incomplete missing) else None
      else None)"

definition missing_workers :: "int list \<Rightarrow> int \<Rightarrow> bm_db \<Rightarrow> int list" where
  "missing_workers ws p db = sort (remdups (filter (\<lambda>w. \<not> list_ex (\<lambda>h. bh_id h = w \<and> bh_project h = p) (bm_hosts db)) ws))"

definition active_on :: "int list \<Rightarrow> bm_db \<Rightarrow> deployment option" where
  "active_on hs db = find (\<lambda>d. bd_host d \<in> set hs \<and> bd_status d \<notin> terminal_states) (bm_deployments db)"

definition determine_selected_steps :: "step_definition list \<Rightarrow> string list option \<Rightarrow> string list option \<Rightarrow> string set" where
  "determine_selected_steps defs phases steps =
     (case steps of
        Some ns \<Rightarrow> set ns
      | None \<Rightarrow> (case phases of
            Some ps \<Rightarrow> set (map sd_name (filter (\<lambda>s. phase_value (sd_phase s) \<in> set ps) defs))
          | None \<Rightarrow> set (map sd_name defs)))"

definition validate_phase_prerequisites :: "bm_host \<Rightarrow> string list option \<Rightarrow> nat list" where
  "validate_phase_prerequisites h phases =
     (case phases of
        None \<Rightarrow> []
      | Some ps \<Rightarrow>
          (if ''phase_2_k8s'' \<in> set ps \<and> ''phase_1_dpu'' \<notin> set ps \<and> bh_rshim h = Some False then [2] else []) @
          (if ''phase_3_join'' \<in> set ps \<and> ''phase_2_k8s'' \<notin> set ps \<and> \<not> bh_k8s_running h then [3] else []) @
          (if ''phase_4_platform'' \<in> set ps \<and> ''phase_3_join'' \<notin> set ps \<and> (bh_cluster h = None \<or> bh_cluster h = Some 0) then [4] else []))"

definition resolve_deployable_release :: "int option \<Rightarrow> bm_db \<Rightarrow> bm_error + bm_release" where
  "resolve_deployable_release rid db =
     (case rid of
        Some i \<Rightarrow> (case find (\<lambda>r. br_id r = i) (bm_releases db) of
            None \<Rightarrow> Inl (Release_Missing i)
          | Some r \<Rightarrow> if br_active r then Inr r else Inl (Release_Inactive i))
      | None \<Rightarrow> (case find br_default (bm_releases db) of None \<Rightarrow> Inl No_Default_Release | Some r \<Rightarrow> Inr r))"

definition new_step :: "string set \<Rightarrow> nat \<Rightarrow> step_definition \<Rightarrow> bstep" where
  "new_step sel i s =
     \<lparr>bs_index = i, bs_phase = phase_value (sd_phase s), bs_name = sd_name s,
      bs_status = (if sd_name s \<in> sel then Step_Pending else Step_Skipped), bs_already_done = False,
      bs_risk = sd_risk s, bs_mechanism = sd_mechanism s, bs_exit_code = None, bs_output = None, bs_error = None\<rparr>"

record create_request =
  cr_workers :: "int list"
  cr_resume :: "int option"
  cr_phases :: "string list option"
  cr_steps :: "string list option"
  cr_release :: "int option"

definition create_deployment :: "int \<Rightarrow> int \<Rightarrow> create_request \<Rightarrow> bm_db \<Rightarrow> bm_error + deployment \<times> bm_db" where
  "create_deployment h p cr db =
     (case get_host_for_project h p db of
        Inl e \<Rightarrow> Inl e
      | Inr host \<Rightarrow>
          if blank (bh_topology host) then Inl Topology_Unset
          else (case validate_topology_prerequisites host of
              Some e \<Rightarrow> Inl e
            | None \<Rightarrow>
                if missing_workers (cr_workers cr) p db \<noteq> [] then Inl (Workers_Missing (missing_workers (cr_workers cr) p db))
                else (case active_on (h # cr_workers cr) db of
                    Some a \<Rightarrow> Inl (Active_Deployment (bd_host a) (bd_id a) (bd_status a))
                  | None \<Rightarrow> (case get_steps_for_topology (the (bh_topology host)) of
                        Inl e \<Rightarrow> Inl e
                      | Inr defs \<Rightarrow> (case resolve_deployable_release (cr_release cr) db of
                            Inl e \<Rightarrow> Inl e
                          | Inr rel \<Rightarrow>
                              let sel = determine_selected_steps defs (cr_phases cr) (cr_steps cr);
                                  d = \<lparr>bd_id = bm_next db, bd_host = h, bd_project = p, bd_topology = the (bh_topology host),
                                       bd_release = br_id rel, bd_status = Pending, bd_phase = None, bd_index = 0, bd_task = None,
                                       bd_resume = cr_resume cr, bd_selected_phases = cr_phases cr, bd_selected_steps = cr_steps cr,
                                       bd_error = None, bd_error_phase = None, bd_error_index = None,
                                       bd_steps = map2 (new_step sel) [0..<length defs] defs\<rparr>
                              in Inr (d, (set_host (host\<lparr>bh_release := Some (br_id rel)\<rparr>) db)
                                          \<lparr>bm_deployments := bm_deployments db @ [d], bm_next := bm_next db + 1\<rparr>))))))"

record plan_preview =
  pv_topology :: string
  pv_total :: nat
  pv_selected :: nat
  pv_duration :: nat
  pv_steps :: "(nat \<times> step_definition \<times> bool) list"
  pv_warnings :: "nat list"

definition preview_deployment :: "int \<Rightarrow> int \<Rightarrow> string list option \<Rightarrow> string list option \<Rightarrow> bm_db \<Rightarrow> bm_error + plan_preview" where
  "preview_deployment h p phases steps db =
     (case get_host_for_project h p db of
        Inl e \<Rightarrow> Inl e
      | Inr host \<Rightarrow>
          if blank (bh_topology host) then Inl Topology_Unset
          else (case get_steps_for_topology (the (bh_topology host)) of
              Inl e \<Rightarrow> Inl e
            | Inr defs \<Rightarrow>
                let sel = determine_selected_steps defs phases steps;
                    chosen = filter (\<lambda>s. sd_name s \<in> sel) defs
                in Inr \<lparr>pv_topology = the (bh_topology host), pv_total = length defs, pv_selected = length chosen,
                        pv_duration = sum_list (map sd_duration chosen),
                        pv_steps = map2 (\<lambda>i s. (i, s, sd_name s \<in> sel)) [0..<length defs] defs,
                        pv_warnings = validate_phase_prerequisites host phases\<rparr>))"

section \<open>Execution\<close>

datatype step_outcome = Done int string | Already_Done | Raises string

text \<open>The phase services are not there yet: every step succeeds.\<close>

definition execute_step :: "bstep \<Rightarrow> step_outcome" where
  "execute_step s = Done 0 (''Step '' @ bs_name s @ '' executed (placeholder)'')"

text \<open>\<^verbatim>\<open>steps[start:]\<close> starts here; a negative start counts from the end.\<close>

definition slice_start :: "int \<Rightarrow> nat \<Rightarrow> nat" where
  "slice_start i n = (if i < 0 then nat (max 0 (int n + i)) else min (nat i) n)"

definition get_deployment :: "int \<Rightarrow> bm_db \<Rightarrow> bm_error + deployment" where
  "get_deployment i db = (case find (\<lambda>d. bd_id d = i) (bm_deployments db) of None \<Rightarrow> Inl (Deployment_Missing i) | Some d \<Rightarrow> Inr d)"

record run_state =
  rs_deployment :: deployment
  rs_steps :: "bstep list"
  rs_completed :: nat
  rs_skipped :: nat

text \<open>The loop: the steps done so far are collected in order; a step that raises ends it.\<close>

fun run_steps :: "(bstep \<Rightarrow> step_outcome) \<Rightarrow> bstep list \<Rightarrow> run_state \<Rightarrow> string option \<times> run_state" where
  "run_steps ex [] r = (None, r)"
| "run_steps ex (s # ss) r =
     (let s1 = s\<lparr>bs_status := Step_Running\<rparr>;
          d1 = (rs_deployment r)\<lparr>bd_index := bs_index s, bd_phase := Some (bs_phase s)\<rparr>
      in case ex s1 of
           Raises e \<Rightarrow>
             (Some e, r\<lparr>rs_deployment := d1\<lparr>bd_status := Failed, bd_error := Some e, bd_error_phase := Some (bs_phase s),
                                             bd_error_index := Some (bs_index s)\<rparr>,
                        rs_steps := rs_steps r @ [s1\<lparr>bs_status := Step_Failed, bs_error := Some e\<rparr>] @ ss\<rparr>)
         | Already_Done \<Rightarrow>
             run_steps ex ss (r\<lparr>rs_deployment := d1, rs_steps := rs_steps r @ [s1\<lparr>bs_status := Step_Skipped, bs_already_done := True\<rparr>],
                                rs_skipped := rs_skipped r + 1\<rparr>)
         | Done c out \<Rightarrow>
             run_steps ex ss (r\<lparr>rs_deployment := d1,
                                rs_steps := rs_steps r @ [s1\<lparr>bs_status := Step_Completed, bs_exit_code := Some c, bs_output := Some out\<rparr>],
                                rs_completed := rs_completed r + 1\<rparr>))"

definition execute_deployment ::
  "(bstep \<Rightarrow> step_outcome) \<Rightarrow> int \<Rightarrow> bm_db \<Rightarrow> (bm_error + nat \<times> nat \<times> nat) \<times> bm_db" where
  "execute_deployment ex i db =
     (case get_deployment i db of
        Inl e \<Rightarrow> (Inl e, db)
      | Inr d \<Rightarrow>
          let steps = sort_key bs_index (bd_steps d);
              k = slice_start (case bd_resume d of None \<Rightarrow> 0 | Some n \<Rightarrow> n) (length steps)
          in case run_steps ex (drop k steps)
                    \<lparr>rs_deployment = d\<lparr>bd_status := In_Progress\<rparr>, rs_steps = take k steps, rs_completed = 0, rs_skipped = 0\<rparr> of
               (Some e, r) \<Rightarrow> (Inl (Step_Raised e), set_deployment ((rs_deployment r)\<lparr>bd_steps := rs_steps r\<rparr>) db)
             | (None, r) \<Rightarrow>
                 (Inr (rs_completed r, rs_skipped r, length steps),
                  set_deployment ((rs_deployment r)\<lparr>bd_steps := rs_steps r, bd_status := Completed\<rparr>) db))"

definition execute_bare_metal_deployment ::
  "(bstep \<Rightarrow> step_outcome) \<Rightarrow> int \<Rightarrow> int \<Rightarrow> bm_db \<Rightarrow> (bm_error + nat \<times> nat \<times> nat) \<times> bm_db" where
  "execute_bare_metal_deployment ex t i db =
     (case get_deployment i db of
        Inl e \<Rightarrow> (Inl e, db)
      | Inr d \<Rightarrow> execute_deployment ex i (set_deployment (d\<lparr>bd_task := Some t\<rparr>) db))"

section \<open>Resume and cancel\<close>

definition reset_step :: "bstep \<Rightarrow> bstep" where
  "reset_step s = s\<lparr>bs_status := Step_Pending, bs_error := None, bs_output := None, bs_exit_code := None\<rparr>"

definition resume_deployment :: "int \<Rightarrow> int option \<Rightarrow> bm_db \<Rightarrow> bm_error + deployment \<times> bm_db" where
  "resume_deployment i from_step db =
     (case get_deployment i db of
        Inl e \<Rightarrow> Inl e
      | Inr d \<Rightarrow>
          if bd_status d \<notin> {Failed, Paused} then Inl (Cannot_Resume (bd_status d))
          else let n = (case from_step of Some k \<Rightarrow> k | None \<Rightarrow> (case bd_error_index d of Some k \<Rightarrow> int k | None \<Rightarrow> 0));
                   d1 = d\<lparr>bd_resume := Some n, bd_error := None, bd_error_phase := None, bd_error_index := None, bd_status := Pending,
                          bd_steps := map (\<lambda>s. if n \<le> int (bs_index s) \<and> bs_status s = Step_Failed then reset_step s else s) (bd_steps d)\<rparr>
               in Inr (d1, set_deployment d1 db))"

definition cancel_deployment :: "int \<Rightarrow> bm_db \<Rightarrow> bm_error + deployment \<times> bm_db" where
  "cancel_deployment i db =
     (case get_deployment i db of
        Inl e \<Rightarrow> Inl e
      | Inr d \<Rightarrow>
          if bd_status d \<in> terminal_states then Inl (Cannot_Cancel (bd_status d))
          else let d1 = d\<lparr>bd_status := Cancelled\<rparr>;
                   db1 = set_deployment d1 db
               in Inr (d1, case bd_task d of None \<Rightarrow> db1 | Some t \<Rightarrow> db1\<lparr>bm_queue := filter (\<lambda>(u, _). u \<noteq> t) (bm_queue db1)\<rparr>))"

section \<open>Routes\<close>

definition dispatch :: "deployment \<Rightarrow> bm_db \<Rightarrow> bm_db" where
  "dispatch d db = (set_deployment (d\<lparr>bd_task := Some (bm_next_task db)\<rparr>) db)
     \<lparr>bm_queue := bm_queue db @ [(bm_next_task db, bd_id d)], bm_next_task := bm_next_task db + 1\<rparr>"

text \<open>The project of the path is the one whose owner may call the route.\<close>

definition create_route :: "int \<Rightarrow> int \<Rightarrow> create_request \<Rightarrow> bool \<Rightarrow> bm_db \<Rightarrow> bm_error + bm_db" where
  "create_route project h cr skip_discovery db =
     (case create_deployment h project cr db of
        Inl e \<Rightarrow> Inl e
      | Inr (d, db1) \<Rightarrow> Inr (if skip_discovery then db1 else dispatch d db1))"

definition resume_route :: "int \<Rightarrow> int \<Rightarrow> int option \<Rightarrow> bm_db \<Rightarrow> bm_error + bm_db" where
  "resume_route project i from_step db =
     (case resume_deployment i from_step db of Inl e \<Rightarrow> Inl e | Inr (d, db1) \<Rightarrow> Inr (dispatch d db1))"

definition cancel_route :: "int \<Rightarrow> int \<Rightarrow> bm_db \<Rightarrow> bm_error + bm_db" where
  "cancel_route project i db = (case cancel_deployment i db of Inl e \<Rightarrow> Inl e | Inr (d, db1) \<Rightarrow> Inr db1)"

section \<open>Deployable releases\<close>

definition create_profile :: "bm_release \<Rightarrow> bm_db \<Rightarrow> bm_db" where
  "create_profile r db = db\<lparr>bm_releases := bm_releases db @ [r]\<rparr>"

definition set_release_active :: "int \<Rightarrow> bool \<Rightarrow> bm_db \<Rightarrow> bm_error + bm_db" where
  "set_release_active i a db =
     (case find (\<lambda>r. br_id r = i) (bm_releases db) of
        None \<Rightarrow> Inl (Release_Missing i)
      | Some r \<Rightarrow> Inr (db\<lparr>bm_releases := map (\<lambda>x. if br_id x = i then x\<lparr>br_active := a\<rparr> else x) (bm_releases db)\<rparr>))"

definition set_default :: "int \<Rightarrow> bm_db \<Rightarrow> bm_error + bm_db" where
  "set_default i db =
     (case find (\<lambda>r. br_id r = i) (bm_releases db) of
        None \<Rightarrow> Inl (Release_Missing i)
      | Some r \<Rightarrow> Inr (db\<lparr>bm_releases := map (\<lambda>x. x\<lparr>br_default := (br_id x = i)\<rparr>) (bm_releases db)\<rparr>))"

section \<open>The registries\<close>

fun phase_rank :: "phase \<Rightarrow> nat" where
  "phase_rank Phase_1_Dpu = 1"
| "phase_rank Phase_2_K8s = 2"
| "phase_rank Phase_3_Join = 3"
| "phase_rank Phase_4_Platform = 4"

fun prerequisites_first :: "string list \<Rightarrow> step_definition list \<Rightarrow> bool" where
  "prerequisites_first seen [] = True"
| "prerequisites_first seen (s # ss) \<longleftrightarrow> set (sd_prerequisites s) \<subseteq> set seen \<and> prerequisites_first (sd_name s # seen) ss"

definition registry_ok :: "step_definition list \<Rightarrow> bool" where
  "registry_ok defs \<longleftrightarrow> distinct (map sd_name defs) \<and> prerequisites_first [] defs \<and> sorted (map (phase_rank \<circ> sd_phase) defs) \<and>
     list_all (\<lambda>s. sd_risk s = (sd_mechanism s \<noteq> None)) defs"

lemma prerequisites_first_nth:
  "prerequisites_first seen defs \<Longrightarrow> i < length defs \<Longrightarrow> q \<in> set (sd_prerequisites (defs ! i)) \<Longrightarrow>
     q \<in> set seen \<or> (\<exists>j < i. sd_name (defs ! j) = q)"
proof (induction defs arbitrary: seen i)
  case (Cons s ss)
  show ?case
  proof (cases i)
    case 0
    then show ?thesis using Cons.prems by auto
  next
    case (Suc k)
    then have "q \<in> set (sd_name s # seen) \<or> (\<exists>j < k. sd_name (ss ! j) = q)"
      using Cons.IH[of "sd_name s # seen" k] Cons.prems by auto
    then show ?thesis
      using Suc by (metis Suc_less_eq nth_Cons_0 nth_Cons_Suc set_ConsD zero_less_Suc)
  qed
qed simp

lemma registries_ok: "list_all (\<lambda>(t, defs). registry_ok defs) TOPOLOGY_STEPS"
  by code_simp

lemma registry_ok_topology: "get_steps_for_topology t = Inr defs \<Longrightarrow> registry_ok defs"
  using registries_ok by (auto simp: get_steps_for_topology_def list_all_iff split: option.splits dest!: map_of_SomeD)

text \<open>
  The plan of every topology is well formed: step names are distinct, every prerequisite of a step comes
  before it, the phases come in order, and exactly the steps that may cut the connection name the mechanism that preserves it.
\<close>

theorem registries_wellformed:
  assumes "get_steps_for_topology t = Inr defs"
  shows "distinct (map sd_name defs) \<and>
     (\<forall>i < length defs. \<forall>q \<in> set (sd_prerequisites (defs ! i)). \<exists>j < i. sd_name (defs ! j) = q) \<and>
     sorted (map (phase_rank \<circ> sd_phase) defs) \<and> (\<forall>s \<in> set defs. sd_risk s \<longleftrightarrow> sd_mechanism s \<noteq> None)"
  using registry_ok_topology[OF assms] prerequisites_first_nth[of "[]" defs]
  by (auto simp: registry_ok_def list_all_iff)

theorem registries_wellformed_witness:
  "get_steps_for_topology ''bf3'' = Inr BF3_STEPS \<and> sorted (map (phase_rank \<circ> sd_phase) BF3_STEPS)"
proof -
  have "get_steps_for_topology ''bf3'' = Inr BF3_STEPS"
    by (simp add: get_steps_for_topology_def TOPOLOGY_STEPS_def)
  then show ?thesis
    using registries_wellformed by blast
qed

section \<open>The outcome of an execution\<close>

definition raises :: "(bstep \<Rightarrow> step_outcome) \<Rightarrow> bstep \<Rightarrow> bool" where
  "raises ex s = (case ex (s\<lparr>bs_status := Step_Running\<rparr>) of Raises _ \<Rightarrow> True | _ \<Rightarrow> False)"

definition after_step :: "(bstep \<Rightarrow> step_outcome) \<Rightarrow> bstep \<Rightarrow> bstep" where
  "after_step ex s =
     (case ex (s\<lparr>bs_status := Step_Running\<rparr>) of
        Done c out \<Rightarrow> s\<lparr>bs_status := Step_Completed, bs_exit_code := Some c, bs_output := Some out\<rparr>
      | Already_Done \<Rightarrow> s\<lparr>bs_status := Step_Skipped, bs_already_done := True\<rparr>
      | Raises e \<Rightarrow> s\<lparr>bs_status := Step_Failed, bs_error := Some e\<rparr>)"

text \<open>Up to its position, the deployment in the loop is the one it started with.\<close>

definition at_step :: "deployment \<Rightarrow> deployment \<Rightarrow> bool" where
  "at_step d d' \<longleftrightarrow> d' = d\<lparr>bd_index := bd_index d', bd_phase := bd_phase d'\<rparr>"

lemma at_step_trans: "at_step (d\<lparr>bd_index := i, bd_phase := p\<rparr>) d' \<Longrightarrow> at_step d d'"
  by (cases d; cases d') (simp add: at_step_def)

lemma run_steps_ok:
  assumes "\<forall>s \<in> set ss. \<not> raises ex s"
  shows "\<exists>d'. at_step (rs_deployment r) d' \<and>
     (\<exists>c m. c + m = length ss \<and> run_steps ex ss r =
        (None, \<lparr>rs_deployment = d', rs_steps = rs_steps r @ map (after_step ex) ss, rs_completed = rs_completed r + c,
                rs_skipped = rs_skipped r + m\<rparr>))"
  using assms
proof (induction ss arbitrary: r)
  case Nil
  then show ?case
    by (cases r) (auto simp: at_step_def intro!: exI[of _ "rs_deployment r"])
next
  case (Cons s ss)
  note IH = Cons.IH
  have ok: "\<forall>s \<in> set ss. \<not> raises ex s" using Cons.prems by simp
  show ?case
  proof (cases "ex (s\<lparr>bs_status := Step_Running\<rparr>)")
    case (Done c out)
    let ?r = "r\<lparr>rs_deployment := (rs_deployment r)\<lparr>bd_index := bs_index s, bd_phase := Some (bs_phase s)\<rparr>,
               rs_steps := rs_steps r @ [after_step ex s], rs_completed := rs_completed r + 1\<rparr>"
    have "run_steps ex (s # ss) r = run_steps ex ss ?r"
      using Done by (simp add: Let_def after_step_def)
    then show ?thesis
      using IH[OF ok, of ?r] by (fastforce intro: at_step_trans)
  next
    case Already_Done
    let ?r = "r\<lparr>rs_deployment := (rs_deployment r)\<lparr>bd_index := bs_index s, bd_phase := Some (bs_phase s)\<rparr>,
               rs_steps := rs_steps r @ [after_step ex s], rs_skipped := rs_skipped r + 1\<rparr>"
    have "run_steps ex (s # ss) r = run_steps ex ss ?r"
      using Already_Done by (simp add: Let_def after_step_def)
    then show ?thesis
      using IH[OF ok, of ?r] by (fastforce intro: at_step_trans)
  next
    case (Raises e)
    then show ?thesis
      using Cons.prems by (simp add: raises_def)
  qed
qed

lemma run_steps_append:
  "run_steps ex (xs @ ys) r = (case run_steps ex xs r of (Some e, r') \<Rightarrow> (Some e, r'\<lparr>rs_steps := rs_steps r' @ ys\<rparr>) | (None, r') \<Rightarrow> run_steps ex ys r')"
  by (induction ex xs r rule: run_steps.induct) (auto simp: Let_def split: step_outcome.splits option.splits prod.splits)

definition failed_at :: "bstep \<Rightarrow> string \<Rightarrow> deployment \<Rightarrow> deployment" where
  "failed_at s e d = d\<lparr>bd_index := bs_index s, bd_phase := Some (bs_phase s), bd_status := Failed, bd_error := Some e,
                       bd_error_phase := Some (bs_phase s), bd_error_index := Some (bs_index s)\<rparr>"

lemma failed_at_step: "at_step d d' \<Longrightarrow> failed_at s e d' = failed_at s e d"
  by (cases d; cases d') (simp add: at_step_def failed_at_def)

lemma run_steps_fail:
  assumes "\<forall>s \<in> set pre. \<not> raises ex s" and e: "ex (s\<lparr>bs_status := Step_Running\<rparr>) = Raises e"
  shows "\<exists>r'. run_steps ex (pre @ s # post) r = (Some e, r') \<and> rs_deployment r' = failed_at s e (rs_deployment r) \<and>
     rs_steps r' = rs_steps r @ map (after_step ex) pre @ after_step ex s # post"
proof -
  obtain d' c m where d: "at_step (rs_deployment r) d'" and run: "run_steps ex pre r =
      (None, \<lparr>rs_deployment = d', rs_steps = rs_steps r @ map (after_step ex) pre, rs_completed = rs_completed r + c, rs_skipped = rs_skipped r + m\<rparr>)"
    using run_steps_ok[OF assms(1), of r] by blast
  show ?thesis
    using e failed_at_step[OF d, of s e] by (simp add: run_steps_append run Let_def after_step_def failed_at_def)
qed

text \<open>The steps of a deployment in order, and where its execution starts.\<close>

definition plan_of :: "deployment \<Rightarrow> bstep list" where
  "plan_of d = sort_key bs_index (bd_steps d)"

definition start_of :: "deployment \<Rightarrow> nat" where
  "start_of d = slice_start (case bd_resume d of None \<Rightarrow> 0 | Some n \<Rightarrow> n) (length (plan_of d))"

lemma execute_ok:
  assumes "get_deployment i db = Inr d" "\<forall>s \<in> set (drop (start_of d) (plan_of d)). \<not> raises ex s"
  shows "\<exists>c m j ph. c + m = length (plan_of d) - start_of d \<and>
     execute_deployment ex i db = (Inr (c, m, length (plan_of d)), set_deployment (d\<lparr>bd_status := Completed, bd_index := j, bd_phase := ph,
            bd_steps := take (start_of d) (plan_of d) @ map (after_step ex) (drop (start_of d) (plan_of d))\<rparr>) db)"
proof -
  let ?r = "\<lparr>rs_deployment = d\<lparr>bd_status := In_Progress\<rparr>, rs_steps = take (start_of d) (plan_of d), rs_completed = 0, rs_skipped = 0\<rparr>"
  obtain d1 c m where d1: "at_step (d\<lparr>bd_status := In_Progress\<rparr>) d1" "c + m = length (drop (start_of d) (plan_of d))"
    and run: "run_steps ex (drop (start_of d) (plan_of d)) ?r = (None, \<lparr>rs_deployment = d1, rs_steps =
        take (start_of d) (plan_of d) @ map (after_step ex) (drop (start_of d) (plan_of d)), rs_completed = c, rs_skipped = m\<rparr>)"
    using run_steps_ok[OF assms(2), of ?r] by auto
  let ?d' = "d1\<lparr>bd_steps := take (start_of d) (plan_of d) @ map (after_step ex) (drop (start_of d) (plan_of d)), bd_status := Completed\<rparr>"
  have "execute_deployment ex i db = (Inr (c, m, length (plan_of d)), set_deployment ?d' db)"
    using assms(1) run by (simp add: execute_deployment_def Let_def plan_of_def start_of_def)
  moreover have "?d' = d\<lparr>bd_status := Completed, bd_index := bd_index d1, bd_phase := bd_phase d1,
            bd_steps := take (start_of d) (plan_of d) @ map (after_step ex) (drop (start_of d) (plan_of d))\<rparr>"
    using d1(1) by (cases d; cases d1) (simp add: at_step_def)
  moreover have "c + m = length (plan_of d) - start_of d"
    using d1(2) by simp
  ultimately show ?thesis by metis
qed

lemma execute_fails:
  assumes "get_deployment i db = Inr d" and plan: "drop (start_of d) (plan_of d) = pre @ s # post"
    and "\<forall>x \<in> set pre. \<not> raises ex x" and e: "ex (s\<lparr>bs_status := Step_Running\<rparr>) = Raises e"
  shows "execute_deployment ex i db = (Inl (Step_Raised e), set_deployment ((failed_at s e d)\<lparr>bd_steps :=
     take (start_of d) (plan_of d) @ map (after_step ex) pre @ after_step ex s # post\<rparr>) db)"
proof -
  let ?r = "\<lparr>rs_deployment = d\<lparr>bd_status := In_Progress\<rparr>, rs_steps = take (start_of d) (plan_of d), rs_completed = 0, rs_skipped = 0\<rparr>"
  obtain r' where "run_steps ex (pre @ s # post) ?r = (Some e, r')" "rs_deployment r' = failed_at s e (rs_deployment ?r)"
    "rs_steps r' = rs_steps ?r @ map (after_step ex) pre @ after_step ex s # post"
    using run_steps_fail[OF assms(3) e, of post ?r] by blast
  then show ?thesis
    using assms(1) by (simp add: execute_deployment_def Let_def plan_of_def[symmetric] start_of_def[symmetric] plan failed_at_def)
qed

lemma first_raising:
  assumes "\<exists>s \<in> set xs. raises ex s"
  shows "\<exists>pre s post e. xs = pre @ s # post \<and> raises ex s \<and> (\<forall>x \<in> set pre. \<not> raises ex x) \<and> ex (s\<lparr>bs_status := Step_Running\<rparr>) = Raises e"
proof -
  obtain pre s post where p: "xs = pre @ s # post" "raises ex s" "\<forall>x \<in> set pre. \<not> raises ex x"
    using assms split_list_first_prop by metis
  moreover obtain e where "ex (s\<lparr>bs_status := Step_Running\<rparr>) = Raises e"
    using p(2) by (auto simp: raises_def split: step_outcome.splits)
  ultimately show ?thesis by blast
qed

text \<open>
  C34. An execution returns: without a failing step it is completed, every step from the start on has its outcome and
  the counts add up; otherwise it stops at the first step that fails, which is recorded as the place of the error, the
  steps before it have their outcome and those after it are untouched. No other deployment changes.
\<close>

theorem deployment_outcome:
  assumes "get_deployment i db = Inr d"
  shows "(\<forall>s \<in> set (drop (start_of d) (plan_of d)). \<not> raises ex s) \<and>
       (\<exists>c m d'. execute_deployment ex i db = (Inr (c, m, length (plan_of d)), set_deployment d' db) \<and>
          bd_id d' = bd_id d \<and> bd_status d' = Completed \<and> c + m = length (plan_of d) - start_of d \<and>
          bd_steps d' = take (start_of d) (plan_of d) @ map (after_step ex) (drop (start_of d) (plan_of d))) \<or>
     (\<exists>pre s post e d'. plan_of d = take (start_of d) (plan_of d) @ pre @ s # post \<and> (\<forall>x \<in> set pre. \<not> raises ex x) \<and> raises ex s \<and>
          execute_deployment ex i db = (Inl (Step_Raised e), set_deployment d' db) \<and>
          bd_id d' = bd_id d \<and> bd_status d' = Failed \<and> bd_error_index d' = Some (bs_index s) \<and> bd_error d' = Some e \<and>
          bd_steps d' = take (start_of d) (plan_of d) @ map (after_step ex) pre @ after_step ex s # post)"
proof (cases "\<forall>s \<in> set (drop (start_of d) (plan_of d)). \<not> raises ex s")
  case True
  obtain c m j ph where "c + m = length (plan_of d) - start_of d"
     "execute_deployment ex i db = (Inr (c, m, length (plan_of d)), set_deployment (d\<lparr>bd_status := Completed, bd_index := j, bd_phase := ph,
            bd_steps := take (start_of d) (plan_of d) @ map (after_step ex) (drop (start_of d) (plan_of d))\<rparr>) db)"
    using execute_ok[OF assms True] by blast
  then show ?thesis
    using True by (intro disjI1 conjI exI[of _ c] exI[of _ m]) (auto intro!: exI[of _ "d\<lparr>bd_status := Completed, bd_index := j, bd_phase := ph,
            bd_steps := take (start_of d) (plan_of d) @ map (after_step ex) (drop (start_of d) (plan_of d))\<rparr>"])

next
  case False
  then obtain pre s post e where p: "drop (start_of d) (plan_of d) = pre @ s # post" "raises ex s" "\<forall>x \<in> set pre. \<not> raises ex x"
    and e: "ex (s\<lparr>bs_status := Step_Running\<rparr>) = Raises e"
    using first_raising[of "drop (start_of d) (plan_of d)" ex] by auto
  have "plan_of d = take (start_of d) (plan_of d) @ pre @ s # post"
    using p(1) by (metis append_take_drop_id)
  then show ?thesis
    using execute_fails[OF assms p(1,3) e] p(2,3)
    by (intro disjI2 exI[of _ pre] exI[of _ s] exI[of _ post] exI[of _ e] exI[of _ "(failed_at s e d)\<lparr>bd_steps :=
     take (start_of d) (plan_of d) @ map (after_step ex) pre @ after_step ex s # post\<rparr>"]) (simp add: failed_at_def)
qed

section \<open>Unselected steps\<close>

lemma get_deployment_iff: "get_deployment i db = Inr d \<longleftrightarrow> find (\<lambda>d. bd_id d = i) (bm_deployments db) = Some d"
  by (simp add: get_deployment_def split: option.splits)

lemma get_set_deployment:
  assumes "get_deployment i db = Inr d" "bd_id d' = i"
  shows "get_deployment i (set_deployment d' db) = Inr d'"
proof -
  have "find (\<lambda>d. bd_id d = i) (map (\<lambda>x. if bd_id x = bd_id d' then d' else x) xs) = Some d'"
    if "find (\<lambda>d. bd_id d = i) xs = Some d" for xs
    using that assms(2) by (induction xs) (auto split: if_splits)
  then show ?thesis
    using assms(1) by (simp add: get_deployment_iff set_deployment_def)
qed

definition numbered :: "deployment \<Rightarrow> bool" where
  "numbered d \<longleftrightarrow> map bs_index (bd_steps d) = [0..<length (bd_steps d)]"

lemma plan_of_numbered: "numbered d \<Longrightarrow> plan_of d = bd_steps d"
  by (simp add: numbered_def plan_of_def sort_key_id_if_sorted)

lemma map2_index: "map bs_index (map2 (new_step sel) [a..<a + length defs] defs) = [a..<a + length defs]"
proof (induction defs arbitrary: a)
  case (Cons s ss)
  have "[a..<a + length (s # ss)] = a # [Suc a..<Suc a + length ss]"
    using upt_conv_Cons[of a "a + length (s # ss)"] by (simp del: upt_Suc)
  then show ?case
    using Cons.IH[of "Suc a"] by (simp add: new_step_def del: upt_Suc)
qed simp

lemma created_deployment:
  assumes "create_deployment h p cr db = Inr (d, db')" "\<forall>x \<in> set (bm_deployments db). bd_id x \<noteq> bm_next db"
  shows "get_deployment (bd_id d) db' = Inr d \<and> numbered d \<and> bd_status d = Pending \<and> bd_resume d = cr_resume cr \<and> bd_host d = h \<and>
     (\<exists>defs. get_steps_for_topology (bd_topology d) = Inr defs \<and>
        bd_steps d = map2 (new_step (determine_selected_steps defs (cr_phases cr) (cr_steps cr))) [0..<length defs] defs)"
proof -
  obtain defs where d: "bd_id d = bm_next db" "bd_host d = h" "bd_status d = Pending" "bd_resume d = cr_resume cr" "bm_deployments db' = bm_deployments db @ [d]"
    and defs: "get_steps_for_topology (bd_topology d) = Inr defs"
    "bd_steps d = map2 (new_step (determine_selected_steps defs (cr_phases cr) (cr_steps cr))) [0..<length defs] defs"
    using assms(1) unfolding create_deployment_def Let_def
    by (auto split: sum.splits if_splits option.splits)
  have "find (\<lambda>x. bd_id x = bd_id d) (bm_deployments db) = None"
    using assms(2) d(1) by (auto simp: find_None_iff)
  then have "get_deployment (bd_id d) db' = Inr d"
    by (simp add: get_deployment_iff d(5) find_append)
  moreover have "numbered d"
    using map2_index[of _ 0 defs] by (simp add: numbered_def defs(2))
  ultimately show ?thesis
    using d defs by blast
qed

lemma execute_step_succeeds [simp]: "\<not> raises execute_step s"
  by (simp add: raises_def execute_step_def)

lemma after_execute_step: "bs_status (after_step execute_step s) = Step_Completed" "bs_name (after_step ex s) = bs_name s" "bs_index (after_step ex s) = bs_index s"
  by (simp_all add: after_step_def execute_step_def split: step_outcome.splits)

lemma run_placeholder: "run_steps execute_step ss r = (e, r') \<Longrightarrow> rs_skipped r' = rs_skipped r"
  by (induction ss arbitrary: r) (auto simp: Let_def execute_step_def)

lemma placeholder_skips_none: "execute_deployment execute_step i db = (Inr (c, m, t), db') \<Longrightarrow> m = 0"
  by (auto simp: execute_deployment_def Let_def split: sum.splits prod.splits option.splits dest!: run_placeholder)

text \<open>
  C36. The selection of steps has no effect on the execution: whatever phases or steps a deployment was
  created with, its execution runs every step of the topology, the ones recorded as skipped included.
\<close>

theorem unselected_steps_run:
  assumes "create_deployment h p cr db = Inr (d, db')" "\<forall>x \<in> set (bm_deployments db). bd_id x \<noteq> bm_next db"
    and "cr_resume cr = None"
  shows "\<exists>n d' db''. execute_deployment execute_step (bd_id d) db' = (Inr (n, 0, n), db'') \<and> get_deployment (bd_id d) db'' = Inr d' \<and>
     map bs_name (bd_steps d') = map bs_name (bd_steps d) \<and> n = length (bd_steps d) \<and> (\<forall>s \<in> set (bd_steps d'). bs_status s = Step_Completed)"
proof -
  have d: "get_deployment (bd_id d) db' = Inr d" "numbered d" "bd_resume d = None"
    using created_deployment[OF assms(1,2)] assms(3) by auto
  have start: "start_of d = 0" "plan_of d = bd_steps d"
    using d by (simp_all add: start_of_def slice_start_def plan_of_numbered)
  obtain c m j ph where run: "c + m = length (bd_steps d)" "execute_deployment execute_step (bd_id d) db' =
      (Inr (c, m, length (bd_steps d)), set_deployment (d\<lparr>bd_status := Completed, bd_index := j, bd_phase := ph, bd_steps := map (after_step execute_step) (bd_steps d)\<rparr>) db')"
    using execute_ok[OF d(1), of execute_step] start by auto
  have "m = 0"
    using placeholder_skips_none[OF run(2)] .

  then show ?thesis
    using run get_set_deployment[OF d(1), of "d\<lparr>bd_status := Completed, bd_index := j, bd_phase := ph, bd_steps := map (after_step execute_step) (bd_steps d)\<rparr>"]
    by (auto simp: after_execute_step)
qed

section \<open>Resuming\<close>

definition settled :: "bstep \<Rightarrow> bool" where
  "settled s \<longleftrightarrow> bs_status s = Step_Completed \<or> bs_status s = Step_Skipped"

lemma settled_after_step: "\<not> raises ex s \<Longrightarrow> settled (after_step ex s)"
  by (auto simp: settled_def raises_def after_step_def split: step_outcome.splits)

text \<open>A failed first execution, as the tables show it.\<close>

lemma execute_raised:
  assumes d: "get_deployment i db = Inr d" "numbered d" "bd_resume d = None" and run: "execute_deployment ex i db = (Inl err, db1)"
  shows "\<exists>pre s post e. bd_steps d = pre @ s # post \<and> bs_index s = length pre \<and> (\<forall>x \<in> set pre. \<not> raises ex x) \<and>
     get_deployment i db1 = Inr ((failed_at s e d)\<lparr>bd_steps := map (after_step ex) pre @ after_step ex s # post\<rparr>)"
proof -
  have start: "start_of d = 0" "plan_of d = bd_steps d"
    using d by (simp_all add: start_of_def slice_start_def plan_of_numbered)
  have "\<exists>s \<in> set (bd_steps d). raises ex s"
    using run execute_ok[OF d(1), of ex] start by auto
  then obtain pre s post e where p: "bd_steps d = pre @ s # post" "\<forall>x \<in> set pre. \<not> raises ex x"
    and e: "ex (s\<lparr>bs_status := Step_Running\<rparr>) = Raises e"
    using first_raising[of "bd_steps d" ex] by blast
  have "map bs_index (bd_steps d) ! length pre = [0..<length (bd_steps d)] ! length pre"
    using d(2) by (simp add: numbered_def)
  then have "bs_index s = length pre"
    by (simp add: p(1) nth_append del: upt_Suc)
  moreover have "db1 = set_deployment ((failed_at s e d)\<lparr>bd_steps := map (after_step ex) pre @ after_step ex s # post\<rparr>) db"
    using execute_fails[OF d(1) _ p(2) e, of post] start p(1) run by simp
  moreover have "bd_id ((failed_at s e d)\<lparr>bd_steps := map (after_step ex) pre @ after_step ex s # post\<rparr>) = i"
    using d(1) by (auto simp: failed_at_def get_deployment_iff dest: find_SomeD)
  ultimately show ?thesis
    using get_set_deployment[OF d(1)] p by metis
qed

text \<open>What resuming at the place of the error does to the steps: the failed one waits again, those before it stay.\<close>

lemma resume_steps:
  fixes n :: nat
  assumes "map bs_index (pre @ rest) = [0..<length (pre @ rest)]" "n = length pre"
  shows "map (\<lambda>s. if int n \<le> int (bs_index s) \<and> bs_status s = Step_Failed then reset_step s else s) (pre @ rest) =
     pre @ map (\<lambda>s. if bs_status s = Step_Failed then reset_step s else s) rest"
proof -
  have idx: "bs_index ((pre @ rest) ! k) = k" if "k < length (pre @ rest)" for k
    using that arg_cong[OF assms(1), of "\<lambda>xs. xs ! k"] by (simp del: map_append upt_Suc)
  have "bs_index s < n" if s: "s \<in> set pre" for s
  proof -
    obtain k where k: "k < length pre" "pre ! k = s"
      using s by (auto simp: in_set_conv_nth)
    then show ?thesis
      using idx[of k] assms(2) by (simp add: nth_append)
  qed
  moreover have "n \<le> bs_index s" if s: "s \<in> set rest" for s
  proof -
    obtain k where k: "k < length rest" "rest ! k = s"
      using s by (auto simp: in_set_conv_nth)
    then show ?thesis
      using idx[of "length pre + k"] assms(2) by (simp add: nth_append)
  qed
  ultimately show ?thesis
    by (auto intro!: map_idI) (meson leD)
qed

definition resumed_at :: "nat \<Rightarrow> deployment \<Rightarrow> deployment" where
  "resumed_at k d = d\<lparr>bd_resume := Some (int k), bd_error := None, bd_error_phase := None, bd_error_index := None, bd_status := Pending,
     bd_steps := map (\<lambda>s. if int k \<le> int (bs_index s) \<and> bs_status s = Step_Failed then reset_step s else s) (bd_steps d)\<rparr>"

lemma resume_failed:
  assumes "get_deployment i db = Inr d" "bd_status d = Failed" "bd_error_index d = Some k"
  shows "resume_deployment i None db = Inr (resumed_at k d, set_deployment (resumed_at k d) db)"
  using assms by (simp add: resume_deployment_def resumed_at_def Let_def)

lemma numbered_resumed_at: "numbered d \<Longrightarrow> numbered (resumed_at k d)"
  by (simp add: numbered_def resumed_at_def reset_step_def if_distrib comp_def del: upt_Suc cong: if_cong)


text \<open>A resume past the last step completes the deployment without running anything; the failed step stays failed.\<close>

lemma resume_past_end_completes:
  assumes "get_deployment i db = Inr d" "numbered d" "bd_status d = Failed" "int (length (bd_steps d)) \<le> n"
  shows "\<exists>d2 db2 db3 d3. resume_deployment i (Some n) db = Inr (d2, db2) \<and>
     execute_deployment ex i db2 = (Inr (0, 0, length (bd_steps d)), db3) \<and>
     get_deployment i db3 = Inr d3 \<and> bd_status d3 = Completed \<and> bd_steps d3 = bd_steps d"
proof -
  define d2 where "d2 = d\<lparr>bd_resume := Some n, bd_error := None, bd_error_phase := None, bd_error_index := None, bd_status := Pending\<rparr>"
  have idx: "bs_index x < length (bd_steps d)" if "x \<in> set (bd_steps d)" for x
  proof -
    have "bs_index x \<in> set [0..<length (bd_steps d)]"
      using that assms(2) by (metis image_eqI list.set_map numbered_def)
    then show ?thesis by simp
  qed
  have "map (\<lambda>s. if n \<le> int (bs_index s) \<and> bs_status s = Step_Failed then reset_step s else s) (bd_steps d) = bd_steps d"
    by (rule map_idI) (use idx assms(4) in fastforce)
  then have resume: "resume_deployment i (Some n) db = Inr (d2, set_deployment d2 db)"
    using assms(1,3) by (simp add: resume_deployment_def Let_def d2_def)
  have id: "bd_id d2 = i"
    using assms(1) by (auto simp: d2_def get_deployment_iff dest: find_SomeD)
  have d2: "get_deployment i (set_deployment d2 db) = Inr d2"
    using get_set_deployment[OF assms(1) id] .
  have "numbered d2" "bd_resume d2 = Some n" "bd_steps d2 = bd_steps d"
    using assms(2) by (simp_all add: numbered_def d2_def)
  then have start: "plan_of d2 = bd_steps d" "start_of d2 = length (bd_steps d)"
    using assms(4) by (auto simp: plan_of_numbered start_of_def slice_start_def)
  obtain j ph where "execute_deployment ex i (set_deployment d2 db) = (Inr (0, 0, length (bd_steps d)),
      set_deployment (d2\<lparr>bd_status := Completed, bd_index := j, bd_phase := ph, bd_steps := bd_steps d\<rparr>) (set_deployment d2 db))"
    using execute_ok[OF d2, of ex] start by auto
  then show ?thesis
    using resume get_set_deployment[OF d2, of "d2\<lparr>bd_status := Completed, bd_index := j, bd_phase := ph, bd_steps := bd_steps d\<rparr>"] id by auto
qed

section \<open>One deployment at a time\<close>

definition busy :: "int \<Rightarrow> bm_db \<Rightarrow> deployment list" where
  "busy h db = filter (\<lambda>d. bd_host d = h \<and> bd_status d \<notin> terminal_states) (bm_deployments db)"

definition db_ids :: "bm_db \<Rightarrow> bool" where
  "db_ids db \<longleftrightarrow> distinct (map bd_id (bm_deployments db)) \<and> (\<forall>d \<in> set (bm_deployments db). bd_id d < bm_next db)"

definition exclusive :: "bm_db \<Rightarrow> bool" where
  "exclusive db \<longleftrightarrow> db_ids db \<and> (\<forall>h. length (busy h db) \<le> 1)"

text \<open>The operations, with resume restricted to hosts without an active deployment.\<close>

inductive bm_step :: "bm_db \<Rightarrow> bm_db \<Rightarrow> bool" where
  create: "create_deployment h p cr db = Inr (d, db') \<Longrightarrow> bm_step db db'"
| execute: "execute_deployment ex i db = (res, db') \<Longrightarrow> bm_step db db'"
| cancel: "cancel_deployment i db = Inr (d, db') \<Longrightarrow> bm_step db db'"
| resume: "resume_deployment i n db = Inr (d, db') \<Longrightarrow> busy (bd_host d) db = [] \<Longrightarrow> bm_step db db'"

lemma set_deployment_ids [simp]: "map bd_id (bm_deployments (set_deployment d db)) = map bd_id (bm_deployments db)"
  by (simp add: set_deployment_def)

lemma db_ids_set: "db_ids (set_deployment d db) = db_ids db"
proof -
  have "db_ids db \<longleftrightarrow> distinct (map bd_id (bm_deployments db)) \<and> list_all (\<lambda>i. i < bm_next db) (map bd_id (bm_deployments db))" for db
    by (auto simp: db_ids_def list_all_iff)
  then show ?thesis
    by (simp add: set_deployment_def comp_def if_distrib list.pred_map cong: if_cong)
qed

lemma busy_set_terminal:
  assumes "bd_status d \<in> terminal_states"
  shows "length (busy h (set_deployment d db)) \<le> length (busy h db)"
proof -
  have "length (filter Q (map (\<lambda>x. if bd_id x = bd_id d then d else x) xs)) \<le> length (filter Q xs)" if "\<not> Q d" for Q xs
    using that by (induction xs) auto
  then show ?thesis
    using assms by (simp add: busy_def set_deployment_def)
qed

text \<open>Putting a row to work on a host where nothing is active makes it the only one.\<close>

lemma busy_set_idle:
  assumes "distinct (map bd_id (bm_deployments db))" "busy (bd_host d) db = []"
    and host: "\<forall>x \<in> set (bm_deployments db). bd_id x = bd_id d \<longrightarrow> bd_host x = bd_host d"
    and one: "length (busy h db) \<le> 1"
  shows "length (busy h (set_deployment d db)) \<le> 1"
proof (cases "h = bd_host d")
  case True
  have "length (filter Q (map (\<lambda>x. if bd_id x = bd_id d then d else x) xs)) \<le> 1" if "distinct (map bd_id xs)" "filter Q xs = []" for Q xs
    using that
  proof (induction xs)
    case (Cons x xs)
    then have "\<not> Q x" "filter Q xs = []" by (auto split: if_splits)
    moreover have "filter Q (map (\<lambda>x. if bd_id x = bd_id d then d else x) xs) = []" if "bd_id x = bd_id d"
      using that Cons.prems by (auto simp: filter_empty_conv image_iff split: if_splits)
    ultimately show ?case
      using Cons by (cases "bd_id x = bd_id d") auto
  qed simp
  then show ?thesis
    using assms(1,2) True by (simp add: busy_def set_deployment_def)
next
  case False
  have "filter Q (map (\<lambda>x. if bd_id x = bd_id d then d else x) xs) = filter Q xs"
    if "\<not> Q d" "\<forall>x \<in> set xs. bd_id x = bd_id d \<longrightarrow> \<not> Q x" for Q xs
    using that by (induction xs) auto
  then show ?thesis
    using one host False by (simp add: busy_def set_deployment_def)
qed

lemma execute_terminal: "execute_deployment ex i db = (res, db') \<Longrightarrow> db' = db \<or> (\<exists>d. bd_status d \<in> terminal_states \<and> db' = set_deployment d db)"
proof (cases "get_deployment i db")
  case (Inr d)
  assume run: "execute_deployment ex i db = (res, db')"
  show ?thesis
  proof (cases "\<forall>s \<in> set (drop (start_of d) (plan_of d)). \<not> raises ex s")
    case True
    obtain c m j ph where "execute_deployment ex i db = (Inr (c, m, length (plan_of d)), set_deployment (d\<lparr>bd_status := Completed, bd_index := j, bd_phase := ph,
            bd_steps := take (start_of d) (plan_of d) @ map (after_step ex) (drop (start_of d) (plan_of d))\<rparr>) db)"
      using execute_ok[OF Inr True] by blast
    moreover have "bd_status (d\<lparr>bd_status := Completed, bd_index := j, bd_phase := ph,
            bd_steps := take (start_of d) (plan_of d) @ map (after_step ex) (drop (start_of d) (plan_of d))\<rparr>) \<in> terminal_states"
      by (simp add: terminal_states_def)
    ultimately show ?thesis
      using run by (metis prod.inject)
  next
    case False
    then obtain pre s post e where p: "drop (start_of d) (plan_of d) = pre @ s # post" "\<forall>x \<in> set pre. \<not> raises ex x" "ex (s\<lparr>bs_status := Step_Running\<rparr>) = Raises e"
      using first_raising[of "drop (start_of d) (plan_of d)" ex] by auto
    moreover have "bd_status ((failed_at s e d)\<lparr>bd_steps := ss\<rparr>) \<in> terminal_states" for ss
      by (simp add: terminal_states_def failed_at_def)
    ultimately show ?thesis
      using execute_fails[OF Inr p] run by (metis prod.inject)
  qed
qed (auto simp: execute_deployment_def)

lemma exclusive_terminal:
  assumes "bd_status d \<in> terminal_states" "exclusive db"
  shows "exclusive (set_deployment d db)"
  using assms(2) busy_set_terminal[OF assms(1), of _ db] unfolding exclusive_def db_ids_set by (meson le_trans)

lemma create_adds:
  assumes "create_deployment h p cr db = Inr (d, db')"
  shows "bm_deployments db' = bm_deployments db @ [d] \<and> bm_next db' = bm_next db + 1 \<and> bd_id d = bm_next db \<and> bd_host d = h \<and> busy h db = []"
proof -
  have "busy h db = []" if "active_on (h # cr_workers cr) db = None"
    using that by (auto simp: active_on_def find_None_iff busy_def filter_empty_conv)
  then show ?thesis
    using assms unfolding create_deployment_def Let_def by (auto split: sum.splits if_splits option.splits)
qed

lemma resume_sets:
  assumes "resume_deployment i n db = Inr (d, db')"
  shows "db' = set_deployment d db \<and> (\<exists>x. get_deployment i db = Inr x \<and> bd_host x = bd_host d \<and> bd_id x = bd_id d)"
  using assms by (auto simp: resume_deployment_def Let_def split: sum.splits if_splits)

lemma exclusive_step: "bm_step db db' \<Longrightarrow> exclusive db \<Longrightarrow> exclusive db'"
proof (induction rule: bm_step.induct)
  case (create h p cr db d db')
  note c = create_adds[OF create(1)]
  have "length (busy h' db') \<le> 1" for h'
    using create(2) c by (cases "h' = h") (auto simp: exclusive_def busy_def)
  then show ?case
    using create(2) c by (force simp: exclusive_def db_ids_def)
next
  case (execute ex i db res db')
  then show ?case
    using execute_terminal[of ex i db res db'] exclusive_terminal by auto
next
  case (cancel i db d db')
  then have d: "bd_status d \<in> terminal_states" "bm_deployments db' = bm_deployments (set_deployment d db)" "bm_next db' = bm_next (set_deployment d db)"
    by (auto simp: cancel_deployment_def Let_def terminal_states_def set_deployment_def split: sum.splits if_splits option.splits)
  have "exclusive (set_deployment d db)"
    using exclusive_terminal d(1) cancel(2) by blast
  then show ?case
    using d by (simp add: exclusive_def busy_def db_ids_def)
next
  case (resume i n db d db')
  obtain x where x: "get_deployment i db = Inr x" "bd_host x = bd_host d" "bd_id x = bd_id d"
    using resume_sets[OF resume(1)] by blast
  have ids: "distinct (map bd_id (bm_deployments db))"
    using resume(3) by (simp add: exclusive_def db_ids_def)
  have "x \<in> set (bm_deployments db)"
    using x(1) by (auto simp: get_deployment_iff dest: find_SomeD)
  then have "\<forall>y \<in> set (bm_deployments db). bd_id y = bd_id d \<longrightarrow> bd_host y = bd_host d"
    using ids x by (metis distinct_map inj_onD)
  then show ?case
    using resume_sets[OF resume(1)] busy_set_idle[OF ids resume(2)] resume(3) by (auto simp: exclusive_def db_ids_set)
qed

interpretation deployments: invariant_system exclusive bm_step exclusive
  by unfold_locales (auto intro: exclusive_step)

text \<open>
  As long as a deployment is resumed only while its host has no active one, no host ever has two.
\<close>

theorem one_active_deployment:
  assumes "exclusive db" "bm_step\<^sup>*\<^sup>* db db'" "d \<in> set (bm_deployments db')" "d' \<in> set (bm_deployments db')"
    and "bd_host d = bd_host d'" "bd_status d \<notin> terminal_states" "bd_status d' \<notin> terminal_states"
  shows "d = d'"
proof -
  have "length (busy (bd_host d) db') \<le> 1"
    using deployments.steps_inv[OF assms(2,1)] by (simp add: exclusive_def)
  moreover have "d \<in> set (busy (bd_host d) db')" "d' \<in> set (busy (bd_host d) db')"
    using assms(3-) by (auto simp: busy_def)
  ultimately show ?thesis
    by (cases "busy (bd_host d) db'") auto
qed

section \<open>The preview\<close>

lemma new_step_fields [simp]:
  "bs_index (new_step sel i s) = i" "bs_name (new_step sel i s) = sd_name s" "bs_status (new_step sel i s) = Step_Pending \<longleftrightarrow> sd_name s \<in> sel"
  by (simp_all add: new_step_def)

text \<open>
  The preview shows what creation will record: for the same host and selection both answer with the same plan, and
  the steps shown as selected are exactly those recorded as pending.
\<close>

theorem preview_matches_creation:
  assumes "create_deployment h p cr db = Inr (d, db')"
  shows "\<exists>pv. preview_deployment h p (cr_phases cr) (cr_steps cr) db = Inr pv \<and> pv_topology pv = bd_topology d \<and>
     pv_total pv = length (bd_steps d) \<and>
     map (\<lambda>(i, s, b). (i, sd_name s, b)) (pv_steps pv) = map (\<lambda>s. (bs_index s, bs_name s, bs_status s = Step_Pending)) (bd_steps d) \<and>
     pv_selected pv = length (filter (\<lambda>s. bs_status s = Step_Pending) (bd_steps d))"
proof -
  have steps: "map (\<lambda>(i, s, b). (i, sd_name s, b)) (map2 (\<lambda>i s. (i, s, sd_name s \<in> sel)) is defs) =
      map (\<lambda>s. (bs_index s, bs_name s, bs_status s = Step_Pending)) (map2 (new_step sel) is defs)" for sel "is" defs
    by (simp add: case_prod_beta)
  have count: "length (filter (\<lambda>s. sd_name s \<in> sel) defs) = length (filter (\<lambda>s. bs_status s = Step_Pending) (map2 (new_step sel) [a..<a + length defs] defs))" for sel a defs
  proof (induction defs arbitrary: a)
    case (Cons s ss)
    have "[a..<a + length (s # ss)] = a # [Suc a..<Suc a + length ss]"
      using upt_conv_Cons[of a "a + length (s # ss)"] by (simp del: upt_Suc)
    then show ?case
      using Cons.IH[of "Suc a"] by (simp del: upt_Suc)
  qed simp
  show ?thesis
    using assms count[of _ _ 0] unfolding create_deployment_def preview_deployment_def Let_def
    by (auto simp: steps split: sum.splits if_splits option.splits)
qed

section \<open>A second active deployment\<close>

text \<open>
  Resuming does not look at the other deployments of the host: a failed deployment is resumed while another one
  is active there, and both are active then.
\<close>

theorem resume_starts_second:
  assumes "get_deployment i db = Inr d" "bd_status d = Failed" "distinct (map bd_id (bm_deployments db))"
    and x: "x \<in> set (bm_deployments db)" "bd_host x = bd_host d" "bd_status x \<notin> terminal_states"
  shows "\<exists>d2 db2. resume_deployment i n db = Inr (d2, db2) \<and> {d2, x} \<subseteq> set (bm_deployments db2) \<and> d2 \<noteq> x \<and>
     bd_host d2 = bd_host x \<and> bd_status d2 = Pending"
proof -
  obtain d2 where run: "resume_deployment i n db = Inr (d2, set_deployment d2 db)" and d2: "bd_id d2 = bd_id d" "bd_host d2 = bd_host d" "bd_status d2 = Pending"
    using assms(1,2) by (auto simp: resume_deployment_def Let_def)
  have d: "d \<in> set (bm_deployments db)"
    using assms(1) by (auto simp: get_deployment_iff dest: find_SomeD)
  have "x \<noteq> d"
    using assms(2) x(3) by (auto simp: terminal_states_def)
  then have "bd_id x \<noteq> bd_id d"
    using assms(3) d x(1) by (metis distinct_map inj_onD)
  then have "d2 \<in> set (bm_deployments (set_deployment d2 db))" "x \<in> set (bm_deployments (set_deployment d2 db))" "d2 \<noteq> x"
    using d x(1) d2(1) by (force simp: set_deployment_def image_iff)+
  then show ?thesis
    using run d2 x(2) by auto
qed

section \<open>The default release\<close>

lemma set_default_single:
  assumes "distinct (map br_id (bm_releases db))" "set_default i db = Inr db'"
  shows "\<exists>r. filter br_default (bm_releases db') = [r] \<and> br_id r = i"
proof -
  have shape: "filter br_default (map (\<lambda>x. x\<lparr>br_default := (br_id x = i)\<rparr>) rs) = map (\<lambda>x. x\<lparr>br_default := True\<rparr>) (filter (\<lambda>x. br_id x = i) rs)" for rs
    by (induction rs) auto
  have one: "filter (\<lambda>x. br_id x = i) rs = [r]" if "distinct (map br_id rs)" "r \<in> set rs" "br_id r = i" for rs r
    using that
  proof (induction rs)
    case (Cons y ys)
    then show ?case
      by (cases "y = r") (auto simp: filter_empty_conv image_iff)
  qed simp
  obtain r where r: "r \<in> set (bm_releases db)" "br_id r = i"
    and db': "db' = db\<lparr>bm_releases := map (\<lambda>x. x\<lparr>br_default := (br_id x = i)\<rparr>) (bm_releases db)\<rparr>"
    using assms(2) by (auto simp: set_default_def split: option.splits dest: find_SomeD)
  have "bm_releases db' = map (\<lambda>x. x\<lparr>br_default := (br_id x = i)\<rparr>) (bm_releases db)"
    by (simp add: db')
  then have "filter br_default (bm_releases db') = [r\<lparr>br_default := True\<rparr>]"
    by (simp only: shape one[OF assms(1) r] list.map)
  then show ?thesis
    using r(2) by simp
qed

text \<open>With a release active and one default, a deployment that names no release takes the default, active or not.\<close>

lemma default_taken: "filter br_default (bm_releases db) = [r] \<Longrightarrow> resolve_deployable_release None db = Inr r"
proof -
  have "filter Q xs = [r] \<Longrightarrow> find Q xs = Some r" for Q and xs :: "bm_release list"
    by (induction xs) (auto split: if_splits)
  then show "filter br_default (bm_releases db) = [r] \<Longrightarrow> ?thesis"
    by (simp add: resolve_deployable_release_def)
qed

section \<open>Examples\<close>

definition demo_hosts :: bm_db where
  "demo_hosts = \<lparr>bm_hosts = [\<lparr>bh_id = 1, bh_project = 10, bh_topology = Some ''regular'', bh_bmc_ip = None, bh_dpu_pci = None,
       bh_rshim = Some True, bh_k8s_running = False, bh_cluster = None, bh_release = None\<rparr>],
     bm_releases = [\<lparr>br_id = 5, br_name = ''bnk-2.3.1'', br_active = True, br_default = True\<rparr>],
     bm_deployments = [], bm_next = 1, bm_queue = [], bm_next_task = 100\<rparr>"

definition demo_request :: create_request where
  "demo_request = \<lparr>cr_workers = [], cr_resume = None, cr_phases = None, cr_steps = Some [''probe_dpu_state''], cr_release = None\<rparr>"

definition flash_fails :: "bstep \<Rightarrow> step_outcome" where
  "flash_fails s = (if bs_name s = ''flash_dpu'' then Raises ''no rshim'' else Done 0 '''')"

fun created :: "bm_error + deployment \<times> bm_db \<Rightarrow> bm_db" where
  "created (Inl e) = demo_hosts"
| "created (Inr (d, db)) = db"

definition demo1 :: bm_db where
  "demo1 = created (create_deployment 1 10 demo_request demo_hosts)"

definition demo_deployment :: deployment where
  "demo_deployment = hd (bm_deployments demo1)"

definition demo2 :: bm_db where
  "demo2 = snd (execute_deployment flash_fails 1 demo1)"

definition demo3 :: bm_db where
  "demo3 = created (create_deployment 1 10 demo_request demo2)"

lemma demo1_created: "create_deployment 1 10 demo_request demo_hosts = Inr (demo_deployment, demo1)"
  by code_simp

lemma demo1_facts: "get_deployment 1 demo1 = Inr demo_deployment" "map bs_index (bd_steps demo_deployment) = [0..<length (bd_steps demo_deployment)]"
  "bd_resume demo_deployment = None" "bd_id demo_deployment = 1" "isl (fst (execute_deployment flash_fails 1 demo1))"
  by code_simp+

theorem deployment_outcome_witness: "\<exists>d'. fst (execute_deployment flash_fails 1 demo1) = Inl (Step_Raised ''no rshim'') \<and> snd (execute_deployment flash_fails 1 demo1) = set_deployment d' demo1 \<and> bd_status d' = Failed"
proof -
  have "fst (execute_deployment flash_fails 1 demo1) = Inl (Step_Raised ''no rshim'')"
    by code_simp
  then show ?thesis
    using deployment_outcome[OF demo1_facts(1), of flash_fails] by auto
qed

theorem unselected_steps_run_witness: "\<exists>n db''. execute_deployment execute_step 1 demo1 = (Inr (n, 0, n), db'') \<and> n = length (bd_steps demo_deployment)"
proof -
  have "create_deployment 1 10 demo_request demo_hosts = Inr (demo_deployment, demo1)" "\<forall>x \<in> set (bm_deployments demo_hosts). bd_id x \<noteq> bm_next demo_hosts" "cr_resume demo_request = None"
    by (rule demo1_created) (simp_all add: demo_hosts_def demo_request_def)
  from unselected_steps_run[OF this] show ?thesis
    unfolding demo1_facts(4) by blast
qed


theorem preview_matches_creation_witness: "\<exists>pv. preview_deployment 1 10 (cr_phases demo_request) (cr_steps demo_request) demo_hosts = Inr pv \<and> pv_total pv = length (bd_steps demo_deployment)"
  using preview_matches_creation[OF demo1_created] by blast

lemma demo3_facts: "distinct (map bd_id (bm_deployments demo3))" "map bd_status (bm_deployments demo3) = [Failed, Pending]" "map bd_host (bm_deployments demo3) = [1, 1]"
  "get_deployment 1 demo3 = Inr (hd (bm_deployments demo3))" "length (bm_deployments demo3) = 2"
  by code_simp+

theorem resume_starts_second_witness: "\<exists>d2 db2. resume_deployment 1 None demo3 = Inr (d2, db2) \<and> {d2, bm_deployments demo3 ! 1} \<subseteq> set (bm_deployments db2)"
proof -
  obtain a b where ab: "bm_deployments demo3 = [a, b]"
    using demo3_facts(5) by (auto simp: length_Suc_conv numeral_2_eq_2)
  have "bd_status a = Failed" "bd_status b \<notin> terminal_states" "bd_host b = bd_host a" "get_deployment 1 demo3 = Inr a"
    using demo3_facts(2-4) ab by (auto simp: terminal_states_def)
  then show ?thesis
    using resume_starts_second[OF _ _ demo3_facts(1), of 1 a b None] ab by auto
qed

theorem one_active_deployment_witness: "bm_deployments demo3 ! 1 = last (bm_deployments demo3) \<and> bd_status (last (bm_deployments demo3)) = Pending"
proof -
  have ok: "exclusive demo_hosts"
    by (simp add: exclusive_def db_ids_def busy_def demo_hosts_def)
  have "bm_step demo_hosts demo1"
    using demo1_created by (rule bm_step.create)
  moreover have "bm_step demo1 demo2"
    by (rule bm_step.execute[of flash_fails 1 demo1 "fst (execute_deployment flash_fails 1 demo1)"]) (simp add: demo2_def)
  moreover have "create_deployment 1 10 demo_request demo2 = Inr (last (bm_deployments demo3), demo3)"
    by code_simp
  then have "bm_step demo2 demo3"
    by (rule bm_step.create)
  ultimately have run: "bm_step\<^sup>*\<^sup>* demo_hosts demo3"
    by (meson converse_rtranclp_into_rtranclp rtranclp.rtrancl_refl)
  obtain a b where ab: "bm_deployments demo3 = [a, b]"
    using demo3_facts(5) by (auto simp: length_Suc_conv numeral_2_eq_2)
  have "bd_status b = Pending"
    using demo3_facts(2) ab by simp
  then show ?thesis
    using one_active_deployment[OF ok run, of b b] ab by (simp add: terminal_states_def)
qed

end
