(* ===== verification/Bnk_Upgrade.thy ===== *)
theory Bnk_Upgrade
  imports Bnk_Plan Task_Dispatch
begin

text \<open>
  Upgrades of BNK: creation and cancellation (\<^verbatim>\<open>src/backend/services/bnk_upgrade_service.py\<close>), execution with
  its step executors, health gates and rollback (\<^verbatim>\<open>src/backend/services/bnk_upgrade_execution_service.py\<close>),
  the Celery tasks (\<^verbatim>\<open>src/backend/tasks/bnk_upgrade_tasks.py\<close>) and the guards of the routes
  (\<^verbatim>\<open>src/backend/routes/bnk_upgrade.py\<close>).

  Helm, Kubernetes and the scanner answer through the environment, at the time of the call; a call takes
  the time the environment says. Time is in seconds. Whether the lock of the row is still held when a
  write arrives is an answer of the environment too. Every committed version of the row is logged, so
  that a crash is a prefix of a run. Durations are left out; a health snapshot keeps the whole analysis with
  its time, and dashes in messages are ASCII.
\<close>

section \<open>Rows and answers\<close>

datatype upgrade_status = U_PLANNING | U_READY | U_IN_PROGRESS | U_HEALTH_CHECK | U_COMPLETED | U_FAILED | U_CANCELLED | U_ROLLING_BACK | U_ROLLED_BACK

type_synonym snapshot = "bnk_install \<times> nat"

record step_result =
  sr_step :: nat
  sr_label :: string
  sr_action :: string
  sr_status :: string
  sr_output :: "string option"
  sr_health :: "snapshot option"
  sr_error :: "string option"

record rollback_info =
  ri_revision :: int
  ri_release_name :: string
  ri_namespace :: string

record bnk_upgrade =
  ug_id :: int
  ug_cluster_id :: int
  ug_from_version :: "string option"
  ug_to_version :: string
  ug_from_info :: "bnk_install option"
  ug_plan :: "plan_step list"
  ug_total_steps :: nat
  ug_current_step :: nat
  ug_pre_checks :: "pre_check list"
  ug_pre_check_passed :: bool
  ug_status :: upgrade_status
  ug_step_results :: "step_result list"
  ug_pre_health :: "snapshot option"
  ug_post_health :: "snapshot option"
  ug_health_gate_passed :: "bool option"
  ug_rollback_available :: bool
  ug_rollback_info :: "rollback_info option"
  ug_rollback_reason :: "string option"
  ug_error_message :: "string option"
  ug_error_step :: "nat option"
  ug_started_at :: "nat option"
  ug_completed_at :: "nat option"

datatype upgrade_error = ValueErr string | RuntimeErr string | AttributeErr string | TypeErr string | ServiceErr string | LockLost | LockBusy

definition error_str :: "upgrade_error \<Rightarrow> string" where
  "error_str x = (case x of ValueErr m \<Rightarrow> m | RuntimeErr m \<Rightarrow> m | AttributeErr m \<Rightarrow> m | TypeErr m \<Rightarrow> m | ServiceErr m \<Rightarrow> m
     | LockLost \<Rightarrow> ''under-lock write rejected'' | LockBusy \<Rightarrow> ''Could not acquire lock'')"

text \<open>What a run asks of Helm and the cluster that changes them.\<close>

datatype call = Helm_Upgrade string string string "string option" | Apply_Manifests string | Helm_Rollback string string int

record upgrade_env =
  ue_cost :: "nat \<Rightarrow> nat"
  ue_held :: "nat \<Rightarrow> bool"
  ue_history :: "string \<Rightarrow> string \<Rightarrow> nat \<Rightarrow> upgrade_error + int list"
  ue_helm :: "plan_step \<Rightarrow> nat \<Rightarrow> upgrade_error + (int \<times> string \<times> string)"
  ue_scan :: "nat \<Rightarrow> upgrade_error + bnk_install"
  ue_jobs :: "nat \<Rightarrow> upgrade_error + (int \<times> int) list"
  ue_module :: "string \<Rightarrow> project_module option"
  ue_apply :: "string \<Rightarrow> nat \<Rightarrow> upgrade_error + nat"
  ue_rollback :: "rollback_info \<Rightarrow> nat \<Rightarrow> upgrade_error + (int \<times> string)"

record run =
  rn_row :: bnk_upgrade
  rn_now :: nat
  rn_calls :: "call list"
  rn_log :: "bnk_upgrade list"

definition spend :: "upgrade_env \<Rightarrow> nat \<Rightarrow> run \<Rightarrow> run" where
  "spend e extra r = r\<lparr>rn_now := rn_now r + ue_cost e (rn_now r) + extra\<rparr>"

definition note_call :: "call \<Rightarrow> run \<Rightarrow> run" where
  "note_call c r = r\<lparr>rn_calls := rn_calls r @ [c]\<rparr>"

text \<open>A write without the fence, and the write of the service: with a lock it needs the lock to be held.\<close>

definition put_row :: "(bnk_upgrade \<Rightarrow> bnk_upgrade) \<Rightarrow> run \<Rightarrow> run" where
  "put_row f r = r\<lparr>rn_row := f (rn_row r), rn_log := rn_log r @ [f (rn_row r)]\<rparr>"

definition write_upgrade :: "upgrade_env \<Rightarrow> bool \<Rightarrow> (bnk_upgrade \<Rightarrow> bnk_upgrade) \<Rightarrow> run \<Rightarrow> upgrade_error option \<times> run" where
  "write_upgrade e lock f r = (if lock \<and> \<not> ue_held e (rn_now r) then (Some LockLost, r) else (None, put_row f r))"

section \<open>Step executors\<close>

text \<open>What a step leaves in its result: an output or a health snapshot.\<close>

type_synonym step_out = "string option \<times> snapshot option"

definition execute_helm_upgrade :: "upgrade_env \<Rightarrow> plan_step \<Rightarrow> run \<Rightarrow> (upgrade_error + step_out) \<times> run" where
  "execute_helm_upgrade e s r =
     (if \<not> truthy_str (ps_namespace s)
      then (Inl (ValueErr (''Helm upgrade step is missing '' @ quoted ''namespace'' @ ''. '' @
             ''Upgrade plans must include namespace from the existing release record.'')), r)
      else if \<not> truthy_str (ps_chart s)
      then (Inl (ValueErr (''Helm upgrade step is missing '' @ quoted ''chart'' @ ''. '' @
             ''Upgrade plans must include chart from the existing release record so airgapped registries are honoured.'')), r)
      else let rn = (case ps_release_name s of None \<Rightarrow> ''flo'' | Some n \<Rightarrow> n);
               r1 = note_call (Helm_Upgrade rn (the (ps_namespace s)) (the (ps_chart s)) (ps_version s)) (spend e 0 r)
           in case ue_helm e s (rn_now r) of
                Inl x \<Rightarrow> (Inl x, r1)
              | Inr (code, out, err) \<Rightarrow>
                  if code \<noteq> 0 then (Inl (RuntimeErr (''Helm upgrade failed: '' @ err)), r1) else (Inr (Some out, None), r1))"

text \<open>Whether the manifests of a module can be applied, and why not.\<close>

definition manifest_skip :: "upgrade_env \<Rightarrow> string \<Rightarrow> string option" where
  "manifest_skip e path =
     (case ue_module e path of
        None \<Rightarrow> Some (''Module '' @ path @ '' not in project, skipped'')
      | Some m \<Rightarrow> (case library_module m of
            None \<Rightarrow> Some (''Module '' @ path @ '' has no execution engine, skipped'')
          | Some lib \<Rightarrow>
              if \<not> truthy_str (execution_engine lib) then Some (''Module '' @ path @ '' has no execution engine, skipped'')
              else if norm_text (execution_engine lib) \<notin> {''kubernetes-direct'', ''operator''}
              then Some (''Module '' @ path @ '' is not a K8s module, skipped'')
              else if norm_text (deploy_model lib) \<noteq> ''manifests'' then Some (''Module '' @ path @ '' is not a manifest module, skipped'')
              else None))"

definition execute_manifest_apply :: "upgrade_env \<Rightarrow> plan_step \<Rightarrow> run \<Rightarrow> (upgrade_error + step_out) \<times> run" where
  "execute_manifest_apply e s r =
     (if \<not> truthy_str (ps_module s) then (Inl (ValueErr ''No module path in manifest_apply step''), r)
      else let path = the (ps_module s)
           in case manifest_skip e path of
                Some msg \<Rightarrow> (Inr (Some msg, None), r)
              | None \<Rightarrow> let r1 = note_call (Apply_Manifests path) (spend e 0 r)
                        in case ue_apply e path (rn_now r) of
                             Inl x \<Rightarrow> (Inl x, r1)
                           | Inr n \<Rightarrow> if n = 0 then (Inr (Some ''No manifests to apply'', None), spend e 0 r)
                                      else (Inr (Some (''Applied '' @ str_of_nat n @ '' resources''), None), r1))"

definition all_running :: "component_info \<Rightarrow> bool" where
  "all_running ci \<longleftrightarrow> ci_running ci = ci_pods ci \<and> 0 < ci_pods ci"

definition int_entry :: "(string, json_val) dict \<Rightarrow> string \<Rightarrow> json_val" where
  "int_entry d k = dict_get_or d k (JInt 0)"

definition positive :: "json_val \<Rightarrow> upgrade_error + bool" where
  "positive v = (case v of JInt i \<Rightarrow> Inr (0 < i) | JStr s \<Rightarrow> Inl (TypeErr ''unorderable types''))"

definition evaluate_health_check :: "string \<Rightarrow> bnk_install \<Rightarrow> upgrade_error + bool" where
  "evaluate_health_check chk bi =
     (if chk = ''flo_pods_ready'' then Inr (all_running (bi_flo bi))
      else if chk = ''controller_pods_ready'' then Inr (all_running (bi_controller bi))
      else if chk = ''tmm_pods_ready'' then Inr (all_running (bi_tmm bi))
      else if chk = ''tmm_containers_ready''
      then (case bi_tmm_containers bi of
              None \<Rightarrow> Inl (AttributeErr (quoted ''NoneType'' @ '' object has no attribute '' @ quoted ''get''))
            | Some d \<Rightarrow> if int_entry d ''ready'' = int_entry d ''total'' then positive (int_entry d ''total'') else Inr False)
      else if chk = ''vlans_programmed'' then Inr (list_all vl_programmed (bi_vlans bi))
      else Inr True)"

fun evaluate_checks :: "string list \<Rightarrow> bnk_install \<Rightarrow> upgrade_error + bool" where
  "evaluate_checks [] bi = Inr True"
| "evaluate_checks (c # cs) bi =
     (case evaluate_health_check c bi of
        Inl x \<Rightarrow> Inl x
      | Inr ok \<Rightarrow> (case evaluate_checks cs bi of Inl x \<Rightarrow> Inl x | Inr rest \<Rightarrow> Inr (ok \<and> rest)))"

text \<open>One round of a gate: it scans, stores the snapshot of its phase, and decides.\<close>

datatype gate_round = Retry nat | Passed snapshot | Broken upgrade_error

definition gate_round :: "upgrade_env \<Rightarrow> bool \<Rightarrow> plan_step \<Rightarrow> run \<Rightarrow> gate_round \<times> run" where
  "gate_round e lock s r =
     (case ue_scan e (rn_now r) of
        Inl x \<Rightarrow> (Retry 10, spend e 0 r)
      | Inr bi \<Rightarrow>
          let r1 = spend e 0 r; snap = (bi, rn_now r1)
          in if ps_phase s = ''pre_upgrade''
             then (case write_upgrade e lock (\<lambda>u. u\<lparr>ug_pre_health := Some snap\<rparr>) r1 of
                     (Some x, r2) \<Rightarrow> (Broken x, r2) | (None, r2) \<Rightarrow> (Passed snap, r2))
             else (case (if ps_phase s = ''post_upgrade'' then write_upgrade e lock (\<lambda>u. u\<lparr>ug_post_health := Some snap\<rparr>) r1 else (None, r1)) of
                 (Some x, r2) \<Rightarrow> (Broken x, r2)
               | (None, r2) \<Rightarrow> (case evaluate_checks (ps_checks s) bi of
                     Inl x \<Rightarrow> (Broken x, r2)
                   | Inr False \<Rightarrow> (Retry 15, r2)
                   | Inr True \<Rightarrow>
                       (case (if ps_phase s = ''post_upgrade'' then write_upgrade e lock (\<lambda>u. u\<lparr>ug_health_gate_passed := Some True\<rparr>) r2 else (None, r2)) of
                          (Some x, r3) \<Rightarrow> (Broken x, r3) | (None, r3) \<Rightarrow> (Passed snap, r3)))))"

lemma gate_round_now: "rn_now r \<le> rn_now (snd (gate_round e lock s r))"
  by (auto simp: gate_round_def spend_def write_upgrade_def put_row_def Let_def split: sum.splits bool.splits)

lemma gate_round_retry: "gate_round e lock s r = (Retry n, r') \<Longrightarrow> n = 10 \<or> n = 15"
  by (auto simp: gate_round_def write_upgrade_def Let_def split: sum.splits if_splits bool.splits)

lemma gate_advances: "(Retry n, r') = gate_round e lock s r \<Longrightarrow> 0 < n \<and> rn_now r \<le> rn_now r'"
  using gate_round_now [of r e lock s] gate_round_retry [of e lock s r n r'] by (metis snd_conv zero_less_numeral)

function health_loop :: "upgrade_env \<Rightarrow> bool \<Rightarrow> plan_step \<Rightarrow> nat \<Rightarrow> run \<Rightarrow> (upgrade_error + step_out) \<times> run" where
  "health_loop e lock s deadline r =
     (if deadline \<le> rn_now r
      then (Inl (RuntimeErr (''Health gate timed out after '' @ str_of_nat (ps_timeout s) @ ''s - checks not passing: '' @ repr_strs (ps_checks s))), r)
      else (case gate_round e lock s r of
          (Retry n, r1) \<Rightarrow> health_loop e lock s deadline (r1\<lparr>rn_now := rn_now r1 + n\<rparr>)
        | (Passed snap, r1) \<Rightarrow> (Inr (None, Some snap), r1)
        | (Broken x, r1) \<Rightarrow> (Inl x, r1)))"
  by pat_completeness auto
termination
  by (relation "measure (\<lambda>(e, lock, s, deadline, r). deadline - rn_now r)") (auto dest: gate_advances)

declare health_loop.simps [simp del]

definition execute_health_gate :: "upgrade_env \<Rightarrow> bool \<Rightarrow> plan_step \<Rightarrow> run \<Rightarrow> (upgrade_error + step_out) \<times> run" where
  "execute_health_gate e lock s r = health_loop e lock s (rn_now r + ps_timeout s) r"

text \<open>
  One look at the jobs of the CRD installer, each with its counts of successes and failures. An
  exception other than a \<^verbatim>\<open>RuntimeError\<close> is retried.
\<close>

fun job_verdict :: "(int \<times> int) list \<Rightarrow> (upgrade_error + string) option" where
  "job_verdict [] = None"
| "job_verdict ((ok, bad) # js) =
     (if 0 < ok then Some (Inr ''CRD installer completed'')
      else if 0 < bad then Some (Inl (RuntimeErr ''CRD installer job failed'')) else job_verdict js)"

definition crd_round :: "upgrade_env \<Rightarrow> nat \<Rightarrow> (upgrade_error + string) option" where
  "crd_round e t =
     (case ue_jobs e t of
        Inl (RuntimeErr m) \<Rightarrow> Some (Inl (RuntimeErr m))
      | Inl x \<Rightarrow> None
      | Inr [] \<Rightarrow> Some (Inr ''No crd-installer job detected'')
      | Inr js \<Rightarrow> job_verdict js)"

function crd_loop :: "upgrade_env \<Rightarrow> nat \<Rightarrow> run \<Rightarrow> (upgrade_error + step_out) \<times> run" where
  "crd_loop e deadline r =
     (if deadline \<le> rn_now r then (Inr (Some ''CRD wait timed out, continuing'', None), r)
      else (case crd_round e (rn_now r) of
          Some (Inl x) \<Rightarrow> (Inl x, spend e 0 r)
        | Some (Inr m) \<Rightarrow> (Inr (Some m, None), spend e 0 r)
        | None \<Rightarrow> crd_loop e deadline (spend e 10 r)))"
  by pat_completeness auto
termination by (relation "measure (\<lambda>(e, deadline, r). deadline - rn_now r)") (auto simp: spend_def)

declare crd_loop.simps [simp del]

definition execute_crd_wait :: "upgrade_env \<Rightarrow> plan_step \<Rightarrow> run \<Rightarrow> (upgrade_error + step_out) \<times> run" where
  "execute_crd_wait e s r = crd_loop e (rn_now r + ps_timeout s) r"

section \<open>Execution\<close>

definition execute_step :: "upgrade_env \<Rightarrow> bool \<Rightarrow> plan_step \<Rightarrow> run \<Rightarrow> (upgrade_error + step_out) \<times> run" where
  "execute_step e lock s r =
     (if ps_action s = STEP_HELM_UPGRADE then execute_helm_upgrade e s r
      else if ps_action s = STEP_MANIFEST_APPLY then execute_manifest_apply e s r
      else if ps_action s = STEP_HEALTH_GATE then execute_health_gate e lock s r
      else if ps_action s = STEP_CRD_WAIT then execute_crd_wait e s r
      else (Inr (None, None), r))"

definition result_of :: "plan_step \<Rightarrow> upgrade_error + step_out \<Rightarrow> step_result" where
  "result_of s out =
     (case out of
        Inl x \<Rightarrow> \<lparr>sr_step = ps_step s, sr_label = ps_label s, sr_action = ps_action s, sr_status = ''failed'',
                  sr_output = None, sr_health = None, sr_error = Some (error_str x)\<rparr>
      | Inr (msg, snap) \<Rightarrow> \<lparr>sr_step = ps_step s, sr_label = ps_label s, sr_action = ps_action s, sr_status = ''completed'',
                  sr_output = msg, sr_health = snap, sr_error = None\<rparr>)"

definition add_result :: "step_result \<Rightarrow> bnk_upgrade \<Rightarrow> bnk_upgrade" where
  "add_result res u = u\<lparr>ug_step_results := ug_step_results u @ [res]\<rparr>"

definition fail_step :: "plan_step \<Rightarrow> upgrade_error \<Rightarrow> nat \<Rightarrow> bnk_upgrade \<Rightarrow> bnk_upgrade" where
  "fail_step s x t u = (add_result (result_of s (Inl x)) u)\<lparr>ug_status := U_FAILED,
     ug_error_message := Some (''Step '' @ str_of_nat (ps_step s) @ '' failed: '' @ error_str x),
     ug_error_step := Some (ps_step s), ug_completed_at := Some t\<rparr>"

text \<open>The loop: \<open>True\<close> when all steps are done, \<open>False\<close> when it returned after a failed step.\<close>

fun step_loop :: "upgrade_env \<Rightarrow> bool \<Rightarrow> plan_step list \<Rightarrow> run \<Rightarrow> (upgrade_error + bool) \<times> run" where
  "step_loop e lock [] r = (Inr True, r)"
| "step_loop e lock (s # ss) r =
     (if ps_step s \<le> ug_current_step (rn_row r) then step_loop e lock ss r
      else (case write_upgrade e lock (\<lambda>u. u\<lparr>ug_current_step := ps_step s\<rparr>) r of
          (Some x, r1) \<Rightarrow> (Inl x, r1)
        | (None, r1) \<Rightarrow> (case execute_step e lock s r1 of
              (Inl x, r2) \<Rightarrow> (case write_upgrade e lock (fail_step s x (rn_now r2)) r2 of
                (Some y, r3) \<Rightarrow> (Inl y, r3) | (None, r3) \<Rightarrow> (Inr False, r3))
            | (Inr out, r2) \<Rightarrow> (case write_upgrade e lock (add_result (result_of s (Inr out))) r2 of
                (Some y, r3) \<Rightarrow> (Inl y, r3) | (None, r3) \<Rightarrow> step_loop e lock ss r3))))"

text \<open>The revision to roll back to. Whatever goes wrong here, a lost lock included, is only reported.\<close>

definition capture_rollback :: "upgrade_env \<Rightarrow> bool \<Rightarrow> run \<Rightarrow> run" where
  "capture_rollback e lock r =
     (case find (\<lambda>s. ps_action s = STEP_HELM_UPGRADE) (ug_plan (rn_row r)) of
        None \<Rightarrow> r
      | Some s \<Rightarrow>
          let rn = (case ps_release_name s of None \<Rightarrow> ''flo'' | Some n \<Rightarrow> n)
          in if \<not> truthy_str (ps_namespace s) then r
             else (case ue_history e rn (the (ps_namespace s)) (rn_now r) of
                 Inl x \<Rightarrow> spend e 0 r
               | Inr revs \<Rightarrow> if revs = [] then spend e 0 r
                   else snd (write_upgrade e lock (\<lambda>u. u\<lparr>ug_rollback_info :=
                          Some \<lparr>ri_revision = last revs, ri_release_name = rn, ri_namespace = the (ps_namespace s)\<rparr>,
                          ug_rollback_available := True\<rparr>) (spend e 0 r))))"

definition status_str :: "upgrade_status \<Rightarrow> string" where
  "status_str st = (case st of U_PLANNING \<Rightarrow> ''planning'' | U_READY \<Rightarrow> ''ready'' | U_IN_PROGRESS \<Rightarrow> ''in_progress''
     | U_HEALTH_CHECK \<Rightarrow> ''health_check'' | U_COMPLETED \<Rightarrow> ''completed'' | U_FAILED \<Rightarrow> ''failed'' | U_CANCELLED \<Rightarrow> ''cancelled''
     | U_ROLLING_BACK \<Rightarrow> ''rolling_back'' | U_ROLLED_BACK \<Rightarrow> ''rolled_back'')"

definition shape_of :: "bnk_upgrade \<Rightarrow> string" where
  "shape_of u = (case ug_from_info u of None \<Rightarrow> ''flo'' | Some bi \<Rightarrow> bi_install_shape bi)"

definition execute_upgrade :: "upgrade_env \<Rightarrow> bool \<Rightarrow> run \<Rightarrow> upgrade_error option \<times> run" where
  "execute_upgrade e lock r =
     (if ug_status (rn_row r) \<notin> {U_READY, U_IN_PROGRESS}
      then (Some (ValueErr (''Upgrade is '' @ status_str (ug_status (rn_row r)) @ '', not ready for execution'')), r)
      else if shape_of (rn_row r) \<noteq> ''flo''
      then write_upgrade e lock (\<lambda>u. u\<lparr>ug_status := U_FAILED, ug_error_message := Some (
             ''Automated upgrade execution is not yet supported for install_shape='' @ quoted (shape_of (rn_row r)) @
             '' (helm/manual BNK install). Perform the Helm upgrade manually, then re-run Validate & Plan to confirm the result.''),
             ug_completed_at := Some (rn_now r)\<rparr>) r
      else (case write_upgrade e lock (\<lambda>u. u\<lparr>ug_status := U_IN_PROGRESS, ug_started_at := Some (rn_now r)\<rparr>) r of
          (Some x, r1) \<Rightarrow> (Some x, r1)
        | (None, r1) \<Rightarrow> (case step_loop e lock (ug_plan (rn_row r)) (capture_rollback e lock r1) of
              (Inl x, r2) \<Rightarrow> (Some x, r2)
            | (Inr False, r2) \<Rightarrow> (None, r2)
            | (Inr True, r2) \<Rightarrow> write_upgrade e lock (\<lambda>u. u\<lparr>ug_status := U_COMPLETED, ug_completed_at := Some (rn_now r2)\<rparr>) r2)))"

section \<open>Rollback\<close>

definition rollback_failed :: "upgrade_env \<Rightarrow> bool \<Rightarrow> upgrade_error \<Rightarrow> run \<Rightarrow> upgrade_error option \<times> run" where
  "rollback_failed e lock x r =
     (case write_upgrade e lock (\<lambda>u. u\<lparr>ug_status := U_FAILED, ug_error_message := Some (''Rollback failed: '' @ error_str x),
         ug_completed_at := Some (rn_now r)\<rparr>) r of
        (Some y, r1) \<Rightarrow> (Some y, r1) | (None, r1) \<Rightarrow> (Some x, r1))"

definition rollback :: "upgrade_env \<Rightarrow> bool \<Rightarrow> run \<Rightarrow> upgrade_error option \<times> run" where
  "rollback e lock r =
     (let u = rn_row r
      in if \<not> ug_rollback_available u then (Some (ValueErr ''No rollback available for this upgrade''), r)
         else if ug_status u \<notin> {U_FAILED, U_IN_PROGRESS, U_HEALTH_CHECK}
         then (Some (ValueErr (''Cannot rollback from status '' @ quoted (status_str (ug_status u)))), r)
         else (case write_upgrade e lock (\<lambda>u. u\<lparr>ug_status := U_ROLLING_BACK,
                  ug_rollback_reason := Some (opt_str (ug_error_message u) ''User-initiated rollback'')\<rparr>) r of
             (Some x, r1) \<Rightarrow> (Some x, r1)
           | (None, r1) \<Rightarrow> (case ug_rollback_info u of
                 None \<Rightarrow> (Some (ValueErr (''Rollback info is missing '' @ quoted ''flo_namespace'' @ ''. '' @
                           ''Cannot rollback without knowing the FLO release namespace.'')), r1)
               | Some ri \<Rightarrow>
                   if ri_namespace ri = ''''
                   then (Some (ValueErr (''Rollback info is missing '' @ quoted ''flo_namespace'' @ ''. '' @
                          ''Cannot rollback without knowing the FLO release namespace.'')), r1)
                   else let r2 = note_call (Helm_Rollback (ri_release_name ri) (ri_namespace ri) (ri_revision ri)) (spend e 0 r1)
                        in case ue_rollback e ri (rn_now r1) of
                             Inl x \<Rightarrow> rollback_failed e lock x r2
                           | Inr (code, err) \<Rightarrow>
                               if code \<noteq> 0 then rollback_failed e lock (RuntimeErr (''Helm rollback failed: '' @ err)) r2
                               else (case ue_scan e (rn_now r2) of
                                   Inl x \<Rightarrow> rollback_failed e lock x (spend e 0 r2)
                                 | Inr bi \<Rightarrow> let r3 = spend e 0 r2
                                     in case write_upgrade e lock (\<lambda>u. u\<lparr>ug_status := U_ROLLED_BACK, ug_completed_at := Some (rn_now r3),
                                            ug_post_health := Some (bi, rn_now r3)\<rparr>) r3 of
                                          (Some x, r4) \<Rightarrow> rollback_failed e lock x r4
                                        | (None, r4) \<Rightarrow> (None, r4)))))"

section \<open>Tasks\<close>

text \<open>
  A task takes the lock first; whether it gets it is its second argument. The handlers of lock errors
  write the row without the fence.
\<close>

definition mark_failed :: "string \<Rightarrow> run \<Rightarrow> run" where
  "mark_failed msg r = put_row (\<lambda>u. u\<lparr>ug_status := U_FAILED, ug_error_message := Some msg, ug_completed_at := Some (rn_now r)\<rparr>) r"

definition execute_upgrade_task :: "upgrade_env \<Rightarrow> bool \<Rightarrow> run \<Rightarrow> run" where
  "execute_upgrade_task e acquired r =
     (if \<not> acquired then mark_failed (''Could not acquire lock: '' @ error_str LockBusy) r
      else (case execute_upgrade e True r of
          (None, r1) \<Rightarrow> r1
        | (Some LockLost, r1) \<Rightarrow> mark_failed (''Lock lost mid-upgrade: '' @ error_str LockLost) r1
        | (Some x, r1) \<Rightarrow> if ug_status (rn_row r1) = U_IN_PROGRESS then mark_failed (''Task error: '' @ error_str x) r1 else r1))"

definition rollback_upgrade_task :: "upgrade_env \<Rightarrow> bool \<Rightarrow> run \<Rightarrow> run" where
  "rollback_upgrade_task e acquired r =
     (if \<not> acquired then mark_failed (''Could not acquire lock for rollback: '' @ error_str LockBusy) r
      else (case rollback e True r of
          (Some LockLost, r1) \<Rightarrow> mark_failed (''Lock lost mid-rollback: '' @ error_str LockLost) r1
        | (_, r1) \<Rightarrow> r1))"

section \<open>The table of upgrades and the routes\<close>

record upgrade_db =
  ub_rows :: "bnk_upgrade list"
  ub_next :: int

datatype create_error = ClusterNotFound | UpgradeInProgress int upgrade_status | ScanFailed string

definition SUPERSEDABLE :: "upgrade_status list" where "SUPERSEDABLE = [U_PLANNING, U_READY]"

definition EXECUTING :: "upgrade_status list" where "EXECUTING = [U_IN_PROGRESS, U_HEALTH_CHECK, U_ROLLING_BACK]"

definition upgrade_row :: "int \<Rightarrow> upgrade_db \<Rightarrow> bnk_upgrade option" where
  "upgrade_row i db = find (\<lambda>u. ug_id u = i) (ub_rows db)"

definition set_row :: "bnk_upgrade \<Rightarrow> upgrade_db \<Rightarrow> upgrade_db" where
  "set_row u db = db\<lparr>ub_rows := map (\<lambda>x. if ug_id x = ug_id u then u else x) (ub_rows db)\<rparr>"

definition new_upgrade :: "int \<Rightarrow> int \<Rightarrow> string \<Rightarrow> bnk_install \<Rightarrow> string \<Rightarrow> bnk_upgrade" where
  "new_upgrade i cid target bi cluster_version =
     (let current = detect_current_bnk_version bi;
          checks = run_pre_checks bi cluster_version current target;
          bad = critical_failures checks;
          u = \<lparr>ug_id = i, ug_cluster_id = cid, ug_from_version = current, ug_to_version = target, ug_from_info = Some bi, ug_plan = [],
               ug_total_steps = 0, ug_current_step = 0, ug_pre_checks = checks, ug_pre_check_passed = (bad = []), ug_status = U_PLANNING,
               ug_step_results = [], ug_pre_health = None, ug_post_health = None, ug_health_gate_passed = None,
               ug_rollback_available = False, ug_rollback_info = None, ug_rollback_reason = None, ug_error_message = None,
               ug_error_step = None, ug_started_at = None, ug_completed_at = None\<rparr>
      in if bad = []
         then u\<lparr>ug_plan := build_plan bi target, ug_total_steps := length (build_plan bi target), ug_status := U_READY\<rparr>
         else u\<lparr>ug_status := U_FAILED, ug_error_message := Some (str_join ''; '' (map ck_detail bad))\<rparr>)"

text \<open>A scan that fails raises before the commit, so the plan that was to be superseded stays.\<close>

definition create_upgrade ::
  "int list \<Rightarrow> upgrade_error + (bnk_install \<times> string) \<Rightarrow> nat \<Rightarrow> int \<Rightarrow> string \<Rightarrow> upgrade_db \<Rightarrow> (create_error + bnk_upgrade) \<times> upgrade_db" where
  "create_upgrade clusters scan now cid target db =
     (if cid \<notin> set clusters then (Inl ClusterNotFound, db)
      else let existing = find (\<lambda>u. ug_cluster_id u = cid \<and> ug_status u \<in> set (SUPERSEDABLE @ EXECUTING)) (ub_rows db)
           in case existing of
                Some u \<Rightarrow>
                  if ug_status u \<in> set EXECUTING then (Inl (UpgradeInProgress (ug_id u) (ug_status u)), db)
                  else (case scan of
                      Inl x \<Rightarrow> (Inl (ScanFailed (error_str x)), db)
                    | Inr (bi, ver) \<Rightarrow>
                        let row = new_upgrade (ub_next db) cid target bi ver;
                            db1 = set_row (u\<lparr>ug_status := U_CANCELLED, ug_completed_at := Some now\<rparr>) db
                        in (Inr row, db1\<lparr>ub_rows := ub_rows db1 @ [row], ub_next := ub_next db + 1\<rparr>))
              | None \<Rightarrow> (case scan of
                    Inl x \<Rightarrow> (Inl (ScanFailed (error_str x)), db)
                  | Inr (bi, ver) \<Rightarrow>
                      let row = new_upgrade (ub_next db) cid target bi ver
                      in (Inr row, db\<lparr>ub_rows := ub_rows db @ [row], ub_next := ub_next db + 1\<rparr>)))"

definition cancel_upgrade :: "nat \<Rightarrow> int \<Rightarrow> upgrade_db \<Rightarrow> upgrade_error option \<times> upgrade_db" where
  "cancel_upgrade now i db =
     (case upgrade_row i db of
        None \<Rightarrow> (Some (ValueErr (''Upgrade '' @ str_of_int i @ '' not found'')), db)
      | Some u \<Rightarrow>
          if ug_status u \<notin> set SUPERSEDABLE
          then (Some (ValueErr (''Cannot cancel upgrade in status '' @ quoted (status_str (ug_status u)))), db)
          else (None, set_row (u\<lparr>ug_status := U_CANCELLED, ug_completed_at := Some now\<rparr>) db))"

text \<open>The guards of the two routes that queue a task.\<close>

definition execute_route_ok :: "int \<Rightarrow> bnk_upgrade \<Rightarrow> bool" where
  "execute_route_ok cid u \<longleftrightarrow> ug_cluster_id u = cid \<and> ug_status u = U_READY"

definition rollback_route_ok :: "int \<Rightarrow> bnk_upgrade \<Rightarrow> bool" where
  "rollback_route_ok cid u \<longleftrightarrow> ug_cluster_id u = cid \<and> ug_rollback_available u \<and> ug_status u \<in> {U_FAILED, U_IN_PROGRESS, U_HEALTH_CHECK}"

definition start_run :: "bnk_upgrade \<Rightarrow> nat \<Rightarrow> run" where
  "start_run u t = \<lparr>rn_row = u, rn_now = t, rn_calls = [], rn_log = []\<rparr>"

text \<open>
  What the platform does to the table: creation and cancellation; a task that a route queued, which may
  get the lock or not and may die after any of its commits; and a task that the broker delivers
  again after its worker died, which gets the lock.
\<close>

definition outcomes :: "run \<Rightarrow> bnk_upgrade set" where
  "outcomes r = insert (rn_row r) (set (rn_log r))"

inductive upgrade_trans :: "int list \<Rightarrow> upgrade_db \<Rightarrow> upgrade_db \<Rightarrow> bool" for clusters where
  creates: "create_upgrade clusters scan now cid target db = (res, db') \<Longrightarrow> upgrade_trans clusters db db'"
| cancels: "cancel_upgrade now i db = (res, db') \<Longrightarrow> upgrade_trans clusters db db'"
| executes: "upgrade_row i db = Some u \<Longrightarrow> execute_route_ok cid u \<Longrightarrow>
    u' \<in> outcomes (execute_upgrade_task e acquired (start_run u t)) \<Longrightarrow> upgrade_trans clusters db (set_row u' db)"
| rolls_back: "upgrade_row i db = Some u \<Longrightarrow> rollback_route_ok cid u \<Longrightarrow>
    u' \<in> outcomes (rollback_upgrade_task e acquired (start_run u t)) \<Longrightarrow> upgrade_trans clusters db (set_row u' db)"
| redelivers_execute: "upgrade_row i db = Some u \<Longrightarrow> u' \<in> outcomes (execute_upgrade_task e True (start_run u t)) \<Longrightarrow>
    upgrade_trans clusters db (set_row u' db)"
| redelivers_rollback: "upgrade_row i db = Some u \<Longrightarrow> u' \<in> outcomes (rollback_upgrade_task e True (start_run u t)) \<Longrightarrow>
    upgrade_trans clusters db (set_row u' db)"

section \<open>When an upgrade may start\<close>

text \<open>
  What makes an upgrade ready. A new upgrade is ready, with the plan for its target, exactly when
  the scan shows an installation, a version was detected that is not the target, and the
  cluster is not older than the target's minimum as far as both are known; everything else only
  warns. Otherwise it is failed, without a plan and with the reasons.
\<close>

theorem new_upgrade_ready_iff:
  assumes "u = new_upgrade i cid target bi ver" and "target \<noteq> ''''"
  shows "(ug_status u = U_READY \<longleftrightarrow> bi_status bi = ''installed'' \<and>
      (\<exists>v. detect_current_bnk_version bi = Some v \<and> v \<noteq> '''' \<and> \<not> version_eq target v) \<and>
      \<not> (\<exists>rg k. get_known_version_info target = Some rg \<and> ver \<noteq> '''' \<and> k8s_version ver = Some k \<and> parse_version k < parse_version (min_k8s rg))) \<and>
    (if ug_status u = U_READY then ug_plan u = build_plan bi target \<and> ug_total_steps u = length (ug_plan u)
     else ug_status u = U_FAILED \<and> ug_plan u = [] \<and> ug_error_message u \<noteq> None)"
proof -
  define cur where "cur = detect_current_bnk_version bi"
  define bad where "bad = critical_failures (run_pre_checks bi ver cur target)"
  have st: "ug_status u = U_READY \<longleftrightarrow> bad = []"
    unfolding assms(1) new_upgrade_def Let_def cur_def [symmetric] bad_def [symmetric] by simp
  have rest: "if bad = [] then ug_plan u = build_plan bi target \<and> ug_total_steps u = length (ug_plan u)
     else ug_status u = U_FAILED \<and> ug_plan u = [] \<and> ug_error_message u \<noteq> None"
    unfolding assms(1) new_upgrade_def Let_def cur_def [symmetric] bad_def [symmetric] by simp
  have cf: "critical_failures (xs @ ys) = [] \<longleftrightarrow> critical_failures xs = [] \<and> critical_failures ys = []"
    "critical_failures (c # xs) = [] \<longleftrightarrow> \<not> (ck_status c = ''fail'' \<and> ck_critical c) \<and> critical_failures xs = []" for xs ys c
    by (simp_all add: critical_failures_def)
  have nil: "critical_failures [] = []" by (simp add: critical_failures_def)
  have soft: "\<not> ck_critical (pods_check n l w ci)" for n l w ci by (simp add: pods_check_def check_def)
  have ver: "critical_failures (version_check cur target) = [] \<longleftrightarrow> \<not> (truthy_str cur \<and> version_eq target (the cur))"
    using assms(2) by (simp add: version_check_def Let_def critical_failures_def check_def)
  have k8s: "critical_failures (k8s_check ver target) = [] \<longleftrightarrow>
      \<not> (\<exists>rg k. get_known_version_info target = Some rg \<and> ver \<noteq> '''' \<and> k8s_version ver = Some k \<and> parse_version k < parse_version (min_k8s rg))"
    by (simp add: k8s_check_def critical_failures_def check_def split: option.splits)
  have "bad = [] \<longleftrightarrow> bi_status bi = ''installed'' \<and> truthy_str cur \<and> critical_failures (version_check cur target) = [] \<and>
      critical_failures (k8s_check ver target) = []"
    unfolding bad_def run_pre_checks_def Let_def cf nil by (auto simp: check_def soft pass_or_def)
  then have "bad = [] \<longleftrightarrow> bi_status bi = ''installed'' \<and> (truthy_str cur \<and> \<not> version_eq target (the cur)) \<and>
      critical_failures (k8s_check ver target) = []" unfolding ver by blast
  moreover have "truthy_str cur \<and> \<not> version_eq target (the cur) \<longleftrightarrow> (\<exists>v. cur = Some v \<and> v \<noteq> '''' \<and> \<not> version_eq target v)"
    by (cases cur) (auto simp: truthy_str_def)
  ultimately show ?thesis using st rest k8s unfolding cur_def by simp
qed

section \<open>What a run does\<close>

text \<open>The part of the row that a step executor never writes, and the calls that a step may make.\<close>

definition core :: "bnk_upgrade \<Rightarrow> bnk_upgrade" where
  "core u = u\<lparr>ug_pre_health := None, ug_post_health := None, ug_health_gate_passed := None\<rparr>"

definition call_of :: "plan_step \<Rightarrow> call \<Rightarrow> bool" where
  "call_of s c \<longleftrightarrow> (case c of
     Helm_Upgrade _ _ _ v \<Rightarrow> ps_action s = STEP_HELM_UPGRADE \<and> v = ps_version s
   | Apply_Manifests p \<Rightarrow> ps_action s = STEP_MANIFEST_APPLY \<and> ps_module s = Some p
   | Helm_Rollback _ _ _ \<Rightarrow> False)"

definition extends :: "(bnk_upgrade \<Rightarrow> bool) \<Rightarrow> (call \<Rightarrow> bool) \<Rightarrow> run \<Rightarrow> run \<Rightarrow> bool" where
  "extends P C r r' \<longleftrightarrow> (\<exists>rows calls. rn_log r' = rn_log r @ rows \<and> (\<forall>u \<in> set rows. P u) \<and>
     rn_calls r' = rn_calls r @ calls \<and> (\<forall>c \<in> set calls. C c)) \<and> (rn_row r' = rn_row r \<or> P (rn_row r'))"

lemma extends_refl [simp]: "extends P C r r"
  by (simp add: extends_def)

lemma extends_trans:
  assumes "extends P C a b" and "extends P C b c"
  shows "extends P C a c"
proof -
  obtain l1 k1 l2 k2 where "rn_log b = rn_log a @ l1" "\<forall>u \<in> set l1. P u" "rn_calls b = rn_calls a @ k1" "\<forall>c \<in> set k1. C c"
    "rn_log c = rn_log b @ l2" "\<forall>u \<in> set l2. P u" "rn_calls c = rn_calls b @ k2" "\<forall>c \<in> set k2. C c"
    using assms unfolding extends_def by blast
  then have "rn_log c = rn_log a @ (l1 @ l2)" "\<forall>u \<in> set (l1 @ l2). P u" "rn_calls c = rn_calls a @ (k1 @ k2)" "\<forall>c \<in> set (k1 @ k2). C c"
    by auto
  moreover have "rn_row c = rn_row a \<or> P (rn_row c)" using assms unfolding extends_def by metis
  ultimately show ?thesis unfolding extends_def by blast
qed

lemma extends_mono: "extends P C r r' \<Longrightarrow> (\<And>u. P u \<Longrightarrow> Q u) \<Longrightarrow> (\<And>c. C c \<Longrightarrow> D c) \<Longrightarrow> extends Q D r r'"
  unfolding extends_def by blast

lemma extends_spend [simp]: "extends P C r (spend e n r)" and extends_now [simp]: "extends P C r (r\<lparr>rn_now := t\<rparr>)"
  by (simp_all add: extends_def spend_def)

lemma extends_put: "P (f (rn_row r)) \<Longrightarrow> extends P C r (put_row f r)"
  by (auto simp: extends_def put_row_def)

lemma extends_write: "P (f (rn_row r)) \<Longrightarrow> extends P C r (snd (write_upgrade e lock f r))"
  by (simp add: write_upgrade_def extends_put)

lemma extends_call: "C c \<Longrightarrow> extends P C r (note_call c r)"
  by (auto simp: extends_def note_call_def)

lemma run_fields [simp]: "rn_row (spend e n r) = rn_row r" "rn_row (note_call c r) = rn_row r" "rn_row (put_row f r) = f (rn_row r)"
  by (simp_all add: spend_def note_call_def put_row_def)

text \<open>A step executor keeps the core of the row and makes only the calls of its step.\<close>

abbreviation same_core :: "run \<Rightarrow> bnk_upgrade \<Rightarrow> bool" where
  "same_core r \<equiv> \<lambda>u. core u = core (rn_row r)"

lemma extends_core: "extends (same_core a) C a b \<Longrightarrow> extends (same_core b) C b c \<Longrightarrow> extends (same_core a) C a c"
proof -
  assume ab: "extends (same_core a) C a b" and bc: "extends (same_core b) C b c"
  have "core (rn_row b) = core (rn_row a)" using ab by (auto simp: extends_def)
  then show ?thesis using extends_trans [OF ab] bc by simp
qed

lemma core_simps [simp]: "core (u\<lparr>ug_pre_health := a\<rparr>) = core u" "core (u\<lparr>ug_post_health := a\<rparr>) = core u"
  "core (u\<lparr>ug_health_gate_passed := b\<rparr>) = core u"
  by (simp_all add: core_def)

lemma write_core:
  assumes "write_upgrade e lock f r = (x, r')" and "\<And>u. core (f u) = core u"
  shows "extends (same_core r) C r r'"
  using extends_write [of "same_core r" f r C e lock] assms by simp

lemma gate_round_extends:
  assumes "gate_round e lock s r = (g, r')"
  shows "extends (same_core r) C r r'"
proof (cases "ue_scan e (rn_now r)")
  case (Inl x)
  then show ?thesis using assms by (auto simp: gate_round_def)
next
  case (Inr bi)
  define r1 where "r1 = spend e 0 r"
  have one: "extends (same_core r) C r r1" by (simp add: r1_def)
  define snap where "snap = (bi, rn_now r1)"
  note G = assms [unfolded gate_round_def Inr sum.case Let_def, folded r1_def, folded snap_def]
  show ?thesis
  proof (cases "ps_phase s = ''pre_upgrade''")
    case True
    then have "r' = snd (write_upgrade e lock (\<lambda>u. u\<lparr>ug_pre_health := Some snap\<rparr>) r1)" using G by (auto split: prod.splits option.splits)
    then show ?thesis using extends_core [OF one] extends_write [of "same_core r1" "\<lambda>u. u\<lparr>ug_pre_health := Some snap\<rparr>" r1] by simp
  next
    case False
    obtain x r2 where w: "(if ps_phase s = ''post_upgrade'' then write_upgrade e lock (\<lambda>u. u\<lparr>ug_post_health := Some snap\<rparr>) r1 else (None, r1)) = (x, r2)"
      by fastforce
    have two: "extends (same_core r1) C r1 r2"
      using w write_core [of e lock "\<lambda>u. u\<lparr>ug_post_health := Some snap\<rparr>" r1 x r2] by (auto split: if_splits)
    obtain y r3 where v: "(if ps_phase s = ''post_upgrade'' then write_upgrade e lock (\<lambda>u. u\<lparr>ug_health_gate_passed := Some True\<rparr>) r2 else (None, r2)) = (y, r3)"
      by fastforce
    have three: "extends (same_core r2) C r2 r3"
      using v write_core [of e lock "\<lambda>u. u\<lparr>ug_health_gate_passed := Some True\<rparr>" r2 y r3] by (auto split: if_splits)
    have "r' = r2 \<or> r' = r3"
      using G False v unfolding w by (auto split: option.splits sum.splits bool.splits prod.splits)
    then show ?thesis using extends_core [OF one two] extends_core [OF extends_core [OF one two] three] by blast
  qed
qed

lemma health_loop_extends:
  "health_loop e lock s deadline r = (out, r') \<Longrightarrow> extends (same_core r) C r r'"
proof (induction e lock s deadline r rule: health_loop.induct)
  case (1 e lock s deadline r)
  show ?case
  proof (cases "deadline \<le> rn_now r")
    case True
    then show ?thesis using "1.prems" by (simp add: health_loop.simps)
  next
    case False
    obtain g r1 where g: "gate_round e lock s r = (g, r1)" by fastforce
    note one = gate_round_extends [OF g, where C = C]
    show ?thesis
    proof (cases g)
      case (Retry n)
      have "health_loop e lock s deadline (r1\<lparr>rn_now := rn_now r1 + n\<rparr>) = (out, r')"
        using "1.prems" False g Retry by (simp add: health_loop.simps [of e lock s deadline r])
      from "1.IH" [OF False g [symmetric] Retry this] have "extends (same_core r1) C r1 r'"
        using extends_core [OF extends_now] by fastforce
      then show ?thesis using extends_core [OF one] by blast
    qed (use "1.prems" False g one in \<open>simp_all add: health_loop.simps [of e lock s deadline r]\<close>)
  qed
qed

lemma crd_loop_extends: "crd_loop e deadline r = (out, r') \<Longrightarrow> extends P C r r'"
proof (induction e deadline r rule: crd_loop.induct)
  case (1 e deadline r)
  show ?case
  proof (cases "deadline \<le> rn_now r \<or> crd_round e (rn_now r) \<noteq> None")
    case True
    then show ?thesis using "1.prems" by (auto simp: crd_loop.simps [of e deadline r] split: sum.splits if_splits)
  next
    case False
    then have "extends P C (spend e 10 r) r'" using 1 by (simp add: crd_loop.simps [of e deadline r])
    then show ?thesis using extends_trans [OF extends_spend] by blast
  qed
qed

lemma core_fields:
  assumes "core u = core v"
  shows "ug_step_results u = ug_step_results v" "ug_current_step u = ug_current_step v" "ug_status u = ug_status v"
    "ug_error_step u = ug_error_step v" "ug_plan u = ug_plan v" "ug_id u = ug_id v" "ug_cluster_id u = ug_cluster_id v"
  using assms by (metis core_def bnk_upgrade.select_convs bnk_upgrade.surjective bnk_upgrade.update_convs)+

text \<open>
  The contract that the loop relies on: an executor of the steps that it accepts keeps the core of the
  row and makes only the calls of its step.
\<close>

locale step_executor =
  fixes accepts :: "plan_step \<Rightarrow> bool"
    and exec :: "upgrade_env \<Rightarrow> bool \<Rightarrow> plan_step \<Rightarrow> run \<Rightarrow> (upgrade_error + step_out) \<times> run"
  assumes extends_run: "accepts s \<Longrightarrow> exec e lock s r = (out, r') \<Longrightarrow> extends (same_core r) (call_of s) r r'"
begin

lemma keeps_core: "accepts s \<Longrightarrow> exec e lock s r = (out, r') \<Longrightarrow> core (rn_row r') = core (rn_row r)"
  using extends_run by (fastforce simp: extends_def)

lemmas keeps_fields = core_fields [OF keeps_core]

end

interpretation helm: step_executor "\<lambda>s. ps_action s = STEP_HELM_UPGRADE" "\<lambda>e lock. execute_helm_upgrade e"
proof
  fix s e r out r'
  assume helm: "ps_action s = STEP_HELM_UPGRADE" "execute_helm_upgrade e s r = (out, r')"
  have "extends (same_core r) (call_of s) r (note_call (Helm_Upgrade a b c (ps_version s)) (spend e 0 r))" for a b c
    using extends_trans [OF extends_spend extends_call] helm(1) by (simp add: call_of_def)
  then show "extends (same_core r) (call_of s) r r'"
    using helm(2) by (auto simp: execute_helm_upgrade_def Let_def split: if_splits sum.splits prod.splits)
qed

interpretation manifests: step_executor "\<lambda>s. ps_action s = STEP_MANIFEST_APPLY" "\<lambda>e lock. execute_manifest_apply e"
proof
  fix s e r out r'
  assume manifests: "ps_action s = STEP_MANIFEST_APPLY" "execute_manifest_apply e s r = (out, r')"
  have "extends (same_core r) (call_of s) r (note_call (Apply_Manifests (the (ps_module s))) (spend e 0 r))" if "truthy_str (ps_module s)"
    using extends_trans [OF extends_spend extends_call] manifests(1) that by (auto simp: call_of_def truthy_str_def)
  then show "extends (same_core r) (call_of s) r r'"
    using manifests(2) by (auto simp: execute_manifest_apply_def Let_def split: if_splits sum.splits option.splits)
qed

interpretation gate: step_executor "\<lambda>s. True" execute_health_gate
  by unfold_locales (auto simp: execute_health_gate_def intro: health_loop_extends)

interpretation crd: step_executor "\<lambda>s. True" "\<lambda>e lock. execute_crd_wait e"
  by unfold_locales (auto simp: execute_crd_wait_def intro: crd_loop_extends)

interpretation any: step_executor "\<lambda>s. True" execute_step
proof
  fix s e lock r out r'
  assume "execute_step e lock s r = (out, r')"
  then show "extends (same_core r) (call_of s) r r'"
    unfolding execute_step_def by (auto split: if_splits intro: helm.extends_run manifests.extends_run gate.extends_run crd.extends_run)
qed

lemmas execute_step_extends = any.extends_run [OF TrueI]

definition todo :: "run \<Rightarrow> plan_step list \<Rightarrow> plan_step list" where
  "todo r ss = filter (\<lambda>s. ug_current_step (rn_row r) < ps_step s) ss"

text \<open>
  The steps that a run of the loop took, with what each came to. In increasing plans the
  counter skips exactly the steps up to its value at the start.
\<close>

definition took :: "upgrade_env \<Rightarrow> bool \<Rightarrow> run \<Rightarrow> (plan_step \<times> (upgrade_error + step_out)) list \<Rightarrow> run \<Rightarrow> bool" where
  "took e lock r pairs r' \<longleftrightarrow>
     ug_step_results (rn_row r') = ug_step_results (rn_row r) @ map (\<lambda>(s, out). result_of s out) pairs \<and>
     (\<forall>(s, out) \<in> set pairs. \<exists>r1. fst (execute_step e lock s r1) = out)"

lemma took_Nil: "ug_step_results (rn_row r') = ug_step_results (rn_row r) \<Longrightarrow> took e lock r [] r'"
  by (simp add: took_def)

lemma took_Cons:
  assumes "fst (execute_step e lock s r1) = out" and "ug_step_results (rn_row r2) = ug_step_results (rn_row r) @ [result_of s out]"
    and "took e lock r2 pairs r3"
  shows "took e lock r ((s, out) # pairs) r3"
  using assms by (auto simp: took_def)

lemma step_loop_run:
  assumes "step_loop e lock ss r = (res, r')" and "sorted_wrt (<) (map ps_step ss)"
  shows "\<exists>pairs rest. todo r ss = map fst pairs @ rest \<and> took e lock r pairs r' \<and>
    (res = Inr True \<longrightarrow> rest = [] \<and> (\<forall>p \<in> set pairs. \<not> isl (snd p)) \<and> ug_status (rn_row r') = ug_status (rn_row r)) \<and>
    (res = Inr False \<longrightarrow> (\<exists>ps s x. pairs = ps @ [(s, Inl x)] \<and> (\<forall>p \<in> set ps. \<not> isl (snd p)) \<and>
       ug_status (rn_row r') = U_FAILED \<and> ug_error_step (rn_row r') = Some (ps_step s))) \<and>
    ((lock \<longrightarrow> (\<forall>t. ue_held e t)) \<longrightarrow> (\<exists>b. res = Inr b))"
  using assms
proof (induction ss arbitrary: r)
  case Nil
  then show ?case by (auto simp: todo_def took_def intro: exI [of _ "[]"])
next
  case (Cons s ss)
  have sorted: "sorted_wrt (<) (map ps_step ss)" and above: "\<forall>x \<in> set ss. ps_step s < ps_step x"
    using Cons.prems(2) by auto
  show ?case
  proof (cases "ps_step s \<le> ug_current_step (rn_row r)")
    case True
    then have "todo r (s # ss) = todo r ss" "step_loop e lock ss r = (res, r')" using Cons.prems(1) by (simp_all add: todo_def)
    then show ?thesis using Cons.IH [OF _ sorted] by simp
  next
    case False
    show ?thesis
    proof (cases "lock \<and> \<not> ue_held e (rn_now r)")
      case True
      then have "res = Inl LockLost" "r' = r" using Cons.prems(1) False by (simp_all add: write_upgrade_def)
      then show ?thesis using True by (intro exI [of _ "[]"] exI [of _ "todo r (s # ss)"]) (auto simp: took_def)
    next
      case held: False
      define r1 where "r1 = put_row (\<lambda>u. u\<lparr>ug_current_step := ps_step s\<rparr>) r"
      have w: "write_upgrade e lock (\<lambda>u. u\<lparr>ug_current_step := ps_step s\<rparr>) r = (None, r1)" using held by (simp add: write_upgrade_def r1_def)
      obtain out r2 where x: "execute_step e lock s r1 = (out, r2)" by fastforce
      note fields = any.keeps_fields [OF TrueI x]
      have f2: "ug_step_results (rn_row r2) = ug_step_results (rn_row r)" "ug_current_step (rn_row r2) = ps_step s" "ug_status (rn_row r2) = ug_status (rn_row r)"
        using fields by (simp_all add: r1_def)
      have todo: "todo r (s # ss) = s # ss"
      proof -
        have "\<forall>x \<in> set ss. ug_current_step (rn_row r) < ps_step x" using above False by (meson less_trans not_le)
        then show ?thesis using False by (simp add: todo_def filter_id_conv)
      qed
      have fst_x: "fst (execute_step e lock s r1) = out" using x by simp
      show ?thesis
      proof (cases "lock \<and> \<not> ue_held e (rn_now r2)")
        case True
        then have "res = Inl LockLost" "r' = r2" using Cons.prems(1) False w x by (auto simp: write_upgrade_def split: sum.splits)
        then show ?thesis using True todo f2 by (intro exI [of _ "[]"] exI [of _ "s # ss"]) (auto simp: took_def)
      next
        case held2: False
        show ?thesis
        proof (cases out)
          case (Inl y)
          let ?g = "fail_step s y (rn_now r2)"
          have "write_upgrade e lock ?g r2 = (None, put_row ?g r2)" using held2 by (simp add: write_upgrade_def)
          then have out: "res = Inr False" "r' = put_row ?g r2" using Cons.prems(1) False w x Inl by simp_all
          have "took e lock r [(s, Inl y)] r'"
            using fst_x Inl f2 by (auto simp: took_def out fail_step_def add_result_def)
          then show ?thesis using out todo by (intro exI [of _ "[(s, Inl y)]"]) (auto simp: fail_step_def)
        next
          case (Inr z)
          define r3 where "r3 = put_row (add_result (result_of s (Inr z))) r2"
          have w3: "write_upgrade e lock (add_result (result_of s (Inr z))) r2 = (None, r3)" using held2 by (simp add: write_upgrade_def r3_def)
          then have l: "step_loop e lock ss r3 = (res, r')" using Cons.prems(1) False w x Inr by simp
          have f3: "ug_current_step (rn_row r3) = ps_step s" "ug_status (rn_row r3) = ug_status (rn_row r)"
            "ug_step_results (rn_row r3) = ug_step_results (rn_row r) @ [result_of s (Inr z)]"
            using f2 by (simp_all add: r3_def add_result_def)
          have td3: "todo r3 ss = ss" using above f3(1) by (simp add: todo_def filter_id_conv)
          from Cons.IH [OF l sorted, unfolded td3] obtain pairs rest where IH: "ss = map fst pairs @ rest" "took e lock r3 pairs r'"
            "res = Inr True \<longrightarrow> rest = [] \<and> (\<forall>p \<in> set pairs. \<not> isl (snd p)) \<and> ug_status (rn_row r') = ug_status (rn_row r3)"
            "res = Inr False \<longrightarrow> (\<exists>ps s x. pairs = ps @ [(s, Inl x)] \<and> (\<forall>p \<in> set ps. \<not> isl (snd p)) \<and>
               ug_status (rn_row r') = U_FAILED \<and> ug_error_step (rn_row r') = Some (ps_step s))"
            "(lock \<longrightarrow> (\<forall>t. ue_held e t)) \<longrightarrow> (\<exists>b. res = Inr b)" by (elim exE conjE) (rule that)
          have took: "took e lock r ((s, Inr z) # pairs) r'" using took_Cons [OF _ f3(3) IH(2)] fst_x Inr by simp
          show ?thesis
          proof (intro exI [of _ "(s, Inr z) # pairs"] exI [of _ rest] conjI)
            show "res = Inr False \<longrightarrow> (\<exists>ps' s'' x. (s, Inr z) # pairs = ps' @ [(s'', Inl x)] \<and> (\<forall>p \<in> set ps'. \<not> isl (snd p)) \<and>
                ug_status (rn_row r') = U_FAILED \<and> ug_error_step (rn_row r') = Some (ps_step s''))"
            proof
            assume "res = Inr False"
            then obtain ps s' x where "pairs = ps @ [(s', Inl x)]" "\<forall>p \<in> set ps. \<not> isl (snd p)" "ug_status (rn_row r') = U_FAILED"
              "ug_error_step (rn_row r') = Some (ps_step s')" using IH(4) by blast
            then show "\<exists>ps' s'' x. (s, Inr z) # pairs = ps' @ [(s'', Inl x)] \<and> (\<forall>p \<in> set ps'. \<not> isl (snd p)) \<and>
                ug_status (rn_row r') = U_FAILED \<and> ug_error_step (rn_row r') = Some (ps_step s'')"
              by (intro exI [of _ "(s, Inr z) # ps"]) auto
            qed
          qed (use todo took IH(1,3,5) f3(2) in auto)
        qed
      qed
    qed
  qed
qed

lemma capture_extends:
  fixes e lock r
  defines "r' \<equiv> capture_rollback e lock r"
  shows "ug_step_results (rn_row r') = ug_step_results (rn_row r)" and "ug_current_step (rn_row r') = ug_current_step (rn_row r)"
    and "ug_status (rn_row r') = ug_status (rn_row r)" and "ug_plan (rn_row r') = ug_plan (rn_row r)" and "rn_calls r' = rn_calls r"
  unfolding r'_def capture_rollback_def Let_def write_upgrade_def
  by (simp_all add: put_row_def spend_def split: option.split sum.split)

lemma started_run:
  assumes "ug_status (rn_row r) \<in> {U_READY, U_IN_PROGRESS}" and "shape_of (rn_row r) = ''flo''"
    and "execute_upgrade e lock r = (err, r')" and "sorted_wrt (<) (map ps_step (ug_plan (rn_row r)))"
  obtains (refused) "err = Some LockLost" "r' = r" "lock" "\<not> ue_held e (rn_now r)"
    | (ran) res r2 pairs rest where "todo r (ug_plan (rn_row r)) = map fst pairs @ rest" "took e lock r pairs r2"
      "res = Inr True \<longrightarrow> rest = [] \<and> (\<forall>p \<in> set pairs. \<not> isl (snd p)) \<and> ug_status (rn_row r2) = U_IN_PROGRESS"
      "res = Inr False \<longrightarrow> (\<exists>ps s x. pairs = ps @ [(s, Inl x)] \<and> (\<forall>p \<in> set ps. \<not> isl (snd p)) \<and>
         ug_status (rn_row r2) = U_FAILED \<and> ug_error_step (rn_row r2) = Some (ps_step s))"
      "(lock \<longrightarrow> (\<forall>t. ue_held e t)) \<longrightarrow> (\<exists>b. res = Inr b)"
      "(err, r') = (case res of Inl x \<Rightarrow> (Some x, r2) | Inr False \<Rightarrow> (None, r2)
         | Inr True \<Rightarrow> write_upgrade e lock (\<lambda>u. u\<lparr>ug_status := U_COMPLETED, ug_completed_at := Some (rn_now r2)\<rparr>) r2)"
      "step_loop e lock (ug_plan (rn_row r)) (capture_rollback e lock (put_row (\<lambda>u. u\<lparr>ug_status := U_IN_PROGRESS, ug_started_at := Some (rn_now r)\<rparr>) r)) = (res, r2)"
proof (cases "lock \<and> \<not> ue_held e (rn_now r)")
  case True
  then show ?thesis using refused assms(1-3) by (simp add: execute_upgrade_def write_upgrade_def)
next
  case False
  define r0 where "r0 = put_row (\<lambda>u. u\<lparr>ug_status := U_IN_PROGRESS, ug_started_at := Some (rn_now r)\<rparr>) r"
  define r1 where "r1 = capture_rollback e lock r0"
  obtain res r2 where l: "step_loop e lock (ug_plan (rn_row r)) r1 = (res, r2)" by fastforce
  have f: "ug_step_results (rn_row r1) = ug_step_results (rn_row r)" "ug_current_step (rn_row r1) = ug_current_step (rn_row r)"
    "ug_status (rn_row r1) = U_IN_PROGRESS" using capture_extends [of e lock r0] by (simp_all add: r1_def r0_def)
  have "write_upgrade e lock (\<lambda>u. u\<lparr>ug_status := U_IN_PROGRESS, ug_started_at := Some (rn_now r)\<rparr>) r = (None, r0)"
    using False by (simp add: write_upgrade_def r0_def)
  then have out: "(err, r') = (case res of Inl x \<Rightarrow> (Some x, r2) | Inr False \<Rightarrow> (None, r2)
         | Inr True \<Rightarrow> write_upgrade e lock (\<lambda>u. u\<lparr>ug_status := U_COMPLETED, ug_completed_at := Some (rn_now r2)\<rparr>) r2)"
    using assms(1-3) l unfolding execute_upgrade_def r1_def by (auto split: sum.splits bool.splits)
  have td: "todo r1 ss = todo r ss" "took e lock r1 ps r2 = took e lock r ps r2" for ss ps using f by (simp_all add: todo_def took_def)
  from step_loop_run [OF l assms(4)] show ?thesis unfolding td f(3)
    by (elim exE conjE) (rule ran [OF _ _ _ _ _ out l [unfolded r1_def r0_def]])
qed

lemma results_of_steps:
  "map sr_step (map (\<lambda>(s, out). result_of s out) pairs) = map ps_step (map fst pairs)"
  "map sr_status (map (\<lambda>(s, out). result_of s out) pairs) = map (\<lambda>p. if isl (snd p) then ''failed'' else ''completed'') pairs"
  by (auto simp: result_of_def split: sum.split)

lemma fresh_plan_todo:
  assumes "ug_current_step (rn_row r) = 0" and "map ps_step plan = [1..<Suc (length plan)]"
  shows "todo r plan = plan"
proof -
  have "1 \<le> ps_step s" if "s \<in> set plan" for s
  proof -
    have "ps_step s \<in> set (map ps_step plan)" using that by simp
    then show ?thesis unfolding assms(2) set_upt by simp
  qed
  then show ?thesis using assms(1) by (simp add: todo_def filter_id_conv less_eq_Suc_le)
qed


section \<open>What a run may write and call\<close>

definition kept :: "bnk_upgrade \<Rightarrow> upgrade_status set \<Rightarrow> bnk_upgrade \<Rightarrow> bool" where
  "kept u0 sts u \<longleftrightarrow> ug_id u = ug_id u0 \<and> ug_cluster_id u = ug_cluster_id u0 \<and> ug_status u \<in> sts"

lemma kept_core: "core u = core v \<Longrightarrow> kept u0 sts v \<Longrightarrow> kept u0 sts u"
  using core_fields [of u v] by (simp add: kept_def)

lemma extends_last: "extends P C r r' \<Longrightarrow> P (rn_row r) \<Longrightarrow> P (rn_row r')"
  by (auto simp: extends_def)

lemma written:
  assumes "write_upgrade e lock f r = (x, r')" and "P (f (rn_row r))"
  shows "extends P C r r'"
  using extends_write [of P f r C e lock] assms by simp

definition call_above :: "nat \<Rightarrow> plan_step list \<Rightarrow> call \<Rightarrow> bool" where
  "call_above n ss c \<longleftrightarrow> (\<exists>s \<in> set ss. n < ps_step s \<and> call_of s c)"

lemma step_loop_extends:
  assumes "step_loop e lock ss r = (res, r')" and "kept u0 sts (rn_row r)" and "U_FAILED \<in> sts" and "n \<le> ug_current_step (rn_row r)"
  shows "extends (kept u0 sts) (call_above n ss) r r'"
  using assms
proof (induction ss arbitrary: r)
  case (Cons s ss)
  have mono: "extends (kept u0 sts) (call_above n ss) a b \<Longrightarrow> extends (kept u0 sts) (call_above n (s # ss)) a b" for a b
    by (erule extends_mono) (auto simp: call_above_def)
  show ?case
  proof (cases "ps_step s \<le> ug_current_step (rn_row r)")
    case True
    then show ?thesis using Cons mono by simp
  next
    case False
    obtain x r1 where w: "write_upgrade e lock (\<lambda>u. u\<lparr>ug_current_step := ps_step s\<rparr>) r = (x, r1)" by fastforce
    have e1: "extends (kept u0 sts) (call_above n (s # ss)) r r1"
      using written [OF w, of "kept u0 sts"] Cons.prems(2) by (simp add: kept_def)
    have k1: "kept u0 sts (rn_row r1)" using extends_last [OF e1 Cons.prems(2)] .
    show ?thesis
    proof (cases x)
      case (Some y)
      then show ?thesis using Cons.prems(1) False w e1 by simp
    next
      case None
      have c1: "ug_current_step (rn_row r1) = ps_step s" using w None by (auto simp: write_upgrade_def split: if_splits)
      obtain out r2 where st: "execute_step e lock s r1 = (out, r2)" by fastforce
      have e2: "extends (kept u0 sts) (call_above n (s # ss)) r1 r2"
        by (rule extends_mono [OF execute_step_extends [OF st]])
          (use False Cons.prems(4) in \<open>auto intro: kept_core [OF _ k1] simp: call_above_def\<close>)
      have k2: "kept u0 sts (rn_row r2)" using extends_last [OF e2 k1] .
      have c2: "ug_current_step (rn_row r2) = ps_step s"
        using any.keeps_fields(2) [OF TrueI st] c1 by simp
      show ?thesis
      proof (cases out)
        case (Inl y)
        obtain z r3 where f: "write_upgrade e lock (fail_step s y (rn_now r2)) r2 = (z, r3)" by fastforce
        have "extends (kept u0 sts) (call_above n (s # ss)) r2 r3"
          using written [OF f, of "kept u0 sts"] k2 Cons.prems(3) by (simp add: kept_def fail_step_def add_result_def)
        moreover have "r' = r3" using Cons.prems(1) False w None st Inl f by (simp split: option.splits)
        ultimately show ?thesis using extends_trans [OF extends_trans [OF e1 e2]] by simp
      next
        case (Inr y)
        obtain z r3 where f: "write_upgrade e lock (add_result (result_of s (Inr y))) r2 = (z, r3)" by fastforce
        have e3: "extends (kept u0 sts) (call_above n (s # ss)) r2 r3"
          using written [OF f, of "kept u0 sts"] k2 by (simp add: kept_def add_result_def)
        note e123 = extends_trans [OF extends_trans [OF e1 e2] e3]
        show ?thesis
        proof (cases z)
          case (Some q)
          then show ?thesis using Cons.prems(1) False w None st Inr f e123 by simp
        next
          case zNone: None
          have "n \<le> ug_current_step (rn_row r3)" using f zNone c2 False Cons.prems(4)
            by (auto simp: write_upgrade_def add_result_def split: if_splits)
          moreover have "step_loop e lock ss r3 = (res, r')" using Cons.prems(1) False w None st Inr f zNone by simp
          ultimately have "extends (kept u0 sts) (call_above n ss) r3 r'"
            using Cons.IH extends_last [OF e3 k2] Cons.prems(3) by blast
          then show ?thesis using extends_trans [OF e123 mono] by blast
        qed
      qed
    qed
  qed
qed simp

lemma capture_kept:
  assumes "kept u0 sts (rn_row r)"
  shows "extends (kept u0 sts) C r (capture_rollback e lock r)"
proof -
  have "extends (kept u0 sts) C r (snd (write_upgrade e lock (\<lambda>u. u\<lparr>ug_rollback_info := a, ug_rollback_available := True\<rparr>) (spend e 0 r)))" for a
    using assms by (intro extends_trans [OF extends_spend extends_write]) (simp add: kept_def)
  then show ?thesis unfolding capture_rollback_def Let_def by (auto split: option.split sum.split)
qed

lemma execute_extends:
  assumes "execute_upgrade e lock r = (err, r')" and "{U_IN_PROGRESS, U_FAILED, U_COMPLETED} \<subseteq> sts"
  shows "extends (kept (rn_row r) sts) (call_above (ug_current_step (rn_row r)) (ug_plan (rn_row r))) r r'"
proof -
  let ?E = "extends (kept (rn_row r) sts) (call_above (ug_current_step (rn_row r)) (ug_plan (rn_row r)))"
  consider (guard) "ug_status (rn_row r) \<notin> {U_READY, U_IN_PROGRESS}" | (shape) "ug_status (rn_row r) \<in> {U_READY, U_IN_PROGRESS}" "shape_of (rn_row r) \<noteq> ''flo''"
    | (runs) "ug_status (rn_row r) \<in> {U_READY, U_IN_PROGRESS}" "shape_of (rn_row r) = ''flo''" by blast
  then show ?thesis
  proof cases
    case guard
    then have "r' = r" using assms(1) by (auto simp: execute_upgrade_def)
    then show ?thesis by simp
  next
    case shape
    then obtain f where "write_upgrade e lock f r = (err, r')" "\<And>u. ug_status (f u) = U_FAILED \<and> ug_id (f u) = ug_id u \<and> ug_cluster_id (f u) = ug_cluster_id u"
      using assms(1) unfolding execute_upgrade_def by (simp split: if_splits)
    then show ?thesis using written [of e lock f r err r' "kept (rn_row r) sts"] assms(2) by (simp add: kept_def)
  next
    case runs
    obtain x r1 where w: "write_upgrade e lock (\<lambda>u. u\<lparr>ug_status := U_IN_PROGRESS, ug_started_at := Some (rn_now r)\<rparr>) r = (x, r1)" by fastforce
    have e1: "?E r r1" using written [OF w, of "kept (rn_row r) sts"] assms(2) by (simp add: kept_def)
    show ?thesis
    proof (cases x)
      case (Some y)
      then show ?thesis using assms(1) runs w e1 by (auto simp: execute_upgrade_def)
    next
      case None
      have row1: "rn_row r1 = (rn_row r)\<lparr>ug_status := U_IN_PROGRESS, ug_started_at := Some (rn_now r)\<rparr>"
        using w None by (auto simp: write_upgrade_def split: if_splits)
      then have k1: "kept (rn_row r) sts (rn_row r1)" using assms(2) by (simp add: kept_def)
      note e2 = capture_kept [OF k1, of "call_above (ug_current_step (rn_row r)) (ug_plan (rn_row r))" e lock]
      obtain res r2 where l: "step_loop e lock (ug_plan (rn_row r)) (capture_rollback e lock r1) = (res, r2)" by fastforce
      have "ug_current_step (rn_row r) \<le> ug_current_step (rn_row (capture_rollback e lock r1))"
        using capture_extends [of e lock r1] row1 by simp
      then have e3: "?E (capture_rollback e lock r1) r2"
        using step_loop_extends [OF l extends_last [OF e2 k1]] assms(2) by simp
      obtain y r3 where v: "write_upgrade e lock (\<lambda>u. u\<lparr>ug_status := U_COMPLETED, ug_completed_at := Some (rn_now r2)\<rparr>) r2 = (y, r3)" by fastforce
      have "?E r2 r3" using written [OF v, of "kept (rn_row r) sts"] extends_last [OF e3 extends_last [OF e2 k1]] assms(2) by (simp add: kept_def)
      moreover have "r' = r2 \<or> r' = r3" using assms(1) runs w None l v unfolding execute_upgrade_def by (auto split: sum.splits bool.splits)
      ultimately show ?thesis using extends_trans [OF extends_trans [OF e1 e2] e3] extends_trans by blast
    qed
  qed
qed

section \<open>The gate on the containers of TMM\<close>

lemma tmm_check_fails:
  assumes "bi_tmm_containers bi = tmm_container_summary ps"
  shows "evaluate_health_check ''tmm_containers_ready'' bi \<noteq> Inr True"
proof (cases "tmm_container_summary ps")
  case None
  then show ?thesis using assms by (simp add: evaluate_health_check_def)
next
  case (Some d)
  then have "int_entry d ''total'' = JInt 0" "int_entry d ''ready'' = JInt 0"
    using container_summary_keys [OF Some] by (simp_all add: int_entry_def dict_get_or_def)
  then show ?thesis using assms Some by (simp add: evaluate_health_check_def positive_def)
qed

lemma failing_check:
  assumes "c \<in> set cs" and "evaluate_health_check c bi \<noteq> Inr True"
  shows "evaluate_checks cs bi \<noteq> Inr True"
  using assms by (induction cs) (auto split: sum.splits)

definition unpassable :: "upgrade_env \<Rightarrow> plan_step \<Rightarrow> bool" where
  "unpassable e s \<longleftrightarrow> ps_phase s \<noteq> ''pre_upgrade'' \<and> (\<forall>t bi. ue_scan e t = Inr bi \<longrightarrow> evaluate_checks (ps_checks s) bi \<noteq> Inr True)"

lemma unpassable_round:
  assumes "unpassable e s"
  shows "gate_round e lock s r \<noteq> (Passed snap, r')"
proof (cases "ue_scan e (rn_now r)")
  case (Inr bi)
  then have "evaluate_checks (ps_checks s) bi \<noteq> Inr True" "ps_phase s \<noteq> ''pre_upgrade''" using assms by (auto simp: unpassable_def)
  then show ?thesis using Inr
    by (cases "evaluate_checks (ps_checks s) bi") (auto simp: gate_round_def Let_def split: prod.splits option.splits bool.splits)
qed (simp add: gate_round_def)

lemma unpassable_gate:
  assumes "unpassable e s"
  shows "isl (fst (health_loop e lock s deadline r))"
  using assms
proof (induction e lock s deadline r rule: health_loop.induct)
  case (1 e lock s deadline r)
  show ?case
  proof (cases "deadline \<le> rn_now r")
    case True
    then show ?thesis by (simp add: health_loop.simps)
  next
    case False
    obtain g r1 where g: "gate_round e lock s r = (g, r1)" by fastforce
    show ?thesis
    proof (cases g)
      case (Retry n)
      then show ?thesis using "1.IH" [OF False g [symmetric] Retry "1.prems"] False g by (simp add: health_loop.simps [of e lock s deadline r])
    next
      case (Passed snap)
      then show ?thesis using unpassable_round [OF "1.prems"] g by metis
    next
      case (Broken x)
      then show ?thesis using False g by (simp add: health_loop.simps [of e lock s deadline r])
    qed
  qed
qed

lemma plan_has_tmm_gate:
  "\<exists>s \<in> set (build_plan bi target). ps_action s = STEP_HEALTH_GATE \<and> ps_phase s = ''tmm_health'' \<and>
    ps_checks s = [''tmm_pods_ready'', ''tmm_containers_ready'']"
proof -
  let ?f = "\<lambda>s. (ps_action s, ps_phase s, ps_checks s)"
  have "map ?f (build_plan bi target) = map ?f (unnumbered_plan bi target)"
    unfolding build_plan_def by (rule number_steps_keeps) simp
  moreover have "(STEP_HEALTH_GATE, ''tmm_health'', [''tmm_pods_ready'', ''tmm_containers_ready'']) \<in> set (map ?f (unnumbered_plan bi target))"
    by (simp add: unnumbered_plan_def step_def)
  ultimately have "(STEP_HEALTH_GATE, ''tmm_health'', [''tmm_pods_ready'', ''tmm_containers_ready'']) \<in> ?f ` set (build_plan bi target)"
    by (simp only: set_map [symmetric])
  then show ?thesis by (elim imageE) (rule bexI, auto)
qed

lemma plan_increasing: "sorted_wrt (<) (map ps_step (build_plan bi target))"
  unfolding build_plan_def number_steps_nth by (rule sorted_wrt_upt)

lemma new_upgrade_row:
  assumes "ug_status (new_upgrade i cid target bi ver) = U_READY"
  shows "ug_plan (new_upgrade i cid target bi ver) = build_plan bi target" and "ug_current_step (new_upgrade i cid target bi ver) = 0"
    and "shape_of (new_upgrade i cid target bi ver) = bi_install_shape bi"
  using assms by (auto simp: new_upgrade_def Let_def shape_of_def split: if_splits)

lemma completed_run:
  assumes "ug_status (rn_row r) \<in> {U_READY, U_IN_PROGRESS}" and "sorted_wrt (<) (map ps_step (ug_plan (rn_row r)))"
    and "execute_upgrade e lock r = (err, r')" and "ug_status (rn_row r') = U_COMPLETED"
  obtains pairs where "todo r (ug_plan (rn_row r)) = map fst pairs" and "took e lock r pairs r'" and "\<forall>p \<in> set pairs. \<not> isl (snd p)"
proof (cases "shape_of (rn_row r) = ''flo''")
  case False
  then have "ug_status (rn_row r') \<noteq> U_COMPLETED" using assms(1,3) by (auto simp: execute_upgrade_def write_upgrade_def split: if_splits)
  then show ?thesis using assms(4) by simp
next
  case True
  from assms(1) True assms(3,2) show ?thesis
  proof (cases rule: started_run)
    case refused
    then show ?thesis using assms(1,4) by auto
  next
    case (ran res r2 pairs rest)
    define r0 where "r0 = put_row (\<lambda>u. u\<lparr>ug_status := U_IN_PROGRESS, ug_started_at := Some (rn_now r)\<rparr>) r"
    have k0: "kept (rn_row r) {U_IN_PROGRESS, U_FAILED} (rn_row r0)" by (simp add: r0_def kept_def)
    note k1 = extends_last [OF capture_kept [OF k0, of "\<lambda>_. True" e lock] k0]
    have "kept (rn_row r) {U_IN_PROGRESS, U_FAILED} (rn_row r2)"
      using extends_last [OF step_loop_extends [OF ran(7) [folded r0_def] k1 _ le0] k1] by simp
    then have "ug_status (rn_row r2) \<noteq> U_COMPLETED" by (auto simp: kept_def)
    then have res: "res = Inr True" using ran(6) assms(4) by (auto split: sum.splits bool.splits)
    then have "took e lock r pairs r'" using ran(2,6) by (auto simp: took_def write_upgrade_def split: if_splits)
    then show ?thesis using that [of pairs] ran(1,3) res by simp
  qed
qed

lemma completed_steps_pass:
  assumes "ug_status (rn_row r) \<in> {U_READY, U_IN_PROGRESS}" and "sorted_wrt (<) (map ps_step (ug_plan (rn_row r)))"
    and "execute_upgrade e lock r = (err, r')" and "ug_status (rn_row r') = U_COMPLETED"
    and "s \<in> set (ug_plan (rn_row r))" and "ug_current_step (rn_row r) < ps_step s"
  shows "\<exists>r1. \<not> isl (fst (execute_step e lock s r1))"
proof -
  obtain pairs where p: "todo r (ug_plan (rn_row r)) = map fst pairs" "took e lock r pairs r'" "\<forall>p \<in> set pairs. \<not> isl (snd p)"
    using completed_run [OF assms(1-4)] .
  have "s \<in> set (todo r (ug_plan (rn_row r)))" using assms(5,6) by (simp add: todo_def)
  then obtain out where "(s, out) \<in> set pairs" using p(1) by auto
  then show ?thesis using p(2,3) by (fastforce simp: took_def)
qed


section \<open>Resuming an interrupted run\<close>

lemma filter_above_upt: "filter (\<lambda>i. k < i) [1..<Suc n] = [Suc k..<Suc n]"
  by (induction n) auto

text \<open>
  C25. A resumed upgrade skips the step at which it was interrupted. The counter is written before the step runs, and
  resuming, which is what a redelivered task does, starts behind it: no call of the interrupted step is made
  again and no result of it is recorded, and if the upgrade completes, the results it added are
  exactly those of the later steps.
\<close>

theorem resume_skips_interrupted_step:
  assumes "ug_status (rn_row r) = U_IN_PROGRESS" and "shape_of (rn_row r) = ''flo''" and "ug_current_step (rn_row r) = k"
    and "map ps_step (ug_plan (rn_row r)) = [1..<Suc n]" and "execute_upgrade e lock r = (err, r')"
  shows "\<exists>results calls. ug_step_results (rn_row r') = ug_step_results (rn_row r) @ results \<and> rn_calls r' = rn_calls r @ calls \<and>
      list_all (\<lambda>x. k < sr_step x) results \<and> list_all (call_above k (ug_plan (rn_row r))) calls \<and>
      (ug_status (rn_row r') = U_COMPLETED \<longrightarrow> map sr_step results = [Suc k..<Suc n])"
proof -
  let ?plan = "ug_plan (rn_row r)"
  have up: "sorted_wrt (<) (map ps_step ?plan)" unfolding assms(4) by (rule sorted_wrt_upt)
  obtain calls where calls: "rn_calls r' = rn_calls r @ calls" "list_all (call_above k ?plan) calls"
    using execute_extends [OF assms(5) subset_UNIV] unfolding extends_def assms(3) list_all_iff by blast
  have step: "sr_step (result_of s out) = ps_step s" for s out by (auto simp: result_of_def split: sum.split)
  have td: "map ps_step (todo r ?plan) = [Suc k..<Suc n]"
    unfolding todo_def assms(3) using filter_above_upt [of k n] unfolding assms(4) [symmetric] filter_map comp_def .
  have started: "ug_status (rn_row r) \<in> {U_READY, U_IN_PROGRESS}" using assms(1) by simp
  from started assms(2,5) up show ?thesis
  proof (cases rule: started_run)
    case refused
    then show ?thesis using calls assms(1) by (intro exI [of _ "[]"] exI [of _ calls]) simp
  next
    case (ran res r2 pairs rest)
    let ?new = "map (\<lambda>(s, out). result_of s out) pairs"
    have results: "ug_step_results (rn_row r') = ug_step_results (rn_row r) @ ?new"
      using ran(2,6) by (auto simp: took_def write_upgrade_def split: sum.splits bool.splits if_splits)
    have new: "map sr_step ?new = map ps_step (map fst pairs)" by (simp add: comp_def case_prod_unfold step)
    moreover have "map ps_step (map fst pairs) @ map ps_step rest = [Suc k..<Suc n]" using td ran(1) by simp
    ultimately have all: "map sr_step ?new @ map ps_step rest = [Suc k..<Suc n]" by (simp only:)
    have "x \<in> set [Suc k..<Suc n]" if "x \<in> set (map sr_step ?new)" for x using that unfolding all [symmetric] by simp
    then have "list_all (\<lambda>x. k < sr_step x) ?new" unfolding list_all_iff set_map set_upt by fastforce
    moreover have "map sr_step ?new = [Suc k..<Suc n]" if completed: "ug_status (rn_row r') = U_COMPLETED"
    proof -
      obtain qs where q: "todo r ?plan = map fst qs" "took e lock r qs r'" using completed_run [OF started up assms(5) completed] .
      have "?new = map (\<lambda>(s, out). result_of s out) qs" using q(2) results by (simp add: took_def)
      then have "map sr_step ?new = map ps_step (map fst qs)" by (simp add: comp_def case_prod_unfold step)
      then show ?thesis using td q(1) by simp
    qed
    ultimately show ?thesis using results calls by blast
  qed
qed

section \<open>A rollback that died\<close>

lemma rollback_failed_run:
  "snd (rollback_failed e lock x r) = snd (write_upgrade e lock (\<lambda>u. u\<lparr>ug_status := U_FAILED,
     ug_error_message := Some (''Rollback failed: '' @ error_str x), ug_completed_at := Some (rn_now r)\<rparr>) r)"
  by (simp add: rollback_failed_def write_upgrade_def)

lemma rollback_extends:
  assumes "rollback e lock r = (err, r')"
  shows "extends (kept (rn_row r) {U_ROLLING_BACK, U_ROLLED_BACK, U_FAILED}) (\<lambda>_. True) r r'"
proof -
  let ?P = "kept (rn_row r) {U_ROLLING_BACK, U_ROLLED_BACK, U_FAILED}"
  have failed: "extends ?P (\<lambda>_. True) a (snd (rollback_failed e lock x a))" if "?P (rn_row a)" for x a
    using that unfolding rollback_failed_run by (intro extends_write) (simp add: kept_def)
  show ?thesis
  proof (cases "\<not> ug_rollback_available (rn_row r) \<or> ug_status (rn_row r) \<notin> {U_FAILED, U_IN_PROGRESS, U_HEALTH_CHECK}")
    case True
    then have "r' = r" using assms by (auto simp: rollback_def Let_def split: if_splits)
    then show ?thesis by simp
  next
    case ok: False
    obtain x r1 where w: "write_upgrade e lock (\<lambda>u. u\<lparr>ug_status := U_ROLLING_BACK,
        ug_rollback_reason := Some (opt_str (ug_error_message u) ''User-initiated rollback'')\<rparr>) r = (x, r1)" by fastforce
    have e1: "extends ?P (\<lambda>_. True) r r1" using written [OF w, of ?P] by (simp add: kept_def)
    show ?thesis
    proof (cases "x = None \<and> (\<exists>ri. ug_rollback_info (rn_row r) = Some ri \<and> ri_namespace ri \<noteq> '''')")
      case False
      then have "r' = r1" using assms ok w by (auto simp: rollback_def Let_def split: if_splits option.splits)
      then show ?thesis using e1 by simp
    next
      case True
      then obtain ri where ri: "ug_rollback_info (rn_row r) = Some ri" "ri_namespace ri \<noteq> ''''" and x: "x = None" by blast
      have k1: "?P (rn_row r1)" using w x by (auto simp: write_upgrade_def kept_def split: if_splits)
      define r2 where "r2 = note_call (Helm_Rollback (ri_release_name ri) (ri_namespace ri) (ri_revision ri)) (spend e 0 r1)"
      have e2: "extends ?P (\<lambda>_. True) r1 r2" unfolding r2_def by (rule extends_trans [OF extends_spend extends_call]) simp
      have k2: "?P (rn_row r2)" using extends_last [OF e2 k1] .
      define r3 where "r3 = spend e 0 r2"
      have e3: "extends ?P (\<lambda>_. True) r2 r3" and k3: "?P (rn_row r3)" using k2 by (simp_all add: r3_def)
      let ?w = "\<lambda>bi. write_upgrade e lock (\<lambda>u. u\<lparr>ug_status := U_ROLLED_BACK, ug_completed_at := Some (rn_now r3), ug_post_health := Some (bi, rn_now r3)\<rparr>) r3"
      have e4: "extends ?P (\<lambda>_. True) r3 (snd (?w bi))" for bi using k3 by (intro extends_write) (simp add: kept_def)
      have k4: "?P (rn_row (snd (?w bi)))" for bi using extends_last [OF e4 k3] .
      have out: "(err, r') = (case ue_rollback e ri (rn_now r1) of
          Inl y \<Rightarrow> rollback_failed e lock y r2
        | Inr (code, msg) \<Rightarrow> if code \<noteq> 0 then rollback_failed e lock (RuntimeErr (''Helm rollback failed: '' @ msg)) r2
            else (case ue_scan e (rn_now r2) of
                Inl y \<Rightarrow> rollback_failed e lock y r3
              | Inr bi \<Rightarrow> (case ?w bi of (Some y, r4) \<Rightarrow> rollback_failed e lock y r4 | (None, r4) \<Rightarrow> (None, r4))))"
        using assms [symmetric] ok w x ri unfolding rollback_def Let_def r3_def r2_def by simp
      have fail: "extends ?P (\<lambda>_. True) r2 r'" if "(err, r') = rollback_failed e lock y a" "extends ?P (\<lambda>_. True) r2 a" "?P (rn_row a)" for y a
        using extends_trans [OF that(2) failed [OF that(3), of y]] that(1) by (metis snd_conv)
      have scanned: "extends ?P (\<lambda>_. True) r2 r'"
        if "(err, r') = (case ?w bi of (Some y, r4) \<Rightarrow> rollback_failed e lock y r4 | (None, r4) \<Rightarrow> (None, r4))" for bi
      proof (cases "fst (?w bi)")
        case None
        then have "r' = snd (?w bi)" using that by (simp add: case_prod_unfold)
        then show ?thesis using extends_trans [OF e3 e4] by simp
      next
        case (Some y)
        then have "(err, r') = rollback_failed e lock y (snd (?w bi))" using that by (simp add: case_prod_unfold)
        then show ?thesis by (rule fail [OF _ extends_trans [OF e3 e4] k4])
      qed
      have "extends ?P (\<lambda>_. True) r2 r'"
      proof (cases "ue_rollback e ri (rn_now r1)")
        case (Inl y)
        then show ?thesis using fail [OF _ extends_refl k2] out by simp
      next
        case (Inr p)
        then show ?thesis using out fail [OF _ extends_refl k2] fail [OF _ e3 k3] scanned
          by (cases p; cases "ue_scan e (rn_now r2)"; cases "fst p = 0") simp_all
      qed
      then show ?thesis using extends_trans [OF extends_trans [OF e1 e2]] by blast
    qed
  qed
qed

lemma outcome_of:
  assumes "extends P C (start_run u t) r'" and "u' \<in> outcomes r'"
  shows "u' = u \<or> P u'"
  using assms by (auto simp: extends_def outcomes_def start_run_def)

lemma mark_failed_extends: "U_FAILED \<in> sts \<Longrightarrow> kept u0 UNIV (rn_row r) \<Longrightarrow> extends (kept u0 sts) C r (mark_failed msg r)"
  unfolding mark_failed_def by (rule extends_put) (simp add: kept_def)

lemma execute_task_outcomes:
  assumes "u' \<in> outcomes (execute_upgrade_task e acquired (start_run u t))"
  shows "u' = u \<or> kept u {U_IN_PROGRESS, U_FAILED, U_COMPLETED} u'"
proof -
  let ?P = "kept u {U_IN_PROGRESS, U_FAILED, U_COMPLETED}"
  have id: "kept u UNIV (rn_row (start_run u t))" by (simp add: start_run_def kept_def)
  obtain err r1 where x: "execute_upgrade e True (start_run u t) = (err, r1)" by fastforce
  have row: "rn_row (start_run u t) = u" by (simp add: start_run_def)
  have e: "extends ?P (\<lambda>_. True) (start_run u t) r1"
    by (rule extends_mono [OF execute_extends [OF x subset_refl, unfolded row]]) auto
  have k: "kept u UNIV (rn_row r1)" using e by (auto simp: extends_def kept_def row)
  have "extends ?P (\<lambda>_. True) (start_run u t) (execute_upgrade_task e acquired (start_run u t))"
    using e extends_trans [OF e mark_failed_extends [OF _ k]] mark_failed_extends [OF _ id] x
    by (auto simp: execute_upgrade_task_def split: option.split upgrade_error.split)
  from outcome_of [OF this assms] show ?thesis .
qed

lemma rollback_task_outcomes:
  assumes "u' \<in> outcomes (rollback_upgrade_task e acquired (start_run u t))"
  shows "u' = u \<or> kept u {U_ROLLING_BACK, U_ROLLED_BACK, U_FAILED} u'"
proof -
  let ?P = "kept u {U_ROLLING_BACK, U_ROLLED_BACK, U_FAILED}"
  have id: "kept u UNIV (rn_row (start_run u t))" by (simp add: start_run_def kept_def)
  obtain err r1 where x: "rollback e True (start_run u t) = (err, r1)" by fastforce
  have row: "rn_row (start_run u t) = u" by (simp add: start_run_def)
  note e = rollback_extends [OF x, unfolded row]
  have k: "kept u UNIV (rn_row r1)" using e by (auto simp: extends_def kept_def row)
  have "extends ?P (\<lambda>_. True) (start_run u t) (rollback_upgrade_task e acquired (start_run u t))"
    using e extends_trans [OF e mark_failed_extends [OF _ k]] mark_failed_extends [OF _ id] x
    by (auto simp: rollback_upgrade_task_def split: option.split upgrade_error.split)
  from outcome_of [OF this assms] show ?thesis .
qed

lemma rolling_back_stays:
  assumes "ug_status u = U_ROLLING_BACK"
  shows "outcomes (execute_upgrade_task e True (start_run u t)) = {u}" and "outcomes (rollback_upgrade_task e True (start_run u t)) = {u}"
  using assms by (auto simp: execute_upgrade_task_def execute_upgrade_def rollback_upgrade_task_def rollback_def start_run_def outcomes_def Let_def)

text \<open>The table as a rolling-back upgrade leaves it: it is the open row of its cluster, and nothing there waits to start.\<close>

definition blocked :: "bnk_upgrade \<Rightarrow> upgrade_db \<Rightarrow> bool" where
  "blocked u db \<longleftrightarrow> distinct (map ug_id (ub_rows db)) \<and> list_all (\<lambda>n. n < ub_next db) (map ug_id (ub_rows db)) \<and>
     u \<in> set (ub_rows db) \<and> ug_status u = U_ROLLING_BACK \<and>
     list_all (\<lambda>v. ug_cluster_id v = ug_cluster_id u \<longrightarrow> ug_status v \<notin> set SUPERSEDABLE) (ub_rows db)"

lemma upgrade_row_Some: "upgrade_row i db = Some v \<Longrightarrow> v \<in> set (ub_rows db) \<and> ug_id v = i"
  by (auto simp: upgrade_row_def find_Some_iff)

lemma same_id: "distinct (map ug_id us) \<Longrightarrow> u \<in> set us \<Longrightarrow> v \<in> set us \<Longrightarrow> ug_id u = ug_id v \<Longrightarrow> u = v"
  by (simp add: distinct_map inj_on_def)

lemma blocked_row: "blocked u db \<Longrightarrow> upgrade_row (ug_id u) db = Some u"
  unfolding upgrade_row_def blocked_def find_Some_iff in_set_conv_nth distinct_conv_nth by force

lemma set_row_blocked:
  assumes "blocked u db" and "v \<in> set (ub_rows db)" and "ug_id v' = ug_id v" and "ug_cluster_id v' = ug_cluster_id v"
    and "ug_cluster_id v = ug_cluster_id u \<Longrightarrow> ug_status v' \<notin> set SUPERSEDABLE" and "v = u \<Longrightarrow> v' = u"
  shows "blocked u (set_row v' db)"
proof -
  have ids: "map ug_id (ub_rows (set_row v' db)) = map ug_id (ub_rows db)" by (simp add: set_row_def)
  have rows: "w \<in> set (ub_rows db) \<and> ug_id w \<noteq> ug_id v \<or> w = v'" if "w \<in> set (ub_rows (set_row v' db))" for w
    using that assms(3) by (auto simp: set_row_def split: if_splits)
  have u: "u \<in> set (ub_rows db)" "distinct (map ug_id (ub_rows db))" using assms(1) by (simp_all add: blocked_def)
  have "ug_id u = ug_id v' \<Longrightarrow> v' = u" using same_id [OF u(2,1) assms(2)] assms(3,6) by simp
  then have "u \<in> (\<lambda>x. if ug_id x = ug_id v' then v' else x) ` set (ub_rows db)" by (intro image_eqI [of _ _ u]) (auto simp: u(1))
  then have "u \<in> set (ub_rows (set_row v' db))" by (simp add: set_row_def)
  moreover have "ub_next (set_row v' db) = ub_next db" by (simp add: set_row_def)
  moreover have "list_all (\<lambda>w. ug_cluster_id w = ug_cluster_id u \<longrightarrow> ug_status w \<notin> set SUPERSEDABLE) (ub_rows (set_row v' db))"
    unfolding list_all_iff
  proof (intro ballI impI)
    fix w
    assume "w \<in> set (ub_rows (set_row v' db))" and same: "ug_cluster_id w = ug_cluster_id u"
    then consider "w \<in> set (ub_rows db)" | "w = v'" using rows by blast
    then show "ug_status w \<notin> set SUPERSEDABLE" using assms(1,4,5) same by cases (simp_all add: blocked_def list_all_iff)
  qed
  ultimately show ?thesis using assms(1) unfolding blocked_def ids by simp
qed

lemma add_row_blocked:
  assumes "blocked u db" and "ug_id w = ub_next db" and "ug_cluster_id w \<noteq> ug_cluster_id u"
  shows "blocked u (db\<lparr>ub_rows := ub_rows db @ [w], ub_next := ub_next db + 1\<rparr>)"
  using assms by (force simp: blocked_def list_all_iff)

lemma new_upgrade_keys: "ug_id (new_upgrade i cid target bi ver) = i" "ug_cluster_id (new_upgrade i cid target bi ver) = cid"
  by (simp_all add: new_upgrade_def Let_def)

lemma blocked_create_refused:
  assumes "blocked u db"
  shows "\<exists>v :: bnk_upgrade. ug_status v \<in> set EXECUTING \<and> create_upgrade clusters scan now (ug_cluster_id u) target db =
    (Inl (if ug_cluster_id u \<in> set clusters then UpgradeInProgress (ug_id v) (ug_status v) else ClusterNotFound), db)"
proof -
  let ?open = "\<lambda>v. ug_cluster_id v = ug_cluster_id u \<and> ug_status v \<in> set (SUPERSEDABLE @ EXECUTING)"
  have "u \<in> set (ub_rows db)" "?open u" using assms by (auto simp: blocked_def EXECUTING_def)
  then have "find ?open (ub_rows db) \<noteq> None" by (auto simp: find_None_iff)
  then obtain v where v: "find ?open (ub_rows db) = Some v" by blast
  then have "?open v" "v \<in> set (ub_rows db)" by (auto simp: find_Some_iff)
  then have "ug_status v \<in> set EXECUTING" using assms by (auto simp: blocked_def list_all_iff)
  then have "ug_status v \<in> set EXECUTING \<and> create_upgrade clusters scan now (ug_cluster_id u) target db =
      (Inl (if ug_cluster_id u \<in> set clusters then UpgradeInProgress (ug_id v) (ug_status v) else ClusterNotFound), db)"
    using v by (simp add: create_upgrade_def Let_def)
  then show ?thesis by blast
qed

lemma create_blocked:
  assumes "blocked u db" and "create_upgrade clusters scan now cid target db = (res, db')"
  shows "blocked u db'"
proof (cases "cid = ug_cluster_id u")
  case True
  then show ?thesis using blocked_create_refused [OF assms(1), of clusters scan now target] assms by auto
next
  case False
  have new: "blocked u (d\<lparr>ub_rows := ub_rows d @ [new_upgrade (ub_next d) cid target bi ver], ub_next := ub_next d + 1\<rparr>)" if "blocked u d" for d bi ver
    by (rule add_row_blocked [OF that]) (simp_all add: new_upgrade_keys False)
  have cancelled: "blocked u (set_row (v\<lparr>ug_status := U_CANCELLED, ug_completed_at := Some now\<rparr>) db)"
    if "find (\<lambda>u. ug_cluster_id u = cid \<and> ug_status u \<in> set (SUPERSEDABLE @ EXECUTING)) (ub_rows db) = Some v" for v
  proof -
    have "v \<in> set (ub_rows db)" "ug_cluster_id v = cid" using that by (auto simp: find_Some_iff)
    moreover from this have "v \<noteq> u" using False by blast
    ultimately show ?thesis using set_row_blocked [OF assms(1), of v "v\<lparr>ug_status := U_CANCELLED, ug_completed_at := Some now\<rparr>"] False by simp
  qed
  have next': "ub_next (set_row w db) = ub_next db" for w by (simp add: set_row_def)
  show ?thesis using assms new [OF assms(1)] new [OF cancelled]
    by (auto simp: create_upgrade_def Let_def next' split: if_splits option.splits sum.splits)
qed

lemma task_blocked:
  assumes "blocked u db" and "upgrade_row i db = Some v" and "v' = v \<or> kept v sts v'" and "sts \<inter> set SUPERSEDABLE = {}" and "v = u \<Longrightarrow> v' = u"
  shows "blocked u (set_row v' db)"
proof -
  have v: "v \<in> set (ub_rows db)" using upgrade_row_Some [OF assms(2)] by simp
  have "ug_status v' \<notin> set SUPERSEDABLE" if "ug_cluster_id v = ug_cluster_id u"
    using assms(1,3,4) v that by (auto simp: blocked_def list_all_iff kept_def)
  then show ?thesis using set_row_blocked [OF assms(1) v _ _ _ assms(5)] assms(3) by (auto simp: kept_def)
qed

lemma trans_blocked:
  assumes "upgrade_trans clusters db db'" and "blocked u db"
  shows "blocked u db'"
  using assms(1)
proof cases
  case (creates scan now cid target res)
  then show ?thesis using create_blocked [OF assms(2)] by simp
next
  case (cancels now i res)
  show ?thesis
  proof (cases "db' = db")
    case False
    then obtain v where v: "upgrade_row i db = Some v" "ug_status v \<in> set SUPERSEDABLE"
      "db' = set_row (v\<lparr>ug_status := U_CANCELLED, ug_completed_at := Some now\<rparr>) db"
      using cancels by (auto simp: cancel_upgrade_def split: option.splits if_splits)
    have "v \<noteq> u" using v(2) assms(2) by (auto simp: blocked_def SUPERSEDABLE_def)
    then show ?thesis using task_blocked [OF assms(2) v(1), of _ "{U_CANCELLED}"] v(3) by (simp add: kept_def SUPERSEDABLE_def)
  qed (use assms(2) in simp)
next
  case (executes i v cid v' e acquired t)
  have "v \<noteq> u" using executes assms(2) by (auto simp: execute_route_ok_def blocked_def)
  then show ?thesis using task_blocked [OF assms(2) executes(2) execute_task_outcomes [OF executes(4)]] executes(1) by (simp add: SUPERSEDABLE_def)
next
  case (rolls_back i v cid v' e acquired t)
  have "v \<noteq> u" using rolls_back assms(2) by (auto simp: rollback_route_ok_def blocked_def)
  then show ?thesis using task_blocked [OF assms(2) rolls_back(2) rollback_task_outcomes [OF rolls_back(4)]] rolls_back(1) by (simp add: SUPERSEDABLE_def)
next
  case (redelivers_execute i v v' e t)
  have "v = u \<Longrightarrow> v' = u" using redelivers_execute(3) rolling_back_stays(1) [of u] assms(2) by (simp add: blocked_def)
  then show ?thesis using task_blocked [OF assms(2) redelivers_execute(2) execute_task_outcomes [OF redelivers_execute(3)]] redelivers_execute(1)
    by (simp add: SUPERSEDABLE_def)
next
  case (redelivers_rollback i v v' e t)
  have "v = u \<Longrightarrow> v' = u" using redelivers_rollback(3) rolling_back_stays(2) [of u] assms(2) by (simp add: blocked_def)
  then show ?thesis using task_blocked [OF assms(2) redelivers_rollback(2) rollback_task_outcomes [OF redelivers_rollback(3)]] redelivers_rollback(1)
    by (simp add: SUPERSEDABLE_def)
qed

interpretation dead_rollback: invariant_system "blocked u" "upgrade_trans clusters" "blocked u"
  by unfold_locales (auto intro: trans_blocked)


section \<open>Concrete upgrades\<close>

text \<open>A healthy installation that FLO manages, and an environment in which everything succeeds at once.\<close>

definition demo_install :: bnk_install where
  "demo_install = analyze_bnk_install [''k8s.f5.com'', ''k8s.f5net.com'']
     [demo_pod ''f5-bnk'' ''flo-f5-lifecycle-operator-0'', demo_pod ''f5-bnk'' ''f5-tmm-0'', demo_pod ''f5-bnk'' ''f5-cne-controller-0''] [] [] [] [] []"

definition demo_upgrade :: bnk_upgrade where
  "demo_upgrade = new_upgrade 1 7 ''v2.20.0'' demo_install ''v1.30.2''"

definition demo_upgrade_env :: "bnk_install \<Rightarrow> upgrade_env" where
  "demo_upgrade_env bi = \<lparr>ue_cost = (\<lambda>_. 1), ue_held = (\<lambda>_. True), ue_history = (\<lambda>_ _ _. Inr [4]), ue_helm = (\<lambda>_ _. Inr (0, ''ok'', '''')),
     ue_scan = (\<lambda>_. Inr bi), ue_jobs = (\<lambda>_. Inr []), ue_module = (\<lambda>_. None), ue_apply = (\<lambda>_ _. Inr 0), ue_rollback = (\<lambda>_ _. Inr (0, ''''))\<rparr>"

lemma demo_ready: "ug_status demo_upgrade = U_READY" "shape_of demo_upgrade = ''flo''" "ug_current_step demo_upgrade = 0" "ug_step_results demo_upgrade = []"
  and demo_steps: "map ps_step (ug_plan demo_upgrade) = [1..<Suc 8]" "length (ug_plan demo_upgrade) = 8"
  by code_simp+

lemma demo_upgrade_env_held: "ue_held (demo_upgrade_env bi) t"
  by (simp add: demo_upgrade_env_def)

theorem new_upgrade_ready_iff_witness: "ug_status demo_upgrade = U_READY \<and> bi_status demo_install = ''installed''"
proof -
  have "ug_status demo_upgrade = U_READY \<longrightarrow> bi_status demo_install = ''installed''"
    using new_upgrade_ready_iff [OF demo_upgrade_def] by simp
  then show ?thesis using demo_ready(1) by blast
qed



text \<open>A worker died in the Helm step; the scans are as the gates expect them. The resumed run completes without that step.\<close>

definition demo_resumed :: run where
  "demo_resumed = start_run (demo_upgrade\<lparr>ug_status := U_IN_PROGRESS, ug_current_step := 3\<rparr>) 0"

definition demo_scan :: bnk_install where
  "demo_scan = demo_install\<lparr>bi_tmm_containers := Some [(''total'', JInt 1), (''ready'', JInt 1)]\<rparr>"

lemma demo_resume_completes: "ug_status (rn_row (snd (execute_upgrade (demo_upgrade_env demo_scan) True demo_resumed))) = U_COMPLETED"
  by code_simp

theorem resume_skips_interrupted_step_witness:
  "\<exists>results. ug_step_results (rn_row (snd (execute_upgrade (demo_upgrade_env demo_scan) True demo_resumed))) = results \<and> map sr_step results = [4..<9] \<and>
     ug_status (rn_row (snd (execute_upgrade (demo_upgrade_env demo_scan) True demo_resumed))) = U_COMPLETED"
proof -
  let ?x = "execute_upgrade (demo_upgrade_env demo_scan) True demo_resumed"
  have row: "rn_row demo_resumed = demo_upgrade\<lparr>ug_status := U_IN_PROGRESS, ug_current_step := 3\<rparr>" by (simp add: demo_resumed_def start_run_def)
  have "ug_step_results (rn_row demo_resumed) = []" using demo_ready(4) row by simp
  then have "map sr_step (ug_step_results (rn_row (snd ?x))) = [Suc 3..<Suc 8]"
    using resume_skips_interrupted_step [of demo_resumed 3 8 "demo_upgrade_env demo_scan" True "fst ?x" "snd ?x"] demo_ready(2) demo_steps(1) demo_resume_completes
    unfolding row by (auto simp: shape_of_def simp del: upt_Suc)
  then show ?thesis using demo_resume_completes by simp
qed

text \<open>The rollback of an upgrade died; a later cancellation changes nothing.\<close>

definition demo_dead :: bnk_upgrade where
  "demo_dead = demo_upgrade\<lparr>ug_status := U_ROLLING_BACK\<rparr>"

definition demo_table :: upgrade_db where
  "demo_table = \<lparr>ub_rows = [demo_dead], ub_next = 2\<rparr>"


end
