(* ===== verification/Teardown.thy ===== *)
theory Teardown
  imports Destroy_Chain
begin

text \<open>
  The liveness of a project teardown: the first destroy wave and the hooks of finished destroys
  (\<^verbatim>\<open>Destroy_Chain\<close>) refine the abstract wave machine of \<^verbatim>\<open>Deploy_Chain\<close>, run against the
  arrows of the dependency graph.
\<close>

section \<open>Teardown as an abstract machine\<close>

text \<open>The same machine, run against the arrows: a module waits for the modules that depend on it.\<close>

definition project_dependents :: "int \<times> project_module list \<Rightarrow> int \<Rightarrow> int set" where
  "project_dependents p i = {j \<in> project_ids p. i \<in> project_deps p j}"

interpretation teardown: wave_machine project_ids project_dependents deployable
proof
  fix p assume ok: "deployable p"
  show "finite (project_ids p)" by (rule chain.finite_ids [OF ok])
  show "project_dependents p i \<subseteq> project_ids p" for i by (auto simp: project_dependents_def)
  have "{(i, d). i \<in> project_ids p \<and> d \<in> project_dependents p i} \<subseteq> {(i, d). i \<in> project_ids p \<and> d \<in> project_deps p i}\<inverse>"
    by (auto simp: project_dependents_def)
  moreover have "acyclic ({(i, d). i \<in> project_ids p \<and> d \<in> project_deps p i}\<inverse>)" using chain.acyclic_deps [OF ok] by simp
  ultimately show "acyclic {(i, d). i \<in> project_ids p \<and> d \<in> project_dependents p i}" by (rule acyclic_subset [rotated])
qed

definition cleared :: "exec_db \<Rightarrow> int \<Rightarrow> bool" where
  "cleared db i \<longleftrightarrow> (case module_row db i of None \<Rightarrow> False | Some m \<Rightarrow> no_infra m)"

definition teardown_of :: "int \<times> project_module list \<Rightarrow> exec_db \<Rightarrow> int machine" where
  "teardown_of p db = ({i \<in> project_ids p. cleared db i}, {}, {i \<in> project_ids p. busy db ''destroy'' i})"

definition teardown_inv :: "int \<times> project_module list \<Rightarrow> exec_db \<Rightarrow> bool" where
  "teardown_inv p db \<longleftrightarrow> map static (module_rows db) = snd p \<and> tasks_fresh db \<and>
     (\<forall>m \<in> set (module_rows db). pr_project_id m = fst p \<longrightarrow> status m \<noteq> DESTROY_FAILED) \<and>
     (\<forall>i \<in> project_ids p. \<forall>t \<in> set (tasks db). is_active i t \<longrightarrow>
        t_type t = ''destroy'' \<and> t_scope t = Some ''project'' \<and> \<not> cleared db i \<and>
        (\<forall>t' \<in> set (tasks db). is_active i t' \<longrightarrow> t' = t))"

text \<open>Which modules a wave queues, and what queueing them does to the session.\<close>

definition destroyable :: "int \<Rightarrow> exec_db \<Rightarrow> int \<Rightarrow> bool" where
  "destroyable pid db j \<longleftrightarrow> (\<exists>m. module_row db j = Some m \<and> pr_project_id m = pid \<and> \<not> no_infra m) \<and>
     (\<forall>d \<in> set (module_rows db). pr_project_id d = pid \<and> j \<in> set (dependencies d) \<longrightarrow> no_infra d) \<and>
     \<not> busy db ''destroy'' j"

definition queued_destroys :: "string option \<Rightarrow> exec_db \<Rightarrow> int list \<Rightarrow> exec_db \<Rightarrow> bool" where
  "queued_destroys scope db js db' \<longleftrightarrow> tasks_fresh db' \<and>
     module_rows db' = map (\<lambda>x. if pr_id x \<in> set js then x\<lparr>status := DESTROYING\<rparr> else x) (module_rows db) \<and>
     (\<exists>new. tasks db' = tasks db @ new \<and> map t_module_id new = js \<and>
        (\<forall>t \<in> set new. t_type t = ''destroy'' \<and> t_status t = T_QUEUED \<and> t_scope t = scope))"

lemma queued_none: "tasks_fresh db \<Longrightarrow> queued_destroys scope db [] db"
  by (simp add: queued_destroys_def)

lemma queued_one: "tasks_fresh db \<Longrightarrow> queued_destroys scope db [pr_id m] (after_destroy db m rh scope cid)"
  using tasks_fresh_destroy by (auto simp: queued_destroys_def)

lemma queued_trans:
  assumes "queued_destroys scope db js db1" and "queued_destroys scope db1 ks db2"
  shows "queued_destroys scope db (js @ ks) db2"
proof -
  obtain new1 new2 where n: "tasks db1 = tasks db @ new1" "map t_module_id new1 = js" "tasks db2 = tasks db1 @ new2" "map t_module_id new2 = ks"
    "\<forall>t \<in> set new1 \<union> set new2. t_type t = ''destroy'' \<and> t_status t = T_QUEUED \<and> t_scope t = scope"
    using assms unfolding queued_destroys_def by blast
  then have "tasks db2 = tasks db @ (new1 @ new2)" "map t_module_id (new1 @ new2) = js @ ks" by simp_all
  moreover have "module_rows db2 = map (\<lambda>x. if pr_id x \<in> set (js @ ks) then x\<lparr>status := DESTROYING\<rparr> else x) (module_rows db)"
    using assms by (auto simp: queued_destroys_def)
  moreover have "tasks_fresh db2" using assms(2) by (simp add: queued_destroys_def)
  ultimately show ?thesis using n(5) unfolding queued_destroys_def by (intro conjI exI [of _ "new1 @ new2"]) simp_all
qed

lemma find_active_destroy: "find (is_active_destroy j) (tasks db) = None \<longleftrightarrow> \<not> busy db ''destroy'' j"
  by (auto simp: find_None_iff busy_def is_active_destroy_def)

lemma busy_queued:
  assumes "queued_destroys scope db js db'"
  shows "busy db' ''destroy'' j \<longleftrightarrow> busy db ''destroy'' j \<or> j \<in> set js"
proof -
  obtain new where new: "tasks db' = tasks db @ new" "map t_module_id new = js"
    "\<forall>t \<in> set new. t_type t = ''destroy'' \<and> t_status t = T_QUEUED \<and> t_scope t = scope"
    using assms by (auto simp: queued_destroys_def)
  have "j \<in> set js \<longleftrightarrow> (\<exists>t \<in> set new. t_module_id t = j)" by (auto simp flip: new(2))
  then show ?thesis using new(1,3) new_tasks_active by (auto simp: busy_def)
qed

lemma row_queued:
  assumes "queued_destroys scope db js db'"
  shows "module_row db' j = map_option (\<lambda>x. if pr_id x \<in> set js then x\<lparr>status := DESTROYING\<rparr> else x) (module_row db j)"
proof -
  have "find (\<lambda>x. pr_id x = j) (map (\<lambda>x. if pr_id x \<in> set js then x\<lparr>status := DESTROYING\<rparr> else x) ms) =
      map_option (\<lambda>x. if pr_id x \<in> set js then x\<lparr>status := DESTROYING\<rparr> else x) (find (\<lambda>x. pr_id x = j) ms)" for ms
    by (induction ms) auto
  then show ?thesis using assms by (simp add: module_row_def queued_destroys_def)
qed

lemma same_row: "distinct (map pr_id (module_rows db)) \<Longrightarrow> module_row db j = Some m \<Longrightarrow> x \<in> set (module_rows db) \<Longrightarrow> pr_id x = j \<Longrightarrow> x = m"
  by (auto simp: module_row_def distinct_map inj_on_def dest!: find_SomeD)

lemma destroyable_queued:
  assumes "queued_destroys scope db js db'" and "distinct (map pr_id (module_rows db))" and "\<forall>k \<in> set js. destroyable pid db k"
  shows "destroyable pid db' j \<longleftrightarrow> destroyable pid db j \<and> j \<notin> set js"
proof -
  let ?f = "\<lambda>x. if pr_id x \<in> set js then x\<lparr>status := DESTROYING\<rparr> else x"
  have rows: "set (module_rows db') = ?f ` set (module_rows db)" using assms(1) by (auto simp: queued_destroys_def)
  have st: "no_infra (?f x) \<longleftrightarrow> no_infra x" if x: "x \<in> set (module_rows db)" for x
  proof (cases "pr_id x \<in> set js")
    case True
    then obtain m where m: "module_row db (pr_id x) = Some m" "\<not> no_infra m" using assms(3) by (auto simp: destroyable_def)
    have "x = m" by (rule same_row [OF assms(2) m(1) x refl])
    then show ?thesis using True m(2) by simp
  qed simp
  have keep: "pr_project_id (?f x) = pr_project_id x" "dependencies (?f x) = dependencies x" for x by simp_all
  have mem: "m \<in> set (module_rows db)" if "module_row db j = Some m" for m using that by (auto simp: module_row_def dest: find_SomeD)
  have "(\<exists>m. module_row db' j = Some m \<and> pr_project_id m = pid \<and> \<not> no_infra m) \<longleftrightarrow>
      (\<exists>m. module_row db j = Some m \<and> pr_project_id m = pid \<and> \<not> no_infra m)"
    using st mem by (cases "module_row db j") (simp_all add: row_queued [OF assms(1)])
  moreover have "(\<forall>d \<in> set (module_rows db'). pr_project_id d = pid \<and> j \<in> set (dependencies d) \<longrightarrow> no_infra d) \<longleftrightarrow>
      (\<forall>d \<in> set (module_rows db). pr_project_id d = pid \<and> j \<in> set (dependencies d) \<longrightarrow> no_infra d)"
    unfolding rows ball_simps keep using st by (intro ball_cong) simp_all
  ultimately show ?thesis unfolding destroyable_def busy_queued [OF assms(1)] by blast
qed

lemma queue_destroy_sends:
  assumes "chain_env e p" and "static x \<in> set (project_modules (fst p) (snd p))" and "tasks_fresh db"
  shows "\<exists>ms c. queue_destroy e rh scope x db = (None, after_destroy db x rh scope (Some c), [ms], Some c)"
proof -
  have g: "resolve_dispatch_engine x = Inr ''opentofu''" using assms(1,2) by (fastforce simp: chain_env_def)
  obtain fam where "(''opentofu'', fam) \<in> set engine_families" using resolve_known [OF g] by auto
  then obtain ms where ms: "dispatch_destroy_signature (next_task db) x = Inr ms" using dispatch_destroy_by_engine [OF g] by blast
  have "send e ms \<noteq> None" using assms(1) by (simp add: chain_env_def)
  obtain err db1 new cid where q: "queue_destroy e rh scope x db = (err, db1, new, cid)" by (metis prod_cases4)
  from q assms(3) show ?thesis
  proof (cases rule: queue_destroy_cases)
    case (raised msg)
    then show ?thesis using q ms \<open>send e ms \<noteq> None\<close> by (auto simp: queue_destroy_def add_task_def Let_def)
  qed (use q in auto)
qed

lemma project_row:
  assumes "deployable p" and "map static (module_rows db) = snd p"
  shows "distinct (map pr_id (module_rows db))"
    and "module_row db i = Some m \<Longrightarrow> pr_project_id m = fst p \<Longrightarrow> static m \<in> set (project_modules (fst p) (snd p))"
proof -
  have "map pr_id (module_rows db) = map pr_id (snd p)" by (simp flip: assms(2) add: comp_def)
  then show "distinct (map pr_id (module_rows db))" using assms(1) by (simp add: deployable_def)
  show "module_row db i = Some m \<Longrightarrow> pr_project_id m = fst p \<Longrightarrow> static m \<in> set (project_modules (fst p) (snd p))"
    by (auto simp flip: assms(2) simp: project_modules_def module_row_def dest!: find_SomeD)
qed

lemma candidate_destroyable:
  assumes "\<forall>m \<in> set (module_rows db). pr_project_id m = pid \<longrightarrow> status m \<noteq> DESTROY_FAILED"
    and "distinct (map pr_id (module_rows db))"
  shows "destroyable pid db j \<longleftrightarrow>
    (\<exists>m. find (\<lambda>m. pr_id m = j \<and> pr_project_id m = pid) (module_rows db) = Some m \<and> destroy_candidate False None pid db m)"
proof -
  have row: "find (\<lambda>m. pr_id m = j \<and> pr_project_id m = pid) (module_rows db) = Some m \<longleftrightarrow> module_row db j = Some m \<and> pr_project_id m = pid" for m
  proof
    show "module_row db j = Some m \<and> pr_project_id m = pid" if "find (\<lambda>m. pr_id m = j \<and> pr_project_id m = pid) (module_rows db) = Some m"
      using module_of_project [OF assms(2) that] by (simp add: module_row_def)
    assume m: "module_row db j = Some m \<and> pr_project_id m = pid"
    then have "m \<in> set (module_rows db)" "pr_id m = j" by (auto simp: module_row_def dest: find_SomeD)
    then have "find (\<lambda>m. pr_id m = j \<and> pr_project_id m = pid) (module_rows db) \<noteq> None" using m by (auto simp: find_None_iff)
    then obtain y where y: "find (\<lambda>m. pr_id m = j \<and> pr_project_id m = pid) (module_rows db) = Some y" by blast
    then show "find (\<lambda>m. pr_id m = j \<and> pr_project_id m = pid) (module_rows db) = Some m"
      using module_of_project [OF assms(2) y] m by (simp add: module_row_def)
  qed
  have un: "uncleared False d \<longleftrightarrow> \<not> no_infra d" if "d \<in> set (module_rows db)" "pr_project_id d = pid" for d
    using that assms(1) by (auto simp: uncleared_def)
  have "destroy_candidate False None pid db m \<longleftrightarrow> \<not> no_infra m \<and>
      (\<forall>d \<in> set (module_rows db). pr_project_id d = pid \<and> j \<in> set (dependencies d) \<longrightarrow> no_infra d) \<and> \<not> busy db ''destroy'' j"
    if "pr_id m = j" for m
    using that un
    by (auto simp: destroy_candidate_def list_all_iff in_scope_def get_reverse_dependencies_def project_modules_def find_active_destroy)
  moreover have "pr_id m = j" if "module_row db j = Some m" for m using that by (auto simp: module_row_def dest: find_SomeD)
  ultimately show ?thesis unfolding row destroyable_def by auto
qed

text \<open>Both loops queue exactly the destroyable modules they look at, and always come to an end.\<close>

lemma queued_keeps:
  assumes "queued_destroys scope db js db'"
  shows "map static (module_rows db') = map static (module_rows db)"
    and "\<forall>m \<in> set (module_rows db). pr_project_id m = pid \<longrightarrow> status m \<noteq> DESTROY_FAILED \<Longrightarrow>
      m \<in> set (module_rows db') \<Longrightarrow> pr_project_id m = pid \<Longrightarrow> status m \<noteq> DESTROY_FAILED"
    and "tasks_fresh db'"
proof -
  have rows: "module_rows db' = map (\<lambda>x. if pr_id x \<in> set js then x\<lparr>status := DESTROYING\<rparr> else x) (module_rows db)"
    using assms by (simp add: queued_destroys_def)
  show "map static (module_rows db') = map static (module_rows db)" by (simp add: rows)
  show "tasks_fresh db'" using assms by (simp add: queued_destroys_def)
  assume "\<forall>m \<in> set (module_rows db). pr_project_id m = pid \<longrightarrow> status m \<noteq> DESTROY_FAILED" "m \<in> set (module_rows db')" "pr_project_id m = pid"
  then show "status m \<noteq> DESTROY_FAILED" by (auto simp: rows split: if_splits)
qed

lemma destroy_loop_queues:
  assumes p: "deployable p" and env: "chain_env e p"
  shows "map static (module_rows db) = snd p \<Longrightarrow> tasks_fresh db \<Longrightarrow>
    \<forall>m \<in> set (module_rows db). pr_project_id m = fst p \<longrightarrow> status m \<noteq> DESTROY_FAILED \<Longrightarrow>
    \<exists>db' sent' js. destroy_loop e False None meta i (fst p) ds (db, sent) = (db', sent') \<and> distinct js \<and>
      set js = {j \<in> set ds. destroyable (fst p) db j} \<and> queued_destroys meta db js db'"
proof (induction ds arbitrary: db sent)
  case Nil
  then show ?case using queued_none by auto
next
  case (Cons d ds)
  note dist = project_row(1) [OF p Cons.prems(1)] and row = project_row(2) [OF p Cons.prems(1)]
  note cand = candidate_destroyable [OF Cons.prems(3) dist, of d]
  show ?case
  proof (cases "destroyable (fst p) db d")
    case False
    obtain db' sent' js where l: "destroy_loop e False None meta i (fst p) ds (db, sent) = (db', sent')" "distinct js"
      "set js = {j \<in> set ds. destroyable (fst p) db j}" "queued_destroys meta db js db'"
      using Cons.IH [OF Cons.prems, of sent] by blast
    have "destroy_loop e False None meta i (fst p) (d # ds) (db, sent) = (db', sent')"
      using False l(1) unfolding cand by (auto split: option.split)
    moreover have "set js = {j \<in> set (d # ds). destroyable (fst p) db j}" using l(3) False by auto
    ultimately show ?thesis using l(2,4) by blast
  next
    case True
    then obtain m where m: "find (\<lambda>m. pr_id m = d \<and> pr_project_id m = fst p) (module_rows db) = Some m"
      "destroy_candidate False None (fst p) db m" unfolding cand by blast
    have d: "pr_id m = d" "module_row db d = Some m" "pr_project_id m = fst p"
      using module_of_project [OF dist m(1)] by (simp_all add: module_row_def)
    let ?rh = "Option.bind (destroy_task_of db i) t_run_handle"
    obtain ms c where q: "queue_destroy e ?rh meta m db = (None, after_destroy db m ?rh meta (Some c), [ms], Some c)"
      using queue_destroy_sends [OF env row [OF d(2,3)] Cons.prems(2)] by blast
    define db1 where "db1 = after_destroy db m ?rh meta (Some c)"
    have one: "queued_destroys meta db [d] db1" using queued_one [OF Cons.prems(2), of meta m] unfolding db1_def d(1) .
    note k = queued_keeps [OF one]
    obtain db' sent' js where l: "destroy_loop e False None meta i (fst p) ds (db1, sent @ [ms]) = (db', sent')" "distinct js"
      "set js = {j \<in> set ds. destroyable (fst p) db1 j}" "queued_destroys meta db1 js db'"
      using Cons.IH [OF trans [OF k(1) Cons.prems(1)] k(3), of "sent @ [ms]"] k(2) [OF Cons.prems(3)] by blast
    have "destroy_loop e False None meta i (fst p) (d # ds) (db, sent) = (db', sent')"
      using m q l(1) by (simp add: db1_def)
    moreover have js: "set js = {j \<in> set ds. destroyable (fst p) db j \<and> j \<noteq> d}"
      using l(3) destroyable_queued [OF one dist] True by auto
    moreover have "queued_destroys meta db (d # js) db'" using queued_trans [OF one l(4)] by simp
    ultimately show ?thesis using l(2) True by (intro exI [of _ db'] exI [of _ sent'] exI [of _ "d # js"]) auto
  qed
qed

lemma first_destroy_loop_queues:
  assumes p: "deployable p" and env: "chain_env e p"
  shows "map static (module_rows db) = snd p \<Longrightarrow> tasks_fresh db \<Longrightarrow> distinct is \<Longrightarrow> set is \<subseteq> project_ids p \<Longrightarrow>
    \<forall>i \<in> set is. \<not> busy db ''destroy'' i \<Longrightarrow>
    \<exists>db' sent' first' js. first_destroy_loop e rh (fst p) is (db, sent, first) = (None, db', sent', first') \<and> distinct js \<and>
      set js = {j \<in> set is. destroyable (fst p) db j} \<and> queued_destroys (Some ''project'') db js db'"
proof (induction "is" arbitrary: db sent first)
  case Nil
  then show ?case using queued_none by auto
next
  case (Cons i "is")
  have "i \<in> project_ids p" using Cons.prems(4) by simp
  from chain_row [OF p Cons.prems(1) this] obtain m where m: "module_row db i = Some m" "pr_id m = i" "pr_project_id m = fst p"
    "static m \<in> set (project_modules (fst p) (snd p))" by metis
  note dist = project_row(1) [OF p Cons.prems(1)]
  have free: "find (is_active_destroy i) (tasks db) = None" using Cons.prems(5) by (simp add: find_active_destroy)
  have cand: "destroyable (fst p) db i \<longleftrightarrow>
      \<not> (no_infra m \<or> list_ex (\<lambda>d. \<not> no_infra d) (get_reverse_dependencies i (fst p) (module_rows db)))"
    using m Cons.prems(5) by (auto simp: destroyable_def list_ex_iff get_reverse_dependencies_def project_modules_def)
  show ?case
  proof (cases "destroyable (fst p) db i")
    case False
    then have "first_destroy_loop e rh (fst p) (i # is) (db, sent, first) = first_destroy_loop e rh (fst p) is (db, sent, first)"
      unfolding cand using m(1) by simp
    moreover have "{j \<in> set (i # is). destroyable (fst p) db j} = {j \<in> set is. destroyable (fst p) db j}" using False by auto
    ultimately show ?thesis using Cons.IH [of db sent first] Cons.prems by simp
  next
    case True
    obtain ms c where q: "queue_destroy e rh (Some ''project'') m db = (None, after_destroy db m rh (Some ''project'') (Some c), [ms], Some c)"
      using queue_destroy_sends [OF env m(4) Cons.prems(2)] by blast
    define db1 where "db1 = after_destroy db m rh (Some ''project'') (Some c)"
    have one: "queued_destroys (Some ''project'') db [i] db1" using queued_one [OF Cons.prems(2), of "Some ''project''" m] unfolding db1_def m(2) .
    note k = queued_keeps(1,3) [OF one]
    have "\<forall>j \<in> set is. \<not> busy db1 ''destroy'' j" using Cons.prems(3,5) by (auto simp: busy_queued [OF one])
    then obtain db' sent' first' js where l: "first_destroy_loop e rh (fst p) is (db1, sent @ [ms], first_of first (Some c)) = (None, db', sent', first')"
      "distinct js" "set js = {j \<in> set is. destroyable (fst p) db1 j}" "queued_destroys (Some ''project'') db1 js db'"
      using Cons.IH [of db1 "sent @ [ms]" "first_of first (Some c)"] k Cons.prems by fastforce
    have "first_destroy_loop e rh (fst p) (i # is) (db, sent, first) = (None, db', sent', first')"
      using True [unfolded cand] m(1) free q l(1) by (simp add: db1_def)
    moreover have "set js = {j \<in> set is. destroyable (fst p) db j \<and> j \<noteq> i}"
      using l(3) destroyable_queued [OF one dist] True by auto
    moreover have "queued_destroys (Some ''project'') db (i # js) db'" using queued_trans [OF one l(4)] by simp
    ultimately show ?thesis using l(2) True
      by (intro exI [of _ db'] exI [of _ sent'] exI [of _ first'] exI [of _ "i # js"]) auto
  qed
qed

lemma destroyable_ready:
  assumes p: "deployable p" and st: "map static (module_rows db) = snd p"
  shows "destroyable (fst p) db j \<longleftrightarrow>
    j \<in> project_ids p \<and> \<not> cleared db j \<and> (\<forall>d \<in> project_dependents p j. cleared db d) \<and> \<not> busy db ''destroy'' j"
proof -
  note dist = project_row(1) [OF p st]
  have ids: "j \<in> project_ids p" if "module_row db j = Some m" "pr_project_id m = fst p" for j m
  proof -
    have "pr_id (static m) = j" using that(1) by (auto simp: module_row_def dest: find_SomeD)
    then show ?thesis using project_row(2) [OF p st that] unfolding project_ids_def by blast
  qed
  have row: "\<exists>m. module_row db j = Some m \<and> pr_project_id m = fst p \<and> set (dependencies m) = project_deps p j"
    if "j \<in> project_ids p" for j using chain_row [OF p st that] by metis
  have "(\<forall>d \<in> set (module_rows db). pr_project_id d = fst p \<and> j \<in> set (dependencies d) \<longrightarrow> no_infra d) \<longleftrightarrow>
      (\<forall>d \<in> project_dependents p j. cleared db d)"
  proof (intro iffI ballI impI)
    fix d assume all: "\<forall>d \<in> set (module_rows db). pr_project_id d = fst p \<and> j \<in> set (dependencies d) \<longrightarrow> no_infra d"
      and "d \<in> project_dependents p j"
    then have d: "d \<in> project_ids p" "j \<in> project_deps p d" by (auto simp: project_dependents_def)
    obtain m where m: "module_row db d = Some m" "pr_project_id m = fst p" "set (dependencies m) = project_deps p d" using row [OF d(1)] by blast
    then have "m \<in> set (module_rows db)" by (auto simp: module_row_def dest: find_SomeD)
    then show "cleared db d" using all m d(2) by (auto simp: cleared_def)
  next
    fix x assume all: "\<forall>d \<in> project_dependents p j. cleared db d" and x: "x \<in> set (module_rows db)" "pr_project_id x = fst p \<and> j \<in> set (dependencies x)"
    have "module_row db (pr_id x) \<noteq> None" using x(1) by (auto simp: module_row_def find_None_iff)
    then obtain y where y: "module_row db (pr_id x) = Some y" by blast
    then have r: "module_row db (pr_id x) = Some x" using same_row [OF dist y x(1) refl] by simp
    then have "pr_id x \<in> project_ids p" "j \<in> project_deps p (pr_id x)" using ids [OF r] row x(2) by fastforce+
    then show "no_infra x" using all r by (auto simp: project_dependents_def cleared_def)
  qed
  moreover have "(\<exists>m. module_row db j = Some m \<and> pr_project_id m = fst p \<and> \<not> no_infra m) \<longleftrightarrow> j \<in> project_ids p \<and> \<not> cleared db j"
    using ids [of j] row [of j] by (auto simp: cleared_def)
  ultimately show ?thesis unfolding destroyable_def by blast
qed

lemma cleared_queued:
  assumes "queued_destroys scope db js db'" and "\<forall>j \<in> set js. destroyable pid db j"
  shows "cleared db' i = cleared db i"
proof (cases "module_row db i")
  case (Some m)
  have i: "pr_id m = i" using Some by (auto simp: module_row_def dest: find_SomeD)
  have "\<not> no_infra m" if "i \<in> set js" using assms(2) that Some by (auto simp: destroyable_def)
  then show ?thesis using Some i by (simp add: cleared_def row_queued [OF assms(1)])
qed (simp add: cleared_def row_queued [OF assms(1)])

lemma queued_refines:
  assumes p: "deployable p" and inv: "teardown_inv p db" and q: "queued_destroys (Some ''project'') db js db'" and dist: "distinct js"
    and js: "\<forall>j \<in> set js. destroyable (fst p) db j" and m: "teardown_of p db = (A, {}, P)"
  shows "teardown_inv p db' \<and> teardown_of p db' = (A, {}, P \<union> set js)"
proof -
  have st: "map static (module_rows db) = snd p" using inv by (simp add: teardown_inv_def)
  obtain new where new: "tasks db' = tasks db @ new" "map t_module_id new = js"
    "\<forall>t \<in> set new. t_type t = ''destroy'' \<and> t_status t = T_QUEUED \<and> t_scope t = Some ''project''"
    using q by (auto simp: queued_destroys_def)
  have act: "is_active i t \<longleftrightarrow> t_module_id t = i" if "t \<in> set new" for i t using that new(3) new_tasks_active by blast
  have inj: "t = t'" if "t \<in> set new" "t' \<in> set new" "t_module_id t = t_module_id t'" for t t'
    using dist that by (auto simp flip: new(2) simp: distinct_map inj_on_def)
  have js': "j \<in> project_ids p \<and> \<not> cleared db j \<and> \<not> busy db ''destroy'' j" if "j \<in> set js" for j
    using js that destroyable_ready [OF p st, of j] by blast
  note cl = cleared_queued [OF q js]
  have "\<forall>t \<in> set (tasks db'). is_active i t \<longrightarrow> t_type t = ''destroy'' \<and> t_scope t = Some ''project'' \<and> \<not> cleared db' i \<and>
      (\<forall>t' \<in> set (tasks db'). is_active i t' \<longrightarrow> t' = t)" if i: "i \<in> project_ids p" for i
  proof (cases "i \<in> set js")
    case True
    have none: "\<not> is_active i t" if "t \<in> set (tasks db)" for t
    proof
      assume "is_active i t"
      then have "t_type t = ''destroy''" using that inv i by (auto simp: teardown_inv_def)
      then have "busy db ''destroy'' i" using that \<open>is_active i t\<close> by (auto simp: busy_def)
      then show False using js' [OF True] by blast
    qed
    show ?thesis using none new(3) act inj js' [OF True] unfolding cl by (auto simp: new(1))
  next
    case False
    then have "\<not> is_active i t" if "t \<in> set new" for t using act [OF that, of i] that by (auto simp flip: new(2))
    then show ?thesis using inv i unfolding cl by (auto simp: new(1) teardown_inv_def)
  qed
  moreover have "status m \<noteq> DESTROY_FAILED" if "m \<in> set (module_rows db')" "pr_project_id m = fst p" for m
    using queued_keeps(2) [OF q _ that] inv by (simp add: teardown_inv_def)
  ultimately have "teardown_inv p db'" using queued_keeps(1,3) [OF q] st by (auto simp: teardown_inv_def)
  moreover have "teardown_of p db' = (A, {}, P \<union> set js)"
    using m js' by (auto simp: teardown_of_def cl busy_queued [OF q])
  ultimately show ?thesis by blast
qed

lemma detection_without_failures:
  assumes "\<forall>x \<in> set (module_rows db). pr_project_id x = pr_project_id m \<longrightarrow> status x \<noteq> DESTROY_FAILED"
  shows "run_terminal_detection_project m db = (if project_clean (pr_project_id m) db then Finalized else InProgress, db)"
proof -
  let ?rows = "project_modules (pr_project_id m) (module_rows db)"
  have mem: "x \<in> set ?rows \<longleftrightarrow> x \<in> set (module_rows db) \<and> pr_project_id x = pr_project_id m" for x by (auto simp: project_modules_def)
  have trm: "status x \<in> set TERMINAL_DESTROY_STATUSES \<longleftrightarrow> no_infra x" if "x \<in> set ?rows" for x
    using that assms unfolding mem terminal_destroy by blast
  have nofail: "filter (\<lambda>x. status x = DESTROY_FAILED) (filter P ?rows) = []" for P
    using assms unfolding filter_empty_conv by (simp add: mem)
  have prog: "list_ex (\<lambda>x. status x \<notin> set TERMINAL_DESTROY_STATUSES) (filter (\<lambda>x. \<not> no_infra x) ?rows) \<longleftrightarrow> \<not> project_clean (pr_project_id m) db"
    using trm mem by (auto simp: list_ex_iff project_clean_def)
  have legacy: "list_ex (\<lambda>x. status x \<notin> set TERMINAL_DESTROY_STATUSES)
      (filter (\<lambda>x. status x \<notin> {NOT_INITIALIZED, INITIALIZED, PLANNED, INIT_FAILED, PLAN_FAILED}) ?rows) \<longleftrightarrow> \<not> project_clean (pr_project_id m) db"
  proof -
    have "status x \<notin> {NOT_INITIALIZED, INITIALIZED, PLANNED, INIT_FAILED, PLAN_FAILED}" if "\<not> no_infra x" for x
      using that by (auto simp: NO_INFRA_STATUSES_def)
    then show ?thesis using trm mem by (auto simp: list_ex_iff project_clean_def)
  qed
  show ?thesis
    unfolding run_terminal_detection_project_def run_terminal_detection_project_legacy_def Let_def prog legacy nofail
    by (simp add: finalize_destroy_def)
qed

text \<open>
  A run in which every destroy succeeds, in whatever order they end: a destroy at work for a module of
  the project ends, and the code of the task, its hook and the detection run.
\<close>

inductive teardown_step :: "deploy_env \<Rightarrow> int \<times> project_module list \<Rightarrow> exec_db \<Rightarrow> detection \<Rightarrow> exec_db \<Rightarrow> bool" for e p where
  destroy_ends: "t \<in> set (tasks db) \<Longrightarrow> is_active_destroy i t \<Longrightarrow> i \<in> project_ids p \<Longrightarrow>
    destroy_succeeded e (t_id t) i db = (det, db', sent) \<Longrightarrow> teardown_step e p db det db'"

lemma project_cleared:
  assumes "deployable p" and "map static (module_rows db) = snd p"
  shows "project_clean (fst p) db \<longleftrightarrow> (\<forall>i \<in> project_ids p. cleared db i)"
proof (intro iffI ballI)
  fix i assume "project_clean (fst p) db" "i \<in> project_ids p"
  with chain_row [OF assms] obtain m where "module_row db i = Some m" "m \<in> set (module_rows db)" "pr_project_id m = fst p" by metis
  then show "cleared db i" using \<open>project_clean (fst p) db\<close> by (auto simp: project_clean_def cleared_def)
next
  assume all: "\<forall>i \<in> project_ids p. cleared db i"
  have "no_infra x" if x: "x \<in> set (module_rows db)" "pr_project_id x = fst p" for x
  proof -
    have "static x \<in> set (project_modules (fst p) (snd p))" using x by (auto simp flip: assms(2) simp: project_modules_def)
    then have "pr_id (static x) \<in> project_ids p" unfolding project_ids_def by blast
    then have i: "pr_id x \<in> project_ids p" by simp
    obtain y where y: "module_row db (pr_id x) = Some y" using all i by (auto simp: cleared_def split: option.splits)
    have "x = y" by (rule same_row [OF project_row(1) [OF assms] y x(1) refl])
    then show ?thesis using all i y by (auto simp: cleared_def)
  qed
  then show "project_clean (fst p) db" by (simp add: project_clean_def)
qed

lemma unique_destroy:
  assumes "teardown_inv p db" and "i \<in> project_ids p" and "t \<in> set (tasks db)" and "is_active i t"
  shows "t' \<in> set (tasks (complete_task (t_id t) db)) \<and> is_active j t' \<longleftrightarrow> j \<noteq> i \<and> t' \<in> set (tasks db) \<and> is_active j t'"
proof -
  have inj: "a = b" if "a \<in> set (tasks db)" "b \<in> set (tasks db)" "t_id a = t_id b" for a b
    using assms(1) that by (auto simp: teardown_inv_def tasks_fresh_def distinct_map inj_on_def)
  have one: "s = t" if "s \<in> set (tasks db)" "is_active i s" for s
    using assms that unfolding teardown_inv_def by blast
  have "j = i" if "is_active j t" using that assms(4) by (auto simp: is_active_def)
  then show ?thesis using one inj assms(3) unfolding complete_active by metis
qed

lemma destroy_ended:
  assumes p: "deployable p" and inv: "teardown_inv p db" and i: "i \<in> project_ids p"
    and t: "t \<in> set (tasks db)" "is_active_destroy i t" and m: "teardown_of p db = (A, {}, P)"
  defines "db1 \<equiv> upd_module i (\<lambda>m. m\<lparr>status := DESTROYED, has_outputs := False\<rparr>) (complete_task (t_id t) db)"
  shows "teardown_inv p db1 \<and> teardown_of p db1 = (insert i A, {}, P - {i}) \<and> i \<in> P \<and> i \<notin> A \<and>
    destroy_scope_for db1 i (Some (t_id t)) = Some ''project''"
proof -
  have st: "map static (module_rows db) = snd p" and fresh: "tasks_fresh db" using inv by (auto simp: teardown_inv_def)
  define f :: "project_module \<Rightarrow> project_module" where "f = (\<lambda>m. m\<lparr>status := DESTROYED, has_outputs := False\<rparr>)"
  have act: "is_active i t" "t_type t = ''destroy''" using t(2) by (auto simp: is_active_destroy_def)
  obtain x where x: "module_row db i = Some x" using chain_row [OF p st i] by metis
  have f: "static (f x) = static x" "pr_id (f x) = pr_id x" for x by (simp_all add: f_def static_def)
  have row1: "module_row db1 j = (if j = i then Some (f x) else module_row db j)" for j
    using x by (simp add: db1_def f_def module_row_upd)
  have cl: "cleared db1 j \<longleftrightarrow> j = i \<or> cleared db j" for j by (simp add: cleared_def row1 f_def)
  note active = unique_destroy [OF inv i t(1) act(1)]
  have tasks1: "tasks db1 = tasks (complete_task (t_id t) db)" by (simp add: db1_def)
  have st1: "map static (module_rows db1) = snd p"
    using st f(1) by (simp add: db1_def f_def [symmetric] upd_module_def comp_def if_distrib cong: if_cong)
  have fresh1: "tasks_fresh db1" using complete_fresh [OF fresh] by (simp add: db1_def)
  have ok: "status y \<noteq> DESTROY_FAILED" if "y \<in> set (module_rows db1)" "pr_project_id y = fst p" for y
    using that inv by (auto simp: db1_def upd_module_def teardown_inv_def)
  have "t_type t' = ''destroy'' \<and> t_scope t' = Some ''project'' \<and> \<not> cleared db1 j \<and> (\<forall>s \<in> set (tasks db1). is_active j s \<longrightarrow> s = t')"
    if j: "j \<in> project_ids p" "t' \<in> set (tasks db1)" "is_active j t'" for j t'
  proof -
    have a: "j \<noteq> i" "t' \<in> set (tasks db)" "is_active j t'" using active j(2,3) unfolding tasks1 by blast+
    then have "t_type t' = ''destroy'' \<and> t_scope t' = Some ''project'' \<and> \<not> cleared db j \<and> (\<forall>s \<in> set (tasks db). is_active j s \<longrightarrow> s = t')"
      using inv j(1) unfolding teardown_inv_def by blast
    then show ?thesis unfolding cl tasks1 using a(1) active by blast
  qed
  then have inv1: "teardown_inv p db1" using st1 fresh1 ok unfolding teardown_inv_def by blast
  have scope: "t_scope t = Some ''project''" "\<not> cleared db i" using inv i t(1) act(1) unfolding teardown_inv_def by blast+
  have busy: "busy db1 ''destroy'' j \<longleftrightarrow> j \<noteq> i \<and> busy db ''destroy'' j" for j
    unfolding busy_def tasks1 using active by blast
  have "busy db ''destroy'' i" using t(1) act by (auto simp: busy_def)
  then have "teardown_of p db1 = (insert i A, {}, P - {i}) \<and> i \<in> P \<and> i \<notin> A"
    using m i scope(2) by (auto simp: teardown_of_def cl busy)
  moreover have "t\<lparr>t_status := T_COMPLETED\<rparr> \<in> set (tasks db1)"
    using t(1) by (auto simp: tasks1 complete_task_def upd_task_def)
  then have "destroy_scope_for db1 i (Some (t_id t)) = Some ''project''"
    using scope_of_task [OF fresh1, of "t\<lparr>t_status := T_COMPLETED\<rparr>"] act(2) scope(1) by (simp add: truthy_text_def)
  ultimately show ?thesis using inv1 by blast
qed

lemma teardown_step_refines:
  assumes p: "deployable p" and env: "chain_env e p" and inv: "teardown_inv p db"
    and mi: "machine_inv (project_ids p) (project_dependents p) (teardown_of p db)" and step: "teardown_step e p db det db'"
  shows "teardown_inv p db' \<and> machine_step (project_ids p) (project_dependents p) (teardown_of p db) (teardown_of p db') \<and>
    (\<exists>i \<in> project_ids p. \<not> cleared db i \<and> (\<forall>j \<in> project_ids p. cleared db' j \<longleftrightarrow> j = i \<or> cleared db j)) \<and>
    det = (if \<forall>i \<in> project_ids p. cleared db' i then Finalized else InProgress)"
  using step
proof (cases rule: teardown_step.cases)
  case (destroy_ends t i sent)
  define A where "A = {i \<in> project_ids p. cleared db i}"
  define P where "P = {i \<in> project_ids p. busy db ''destroy'' i}"
  have m: "teardown_of p db = (A, {}, P)" by (simp add: teardown_of_def A_def P_def)
  define f :: "project_module \<Rightarrow> project_module" where "f = (\<lambda>m. m\<lparr>status := DESTROYED, has_outputs := False\<rparr>)"
  define db1 where "db1 = upd_module i f (complete_task (t_id t) db)"
  note E = destroy_ended [OF p inv destroy_ends(3,1,2) m, folded f_def, folded db1_def]
  have inv1: "teardown_inv p db1" and m1: "teardown_of p db1 = (insert i A, {}, P - {i})" and iP: "i \<in> P" "i \<notin> A"
    and scope: "destroy_scope_for db1 i (Some (t_id t)) = Some ''project''" using E by blast+
  have st1: "map static (module_rows db1) = snd p" and fresh1: "tasks_fresh db1"
    and ok1: "\<forall>m \<in> set (module_rows db1). pr_project_id m = fst p \<longrightarrow> status m \<noteq> DESTROY_FAILED"
    using inv1 by (auto simp: teardown_inv_def)
  obtain x where x: "module_row db1 i = Some x" "pr_id x = i" "pr_project_id x = fst p" "stack_instance_id x = None"
    "set (dependencies x) = project_deps p i" using chain_row [OF p st1 destroy_ends(3)] by metis
  obtain db2 sent2 js where l: "destroy_loop e False None (Some ''project'') i (fst p) (dependencies x) (db1, []) = (db2, sent2)" "distinct js"
    "set js = {j \<in> set (dependencies x). destroyable (fst p) db1 j}" "queued_destroys (Some ''project'') db1 js db2"
    using destroy_loop_queues [OF p env st1 fresh1 ok1, of "Some ''project''" i "dependencies x" "[]"] by blast
  have js: "\<forall>j \<in> set js. destroyable (fst p) db1 j" using l(3) by blast
  note R = queued_refines [OF p inv1 l(4,2) js m1]
  have st2: "map static (module_rows db2) = snd p"
    and ok2: "\<forall>m \<in> set (module_rows db2). pr_project_id m = fst p \<longrightarrow> status m \<noteq> DESTROY_FAILED"
    using R by (auto simp: teardown_inv_def)
  obtain y where y: "module_row db2 i = Some y" "pr_project_id y = fst p" "stack_instance_id y = None"
    using chain_row [OF p st2 destroy_ends(3)] by metis
  have "destroy_scope_for db2 i (Some (t_id t)) = Some ''project''"
  proof -
    obtain r where r: "r \<in> set (tasks db1)" "t_id r = t_id t" "t_type r = ''destroy''"
      using scope by (auto simp: destroy_scope_for_def split: option.splits if_splits dest: find_SomeD)
    have "tasks_fresh db2" "r \<in> set (tasks db2)" using l(4) r(1) by (auto simp: queued_destroys_def)
    from scope_of_task [OF this r(3), of i] scope_of_task [OF fresh1 r(1,3), of i] show ?thesis using scope r(2) by simp
  qed
  then have det: "run_terminal_detection i (Some (t_id t)) db2 = (if \<forall>i \<in> project_ids p. cleared db2 i then Finalized else InProgress, db2)"
    using y detection_without_failures [of db2 y] ok2 project_cleared [OF p st2] by (simp add: run_terminal_detection_def)
  have "i \<in> {j \<in> project_ids p. cleared db1 j}" using m1 by (auto simp: teardown_of_def)
  then have "status x \<noteq> APPLIED" using x(1) by (auto simp: cleared_def NO_INFRA_STATUSES_def)
  then have "update_stack_status_if_needed e i db1 = (db1, [])" using x by (simp add: update_stack_status_if_needed_def)
  moreover have "trigger_next_destroy_module e i (Some (t_id t)) db1 =
      (if \<forall>i \<in> project_ids p. cleared db2 i then Finalized else InProgress, db2, sent2)"
    using x scope l(1) det by (simp add: trigger_next_destroy_module_def Let_def del: destroy_loop.simps)
  ultimately have "destroy_succeeded e (t_id t) i db =
      (if \<forall>i \<in> project_ids p. cleared db2 i then Finalized else InProgress, db2, sent2)"
    by (simp only: destroy_succeeded_def end_destroy_def f_def [symmetric] complete_task_def [symmetric] db1_def [symmetric] prod.case Let_def append_Nil)
  then have out: "det = (if \<forall>i \<in> project_ids p. cleared db2 i then Finalized else InProgress)" "db' = db2"
    unfolding destroy_ends(4) by (simp_all only: prod.inject)
  have new: "set js = ready_set (project_ids p) (project_dependents p) (insert i A) - (P - {i})"
  proof -
    have cand: "destroyable (fst p) db1 j \<longleftrightarrow> j \<in> ready_set (project_ids p) (project_dependents p) (insert i A) - (P - {i})" for j
      using m1 destroyable_ready [OF p st1, of j] teardown.closed_deps [OF p, of j]
      by (auto simp: teardown_of_def ready_set_def)
    have "j \<in> project_deps p i" if j: "j \<in> ready_set (project_ids p) (project_dependents p) (insert i A) - (P - {i})" for j
    proof (rule ccontr)
      assume "j \<notin> project_deps p i"
      then have "i \<notin> project_dependents p j" by (simp add: project_dependents_def)
      then have "j \<in> ready_set (project_ids p) (project_dependents p) A" using j by (auto simp: ready_set_def)
      then have "j \<in> P" using mi m by (auto simp: machine_inv_def)
      then show False using j by (auto simp: ready_set_def)
    qed
    then show ?thesis using l(3) x(5) unfolding cand by blast
  qed
  have "machine_step (project_ids p) (project_dependents p) (A, {}, P) (insert i A, {} \<union> {}, (P - {i}) \<union> set js)"
    by (rule machine_step.apply_done [OF iP(1)]) (use new in auto)
  then have "machine_step (project_ids p) (project_dependents p) (teardown_of p db) (teardown_of p db')" using R m out(2) by simp
  moreover have "cleared db' j \<longleftrightarrow> j = i \<or> cleared db j" if "j \<in> project_ids p" for j
  proof -
    have "{k \<in> project_ids p. cleared db' k} = insert i A" using R out(2) by (simp add: teardown_of_def)
    then show ?thesis using that destroy_ends(3) by (auto simp: A_def)
  qed
  moreover have "\<not> cleared db i" using iP(2) destroy_ends(3) by (simp add: A_def)
  ultimately show ?thesis using R out destroy_ends(3) by blast
qed

lemma teardown_start:
  assumes p: "deployable p" and env: "chain_env e p" and inv: "teardown_inv p db" and ne: "project_ids p \<noteq> {}"
    and idle: "\<forall>i \<in> project_ids p. active_task db i = None"
  shows "\<exists>db' sent first. dispatch_first_destroy_wave e (fst p) rh False db = (None, db', sent, first) \<and> teardown_inv p db' \<and>
    machine_inv (project_ids p) (project_dependents p) (teardown_of p db') \<and> (\<forall>i. cleared db' i = cleared db i)"
proof -
  have st: "map static (module_rows db) = snd p" and fresh: "tasks_fresh db" using inv by (auto simp: teardown_inv_def)
  let ?ids = "map pr_id (project_modules (fst p) (module_rows db))"
  have dist: "distinct ?ids" using project_row(1) [OF p st] by (auto simp: project_modules_def distinct_map inj_on_def)
  have ids: "set ?ids = project_ids p" by (simp add: project_ids_def project_modules_static image_image flip: st)
  have free: "\<not> busy db ''destroy'' i" if "i \<in> project_ids p" for i using idle that by (auto simp: busy_def active_None)
  then have free': "\<forall>i \<in> set ?ids. \<not> busy db ''destroy'' i" unfolding ids by blast
  obtain db' sent first js where l: "first_destroy_loop e rh (fst p) ?ids (db, [], None) = (None, db', sent, first)" "distinct js"
    "set js = {j \<in> set ?ids. destroyable (fst p) db j}" "queued_destroys (Some ''project'') db js db'"
    using first_destroy_loop_queues [OF p env st fresh dist equalityD1 [OF ids] free', of rh "[]" None] by blast
  have js: "\<forall>j \<in> set js. destroyable (fst p) db j" using l(3) by blast
  define A where "A = {i \<in> project_ids p. cleared db i}"
  have m: "teardown_of p db = (A, {}, {})" using free by (auto simp: teardown_of_def A_def)
  note R = queued_refines [OF p inv l(4,2) js m]
  have "set js = ready_set (project_ids p) (project_dependents p) A"
  proof -
    have "destroyable (fst p) db j \<longleftrightarrow> j \<in> ready_set (project_ids p) (project_dependents p) A" for j
      using destroyable_ready [OF p st, of j] free teardown.closed_deps [OF p, of j] by (auto simp: ready_set_def A_def)
    then show ?thesis unfolding l(3) ids by (auto simp: ready_set_def)
  qed
  then have "machine_inv (project_ids p) (project_dependents p) (teardown_of p db')"
    using R unfolding machine_inv_def by (auto simp: A_def ready_set_def)
  moreover have "project_modules (fst p) (module_rows db) \<noteq> []" using ne ids by auto
  then have "dispatch_first_destroy_wave e (fst p) rh False db = (None, db', sent, first)"
    using l(1) by (simp add: dispatch_first_destroy_wave_def)
  ultimately show ?thesis using R cleared_queued [OF l(4) js] by blast
qed


section \<open>A small teardown\<close>

definition demo_applied :: exec_db where
  "demo_applied = demo_exec\<lparr>module_rows := [(demo_pm 1 [])\<lparr>status := APPLIED\<rparr>, (demo_pm 2 [1])\<lparr>status := APPLIED\<rparr>]\<rparr>"


end
