(* ===== verification/Janitor.thy ===== *)
theory Janitor
  imports Destroy_Chain
begin

text \<open>
  The janitor (\<^verbatim>\<open>src/backend/services/execution_janitor.py\<close>): it fails the tasks whose worker died,
  resets their modules, drives interrupted teardowns on and closes stacks that nothing destroys any more.
  The ids that the workers report are an argument.
\<close>

section \<open>One pass\<close>

definition TRANSIENT_TO_FAILED :: "(module_status \<times> module_status) list" where
  "TRANSIENT_TO_FAILED = [(INITIALIZING, INIT_FAILED), (PLANNING, PLAN_FAILED), (APPLYING, APPLY_FAILED)]"

definition janitor_message :: string where
  "janitor_message = ''Worker no longer alive - reset by stale-execution janitor''"

definition or_message :: "string option \<Rightarrow> string \<Rightarrow> string option" where
  "or_message x msg = (if truthy_text x then x else Some msg)"

definition is_stale :: "string list \<Rightarrow> task_row \<Rightarrow> bool" where
  "is_stale live t \<longleftrightarrow> t_status t \<in> set NON_TERMINAL_TASK_STATUSES \<and>
     \<not> (truthy_text (t_celery_id t) \<and> the (t_celery_id t) \<in> set live)"

definition reset_task :: "string list \<Rightarrow> task_row \<Rightarrow> task_row" where
  "reset_task live t = (if is_stale live t then t\<lparr>t_status := T_FAILED, t_error := or_message (t_error t) janitor_message\<rparr> else t)"

definition reset_module :: "project_module \<Rightarrow> project_module" where
  "reset_module m = (case map_of TRANSIENT_TO_FAILED (status m) of
     None \<Rightarrow> m
   | Some st \<Rightarrow> m\<lparr>status := st, deployment_error := or_message (deployment_error m) janitor_message\<rparr>)"

definition reset_destroying :: "project_module \<Rightarrow> project_module" where
  "reset_destroying m = (if status m = DESTROYING
     then m\<lparr>status := DESTROY_FAILED, deployment_error := or_message (deployment_error m) janitor_message\<rparr> else m)"

text \<open>
  The modules that the stale tasks of one kind name, each once, in the order of their first task.
  Driving the chain on may delete the rows of a stack; the access to a module that is gone raises,
  and the rest is not driven.
\<close>

definition stale_modules :: "string list \<Rightarrow> (task_row \<Rightarrow> bool) \<Rightarrow> exec_db \<Rightarrow> int list" where
  "stale_modules live P db =
     rev (remdups (rev (map t_module_id (filter (\<lambda>t. is_stale live t \<and> P t \<and> module_row db (t_module_id t) \<noteq> None) (tasks db)))))"

fun redrive :: "deploy_env \<Rightarrow> int list \<Rightarrow> exec_db \<times> message list \<Rightarrow> bool \<times> exec_db \<times> message list" where
  "redrive e [] (db, sent) = (True, db, sent)"
| "redrive e (i # is) (db, sent) =
     (case module_row db i of
        None \<Rightarrow> (False, db, sent)
      | Some m \<Rightarrow> (case trigger_next_destroy_module e i None (upd_module i reset_destroying db) of
            (det, db', new) \<Rightarrow> redrive e is (db', sent @ new)))"

definition reset_stale_tasks :: "deploy_env \<Rightarrow> string list \<Rightarrow> exec_db \<Rightarrow> int list option \<times> exec_db \<times> message list" where
  "reset_stale_tasks e live db =
     (let stale_ids = map t_id (filter (is_stale live) (tasks db));
          destroys = stale_modules live (\<lambda>t. t_type t = ''destroy'') db;
          deploys = stale_modules live (\<lambda>t. t_type t \<noteq> ''destroy'') db;
          db1 = db\<lparr>tasks := map (reset_task live) (tasks db),
                   module_rows := map (\<lambda>m. if pr_id m \<in> set deploys then reset_module m else m) (module_rows db)\<rparr>;
          (ok, db2, sent) = redrive e destroys (db1, [])
      in (if ok then Some stale_ids else None, db2, sent))"

definition stale_destroy_message :: string where
  "stale_destroy_message = ''Destroy orchestrator terminated unexpectedly - recovered by stale-destroy janitor''"

definition stuck_stack :: "string list \<Rightarrow> exec_db \<Rightarrow> stack_row \<Rightarrow> bool" where
  "stuck_stack live db s \<longleftrightarrow> s_status s = S_DESTROYING \<and>
     list_all (is_stale live)
       (filter (\<lambda>t. t_project_id t = s_project_id s \<and> t_type t = ''destroy'' \<and> t_status t \<in> set NON_TERMINAL_TASK_STATUSES \<and>
          t_module_id t \<in> set (deployed_modules db s)) (tasks db))"

definition reset_stale_destroys :: "string list \<Rightarrow> exec_db \<Rightarrow> int list \<times> exec_db" where
  "reset_stale_destroys live db =
     (map s_id (filter (stuck_stack live db) (stacks db)),
      db\<lparr>stacks := map (\<lambda>s. if stuck_stack live db s
        then s\<lparr>s_status := S_FAILED, s_error := or_message (s_error s) stale_destroy_message\<rparr> else s) (stacks db)\<rparr>)"

text \<open>One pass of the janitor over the live ids that the workers' heartbeats report.\<close>

definition reset_stale_executions :: "deploy_env \<Rightarrow> string list \<Rightarrow> exec_db \<Rightarrow> (nat \<times> nat) option \<times> exec_db \<times> message list" where
  "reset_stale_executions e live db =
     (case reset_stale_tasks e live db of
        (None, db1, sent) \<Rightarrow> (None, db1, sent)
      | (Some ids, db1, sent) \<Rightarrow>
          let (sids, db2) = reset_stale_destroys live db1
          in (Some (length ids, length sids), db2, sent))"

section \<open>The janitor leaves nothing hanging\<close>

text \<open>
  What driving a teardown on does to the session: it appends queued destroys, may delete rows, and moves
  a row only to an end of its destroy, or to a destroy that it has just queued.
\<close>

definition redriven :: "task_row list \<Rightarrow> exec_db \<Rightarrow> exec_db \<Rightarrow> bool" where
  "redriven new db db' \<longleftrightarrow> tasks db' = tasks db @ new \<and> tasks_fresh db' \<and>
     (\<forall>t \<in> set new. t_type t = ''destroy'' \<and> t_status t = T_QUEUED) \<and>
     (\<forall>x' \<in> set (module_rows db'). \<exists>x \<in> set (module_rows db). pr_id x = pr_id x' \<and>
        (status x' \<in> {status x, DESTROYED, DESTROY_FAILED} \<or> status x' = DESTROYING \<and> pr_id x' \<in> t_module_id ` set new))"

lemma redriven_refl: "tasks_fresh db \<Longrightarrow> redriven [] db db"
  by (auto simp: redriven_def)

lemma redriven_trans:
  assumes "redriven new1 a b" and "redriven new2 b c"
  shows "redriven (new1 @ new2) a c"
proof -
  have "\<exists>x \<in> set (module_rows a). pr_id x = pr_id z \<and> (status z \<in> {status x, DESTROYED, DESTROY_FAILED} \<or>
      status z = DESTROYING \<and> pr_id z \<in> t_module_id ` set (new1 @ new2))" if z: "z \<in> set (module_rows c)" for z
  proof -
    obtain y where y: "y \<in> set (module_rows b)" "pr_id y = pr_id z"
      "status z \<in> {status y, DESTROYED, DESTROY_FAILED} \<or> status z = DESTROYING \<and> pr_id z \<in> t_module_id ` set new2"
      using assms(2) z unfolding redriven_def by blast
    obtain x where "x \<in> set (module_rows a)" "pr_id x = pr_id y"
      "status y \<in> {status x, DESTROYED, DESTROY_FAILED} \<or> status y = DESTROYING \<and> pr_id y \<in> t_module_id ` set new1"
      using assms(1) y(1) unfolding redriven_def by blast
    then show ?thesis using y(2,3) by (intro bexI [of _ x]) auto
  qed
  then show ?thesis using assms by (auto simp: redriven_def)
qed

lemma redriven_destroy: "tasks_fresh db \<Longrightarrow> redriven [destroy_row (next_task db) m rh scope cid] db (after_destroy db m rh scope cid)"
  using tasks_fresh_destroy by (auto simp: redriven_def)

lemma destroy_loop_redriven:
  "destroy_loop e ss sc meta i pid ds (db, sent) = (db', sent') \<Longrightarrow> tasks_fresh db \<Longrightarrow> \<exists>new. redriven new db db'"
proof (induction ds arbitrary: db sent)
  case Nil
  then show ?case using redriven_refl by auto
next
  case (Cons d ds)
  show ?case
  proof (cases "\<exists>dep. find (\<lambda>m. pr_id m = d \<and> pr_project_id m = pid) (module_rows db) = Some dep \<and> destroy_candidate ss sc pid db dep")
    case False
    then have "destroy_loop e ss sc meta i pid ds (db, sent) = (db', sent')"
      using Cons.prems(1) by (auto split: option.splits if_splits)
    from Cons.IH [OF this Cons.prems(2)] show ?thesis .
  next
    case True
    then obtain dep where f: "find (\<lambda>m. pr_id m = d \<and> pr_project_id m = pid) (module_rows db) = Some dep"
      and cand: "destroy_candidate ss sc pid db dep" by blast
    obtain err db1 new cid where q: "queue_destroy e (Option.bind (destroy_task_of db i) t_run_handle) meta dep db = (err, db1, new, cid)"
      by (metis prod_cases4)
    from q Cons.prems(2) have one: "\<exists>new. redriven new db db1"
      by (cases rule: queue_destroy_cases) (use redriven_destroy [OF Cons.prems(2)] in blast)+
    show ?thesis
    proof (cases err)
      case None
      then have "destroy_loop e ss sc meta i pid ds (db1, sent @ new) = (db', sent')" using Cons.prems(1) f cand q by simp
      moreover have "tasks_fresh db1" using one by (auto simp: redriven_def)
      ultimately show ?thesis using Cons.IH one redriven_trans by blast
    next
      case (Some msg)
      then have "db' = db1" using Cons.prems(1) f cand q by simp
      then show ?thesis using one by simp
    qed
  qed
qed

lemma redriven_rows:
  assumes "tasks db' = tasks db" and "next_task db' = next_task db" and "tasks_fresh db"
    and "\<And>x'. x' \<in> set (module_rows db') \<Longrightarrow> \<exists>x \<in> set (module_rows db). pr_id x = pr_id x' \<and> status x' \<in> {status x, DESTROYED, DESTROY_FAILED}"
  shows "redriven [] db db'"
  using assms by (simp add: redriven_def tasks_fresh_def)

lemma detection_redriven:
  assumes "run_terminal_detection i tid db = (det, db')" and "tasks_fresh db"
  shows "redriven [] db db'"
proof (rule redriven_rows [OF _ _ assms(2)])
  have stack: "run_terminal_detection_stack m db = (det, db') \<Longrightarrow>
      tasks db' = tasks db \<and> next_task db' = next_task db \<and> set (module_rows db') \<subseteq> set (module_rows db)" for m
    by (auto simp: run_terminal_detection_stack_def Let_def mark_entity_failed_def finalize_destroy_def split: option.splits if_splits)
  have project: "run_terminal_detection_project m db = (det, db') \<Longrightarrow> tasks db' = tasks db \<and> next_task db' = next_task db \<and>
      (\<forall>x' \<in> set (module_rows db'). \<exists>x \<in> set (module_rows db). pr_id x = pr_id x' \<and> status x' \<in> {status x, DESTROYED})" for m
  proof -
    let ?g = "\<lambda>x. if pr_project_id x = pr_project_id m \<and> status x = DESTROY_FAILED \<and> is_in_cluster_module x
        then x\<lparr>status := DESTROYED, deployment_error := append_error (deployment_error x)
          '' [reconciled-to-destroyed: cluster already torn down]''\<rparr> else x"
    assume "run_terminal_detection_project m db = (det, db')"
    then have "db' = db \<or> db' = db\<lparr>module_rows := map ?g (module_rows db)\<rparr>"
      unfolding run_terminal_detection_project_def run_terminal_detection_project_legacy_def Let_def mark_entity_failed_def finalize_destroy_def
      by (simp split: if_splits)
    moreover have "pr_id (?g x) = pr_id x \<and> status (?g x) \<in> {status x, DESTROYED}" for x by simp
    ultimately show ?thesis by (elim disjE) force+
  qed
  have all: "tasks db' = tasks db \<and> next_task db' = next_task db \<and>
      (\<forall>x' \<in> set (module_rows db'). \<exists>x \<in> set (module_rows db). pr_id x = pr_id x' \<and> status x' \<in> {status x, DESTROYED})"
  proof (cases "module_row db i")
    case None
    then show ?thesis using assms(1) by (auto simp: run_terminal_detection_def)
  next
    case (Some m)
    have "db' = db \<or> run_terminal_detection_stack m db = (det, db') \<or> run_terminal_detection_project m db = (det, db')"
      using assms(1) unfolding run_terminal_detection_def Let_def Some option.case by (simp split: if_split_asm)
    then show ?thesis
    proof (elim disjE)
      assume "run_terminal_detection_stack m db = (det, db')"
      from stack [OF this] show ?thesis by blast
    next
      assume "run_terminal_detection_project m db = (det, db')"
      from project [OF this] show ?thesis .
    qed auto
  qed
  then show "tasks db' = tasks db" "next_task db' = next_task db" by simp_all
  show "\<exists>x \<in> set (module_rows db). pr_id x = pr_id x' \<and> status x' \<in> {status x, DESTROYED, DESTROY_FAILED}" if "x' \<in> set (module_rows db')" for x'
    using all that by fastforce
qed

lemma hook_redriven:
  assumes "trigger_next_destroy_module e i tid db = (det, db', sent)" and "tasks_fresh db"
  shows "\<exists>new. redriven new db db'"
proof (cases "\<exists>m ss sc db1. module_row db i = Some m \<and>
    destroy_loop e ss sc (destroy_scope_for db i tid) i (pr_project_id m) (dependencies m) (db, []) = (db1, sent) \<and>
    run_terminal_detection i tid db1 = (det, db')")
  case True
  then obtain m ss sc db1 where "module_row db i = Some m"
    and l: "destroy_loop e ss sc (destroy_scope_for db i tid) i (pr_project_id m) (dependencies m) (db, []) = (db1, sent)"
    and d: "run_terminal_detection i tid db1 = (det, db')" by blast
  obtain new where new: "redriven new db db1" using destroy_loop_redriven [OF l assms(2)] by blast
  then have "tasks_fresh db1" by (simp add: redriven_def)
  from redriven_trans [OF new detection_redriven [OF d this]] show ?thesis by blast
next
  case False
  then have "db' = db" using assms(1) unfolding trigger_next_destroy_module_def Let_def
    by (auto split: option.splits if_splits prod.splits simp del: destroy_loop.simps)
  then show ?thesis using redriven_refl [OF assms(2)] by blast
qed

lemma redrive_redriven:
  assumes "redrive e is (db, sent) = (ok, db', sent')" and "tasks_fresh db"
  shows "\<exists>new. redriven new db db' \<and>
    (ok \<longrightarrow> (\<forall>x \<in> set (module_rows db'). pr_id x \<in> set is \<and> status x = DESTROYING \<longrightarrow> pr_id x \<in> t_module_id ` set new))"
  using assms
proof (induction "is" arbitrary: db sent)
  case Nil
  then show ?case using redriven_refl by auto
next
  case (Cons i "is")
  show ?case
  proof (cases "module_row db i")
    case None
    then show ?thesis using Cons.prems redriven_refl by auto
  next
    case (Some m)
    define db1 where "db1 = upd_module i reset_destroying db"
    have rows: "module_rows db1 = map (\<lambda>x. if pr_id x = i then reset_destroying x else x) (module_rows db)"
      by (simp add: db1_def upd_module_def)
    have rd: "pr_id (reset_destroying x) = pr_id x" "status (reset_destroying x) \<in> {status x, DESTROY_FAILED}" "status (reset_destroying x) \<noteq> DESTROYING" for x
      by (simp_all add: reset_destroying_def)
    have "redriven [] db db1"
    proof (rule redriven_rows [OF _ _ Cons.prems(2)])
      show "tasks db1 = tasks db" "next_task db1 = next_task db" by (simp_all add: db1_def)
      fix x' assume "x' \<in> set (module_rows db1)"
      then obtain x where x: "x \<in> set (module_rows db)" "x' = (if pr_id x = i then reset_destroying x else x)" unfolding rows by auto
      then show "\<exists>x \<in> set (module_rows db). pr_id x = pr_id x' \<and> status x' \<in> {status x, DESTROYED, DESTROY_FAILED}"
        using rd [of x] by (intro bexI [of _ x]) auto
    qed
    moreover have fresh1: "tasks_fresh db1" using Cons.prems(2) by (simp add: db1_def)
    obtain det db2 sent2 where h: "trigger_next_destroy_module e i None db1 = (det, db2, sent2)" by (metis prod_cases3)
    obtain new2 where new2: "redriven new2 db1 db2" using hook_redriven [OF h fresh1] by blast
    have rest: "redrive e is (db2, sent @ sent2) = (ok, db', sent')" using Cons.prems(1) Some h by (simp add: db1_def)
    have "tasks_fresh db2" using new2 by (simp add: redriven_def)
    then obtain new3 where new3: "redriven new3 db2 db'"
      and done3: "ok \<longrightarrow> (\<forall>x \<in> set (module_rows db'). pr_id x \<in> set is \<and> status x = DESTROYING \<longrightarrow> pr_id x \<in> t_module_id ` set new3)"
      using Cons.IH [OF rest] by blast
    note both = redriven_trans [OF new2 new3]
    have "pr_id x \<in> t_module_id ` set (new2 @ new3)" if x: "x \<in> set (module_rows db')" "pr_id x = i" "status x = DESTROYING" for x
    proof -
      obtain y where y: "y \<in> set (module_rows db1)" "pr_id y = i"
        "status x = status y \<or> pr_id x \<in> t_module_id ` set (new2 @ new3)"
        using both x unfolding redriven_def by fastforce
      then have "status y \<noteq> DESTROYING" using rd unfolding rows by auto
      then show ?thesis using y(3) x(3) by auto
    qed
    then have "ok \<longrightarrow> (\<forall>x \<in> set (module_rows db'). pr_id x \<in> set (i # is) \<and> status x = DESTROYING \<longrightarrow> pr_id x \<in> t_module_id ` set (new2 @ new3))"
      using done3 by auto
    ultimately show ?thesis using redriven_trans [OF _ both, of "[]" db] by auto
  qed
qed

lemma stale_modules_iff:
  "i \<in> set (stale_modules live P db) \<longleftrightarrow> (\<exists>t \<in> set (tasks db). is_stale live t \<and> P t \<and> t_module_id t = i \<and> module_row db i \<noteq> None)"
  by (auto simp: stale_modules_def)

lemma reset_fresh: "tasks_fresh db \<Longrightarrow> tasks_fresh (db\<lparr>tasks := map (reset_task live) (tasks db), module_rows := ms\<rparr>)"
proof -
  have "t_id (reset_task live t) = t_id t" for t by (simp add: reset_task_def)
  then show "tasks_fresh db \<Longrightarrow> ?thesis" by (auto simp: tasks_fresh_def comp_def)
qed

lemma reset_module_id [simp]: "pr_id (reset_module m) = pr_id m"
  by (simp add: reset_module_def split: option.split)

lemma reset_module_settles: "status (reset_module m) \<notin> {INITIALIZING, PLANNING, APPLYING}"
  by (simp add: reset_module_def TRANSIENT_TO_FAILED_def)

lemma reset_task_live:
  assumes "t_status (reset_task live s) \<in> set NON_TERMINAL_TASK_STATUSES"
  shows "\<exists>c. t_celery_id (reset_task live s) = Some c \<and> c \<in> set live"
proof -
  have "\<not> is_stale live s" using assms by (auto simp: reset_task_def NON_TERMINAL_TASK_STATUSES_def)
  then show ?thesis using assms by (auto simp: reset_task_def is_stale_def truthy_text_def split: option.splits)
qed

text \<open>
  C27. What one pass of the janitor leaves. It fails exactly the tasks that are not finished and whose
  worker does not report them, it touches no other task, and it only adds queued destroys. A module whose
  initialisation, plan or apply died is no longer in that state. And when the pass ends, a module
  whose destroy died is not left in that state either, unless the same pass queued a new destroy for it.
\<close>

theorem janitor_leaves_no_zombies:
  assumes "reset_stale_tasks e live db = (r, db', sent)" and "tasks_fresh db"
  shows "\<exists>new. tasks db' = map (reset_task live) (tasks db) @ new \<and> (\<forall>t \<in> set new. t_type t = ''destroy'' \<and> t_status t = T_QUEUED) \<and>
    (\<forall>t \<in> set (map (reset_task live) (tasks db)). t_status t \<in> set NON_TERMINAL_TASK_STATUSES \<longrightarrow>
       (\<exists>c. t_celery_id t = Some c \<and> c \<in> set live)) \<and>
    (\<forall>t \<in> set (tasks db). \<forall>m \<in> set (module_rows db'). is_stale live t \<and> t_module_id t = pr_id m \<longrightarrow>
       (t_type t \<noteq> ''destroy'' \<longrightarrow> status m \<notin> {INITIALIZING, PLANNING, APPLYING}) \<and>
       (t_type t = ''destroy'' \<and> r \<noteq> None \<and> status m = DESTROYING \<longrightarrow> pr_id m \<in> t_module_id ` set new))"
proof -
  define deploys where "deploys = stale_modules live (\<lambda>t. t_type t \<noteq> ''destroy'') db"
  define destroys where "destroys = stale_modules live (\<lambda>t. t_type t = ''destroy'') db"
  define db1 where "db1 = db\<lparr>tasks := map (reset_task live) (tasks db),
    module_rows := map (\<lambda>m. if pr_id m \<in> set deploys then reset_module m else m) (module_rows db)\<rparr>"
  obtain ok sent' where d: "redrive e destroys (db1, []) = (ok, db', sent')" and r: "r \<noteq> None \<longleftrightarrow> ok"
    using assms(1) unfolding reset_stale_tasks_def Let_def deploys_def [symmetric] destroys_def [symmetric] db1_def [symmetric]
    by (auto split: prod.splits)
  have "tasks_fresh db1" using reset_fresh [OF assms(2)] by (simp add: db1_def)
  from redrive_redriven [OF d this] obtain new where new: "redriven new db1 db'"
    and gone: "ok \<Longrightarrow> x \<in> set (module_rows db') \<Longrightarrow> pr_id x \<in> set destroys \<Longrightarrow> status x = DESTROYING \<Longrightarrow> pr_id x \<in> t_module_id ` set new" for x
    by blast
  have mod: "module_row db i \<noteq> None" if x: "x \<in> set (module_rows db')" "pr_id x = i" for x i
  proof -
    obtain y where "y \<in> set (module_rows db1)" "pr_id y = i" using new x unfolding redriven_def by blast
    then have "i \<in> pr_id ` set (module_rows db)" by (auto simp: db1_def split: if_splits)
    then show ?thesis by (auto simp: module_row_def find_None_iff)
  qed
  have "status m \<notin> {INITIALIZING, PLANNING, APPLYING}"
    if t: "t \<in> set (tasks db)" "m \<in> set (module_rows db')" "is_stale live t" "t_module_id t = pr_id m" "t_type t \<noteq> ''destroy''" for t m
  proof -
    have i: "pr_id m \<in> set deploys" unfolding deploys_def stale_modules_iff using t mod [OF t(2) refl] by blast
    obtain y where y: "y \<in> set (module_rows db1)" "pr_id y = pr_id m" "status m \<in> {status y, DESTROYED, DESTROY_FAILED, DESTROYING}"
      using new t(2) unfolding redriven_def by blast
    have "y \<in> (\<lambda>m. if pr_id m \<in> set deploys then reset_module m else m) ` set (module_rows db)" using y(1) unfolding db1_def by simp
    then obtain z where z: "y = (if pr_id z \<in> set deploys then reset_module z else z)" by blast
    then have "y = reset_module z" using y(2) i by auto
    then show ?thesis using y(3) reset_module_settles [of z] by auto
  qed
  moreover have "pr_id m \<in> t_module_id ` set new"
    if t: "t \<in> set (tasks db)" "m \<in> set (module_rows db')" "is_stale live t" "t_module_id t = pr_id m" "t_type t = ''destroy''" "r \<noteq> None"
      "status m = DESTROYING" for t m
  proof -
    have "pr_id m \<in> set destroys" unfolding destroys_def stale_modules_iff using t mod [OF t(2) refl] by blast
    then show ?thesis using gone t r by blast
  qed
  moreover have "tasks db' = map (reset_task live) (tasks db) @ new" "\<forall>t \<in> set new. t_type t = ''destroy'' \<and> t_status t = T_QUEUED"
    using new by (auto simp: redriven_def db1_def)
  moreover have "\<forall>t \<in> set (map (reset_task live) (tasks db)). t_status t \<in> set NON_TERMINAL_TASK_STATUSES \<longrightarrow>
       (\<exists>c. t_celery_id t = Some c \<and> c \<in> set live)" using reset_task_live by auto
  ultimately show ?thesis by (intro exI [of _ new]) blast
qed

section \<open>A pass over a dead initialisation\<close>

theorem janitor_leaves_no_zombies_witness:
  "\<exists>r db' sent. reset_stale_tasks demo_deploy_env [] demo_started = (r, db', sent) \<and>
     map t_status (tasks db') = [T_FAILED] \<and> (\<exists>m \<in> set (module_rows db'). pr_id m = 1 \<and> status m \<notin> {INITIALIZING, PLANNING, APPLYING})"
proof -
  let ?out = "reset_stale_tasks demo_deploy_env [] demo_started"
  obtain r db' sent where d: "?out = (r, db', sent)" by (metis prod_cases3)
  have one: "map t_status (tasks (fst (snd ?out))) = [T_FAILED]" "map pr_id (module_rows (fst (snd ?out))) = [1, 2]" by code_simp+
  have "\<exists>m \<in> set (module_rows db'). pr_id m = 1" using one(2) d by (cases "module_rows db'") auto
  then obtain m where m: "m \<in> set (module_rows db')" "pr_id m = 1" by blast
  have "tasks_fresh demo_started" by (simp add: tasks_fresh_def demo_simps)
  note J = janitor_leaves_no_zombies [OF d this]
  let ?t = "queued_task 1 ''init'' (demo_pm 1 []) (Some ''run'') ''celery-id''"
  have "?t \<in> set (tasks demo_started)" by (simp add: demo_rows)
  moreover have "is_stale [] ?t" "t_module_id ?t = pr_id m" "t_type ?t \<noteq> ''destroy''"
    using m(2) by (simp_all add: is_stale_def queued_task_def NON_TERMINAL_TASK_STATUSES_def demo_pm_def)
  ultimately have "status m \<notin> {INITIALIZING, PLANNING, APPLYING}" using J m(1) by blast
  then show ?thesis using d one(1) m by auto
qed

end
