(* ===== verification/Breaker.thy ===== *)
theory Breaker
  imports Entity_Lock
begin

text \<open>
  The circuit breaker of \<^verbatim>\<open>src/backend/services/reachability/breaker.py\<close> with the exception
  classification it relies on, and the translation of Kubernetes client errors of
  \<^verbatim>\<open>src/backend/services/kubernetes/_hardened.py\<close>. Clock readings (\<^verbatim>\<open>time.monotonic()\<close>) are
  arguments, in microseconds.
\<close>

section \<open>State and operations\<close>

datatype error_category = NETWORK | AUTH | AUTHZ | TARGET | TIMEOUT | SLOW

datatype breaker_state = CLOSED | OPEN | HALF_OPEN

record breaker =
  failure_threshold :: int
  sleep_window_seconds :: int
  state :: breaker_state
  consecutive_failures :: int
  opened_at :: instant
  half_open_inflight :: bool
  last_success_at :: "instant option"
  target_name :: "string option"

definition new_breaker :: "int \<Rightarrow> int \<Rightarrow> string option \<Rightarrow> breaker" where
  "new_breaker threshold window name =
     \<lparr>failure_threshold = threshold, sleep_window_seconds = window, state = CLOSED,
      consecutive_failures = 0, opened_at = 0, half_open_inflight = False,
      last_success_at = None, target_name = name\<rparr>"

text \<open>
  \<^verbatim>\<open>can_attempt\<close>: the open state may turn half-open first, and then falls into the
  half-open test, as in the code.
\<close>

definition can_attempt :: "instant \<Rightarrow> breaker \<Rightarrow> bool \<times> breaker" where
  "can_attempt now b =
     (if state b = CLOSED then (True, b)
      else if state b = OPEN \<and> now - opened_at b < seconds (sleep_window_seconds b) then (False, b)
      else let b1 = (if state b = OPEN then b\<lparr>state := HALF_OPEN, half_open_inflight := False\<rparr> else b)
           in if half_open_inflight b1 then (False, b1)
              else (True, b1\<lparr>half_open_inflight := True\<rparr>))"

definition record_success :: "instant \<Rightarrow> breaker \<Rightarrow> breaker" where
  "record_success now b =
     b\<lparr>consecutive_failures := 0, last_success_at := Some now, half_open_inflight := False,
       state := CLOSED\<rparr>"

definition record_failure :: "instant \<Rightarrow> error_category option \<Rightarrow> breaker \<Rightarrow> breaker" where
  "record_failure now category b =
     (if category = Some AUTH \<or> category = Some AUTHZ then b
      else let b1 = b\<lparr>consecutive_failures := consecutive_failures b + 1, half_open_inflight := False\<rparr>
           in if state b1 = HALF_OPEN \<or> failure_threshold b1 \<le> consecutive_failures b1
              then b1\<lparr>state := OPEN, opened_at := now\<rparr> else b1)"

section \<open>Classification of exceptions\<close>

text \<open>
  An exception is the list of the class names it is an instance of, and the HTTP status it
  may carry; \<open>installed\<close> lists the optional packages whose import succeeds.
\<close>

record pyexc =
  exc_classes :: "string list"
  exc_status :: "int option"

definition isinstance :: "pyexc \<Rightarrow> string list \<Rightarrow> bool" where
  "isinstance e cs \<longleftrightarrow> list_ex (\<lambda>c. c \<in> set (exc_classes e)) cs"

definition categorize_exception :: "string list \<Rightarrow> pyexc \<Rightarrow> error_category" where
  "categorize_exception installed e =
     (let u3 = ''urllib3'' \<in> set installed; rq = ''requests'' \<in> set installed;
          k8s = ''kubernetes'' \<in> set installed
      in if isinstance e [''TimeoutError'', ''asyncio.TimeoutError''] then TIMEOUT
         else if u3 \<and> isinstance e [''urllib3.MaxRetryError'', ''urllib3.NewConnectionError'',
                                      ''urllib3.ConnectTimeoutError''] then NETWORK
         else if u3 \<and> isinstance e [''urllib3.ReadTimeoutError''] then TIMEOUT
         else if rq \<and> isinstance e [''requests.ConnectTimeout'', ''requests.ReadTimeout'',
                                      ''requests.Timeout''] then TIMEOUT
         else if rq \<and> isinstance e [''requests.ConnectionError''] then NETWORK
         else if k8s \<and> isinstance e [''kubernetes.ApiException'']
         then (if exc_status e = Some 401 then AUTH
               else if exc_status e = Some 403 then AUTHZ else TARGET)
         else if isinstance e [''ConnectionError'', ''OSError''] then NETWORK
         else TARGET)"

text \<open>The application errors a translated exception becomes; both derive from \<^verbatim>\<open>AppError\<close>.\<close>

definition AuthenticationError :: pyexc where
  "AuthenticationError = \<lparr>exc_classes = [''AuthenticationError'', ''AppError'', ''Exception'',
     ''BaseException''], exc_status = None\<rparr>"

definition NetworkUnreachableError :: pyexc where
  "NetworkUnreachableError = \<lparr>exc_classes = [''NetworkUnreachableError'', ''AppError'', ''Exception'',
     ''BaseException''], exc_status = None\<rparr>"

definition translate_k8s_exception :: "string list \<Rightarrow> pyexc \<Rightarrow> pyexc" where
  "translate_k8s_exception installed e =
     (if categorize_exception installed e \<in> {AUTH, AUTHZ} then AuthenticationError
      else NetworkUnreachableError)"

section \<open>Runs of a breaker\<close>

text \<open>What happens to a breaker: a caller asks, or the outcome of a call is recorded.\<close>

datatype breaker_event =
    Attempt instant
  | Succeeded instant
  | Failed instant "error_category option"

definition counts :: "error_category option \<Rightarrow> bool" where
  "counts c \<longleftrightarrow> c \<noteq> Some AUTH \<and> c \<noteq> Some AUTHZ"

fun breaker_step :: "breaker \<Rightarrow> breaker_event \<Rightarrow> breaker" where
  "breaker_step b (Attempt t) = snd (can_attempt t b)"
| "breaker_step b (Succeeded t) = record_success t b"
| "breaker_step b (Failed t c) = record_failure t c b"

abbreviation breaker_run :: "breaker \<Rightarrow> breaker_event list \<Rightarrow> breaker" where
  "breaker_run \<equiv> foldl breaker_step"

text \<open>The specification: the counted failures since the last success.\<close>

fun streak :: "int \<Rightarrow> breaker_event list \<Rightarrow> int" where
  "streak n [] = n"
| "streak n (Attempt t # es) = streak n es"
| "streak n (Succeeded t # es) = streak 0 es"
| "streak n (Failed t c # es) = streak (if counts c then n + 1 else n) es"

definition breaker_inv :: "breaker \<Rightarrow> bool" where
  "breaker_inv b \<longleftrightarrow> 0 < failure_threshold b \<and>
     (state b = CLOSED \<longleftrightarrow> consecutive_failures b < failure_threshold b) \<and>
     (half_open_inflight b \<longrightarrow> state b = HALF_OPEN)"

lemma state_cases: "s \<noteq> CLOSED \<Longrightarrow> s = OPEN \<or> s = HALF_OPEN"
  by (cases s) auto

lemma breaker_step_inv: "breaker_inv b \<Longrightarrow> breaker_inv (breaker_step b e)"
  by (cases e; cases "state b")
    (auto simp: breaker_inv_def can_attempt_def record_success_def record_failure_def Let_def)

lemma breaker_run_inv: "breaker_inv b \<Longrightarrow> breaker_inv (breaker_run b es)"
  by (induction es arbitrary: b) (auto intro: breaker_step_inv)

lemma breaker_step_config [simp]:
  "failure_threshold (breaker_step b e) = failure_threshold b"
  "sleep_window_seconds (breaker_step b e) = sleep_window_seconds b"
  by (cases e; simp add: can_attempt_def record_success_def record_failure_def Let_def)+

lemma breaker_run_config [simp]:
  "failure_threshold (breaker_run b es) = failure_threshold b"
  "sleep_window_seconds (breaker_run b es) = sleep_window_seconds b"
  by (induction es arbitrary: b) auto

lemma breaker_run_streak:
  "consecutive_failures (breaker_run b es) = streak (consecutive_failures b) es"
proof (induction es arbitrary: b)
  case (Cons e es)
  then show ?case
    by (cases e) (auto simp: can_attempt_def record_success_def record_failure_def counts_def Let_def)
qed simp

lemma new_breaker_inv: "0 < n \<Longrightarrow> breaker_inv (new_breaker n w name)"
  by (simp add: breaker_inv_def new_breaker_def)

text \<open>
  C7. A breaker trips exactly on consecutive counted failures: after any history of
  attempts, successes and failures a breaker is closed exactly when fewer than the
  threshold of failures other than auth and authz were recorded since the last success.
\<close>

theorem breaker_closed_iff_streak:
  assumes "0 < n"
  shows "state (breaker_run (new_breaker n w name) es) = CLOSED \<longleftrightarrow> streak 0 es < n"
proof -
  have "breaker_inv (breaker_run (new_breaker n w name) es)"
    using assms by (intro breaker_run_inv new_breaker_inv)
  then show ?thesis by (simp add: breaker_inv_def breaker_run_streak) (simp add: new_breaker_def)
qed

theorem breaker_closed_iff_streak_witness:
  "state (breaker_run (new_breaker 2 30 None) [Failed 1 (Some NETWORK), Failed 2 (Some AUTH), Failed 3 None]) \<noteq> CLOSED"
  using breaker_closed_iff_streak [of 2 30 None "[Failed 1 (Some NETWORK), Failed 2 (Some AUTH), Failed 3 None]"]
  by (simp add: counts_def)

section \<open>The open breaker\<close>

text \<open>The attempts a breaker admits over a sequence of events.\<close>

fun admitted :: "breaker \<Rightarrow> breaker_event list \<Rightarrow> instant list" where
  "admitted b [] = []"
| "admitted b (e # es) =
     (case e of Attempt t \<Rightarrow> (if fst (can_attempt t b) then [t] else []) | _ \<Rightarrow> [])
       @ admitted (breaker_step b e) es"

fun quiet :: "breaker_event \<Rightarrow> bool" where
  "quiet (Attempt t) = True"
| "quiet (Succeeded t) = False"
| "quiet (Failed t c) = (\<not> counts c)"

fun attempt_times :: "breaker_event list \<Rightarrow> instant list" where
  "attempt_times [] = []"
| "attempt_times (Attempt t # es) = t # attempt_times es"
| "attempt_times (e # es) = attempt_times es"

lemma uncounted_failure [simp]: "\<not> counts c \<Longrightarrow> record_failure t c b = b"
  by (auto simp: record_failure_def counts_def)

lemma inflight_admits_none:
  "state b = HALF_OPEN \<Longrightarrow> half_open_inflight b \<Longrightarrow> list_all quiet es \<Longrightarrow>
     admitted b es = [] \<and> breaker_run b es = b"
proof (induction es)
  case (Cons e es)
  then show ?case by (cases e) (auto simp: can_attempt_def)
qed simp

text \<open>
  An open breaker admits exactly one trial: whatever callers ask and however many auth
  failures arrive while no outcome that counts is recorded, no attempt inside the sleep
  window is admitted, the first one after it is, and no other.
\<close>

theorem open_breaker_admits_one_trial:
  assumes "state b = OPEN" and "list_all quiet es"
  shows "admitted b es =
    (case dropWhile (\<lambda>t. t - opened_at b < seconds (sleep_window_seconds b)) (attempt_times es) of
       [] \<Rightarrow> [] | t # ts \<Rightarrow> [t])"
  using assms
proof (induction es)
  case (Cons e es)
  show ?case
  proof (cases e)
    case (Attempt t)
    then show ?thesis
    proof (cases "t - opened_at b < seconds (sleep_window_seconds b)")
      case True
      then show ?thesis using Cons Attempt by (simp add: can_attempt_def)
    next
      case False
      let ?b = "b\<lparr>state := HALF_OPEN, half_open_inflight := True\<rparr>"
      have "can_attempt t b = (True, ?b)"
        using Cons.prems False by (simp add: can_attempt_def Let_def)
      moreover have "admitted ?b es = []"
        using Cons.prems inflight_admits_none [of ?b es] by simp
      ultimately show ?thesis using Attempt False by simp
    qed
  qed (use Cons in simp_all)
qed simp

definition demo_open :: breaker where
  "demo_open = breaker_run (new_breaker 1 30 None) [Failed 0 (Some NETWORK)]"

theorem open_breaker_admits_one_trial_witness:
  "admitted demo_open [Attempt 5, Attempt 30000000, Attempt 40000000] = [30000000]"
proof -
  have "state demo_open = OPEN" "opened_at demo_open = 0" "sleep_window_seconds demo_open = 30"
    by (simp_all add: demo_open_def new_breaker_def record_failure_def)
  then show ?thesis
    using open_breaker_admits_one_trial [of demo_open "[Attempt 5, Attempt 30000000, Attempt 40000000]"]
    by (simp add: seconds_def)
qed

text \<open>
  An auth failure of the trial wedges the breaker: if the trial an open breaker admits
  ends in an auth or authz failure, then no later attempt is admitted, however much time
  passes, as long as only auth failures are reported.
\<close>

theorem auth_trial_wedges_breaker:
  assumes "state b = OPEN" and "seconds (sleep_window_seconds b) \<le> t - opened_at b"
    and "\<not> counts c" and "list_all quiet es"
  shows "fst (can_attempt t b) \<and> admitted (breaker_run b [Attempt t, Failed t' c]) es = []"
proof -
  have "can_attempt t b = (True, b\<lparr>state := HALF_OPEN, half_open_inflight := True\<rparr>)"
    using assms(1,2) by (simp add: can_attempt_def Let_def)
  with assms show ?thesis
    using inflight_admits_none [of "b\<lparr>state := HALF_OPEN, half_open_inflight := True\<rparr>" es] by simp
qed

theorem auth_trial_wedges_breaker_witness:
  "admitted (breaker_run demo_open [Attempt 30000000, Failed 30000001 (Some AUTH)]) [Attempt 900000000000] = []"
proof -
  have "state demo_open = OPEN" "seconds (sleep_window_seconds demo_open) \<le> 30000000 - opened_at demo_open"
    by (simp_all add: demo_open_def new_breaker_def record_failure_def seconds_def)
  from auth_trial_wedges_breaker [OF this, of "Some AUTH" "[Attempt 900000000000]" 30000001] show ?thesis
    by (simp add: counts_def)
qed

text \<open>
  The translation of Kubernetes errors loses the auth category: whatever exception is
  translated, its translation is classified as a target failure, which counts, although the
  exception itself may be an auth failure, which does not.
\<close>

theorem translated_exception_counts:
  "categorize_exception installed (translate_k8s_exception installed e) = TARGET \<and>
   counts (Some (categorize_exception installed (translate_k8s_exception installed e))) \<and>
   (\<exists>e'. \<not> counts (Some (categorize_exception [''kubernetes''] e')))"
proof -
  have "categorize_exception installed AuthenticationError = TARGET"
    "categorize_exception installed NetworkUnreachableError = TARGET"
    by (simp_all add: categorize_exception_def AuthenticationError_def NetworkUnreachableError_def
        isinstance_def Let_def)
  then have "categorize_exception installed (translate_k8s_exception installed e) = TARGET"
    by (simp add: translate_k8s_exception_def)
  moreover have "categorize_exception [''kubernetes'']
      \<lparr>exc_classes = [''kubernetes.ApiException''], exc_status = Some 401\<rparr> = AUTH"
    by (simp add: categorize_exception_def isinstance_def)
  ultimately show ?thesis by (auto simp: counts_def)
qed

end
