(* ===== verification/Reachability.thy ===== *)
theory Reachability
  imports Breaker
begin

text \<open>
  The reachability registry of \<^verbatim>\<open>src/backend/services/reachability/registry.py\<close>, the probe
  contract of \<^verbatim>\<open>probe.py\<close> and the call wrapper \<^verbatim>\<open>with_breaker\<close> of \<^verbatim>\<open>breaker.py\<close>. The
  registry keeps one breaker, the latest snapshot, the name and the last success per target,
  and the event streams of its subscribers. Latencies are in microseconds.
\<close>

section \<open>Probes, results and the registry's state\<close>

datatype reachability_state = UNKNOWN | REACHABLE | UNREACHABLE

record probe =
  pr_target_type :: string
  probe_interval_seconds :: int
  slow_threshold_ms :: int
  breaker_failure_threshold :: int
  breaker_sleep_window_seconds :: int

record probe_result =
  res_state :: reachability_state
  checked_at :: instant
  latency :: "instant option"
  error_category :: "error_category option"
  error_context :: "(string, string) dict"

record snapshot =
  sn_target_type :: string
  sn_target_id :: int
  sn_target_name :: "string option"
  sn_state :: reachability_state
  sn_latency :: "instant option"
  sn_error_category :: "error_category option"
  sn_error_context :: "(string, string) dict"
  sn_checked_at :: instant

type_synonym target = "string \<times> int"

text \<open>A subscriber's queue is unbounded; it is kept as the stream of everything put into it.\<close>

record registry =
  probes :: "(string, probe) dict"
  breakers :: "(target, breaker) dict"
  latest :: "(target, snapshot) dict"
  target_names :: "(target, string) dict"
  last_success_wall :: "(target, instant) dict"
  subscribers :: "(nat, snapshot list) dict"
  scheduler_tasks :: "string list"
  started :: bool

datatype registry_error = EmptyTargetType | UnknownTargetType string

definition empty_registry :: registry where
  "empty_registry = \<lparr>probes = [], breakers = [], latest = [], target_names = [],
     last_success_wall = [], subscribers = [], scheduler_tasks = [], started = False\<rparr>"

definition reset_breaker_state :: "registry \<Rightarrow> registry" where
  "reset_breaker_state reg =
     reg\<lparr>breakers := [], latest := [], target_names := [], last_success_wall := []\<rparr>"

definition register :: "probe \<Rightarrow> registry \<Rightarrow> registry_error + registry" where
  "register p reg =
     (if pr_target_type p = '''' then Inl EmptyTargetType
      else Inr (reg\<lparr>probes := dict_set (pr_target_type p) p (probes reg)\<rparr>))"

definition start :: "registry \<Rightarrow> registry" where
  "start reg = (if started reg then reg
     else reg\<lparr>started := True, scheduler_tasks := map fst (probes reg)\<rparr>)"

definition stop :: "registry \<Rightarrow> registry" where
  "stop reg = reg\<lparr>scheduler_tasks := [], started := False\<rparr>"

definition all_states :: "registry \<Rightarrow> snapshot list" where
  "all_states reg = map snd (latest reg)"

definition get_state :: "registry \<Rightarrow> target \<Rightarrow> snapshot option" where
  "get_state reg k = map_of (latest reg) k"

definition get_target_name :: "registry \<Rightarrow> target \<Rightarrow> string option" where
  "get_target_name reg k = map_of (target_names reg) k"

definition get_last_success :: "registry \<Rightarrow> target \<Rightarrow> instant option" where
  "get_last_success reg k = map_of (last_success_wall reg) k"

definition serialize_result :: "probe_result \<Rightarrow> target \<Rightarrow> string option \<Rightarrow> snapshot" where
  "serialize_result r k name =
     \<lparr>sn_target_type = fst k, sn_target_id = snd k, sn_target_name = name, sn_state = res_state r,
      sn_latency = latency r, sn_error_category = error_category r,
      sn_error_context = error_context r, sn_checked_at = checked_at r\<rparr>"

section \<open>The breakers of the registry\<close>

definition default_breaker :: "registry \<Rightarrow> target \<Rightarrow> breaker" where
  "default_breaker reg k =
     (case map_of (probes reg) (fst k) of
        Some p \<Rightarrow> new_breaker (breaker_failure_threshold p) (breaker_sleep_window_seconds p)
                    (map_of (target_names reg) k)
      | None \<Rightarrow> new_breaker 5 30 (map_of (target_names reg) k))"

definition breaker_for :: "target \<Rightarrow> registry \<Rightarrow> breaker \<times> registry" where
  "breaker_for k reg =
     (case map_of (breakers reg) k of
        Some b \<Rightarrow> (b, reg)
      | None \<Rightarrow> (let b = default_breaker reg k in (b, reg\<lparr>breakers := dict_set k b (breakers reg)\<rparr>)))"

definition allow_call :: "instant \<Rightarrow> target \<Rightarrow> registry \<Rightarrow> bool \<times> registry" where
  "allow_call now k reg =
     (let (b, reg1) = breaker_for k reg; (ok, b') = can_attempt now b
      in (ok, reg1\<lparr>breakers := dict_set k b' (breakers reg1)\<rparr>))"

definition slow_threshold :: "registry \<Rightarrow> target \<Rightarrow> int" where
  "slow_threshold reg k = (case map_of (probes reg) (fst k) of Some p \<Rightarrow> slow_threshold_ms p | None \<Rightarrow> 5000)"

definition record_real_call ::
  "instant \<Rightarrow> instant \<Rightarrow> target \<Rightarrow> bool \<Rightarrow> error_category option \<Rightarrow> instant \<Rightarrow> registry \<Rightarrow> registry" where
  "record_real_call now wall k success category lat reg =
     (let (b, reg1) = breaker_for k reg
      in if success \<and> slow_threshold reg k * 1000 \<le> lat
         then reg1\<lparr>breakers := dict_set k (record_failure now (Some SLOW) b) (breakers reg1)\<rparr>
         else if success
         then reg1\<lparr>breakers := dict_set k (record_success now b) (breakers reg1),
                    last_success_wall := dict_set k wall (last_success_wall reg1)\<rparr>
         else reg1\<lparr>breakers := dict_set k (record_failure now category b) (breakers reg1)\<rparr>)"

section \<open>Subscriptions and probe results\<close>

definition subscribe :: "nat \<Rightarrow> registry \<Rightarrow> registry" where
  "subscribe q reg = reg\<lparr>subscribers := dict_set q (all_states reg) (subscribers reg)\<rparr>"

definition unsubscribe :: "nat \<Rightarrow> registry \<Rightarrow> registry" where
  "unsubscribe q reg = reg\<lparr>subscribers := AList.delete q (subscribers reg)\<rparr>"

definition publish :: "snapshot \<Rightarrow> registry \<Rightarrow> registry" where
  "publish sn reg = reg\<lparr>subscribers := map (\<lambda>(q, ev). (q, ev @ [sn])) (subscribers reg)\<rparr>"

text \<open>\<^verbatim>\<open>a or b\<close> on optional strings, and equality of two dictionaries.\<close>

definition truthy :: "string option \<Rightarrow> bool" where
  "truthy s \<longleftrightarrow> s \<noteq> None \<and> s \<noteq> Some ''''"

definition str_or :: "string option \<Rightarrow> string option \<Rightarrow> string option" where
  "str_or a b = (if truthy a then a else b)"

definition dict_eq :: "('k, 'v) dict \<Rightarrow> ('k, 'v) dict \<Rightarrow> bool" where
  "dict_eq d e \<longleftrightarrow> set d = set e"

definition name_target :: "target \<Rightarrow> string option \<Rightarrow> registry \<Rightarrow> registry" where
  "name_target k name reg =
     (case name of
        None \<Rightarrow> reg
      | Some n \<Rightarrow>
          if n = '''' then reg
          else reg\<lparr>target_names := dict_set k n (target_names reg),
                   breakers := (case map_of (breakers reg) k of
                        Some b \<Rightarrow> if truthy (target_name b) then breakers reg
                                  else dict_set k (b\<lparr>target_name := Some n\<rparr>) (breakers reg)
                      | None \<Rightarrow> breakers reg)\<rparr>)"

definition observe_result :: "instant \<Rightarrow> instant \<Rightarrow> target \<Rightarrow> probe_result \<Rightarrow> registry \<Rightarrow> registry" where
  "observe_result now wall k r reg =
     (let lat = (case latency r of None \<Rightarrow> 0 | Some l \<Rightarrow> l)
      in case res_state r of
           REACHABLE \<Rightarrow> record_real_call now wall k True None lat reg
         | UNREACHABLE \<Rightarrow> record_real_call now wall k False (error_category r) lat reg
         | UNKNOWN \<Rightarrow> reg)"

definition changed :: "snapshot option \<Rightarrow> snapshot \<Rightarrow> bool" where
  "changed prev sn = (case prev of None \<Rightarrow> True
     | Some p \<Rightarrow> sn_state p \<noteq> sn_state sn \<or> \<not> dict_eq (sn_error_context p) (sn_error_context sn))"

text \<open>
  Recording a result has one suspension point, the cache write between the update of the
  registry and the publication. What comes before it answers the snapshot that is due to be
  published; \<^verbatim>\<open>record_probe_result\<close> is a run in which no other task gets in between, as when
  the cache is unavailable.
\<close>

definition store_probe_result ::
  "instant \<Rightarrow> instant \<Rightarrow> target \<Rightarrow> probe_result \<Rightarrow> registry \<Rightarrow> snapshot option \<times> registry" where
  "store_probe_result now wall k r reg =
     (let name = str_or (map_of (error_context r) ''target_name'') (map_of (target_names reg) k);
          reg1 = name_target k name reg;
          sn = serialize_result r k name;
          prev = map_of (latest reg1) k;
          reg2 = observe_result now wall k r (reg1\<lparr>latest := dict_set k sn (latest reg1)\<rparr>)
      in (if changed prev sn then Some sn else None, reg2))"

definition record_probe_result ::
  "instant \<Rightarrow> instant \<Rightarrow> target \<Rightarrow> probe_result \<Rightarrow> registry \<Rightarrow> registry" where
  "record_probe_result now wall k r reg =
     (case store_probe_result now wall k r reg of
        (Some sn, reg') \<Rightarrow> publish sn reg'
      | (None, reg') \<Rightarrow> reg')"

text \<open>
  One probe of the scheduler: \<open>Inl\<close> is an exception with its text, turned into an
  unreachable result; \<^verbatim>\<open>force_probe\<close> lets it propagate.
\<close>

definition probe_one ::
  "instant \<Rightarrow> instant \<Rightarrow> probe \<Rightarrow> int \<Rightarrow> string + probe_result \<Rightarrow> registry \<Rightarrow> registry" where
  "probe_one now wall p tid outcome reg =
     record_probe_result now wall (pr_target_type p, tid)
       (case outcome of
          Inr r \<Rightarrow> r
        | Inl msg \<Rightarrow> \<lparr>res_state = UNREACHABLE, checked_at = wall, latency = None,
            error_category = Some TARGET,
            error_context = [(''suggested_action'', ''Probe failed unexpectedly: '' @ msg)]\<rparr>) reg"

definition force_probe ::
  "instant \<Rightarrow> instant \<Rightarrow> string \<Rightarrow> int \<Rightarrow> probe_result \<Rightarrow> registry \<Rightarrow>
     registry_error + snapshot option \<times> registry" where
  "force_probe now wall tt tid r reg =
     (case map_of (probes reg) tt of
        None \<Rightarrow> Inl (UnknownTargetType tt)
      | Some p \<Rightarrow> (let reg' = record_probe_result now wall (pr_target_type p, tid) r reg
                   in Inr (get_state reg' (tt, tid), reg')))"

text \<open>One cycle of the scheduler loop, with the outcomes in the order they are recorded.\<close>

fun probe_cycle ::
  "instant \<Rightarrow> instant \<Rightarrow> probe \<Rightarrow> (int \<times> (string + probe_result)) list \<Rightarrow> registry \<Rightarrow> registry" where
  "probe_cycle now wall p [] reg = reg"
| "probe_cycle now wall p ((tid, outcome) # rest) reg =
     probe_cycle now wall p rest (probe_one now wall p tid outcome reg)"

section \<open>The call wrapper\<close>

datatype arg_value = ArgNone | ArgInt int | ArgStr string | ArgOther

definition resolve_target_id ::
  "string \<Rightarrow> string list \<Rightarrow> arg_value list \<Rightarrow> (string, arg_value) dict \<Rightarrow> int option" where
  "resolve_target_id arg param_names args kwargs =
     (let v = (case map_of kwargs arg of
            Some v \<Rightarrow> v
          | None \<Rightarrow> (case list_index param_names arg of
                None \<Rightarrow> ArgNone
              | Some i \<Rightarrow> if i < length args then args ! i else ArgNone))
      in case v of ArgInt i \<Rightarrow> Some i | ArgStr s \<Rightarrow> int_of_str s | _ \<Rightarrow> None)"

datatype call_error =
    BreakerOpenError string int string "instant option"
  | Propagated pyexc

definition build_open_error :: "target \<Rightarrow> registry \<Rightarrow> call_error" where
  "build_open_error k reg =
     BreakerOpenError (fst k) (snd k)
       (case str_or (get_target_name reg k) None of
          Some n \<Rightarrow> n | None \<Rightarrow> fst k @ '':'' @ str_of_int (snd k))
       (get_last_success reg k)"

text \<open>
  The wrapped call. \<open>fn\<close> is the wrapped function: its outcome, and the registry as the rest
  of the process has left it when the call ends; \<open>asked\<close> is the clock reading of the breaker
  test, \<open>began\<close> and \<open>fin\<close> the ones around the call.
\<close>

definition with_breaker ::
  "string list \<Rightarrow> string \<Rightarrow> int option \<Rightarrow> instant \<Rightarrow> instant \<Rightarrow> instant \<Rightarrow> instant \<Rightarrow>
     (registry \<Rightarrow> (pyexc + 'r) \<times> registry) \<Rightarrow> registry \<Rightarrow> (call_error + 'r) \<times> registry" where
  "with_breaker installed tt target_id asked began fin wall fn reg =
     (case target_id of
        None \<Rightarrow> (case fn reg of (Inl e, reg') \<Rightarrow> (Inl (Propagated e), reg') | (Inr x, reg') \<Rightarrow> (Inr x, reg'))
      | Some tid \<Rightarrow>
          (case allow_call asked (tt, tid) reg of
             (False, reg1) \<Rightarrow> (Inl (build_open_error (tt, tid) reg1), reg1)
           | (True, reg1) \<Rightarrow>
               (case fn reg1 of
                  (Inl e, reg2) \<Rightarrow>
                    (Inl (Propagated e), record_real_call fin wall (tt, tid) False
                       (Some (categorize_exception installed e)) (fin - began) reg2)
                | (Inr x, reg2) \<Rightarrow>
                    (Inr x, record_real_call fin wall (tt, tid) True None (fin - began) reg2))))"

section \<open>The registry refines one breaker per target\<close>

text \<open>The events that reach the registry, and what each means for the breaker of a target.\<close>

datatype registry_event =
    Asked instant target
  | Called instant instant target bool "error_category option" instant
  | Probed instant instant target probe_result
  | Published snapshot
  | Subscribed nat
  | Unsubscribed nat

fun registry_step :: "registry \<Rightarrow> registry_event \<Rightarrow> registry" where
  "registry_step reg (Asked now k) = snd (allow_call now k reg)"
| "registry_step reg (Called now wall k success c lat) = record_real_call now wall k success c lat reg"
| "registry_step reg (Probed now wall k r) = snd (store_probe_result now wall k r reg)"
| "registry_step reg (Published sn) = publish sn reg"
| "registry_step reg (Subscribed q) = subscribe q reg"
| "registry_step reg (Unsubscribed q) = unsubscribe q reg"

definition call_events ::
  "int \<Rightarrow> instant \<Rightarrow> bool \<Rightarrow> error_category option \<Rightarrow> instant \<Rightarrow> breaker_event list" where
  "call_events slow now success c lat =
     [if \<not> success then Failed now c
      else if slow * 1000 \<le> lat then Failed now (Some SLOW) else Succeeded now]"

fun events_for :: "int \<Rightarrow> target \<Rightarrow> registry_event \<Rightarrow> breaker_event list" where
  "events_for slow k (Asked now k') = (if k' = k then [Attempt now] else [])"
| "events_for slow k (Called now wall k' success c lat) =
     (if k' = k then call_events slow now success c lat else [])"
| "events_for slow k (Probed now wall k' r) =
     (if k' \<noteq> k \<or> res_state r = UNKNOWN then []
      else call_events slow now (res_state r = REACHABLE) (error_category r)
             (case latency r of None \<Rightarrow> 0 | Some l \<Rightarrow> l))"
| "events_for slow k (Published sn) = []"
| "events_for slow k (Subscribed q) = []"
| "events_for slow k (Unsubscribed q) = []"

text \<open>The breaker a target has, or would be given, up to its display name.\<close>

definition anon :: "breaker \<Rightarrow> breaker" where
  "anon b = b\<lparr>target_name := None\<rparr>"

definition breaker_at :: "registry \<Rightarrow> target \<Rightarrow> breaker" where
  "breaker_at reg k = anon (case map_of (breakers reg) k of Some b \<Rightarrow> b | None \<Rightarrow> default_breaker reg k)"

lemma anon_step: "anon (breaker_step b e) = breaker_step (anon b) e"
  by (cases e) (auto simp: anon_def can_attempt_def record_success_def record_failure_def Let_def)

lemma anon_default [simp]:
  "anon (default_breaker (reg\<lparr>breakers := x\<rparr>) k) = anon (default_breaker reg k)"
  "anon (default_breaker (reg\<lparr>latest := l\<rparr>) k) = anon (default_breaker reg k)"
  "anon (default_breaker (reg\<lparr>target_names := n\<rparr>) k) = anon (default_breaker reg k)"
  "anon (default_breaker (reg\<lparr>last_success_wall := w\<rparr>) k) = anon (default_breaker reg k)"
  "anon (default_breaker (reg\<lparr>subscribers := u\<rparr>) k) = anon (default_breaker reg k)"
  by (auto simp: default_breaker_def anon_def new_breaker_def split: option.splits)

lemma breaker_for_fst: "anon (fst (breaker_for k reg)) = breaker_at reg k"
  by (auto simp: breaker_for_def breaker_at_def Let_def split: option.splits)

lemma breaker_for_snd: "snd (breaker_for k reg) = reg \<or>
    (\<exists>x. snd (breaker_for k reg) = reg\<lparr>breakers := x\<rparr>)"
  by (auto simp: breaker_for_def Let_def split: option.splits)

lemma breaker_at_put:
  "breaker_at (snd (breaker_for k reg)\<lparr>breakers := dict_set k b (breakers (snd (breaker_for k reg)))\<rparr>) k' =
     (if k' = k then anon b else breaker_at reg k')"
  by (auto simp: breaker_for_def breaker_at_def Let_def split: option.splits)

lemma breaker_at_wall [simp]: "breaker_at (reg\<lparr>last_success_wall := w\<rparr>) k = breaker_at reg k"
  "breaker_at (reg\<lparr>subscribers := u\<rparr>) k = breaker_at reg k"
  "breaker_at (reg\<lparr>latest := l\<rparr>) k = breaker_at reg k"
  by (auto simp: breaker_at_def split: option.splits)

lemma breaker_at_allow:
  "breaker_at (snd (allow_call now k reg)) k' =
     (if k' = k then breaker_step (breaker_at reg k) (Attempt now) else breaker_at reg k')"
proof -
  obtain b reg1 where f: "breaker_for k reg = (b, reg1)" by (cases "breaker_for k reg")
  obtain ok b' where c: "can_attempt now b = (ok, b')" by (cases "can_attempt now b")
  have "anon b' = breaker_step (breaker_at reg k) (Attempt now)"
    using anon_step [of b "Attempt now"] c breaker_for_fst [of k reg] f by simp
  then show ?thesis using breaker_at_put [of k b' reg k'] by (simp add: allow_call_def f c)
qed

lemma breaker_at_real_call:
  "breaker_at (record_real_call now wall k success c lat reg) k' =
     (if k' = k then breaker_run (breaker_at reg k) (call_events (slow_threshold reg k) now success c lat)
      else breaker_at reg k')"
proof -
  obtain b reg1 where f: "breaker_for k reg = (b, reg1)" by (cases "breaker_for k reg")
  have b: "anon b = breaker_at reg k" using breaker_for_fst [of k reg] f by simp
  have put: "breaker_at (reg1\<lparr>breakers := dict_set k x (breakers reg1)\<rparr>) j =
      (if j = k then anon x else breaker_at reg j)" for x j
    using breaker_at_put [of k x reg j] f by simp
  show ?thesis
    using anon_step [of b "Failed now c"] anon_step [of b "Failed now (Some SLOW)"] anon_step [of b "Succeeded now"]
    by (simp add: record_real_call_def f Let_def call_events_def put b)
qed

lemma breaker_at_name [simp]: "breaker_at (name_target k name reg) k' = breaker_at reg k'"
proof (cases name)
  case (Some n)
  have "anon (b\<lparr>target_name := x\<rparr>) = anon b" for b x by (simp add: anon_def)
  with Some show ?thesis
    by (cases "map_of (breakers reg) k"; cases "map_of (breakers reg) k'") (auto simp: name_target_def breaker_at_def)
qed (simp add: name_target_def)

lemma probes_real_call [simp]: "probes (record_real_call now wall k success c lat reg) = probes reg"
  using breaker_for_snd [of k reg] by (auto simp: record_real_call_def Let_def case_prod_unfold)

lemma probes_name [simp]: "probes (name_target k name reg) = probes reg"
  by (simp add: name_target_def split: option.splits)

lemma slow_threshold_name [simp]: "slow_threshold (name_target k name reg) k' = slow_threshold reg k'"
  by (simp add: slow_threshold_def)

lemma slow_threshold_latest [simp]: "slow_threshold (reg\<lparr>latest := l\<rparr>) k = slow_threshold reg k"
  by (simp add: slow_threshold_def)

lemma call_events_success: "call_events slow now True c lat = call_events slow now True None lat"
  by (simp add: call_events_def)

lemma breaker_at_probe:
  "breaker_at (snd (store_probe_result now wall k r reg)) k' =
     breaker_run (breaker_at reg k') (events_for (slow_threshold reg k') k' (Probed now wall k r))"
  using call_events_success [of _ _ "error_category r"]
  by (cases "res_state r")
    (auto simp: store_probe_result_def observe_result_def Let_def breaker_at_real_call)

lemma registry_step_breaker:
  "breaker_at (registry_step reg e) k = breaker_run (breaker_at reg k) (events_for (slow_threshold reg k) k e)"
proof (cases e)
  case (Probed now wall k' r)
  then show ?thesis by (simp only: registry_step.simps breaker_at_probe)
qed (auto simp: breaker_at_allow breaker_at_real_call subscribe_def unsubscribe_def publish_def)

lemma probes_step [simp]: "probes (registry_step reg e) = probes reg"
proof (cases e)
  case (Asked now k)
  then show ?thesis using breaker_for_snd [of k reg] by (auto simp: allow_call_def Let_def case_prod_unfold)
next
  case (Probed now wall k r)
  then show ?thesis
    by (auto simp: store_probe_result_def observe_result_def Let_def split: reachability_state.splits)
qed (simp_all add: subscribe_def unsubscribe_def publish_def)

lemma registry_run_breaker:
  "breaker_at (foldl registry_step reg es) k =
     breaker_run (breaker_at reg k) (concat (map (events_for (slow_threshold reg k) k) es))"
proof (induction es arbitrary: reg)
  case (Cons e es)
  have "slow_threshold (registry_step reg e) k = slow_threshold reg k" by (simp add: slow_threshold_def)
  with Cons show ?case by (simp add: registry_step_breaker)
qed simp

text \<open>
  C8. The registry is a family of independent breakers: after any sequence of breaker
  tests, observed calls, probe results and subscriptions, the breaker of a target is the
  one its own events produce from a new breaker, a slow success counting as a slow failure
  and an unknown probe result as nothing; so a target is refused only for its own failures.
\<close>

theorem registry_refines_breakers:
  assumes "breakers reg = []"
  shows "breaker_at (foldl registry_step reg es) k =
     breaker_run (anon (default_breaker reg k)) (concat (map (events_for (slow_threshold reg k) k) es))"
  using assms by (simp add: registry_run_breaker) (simp add: breaker_at_def)

theorem registry_refines_breakers_witness:
  "state (breaker_at (foldl registry_step empty_registry
      [Called 1 1 (''cluster'', 1) True None 5000000, Called 2 2 (''cluster'', 2) False None 0]) (''cluster'', 1)) = CLOSED"
proof -
  have "slow_threshold empty_registry (''cluster'', 1) = 5000"
    by (simp add: slow_threshold_def empty_registry_def)
  then show ?thesis
    using registry_refines_breakers [of empty_registry
        "[Called 1 1 (''cluster'', 1) True None 5000000, Called 2 2 (''cluster'', 2) False None 0]" "(''cluster'', 1)"]
    by (simp add: empty_registry_def call_events_def default_breaker_def anon_def new_breaker_def record_failure_def)
qed

section \<open>The event streams\<close>

text \<open>What a subscriber can see of a target: the last event of its stream for that target.\<close>

definition last_event :: "target \<Rightarrow> snapshot list \<Rightarrow> snapshot option" where
  "last_event k evs = find (\<lambda>s. (sn_target_type s, sn_target_id s) = k) (rev evs)"

text \<open>
  The tasks of the event loop with the publications on their way. A result of a target is
  stored only while no other result of the same target waits to be published.
\<close>

type_synonym stream_state = "registry \<times> (target \<times> snapshot) list"

inductive stream_step :: "stream_state \<Rightarrow> stream_state \<Rightarrow> bool" where
  quiet_event: "stream_step (reg, pend) (registry_step reg e, pend)"
    if "(\<exists>now k. e = Asked now k) \<or> (\<exists>now wall k success c lat. e = Called now wall k success c lat) \<or>
        (\<exists>q. e = Subscribed q \<or> e = Unsubscribed q)"
| store: "stream_step (reg, pend) (reg', (case due of None \<Rightarrow> pend | Some sn \<Rightarrow> (k, sn) # pend))"
    if "k \<notin> fst ` set pend" and "store_probe_result now wall k r reg = (due, reg')"
| send: "stream_step (reg, pend) (publish sn reg, filter (\<lambda>p. fst p \<noteq> k) pend)"
    if "(k, sn) \<in> set pend"

definition streams_inv :: "stream_state \<Rightarrow> bool" where
  "streams_inv st \<longleftrightarrow> (case st of (reg, pend) \<Rightarrow>
     (\<forall>k sn. (k, sn) \<in> set (latest reg) \<longrightarrow> k = (sn_target_type sn, sn_target_id sn)) \<and>
     dict_ok (latest reg) \<and>
     (\<forall>k sn. (k, sn) \<in> set pend \<longrightarrow> map_of (latest reg) k = Some sn) \<and>
     (\<forall>(q, evs) \<in> set (subscribers reg). \<forall>k sn. map_of (latest reg) k = Some sn \<and> k \<notin> fst ` set pend \<longrightarrow>
        (\<exists>ev. last_event k evs = Some ev \<and> \<not> changed (Some ev) sn)))"

lemma streams_invI:
  assumes "\<And>k sn. (k, sn) \<in> set (latest reg) \<Longrightarrow> k = (sn_target_type sn, sn_target_id sn)"
    and "dict_ok (latest reg)"
    and "\<And>k sn. (k, sn) \<in> set pend \<Longrightarrow> map_of (latest reg) k = Some sn"
    and "\<And>q evs k sn. (q, evs) \<in> set (subscribers reg) \<Longrightarrow> map_of (latest reg) k = Some sn \<Longrightarrow>
      k \<notin> fst ` set pend \<Longrightarrow> \<exists>ev. last_event k evs = Some ev \<and> \<not> changed (Some ev) sn"
  shows "streams_inv (reg, pend)"
  unfolding streams_inv_def using assms by blast

lemma streams_invD:
  assumes "streams_inv (reg, pend)"
  shows "(k, sn) \<in> set (latest reg) \<Longrightarrow> k = (sn_target_type sn, sn_target_id sn)"
    and "dict_ok (latest reg)"
    and "(k, sn) \<in> set pend \<Longrightarrow> map_of (latest reg) k = Some sn"
    and "(q, evs) \<in> set (subscribers reg) \<Longrightarrow> map_of (latest reg) k = Some sn \<Longrightarrow>
      k \<notin> fst ` set pend \<Longrightarrow> \<exists>ev. last_event k evs = Some ev \<and> \<not> changed (Some ev) sn"
  using assms unfolding streams_inv_def by blast+

lemma changed_refl [simp]: "\<not> changed (Some sn) sn"
  by (simp add: changed_def dict_eq_def)

lemma changed_trans: "\<not> changed (Some a) b \<Longrightarrow> \<not> changed (Some b) c \<Longrightarrow> \<not> changed (Some a) c"
  by (simp add: changed_def dict_eq_def)

lemma last_event_snoc:
  "last_event k (evs @ [sn]) = (if (sn_target_type sn, sn_target_id sn) = k then Some sn else last_event k evs)"
  by (simp add: last_event_def)

lemma last_event_all_states:
  assumes "map_of d k = Some sn" and "dict_ok d"
    and "\<And>k sn. (k, sn) \<in> set d \<Longrightarrow> k = (sn_target_type sn, sn_target_id sn)"
  shows "last_event k (map snd d) = Some sn"
  using assms
proof (induction d rule: rev_induct)
  case (snoc x d)
  obtain k' sn' where x: "x = (k', sn')" by (cases x)
  then have k': "k' = (sn_target_type sn', sn_target_id sn')" using snoc.prems(3) [of k' sn'] by simp
  have "map_of d k' = None"
    using snoc.prems(2) by (simp add: x dict_ok_def map_of_eq_None_iff)
  show ?case
  proof (cases "k' = k")
    case True
    then have "sn = sn'" using snoc.prems(1) \<open>map_of d k' = None\<close> by (simp add: x map_add_def)
    with True show ?thesis by (simp add: x k' last_event_snoc)
  next
    case False
    then have "map_of d k = Some sn" using snoc.prems(1) by (auto simp: x map_add_def split: option.splits)
    then have "last_event k (map snd d) = Some sn"
      by (rule snoc.IH) (use snoc.prems(2,3) in \<open>simp_all add: dict_ok_def\<close>)
    with False show ?thesis by (simp add: x k' last_event_snoc)
  qed
qed simp

lemma real_call_streams [simp]:
  "latest (record_real_call now wall k success c lat reg) = latest reg"
  "subscribers (record_real_call now wall k success c lat reg) = subscribers reg"
  using breaker_for_snd [of k reg] by (auto simp: record_real_call_def Let_def case_prod_unfold)

lemma name_streams [simp]:
  "latest (name_target k name reg) = latest reg" "subscribers (name_target k name reg) = subscribers reg"
  by (simp_all add: name_target_def split: option.splits)

lemma observe_streams [simp]:
  "latest (observe_result now wall k r reg) = latest reg"
  "subscribers (observe_result now wall k r reg) = subscribers reg"
  by (simp_all add: observe_result_def Let_def split: reachability_state.splits)

lemma store_streams:
  assumes "store_probe_result now wall k r reg = (due, reg')"
  obtains sn where "(sn_target_type sn, sn_target_id sn) = k" and "latest reg' = dict_set k sn (latest reg)"
    and "subscribers reg' = subscribers reg"
    and "due = (if changed (map_of (latest reg) k) sn then Some sn else None)"
proof -
  let ?sn = "serialize_result r k (str_or (map_of (error_context r) ''target_name'') (map_of (target_names reg) k))"
  show thesis
    by (rule that [of ?sn]) (use assms in \<open>auto simp: store_probe_result_def Let_def serialize_result_def\<close>)
qed

lemma streams_store:
  assumes inv: "streams_inv (reg, pend)" and free: "k \<notin> fst ` set pend"
    and st: "store_probe_result now wall k r reg = (due, reg')"
  shows "streams_inv (reg', (case due of None \<Rightarrow> pend | Some sn \<Rightarrow> (k, sn) # pend))"
proof -
  obtain sn where key: "(sn_target_type sn, sn_target_id sn) = k" and lat: "latest reg' = dict_set k sn (latest reg)"
    and subs: "subscribers reg' = subscribers reg"
    and due: "due = (if changed (map_of (latest reg) k) sn then Some sn else None)"
    by (rule store_streams [OF st])
  show ?thesis
  proof (rule streams_invI)
    fix k' s assume "(k', s) \<in> set (latest reg')"
    then have "map_of (dict_set k sn (latest reg)) k' = Some s"
      using streams_invD(2) [OF inv] by (simp add: lat map_of_in_set del: map_of_dict_set)
    then show "k' = (sn_target_type s, sn_target_id s)"
      using key streams_invD(1) [OF inv, of k' s] by (cases "k' = k") (auto dest: map_of_SomeD)
  next
    show "dict_ok (latest reg')" using streams_invD(2) [OF inv] by (simp add: lat)
  next
    fix k' s assume "(k', s) \<in> set (case due of None \<Rightarrow> pend | Some sn \<Rightarrow> (k, sn) # pend)"
    then show "map_of (latest reg') k' = Some s"
      using free streams_invD(3) [OF inv, of k' s] by (force simp: lat due split: if_splits)
  next
    fix q evs k' s
    assume sub: "(q, evs) \<in> set (subscribers reg')" and row: "map_of (latest reg') k' = Some s"
      and "k' \<notin> fst ` set (case due of None \<Rightarrow> pend | Some sn \<Rightarrow> (k, sn) # pend)"
    then have k': "k' \<notin> fst ` set pend" "k' \<noteq> k \<or> due = None" by (auto split: option.splits)
    show "\<exists>ev. last_event k' evs = Some ev \<and> \<not> changed (Some ev) s"
    proof (cases "k' = k")
      case True
      then have "s = sn" "\<not> changed (map_of (latest reg) k) sn"
        using row k'(2) by (auto simp: lat due split: if_splits)
      then obtain p where p: "map_of (latest reg) k = Some p" "\<not> changed (Some p) sn"
        by (cases "map_of (latest reg) k") (auto simp: changed_def)
      then obtain ev where "last_event k evs = Some ev" "\<not> changed (Some ev) p"
        using streams_invD(4) [OF inv _ p(1) free] sub by (auto simp: subs)
      then show ?thesis using True \<open>s = sn\<close> changed_trans p(2) by blast
    next
      case False
      then show ?thesis using row sub k'(1) streams_invD(4) [OF inv] by (simp add: lat subs)
    qed
  qed
qed

lemma streams_send:
  assumes inv: "streams_inv (reg, pend)" and due: "(k, sn) \<in> set pend"
  shows "streams_inv (publish sn reg, filter (\<lambda>p. fst p \<noteq> k) pend)"
proof (rule streams_invI)
  have now: "map_of (latest reg) k = Some sn" using streams_invD(3) [OF inv due] .
  then have key: "(sn_target_type sn, sn_target_id sn) = k" using streams_invD(1) [OF inv map_of_SomeD] by simp
  fix q evs k' s
  assume "(q, evs) \<in> set (subscribers (publish sn reg))" and row: "map_of (latest (publish sn reg)) k' = Some s"
    and free: "k' \<notin> fst ` set (filter (\<lambda>p. fst p \<noteq> k) pend)"
  then obtain evs0 where evs: "evs = evs0 @ [sn]" "(q, evs0) \<in> set (subscribers reg)"
    by (auto simp: publish_def)
  show "\<exists>ev. last_event k' evs = Some ev \<and> \<not> changed (Some ev) s"
  proof (cases "k' = k")
    case True
    then show ?thesis using row now key by (simp add: evs last_event_snoc publish_def)
  next
    case False
    then have "k' \<notin> fst ` set pend" using free by force
    then show ?thesis
      using False row key streams_invD(4) [OF inv evs(2)] by (simp add: evs last_event_snoc publish_def)
  qed
qed (use streams_invD(1,2,3) [OF inv] in \<open>auto simp: publish_def\<close>)

lemma set_dict_set_cases: "(k', v') \<in> set (dict_set k v d) \<Longrightarrow> (k', v') = (k, v) \<or> (k', v') \<in> set d"
  by (induction d) (auto split: if_splits)

lemma streams_subscribe:
  assumes inv: "streams_inv (reg, pend)"
  shows "streams_inv (subscribe q reg, pend)"
proof (rule streams_invI)
  fix q' evs k sn
  assume "(q', evs) \<in> set (subscribers (subscribe q reg))" and m: "map_of (latest (subscribe q reg)) k = Some sn"
    and free: "k \<notin> fst ` set pend"
  then consider "evs = all_states reg" | "(q', evs) \<in> set (subscribers reg)"
    by (auto simp: subscribe_def dest: set_dict_set_cases)
  then show "\<exists>ev. last_event k evs = Some ev \<and> \<not> changed (Some ev) sn"
  proof cases
    case 1
    have "last_event k (map snd (latest reg)) = Some sn"
      by (rule last_event_all_states) (use m streams_invD(1,2) [OF inv] in \<open>simp_all add: subscribe_def\<close>)
    with 1 show ?thesis by (simp add: all_states_def)
  qed (use m free streams_invD(4) [OF inv] in \<open>simp add: subscribe_def\<close>)
qed (use streams_invD(1,2,3) [OF inv] in \<open>simp_all add: subscribe_def\<close>)

lemma streams_inv_fewer:
  assumes "streams_inv (reg, pend)" and "latest reg' = latest reg"
    and "set (subscribers reg') \<subseteq> set (subscribers reg)"
  shows "streams_inv (reg', pend)"
  by (rule streams_invI) (use assms streams_invD [OF assms(1)] in \<open>auto simp del: split_paired_All\<close>)

lemma streams_step: "stream_step st st' \<Longrightarrow> streams_inv st \<Longrightarrow> streams_inv st'"
proof (induction rule: stream_step.induct)
  case (quiet_event e reg pend)
  then show ?case
  proof (cases e)
    case (Asked now k)
    have "latest (snd (allow_call now k reg)) = latest reg"
      "subscribers (snd (allow_call now k reg)) = subscribers reg"
      using breaker_for_snd [of k reg] by (auto simp: allow_call_def Let_def case_prod_unfold)
    then show ?thesis using Asked quiet_event.prems by (auto intro: streams_inv_fewer)
  next
    case (Unsubscribed q)
    have "set (AList.delete q (subscribers reg)) \<subseteq> set (subscribers reg)"
      by (auto simp: AList.delete_eq)
    then show ?thesis
      using Unsubscribed streams_inv_fewer [OF quiet_event.prems, of "unsubscribe q reg"] by (simp add: unsubscribe_def)
  next
    case Called
    then show ?thesis using quiet_event.prems by (auto intro: streams_inv_fewer)
  next
    case Subscribed
    then show ?thesis using quiet_event.prems by (simp add: streams_subscribe)
  qed auto
qed (simp_all add: streams_store streams_send)

definition streams_init :: "stream_state \<Rightarrow> bool" where
  "streams_init st \<longleftrightarrow> latest (fst st) = [] \<and> subscribers (fst st) = [] \<and> snd st = []"

interpretation streams: invariant_system streams_init stream_step streams_inv
proof
  show "streams_inv st" if "streams_init st" for st
    using that by (cases st) (auto simp: streams_init_def intro!: streams_invI)
qed (rule streams_step)

text \<open>
  Subscribers converge: however probes, calls, subscriptions and publications
  interleave, as long as the results of one target do not overlap, the last event a
  subscriber was sent for a target none of whose results is on its way shows the state and
  the error context of the registry's latest snapshot of it, although snapshots that change
  neither are not sent.
\<close>

theorem subscribers_converge:
  assumes "latest reg0 = []" and "subscribers reg0 = []"
    and "stream_step\<^sup>*\<^sup>* (reg0, []) (reg, pend)" and "k \<notin> fst ` set pend"
    and "map_of (subscribers reg) q = Some evs" and "map_of (latest reg) k = Some sn"
  shows "\<exists>ev. last_event k evs = Some ev \<and> sn_state ev = sn_state sn \<and>
    set (sn_error_context ev) = set (sn_error_context sn)"
proof -
  have "streams_inv (reg, pend)"
    by (rule streams.reach_inv [OF _ assms(3)]) (simp add: streams_init_def assms)
  from streams_invD(4) [OF this map_of_SomeD [OF assms(5)] assms(6,4)]
  show ?thesis by (auto simp: changed_def dict_eq_def)
qed

definition demo_result :: "instant \<Rightarrow> probe_result" where
  "demo_result t = \<lparr>res_state = REACHABLE, checked_at = t, latency = Some 4000,
     error_category = None, error_context = []\<rparr>"

theorem subscribers_converge_witness:
  "\<exists>ev sn. last_event (''cluster'', 1) [serialize_result (demo_result 1) (''cluster'', 1) None] = Some ev \<and>
     sn = serialize_result (demo_result 9) (''cluster'', 1) None \<and> sn_state ev = sn_state sn"
proof -
  let ?k = "(''cluster'', 1 :: int)" and ?sn = "serialize_result (demo_result 1) (''cluster'', 1) None"
  define r0 where "r0 = registry_step empty_registry (Subscribed 0)"
  define r1 where "r1 = snd (store_probe_result 1 1 ?k (demo_result 1) r0)"
  define r2 where "r2 = publish ?sn r1"
  define r3 where "r3 = snd (store_probe_result 9 9 ?k (demo_result 9) r2)"
  note regs = r0_def r1_def r2_def r3_def
  have due: "fst (store_probe_result 1 1 ?k (demo_result 1) r0) = Some ?sn"
    "fst (store_probe_result 9 9 ?k (demo_result 9) r2) = None"
    unfolding regs by code_simp+
  have "stream_step (empty_registry, []) (r0, [])" unfolding r0_def by (rule quiet_event) simp
  moreover have "stream_step (r0, []) (r1, [(?k, ?sn)])"
    using stream_step.store [of ?k "[]" 1 1 "demo_result 1" r0 "Some ?sn" r1] due(1)
    by (simp add: r1_def prod_eq_iff)
  moreover have "stream_step (r1, [(?k, ?sn)]) (r2, [])"
    using stream_step.send [of ?k ?sn "[(?k, ?sn)]" r1] by (simp add: r2_def)
  moreover have "stream_step (r2, []) (r3, [])"
    using stream_step.store [of ?k "[]" 9 9 "demo_result 9" r2 None r3] due(2)
    by (simp add: r3_def prod_eq_iff)
  ultimately have run: "stream_step\<^sup>*\<^sup>* (empty_registry, []) (r3, [])"
    by (meson converse_rtranclp_into_rtranclp rtranclp.rtrancl_refl)
  have "map_of (subscribers r3) 0 = Some [?sn]" "latest empty_registry = []" "subscribers empty_registry = []"
    "map_of (latest r3) ?k = Some (serialize_result (demo_result 9) ?k None)"
    unfolding regs by code_simp+
  then show ?thesis using subscribers_converge [OF _ _ run, of ?k 0 "[?sn]"] by fastforce
qed

text \<open>
  Two overlapping results of one target, such as a forced probe during a scheduled one, can
  be published in the other order: the subscriber is left with the older state, and later
  results that agree with the registry are not sent.
\<close>

lemma overlapping_results_diverge:
  "let k = (''cluster'', 1);
       down = (demo_result 1)\<lparr>res_state := UNREACHABLE\<rparr>;
       (first, r1) = store_probe_result 1 1 k down (subscribe 0 empty_registry);
       (second, r2) = store_probe_result 2 2 k (demo_result 2) r1;
       r3 = publish (the first) (publish (the second) r2)
   in map_option sn_state (map_of (latest r3) k) = Some REACHABLE \<and>
      map_option sn_state (last_event k (the (map_of (subscribers r3) 0))) = Some UNREACHABLE \<and>
      fst (store_probe_result 3 3 k (demo_result 3) r3) = None"
  by code_simp

section \<open>The wrapped call\<close>

text \<open>
  The wrapper fails fast and observes everything else: a call whose target cannot be
  resolved goes through unobserved; one that the breaker refuses raises
  \<^verbatim>\<open>BreakerOpenError\<close> without running the function; every other call hands the function's
  result or exception on unchanged and records exactly one outcome for its target.
\<close>

theorem with_breaker_observes:
  assumes "allow_call asked (tt, tid) reg = (ok, reg1)" and "fn reg1 = (out, reg2)"
  shows "with_breaker installed tt (Some tid) asked began fin wall fn reg =
     (if \<not> ok then (Inl (build_open_error (tt, tid) reg1), reg1)
      else (case out of
          Inl e \<Rightarrow> (Inl (Propagated e), registry_step reg2
            (Called fin wall (tt, tid) False (Some (categorize_exception installed e)) (fin - began)))
        | Inr x \<Rightarrow> (Inr x, registry_step reg2 (Called fin wall (tt, tid) True None (fin - began))))) \<and>
   snd (with_breaker installed tt None asked began fin wall fn reg) = snd (fn reg) \<and>
   (ok \<longleftrightarrow> fst (can_attempt asked (breaker_at reg (tt, tid))))"
proof -
  have "fst (can_attempt asked (anon b)) = fst (can_attempt asked b)" for b
    by (auto simp: anon_def can_attempt_def Let_def)
  then have "fst (can_attempt asked (breaker_at reg (tt, tid))) =
      fst (can_attempt asked (fst (breaker_for (tt, tid) reg)))"
    by (simp add: breaker_for_fst [symmetric])
  moreover have "fst (allow_call asked (tt, tid) reg) = fst (can_attempt asked (fst (breaker_for (tt, tid) reg)))"
    by (simp add: allow_call_def Let_def case_prod_unfold)
  ultimately have "ok \<longleftrightarrow> fst (can_attempt asked (breaker_at reg (tt, tid)))"
    using assms(1) by simp
  moreover have "snd (with_breaker installed tt None asked began fin wall fn reg) = snd (fn reg)"
    by (simp add: with_breaker_def split: sum.split prod.split)
  ultimately show ?thesis using assms by (cases ok; cases out) (simp_all add: with_breaker_def)
qed

theorem with_breaker_observes_witness:
  "fst (with_breaker [] ''cluster'' (Some 1) 0 0 9 0 (\<lambda>reg. (Inr (42 :: int), reg)) empty_registry) = Inr 42"
proof -
  obtain reg1 where a: "allow_call 0 (''cluster'', 1) empty_registry = (True, reg1)"
    by (simp add: allow_call_def breaker_for_def empty_registry_def default_breaker_def new_breaker_def
        can_attempt_def Let_def)
  show ?thesis
    using with_breaker_observes [OF a, of "\<lambda>reg. (Inr (42 :: int), reg)" "Inr 42" reg1 "[]" 0 9 0] by simp
qed

end
