(* ===== verification/Fleet_Selector.thy ===== *)
theory Fleet_Selector
  imports Entity_Lock
begin

text \<open>
  Fleet targeting: the data of \<^verbatim>\<open>src/backend/models/fleet.py\<close> and
  \<^verbatim>\<open>src/backend/models/fleet_targeting.py\<close>, the label selector and the resolution of a
  target into a decision (\<^verbatim>\<open>src/backend/services/fleet_selector.py\<close>), the label vocabulary
  (\<^verbatim>\<open>fleet_vocabulary.py\<close>) and the ownership gate (\<^verbatim>\<open>fleet_rbac.py\<close>, with
  \<^verbatim>\<open>_check_ownership\<close> of \<^verbatim>\<open>src/backend/routes/auth.py\<close> and \<^verbatim>\<open>effective_role\<close> of
  \<^verbatim>\<open>src/backend/core/auth_context.py\<close>). A missing JSON dictionary or list is the empty one,
  which is how every reader treats it.
\<close>

section \<open>Members, targets, decisions, projects and users\<close>

text \<open>The rows, with the columns that the modelled code reads or writes.\<close>

record fleet_member =
  fm_id :: int
  member_type :: string
  member_id :: int
  fm_name :: string
  fm_project_id :: "int option"
  discovered_labels :: "(string, string) dict"
  assigned_labels :: "(string, string) dict"
  fault_domain :: "string option"
  health_status :: "string option"
  lifecycle_state :: "string option"
  last_reconciled_at :: "instant option"

datatype labels_value = NoLabels | Labels "string list" | LabelsNotAList

datatype selector = SelectorObject labels_value | SelectorNotAnObject

record fleet_target =
  ft_id :: int
  ft_project_id :: "int option"
  ft_selector :: "selector option"
  pinned_member_ids :: "int list"

datatype decision_status = RESOLVED | CONSUMED | SUPERSEDED

record fleet_decision =
  fd_id :: int
  fd_target_id :: int
  fd_project_id :: "int option"
  selector_snapshot :: selector
  resolved_member_ids :: "int list"
  member_count :: nat
  resolved_at :: instant
  resolved_by :: string
  fd_status :: decision_status

record project =
  owner_id :: "int option"
  fleet_default_concurrency :: "int option"
  fleet_default_gate_mode :: "string option"

record user =
  user_id :: int
  role :: string
  request_role :: "string option"

record targeting_db =
  fleet_members :: "fleet_member list"
  decisions :: "fleet_decision list"
  projects :: "(int, project) dict"

datatype fleet_error = ValidationError string string | ForbiddenError

section \<open>Selectors\<close>

definition FORBIDDEN_SELECTOR_KEYS :: "string list" where
  "FORBIDDEN_SELECTOR_KEYS = [''project_id'', ''member_id'', ''member_type'']"

definition combined_labels :: "fleet_member \<Rightarrow> (string, string) dict" where
  "combined_labels m = dict_merge (discovered_labels m) (assigned_labels m)"

fun all_filters_match :: "(string, string) dict \<Rightarrow> string list \<Rightarrow> bool" where
  "all_filters_match combined [] = True"
| "all_filters_match combined (f # fs) =
     (case str_partition CHR ''='' f of
        (key, found, v) \<Rightarrow>
          if \<not> found then all_filters_match combined fs
          else if map_of combined key \<noteq> Some v then False
          else all_filters_match combined fs)"

definition matches_selector :: "fleet_member \<Rightarrow> string list \<Rightarrow> bool" where
  "matches_selector m label_filters =
     (if label_filters = [] then True else all_filters_match (combined_labels m) label_filters)"

fun check_filters :: "string list \<Rightarrow> fleet_error option" where
  "check_filters [] = None"
| "check_filters (f # fs) =
     (case str_partition CHR ''='' f of
        (key, found, v) \<Rightarrow>
          if found \<and> key \<in> set FORBIDDEN_SELECTOR_KEYS
          then Some (ValidationError ''selector'' key) else check_filters fs)"

fun validate_selector :: "selector \<Rightarrow> fleet_error option" where
  "validate_selector SelectorNotAnObject = Some (ValidationError ''selector'' ''not an object'')"
| "validate_selector (SelectorObject NoLabels) = None"
| "validate_selector (SelectorObject LabelsNotAList) = Some (ValidationError ''selector.labels'' ''not a list'')"
| "validate_selector (SelectorObject (Labels fs)) = check_filters fs"

text \<open>\<^verbatim>\<open>target.selector or {}\<close> and \<^verbatim>\<open>selector.get("labels") or []\<close>.\<close>

definition selector_of :: "fleet_target \<Rightarrow> selector" where
  "selector_of t = (case ft_selector t of None \<Rightarrow> SelectorObject NoLabels | Some s \<Rightarrow> s)"

fun label_filters_of :: "selector \<Rightarrow> string list" where
  "label_filters_of (SelectorObject (Labels fs)) = fs"
| "label_filters_of s = []"

section \<open>Ownership\<close>

definition effective_role :: "user \<Rightarrow> string" where
  "effective_role u =
     (case request_role u of None \<Rightarrow> role u | Some r \<Rightarrow> if r = '''' then role u else r)"

definition get_owned_project_ids :: "(int, project) dict \<Rightarrow> user \<Rightarrow> int list option" where
  "get_owned_project_ids ps u =
     (if effective_role u = ''admin'' then None
      else Some (map fst (filter (\<lambda>(i, p). owner_id p = Some (user_id u)) ps)))"

definition check_ownership :: "user \<Rightarrow> project \<Rightarrow> bool" where
  "check_ownership u p =
     (if effective_role u = ''admin'' then True
      else if owner_id p = None then True
      else owner_id p = Some (user_id u))"

fun require_mutation_loop ::
  "(int, project) dict \<Rightarrow> user \<Rightarrow> int list \<Rightarrow> int option list \<Rightarrow> fleet_error option" where
  "require_mutation_loop ps u seen [] = None"
| "require_mutation_loop ps u seen (None # pids) = require_mutation_loop ps u seen pids"
| "require_mutation_loop ps u seen (Some pid # pids) =
     (if pid \<in> set seen then require_mutation_loop ps u seen pids
      else (case map_of ps pid of
          None \<Rightarrow> require_mutation_loop ps u (pid # seen) pids
        | Some p \<Rightarrow> if check_ownership u p then require_mutation_loop ps u (pid # seen) pids
                    else Some ForbiddenError))"

definition require_fleet_mutation :: "(int, project) dict \<Rightarrow> user \<Rightarrow> int option list \<Rightarrow> fleet_error option" where
  "require_fleet_mutation ps u pids = require_mutation_loop ps u [] pids"

text \<open>The values the projects state, each distinct project asked once, as the sets are filled.\<close>

fun stated_values :: "(int, project) dict \<Rightarrow> (project \<Rightarrow> 'a option) \<Rightarrow> int list \<Rightarrow> int option list \<Rightarrow> 'a list" where
  "stated_values ps get seen [] = []"
| "stated_values ps get seen (None # pids) = stated_values ps get seen pids"
| "stated_values ps get seen (Some pid # pids) =
     (if pid \<in> set seen then stated_values ps get seen pids
      else (case Option.bind (map_of ps pid) get of
          None \<Rightarrow> stated_values ps get (pid # seen) pids
        | Some v \<Rightarrow> List.insert v (stated_values ps get (pid # seen) pids)))"

definition SYSTEM_CONCURRENCY :: int where "SYSTEM_CONCURRENCY = 5"
definition GATE_MODE_MANUAL :: string where "GATE_MODE_MANUAL = ''manual''"

definition unique_or :: "'a list \<Rightarrow> 'a \<Rightarrow> 'a" where
  "unique_or xs d = (case xs of [x] \<Rightarrow> x | _ \<Rightarrow> d)"

definition resolve_rollout_defaults :: "(int, project) dict \<Rightarrow> int option list \<Rightarrow> int \<times> string" where
  "resolve_rollout_defaults ps pids =
     (unique_or (stated_values ps fleet_default_concurrency [] pids) SYSTEM_CONCURRENCY,
      unique_or (stated_values ps fleet_default_gate_mode [] pids) GATE_MODE_MANUAL)"

section \<open>The label vocabulary\<close>

definition ASSIGNED_LABEL_KEYS :: "string list" where
  "ASSIGNED_LABEL_KEYS = [''env'', ''team'', ''criticality'', ''owner'', ''fault-domain'']"

definition DISCOVERED_LABEL_KEYS :: "string list" where
  "DISCOVERED_LABEL_KEYS = [''name'', ''vendor'', ''region'', ''k8s-version'', ''platform-profile'',
     ''platform-provider'', ''has-dpu'', ''status'', ''os'', ''os-version'', ''arch'', ''nic-mode'',
     ''bmc-vendor'', ''topology'', ''access-mode'', ''flash-status'', ''serial'', ''reachable'']"

definition KNOWN_MEMBER_TYPES :: "string list" where
  "KNOWN_MEMBER_TYPES = [''cluster'', ''bare-metal-host'', ''dpu'']"

definition validate_assigned_labels :: "(string, string) dict \<Rightarrow> fleet_error option" where
  "validate_assigned_labels labels =
     (if list_ex (\<lambda>k. k \<notin> set ASSIGNED_LABEL_KEYS) (map fst labels)
      then Some (ValidationError ''labels'' ''unknown key'')
      else if list_ex (\<lambda>k. k \<in> set DISCOVERED_LABEL_KEYS) (map fst labels)
      then Some (ValidationError ''labels'' ''discovered namespace'')
      else None)"

definition validate_member_type :: "string \<Rightarrow> fleet_error option" where
  "validate_member_type t =
     (if t \<notin> set KNOWN_MEMBER_TYPES then Some (ValidationError ''member_type'' t) else None)"

section \<open>Resolving a target\<close>

definition scoped_members :: "targeting_db \<Rightarrow> user \<Rightarrow> fleet_member list" where
  "scoped_members db u =
     (case get_owned_project_ids (projects db) u of
        None \<Rightarrow> fleet_members db
      | Some owned \<Rightarrow> filter (\<lambda>m. \<exists>p \<in> set owned. fm_project_id m = Some p) (fleet_members db))"

text \<open>The pinned members that were not matched, in the order they are pinned.\<close>

fun merge_pinned :: "fleet_member list \<Rightarrow> fleet_member list \<Rightarrow> int list \<Rightarrow> fleet_member list" where
  "merge_pinned all matched [] = matched"
| "merge_pinned all matched (pid # pids) =
     (if pid \<in> fm_id ` set matched then merge_pinned all matched pids
      else (case find (\<lambda>m. fm_id m = pid) all of
          None \<Rightarrow> merge_pinned all matched pids
        | Some extra \<Rightarrow> merge_pinned all (matched @ [extra]) pids))"

definition target_member_ids :: "targeting_db \<Rightarrow> fleet_target \<Rightarrow> user \<Rightarrow> int list" where
  "target_member_ids db t u =
     (let label_filters = label_filters_of (selector_of t); pinned = pinned_member_ids t
      in if label_filters = [] \<and> pinned = [] then []
         else let matched = (if label_filters = [] then []
                             else filter (\<lambda>m. matches_selector m label_filters) (scoped_members db u))
              in map fm_id (merge_pinned (fleet_members db) matched pinned))"

definition supersede_prior :: "int \<Rightarrow> fleet_decision list \<Rightarrow> fleet_decision list" where
  "supersede_prior tid ds =
     map (\<lambda>d. if fd_target_id d = tid \<and> fd_status d = RESOLVED then d\<lparr>fd_status := SUPERSEDED\<rparr> else d) ds"

text \<open>The decision row; its primary key \<open>new_id\<close> is the one the database assigns.\<close>

definition decision_from_member_ids ::
  "int \<Rightarrow> instant \<Rightarrow> targeting_db \<Rightarrow> fleet_target \<Rightarrow> int list \<Rightarrow> string \<Rightarrow> fleet_decision \<times> targeting_db" where
  "decision_from_member_ids new_id now db t ids by_user =
     (let d = \<lparr>fd_id = new_id, fd_target_id = ft_id t, fd_project_id = ft_project_id t,
               selector_snapshot = selector_of t, resolved_member_ids = ids,
               member_count = length ids, resolved_at = now, resolved_by = by_user,
               fd_status = RESOLVED\<rparr>
      in (d, db\<lparr>decisions := supersede_prior (ft_id t) (decisions db) @ [d]\<rparr>))"

definition resolve_target ::
  "int \<Rightarrow> instant \<Rightarrow> targeting_db \<Rightarrow> fleet_target \<Rightarrow> string \<Rightarrow> user \<Rightarrow>
     fleet_error + fleet_decision \<times> targeting_db" where
  "resolve_target new_id now db t by_user u =
     (case validate_selector (selector_of t) of
        Some e \<Rightarrow> Inl e
      | None \<Rightarrow> Inr (let ids = target_member_ids db t u;
              d = \<lparr>fd_id = new_id, fd_target_id = ft_id t, fd_project_id = ft_project_id t,
                   selector_snapshot = selector_of t, resolved_member_ids = ids,
                   member_count = length ids, resolved_at = now, resolved_by = by_user,
                   fd_status = RESOLVED\<rparr>
          in (d, db\<lparr>decisions := supersede_prior (ft_id t) (decisions db) @ [d]\<rparr>)))"

section \<open>What a selector selects\<close>

definition filter_holds :: "(string, string) dict \<Rightarrow> string \<Rightarrow> bool" where
  "filter_holds labels f \<longleftrightarrow> (\<forall>key v. f = key @ ''='' @ v \<and> CHR ''='' \<notin> set key \<longrightarrow> map_of labels key = Some v)"

lemma filter_holds_partition:
  "filter_holds labels f \<longleftrightarrow> (case str_partition CHR ''='' f of (key, found, v) \<Rightarrow> found \<longrightarrow> map_of labels key = Some v)"
proof (cases "CHR ''='' \<in> set f")
  case True
  then obtain a b where p: "str_partition CHR ''='' f = (a, True, b)"
    by (metis prod.collapse str_partition_found)
  have ab: "f = a @ ''='' @ b" "CHR ''='' \<notin> set a" using str_partition_join [OF p] by simp_all
  have unique: "key = a \<and> v = b" if "f = key @ ''='' @ v" "CHR ''='' \<notin> set key" for key v
    using str_partition_append [OF that(2), of v] p that(1) by simp
  have "filter_holds labels f \<longleftrightarrow> map_of labels a = Some b"
    unfolding filter_holds_def using unique ab by metis
  then show ?thesis by (simp add: p)
next
  case False
  then show ?thesis by (auto simp: filter_holds_def str_partition_notin)
qed

lemma all_filters_match_iff: "all_filters_match labels fs \<longleftrightarrow> (\<forall>f \<in> set fs. filter_holds labels f)"
  by (induction fs) (auto simp: filter_holds_partition split: prod.splits)

lemma matches_selector_iff:
  "matches_selector m fs \<longleftrightarrow> (\<forall>f \<in> set fs. filter_holds (combined_labels m) f)"
  by (simp add: matches_selector_def all_filters_match_iff)

definition in_scope :: "targeting_db \<Rightarrow> user \<Rightarrow> fleet_member \<Rightarrow> bool" where
  "in_scope db u m \<longleftrightarrow> effective_role u = ''admin'' \<or>
     (\<exists>pid p. (pid, p) \<in> set (projects db) \<and> owner_id p = Some (user_id u) \<and> fm_project_id m = Some pid)"

lemma scoped_members_set: "set (scoped_members db u) = {m \<in> set (fleet_members db). in_scope db u m}"
  by (auto simp: scoped_members_def get_owned_project_ids_def in_scope_def)

lemma merge_pinned_set:
  assumes "set matched \<subseteq> set all" and "distinct (map fm_id all)"
  shows "set (merge_pinned all matched pids) = set matched \<union> {m \<in> set all. fm_id m \<in> set pids}"
  using assms
proof (induction all matched pids rule: merge_pinned.induct)
  case (2 all matched pid pids)
  have inj: "inj_on fm_id (set all)" using "2.prems"(2) by (simp add: distinct_map)
  show ?case
  proof (cases "pid \<in> fm_id ` set matched")
    case True
    then show ?thesis using 2 inj by (auto simp: inj_on_def)
  next
    case False
    show ?thesis
    proof (cases "find (\<lambda>m. fm_id m = pid) all")
      case None
      then have "\<forall>m \<in> set all. fm_id m \<noteq> pid" by (simp add: find_None_iff)
      then show ?thesis using "2.IH"(2) [OF False None] "2.prems" False None by auto
    next
      case (Some extra)
      then have "extra \<in> set all" "fm_id extra = pid" by (auto dest: find_SomeD)
      moreover have "set (merge_pinned all (matched @ [extra]) pids) =
          set (matched @ [extra]) \<union> {m \<in> set all. fm_id m \<in> set pids}"
        by (rule "2.IH"(3) [OF False Some]) (use 2 calculation in auto)
      ultimately show ?thesis using False Some inj by (auto simp: inj_on_def)
    qed
  qed
qed auto

lemma merge_pinned_distinct:
  "distinct (map fm_id matched) \<Longrightarrow> distinct (map fm_id (merge_pinned all matched pids))"
proof (induction all matched pids rule: merge_pinned.induct)
  case (2 all matched pid pids)
  then show ?case by (auto split: option.splits dest: find_SomeD)
qed auto

lemma scoped_members_distinct:
  "distinct (map fm_id (fleet_members db)) \<Longrightarrow> distinct (map fm_id (scoped_members db u))"
  by (simp add: scoped_members_def distinct_map_filter split: option.splits)

lemma target_member_ids_iff:
  assumes "distinct (map fm_id (fleet_members db))"
  shows "i \<in> set (target_member_ids db t u) \<longleftrightarrow>
    (\<exists>m \<in> set (fleet_members db). fm_id m = i \<and>
      (i \<in> set (pinned_member_ids t) \<or> (label_filters_of (selector_of t) \<noteq> [] \<and> in_scope db u m \<and>
         matches_selector m (label_filters_of (selector_of t)))))"
proof -
  let ?fs = "label_filters_of (selector_of t)"
  let ?matched = "if ?fs = [] then [] else filter (\<lambda>m. matches_selector m ?fs) (scoped_members db u)"
  have "set ?matched \<subseteq> set (fleet_members db)" by (auto simp: scoped_members_set)
  from merge_pinned_set [OF this assms] show ?thesis
    by (auto simp: target_member_ids_def Let_def scoped_members_set image_iff)
qed

lemma target_member_ids_distinct:
  assumes "distinct (map fm_id (fleet_members db))"
  shows "distinct (target_member_ids db t u)"
  using scoped_members_distinct [OF assms]
  by (simp add: target_member_ids_def Let_def merge_pinned_distinct distinct_map_filter)

text \<open>
  What a target resolves to: the decision lists, without repetition, exactly the
  members that are pinned, and, when the selector has filters, those in the caller's scope
  whose labels (assigned over discovered) satisfy every \<^verbatim>\<open>key=value\<close> filter. Pinned members
  are taken whoever owns them.
\<close>

theorem resolve_target_members:
  assumes "resolve_target new_id now db t by_user u = Inr (d, db')"
    and "distinct (map fm_id (fleet_members db))"
  shows "distinct (resolved_member_ids d) \<and> member_count d = length (resolved_member_ids d) \<and>
    (i \<in> set (resolved_member_ids d) \<longleftrightarrow>
      (\<exists>m \<in> set (fleet_members db). fm_id m = i \<and>
        (i \<in> set (pinned_member_ids t) \<or>
         (label_filters_of (selector_of t) \<noteq> [] \<and> in_scope db u m \<and>
          (\<forall>f \<in> set (label_filters_of (selector_of t)). filter_holds (combined_labels m) f)))))"
proof -
  have "resolved_member_ids d = target_member_ids db t u" "member_count d = length (target_member_ids db t u)"
    using assms(1) by (auto simp: resolve_target_def Let_def split: option.splits)
  then show ?thesis
    using target_member_ids_iff [OF assms(2)] target_member_ids_distinct [OF assms(2)]
    by (simp add: matches_selector_iff)
qed

definition demo_member :: "int \<Rightarrow> int \<Rightarrow> fleet_member" where
  "demo_member i p = \<lparr>fm_id = i, member_type = ''cluster'', member_id = i, fm_name = ''c'', fm_project_id = Some p,
     discovered_labels = [(''env'', ''dev'')], assigned_labels = [(''env'', ''prod'')],
     fault_domain = None, health_status = None, lifecycle_state = None, last_reconciled_at = Some 0\<rparr>"

definition demo_fleet :: targeting_db where
  "demo_fleet = \<lparr>fleet_members = [demo_member 1 10, demo_member 2 20], decisions = [],
     projects = [(10, \<lparr>owner_id = Some 7, fleet_default_concurrency = None, fleet_default_gate_mode = None\<rparr>),
                 (20, \<lparr>owner_id = Some 8, fleet_default_concurrency = None, fleet_default_gate_mode = None\<rparr>)]\<rparr>"

definition demo_target :: fleet_target where
  "demo_target = \<lparr>ft_id = 3, ft_project_id = Some 10,
     ft_selector = Some (SelectorObject (Labels [''env=prod''])), pinned_member_ids = [2]\<rparr>"

definition demo_user :: user where
  "demo_user = \<lparr>user_id = 7, role = ''operator'', request_role = None\<rparr>"

theorem resolve_target_members_witness:
  "\<exists>d db'. resolve_target 1 0 demo_fleet demo_target ''op'' demo_user = Inr (d, db') \<and>
     2 \<in> set (resolved_member_ids d) \<and> \<not> in_scope demo_fleet demo_user (demo_member 2 20)"
proof -
  obtain d db' where ok: "resolve_target 1 0 demo_fleet demo_target ''op'' demo_user = Inr (d, db')"
    by (simp add: resolve_target_def demo_target_def selector_of_def FORBIDDEN_SELECTOR_KEYS_def Let_def)
  have "distinct (map fm_id (fleet_members demo_fleet))" by (simp add: demo_fleet_def demo_member_def)
  from resolve_target_members [OF ok this, of 2] have "2 \<in> set (resolved_member_ids d)"
    by (simp add: demo_fleet_def demo_member_def demo_target_def)
  moreover have "\<not> in_scope demo_fleet demo_user (demo_member 2 20)"
    by (simp add: in_scope_def demo_fleet_def demo_user_def demo_member_def effective_role_def)
  ultimately show ?thesis using ok by blast
qed

section \<open>Decisions\<close>

definition active :: "int \<Rightarrow> fleet_decision \<Rightarrow> bool" where
  "active tid d \<longleftrightarrow> fd_target_id d = tid \<and> fd_status d = RESOLVED"

lemma supersede_prior_active [simp]: "filter (active tid) (supersede_prior tid ds) = []"
  by (induction ds) (auto simp: supersede_prior_def active_def)

lemma supersede_prior_other: "tid' \<noteq> tid \<Longrightarrow> filter (active tid') (supersede_prior tid ds) = filter (active tid') ds"
  by (induction ds) (auto simp: supersede_prior_def active_def)

text \<open>The two operations that create a decision record it the same way.\<close>

definition records_decision :: "targeting_db \<Rightarrow> fleet_decision \<Rightarrow> targeting_db \<Rightarrow> bool" where
  "records_decision db d db' \<longleftrightarrow>
     db' = db\<lparr>decisions := supersede_prior (fd_target_id d) (decisions db) @ [d]\<rparr> \<and> fd_status d = RESOLVED"

lemma resolve_target_records:
  "resolve_target new_id now db t by_user u = Inr (d, db') \<Longrightarrow> records_decision db d db' \<and> fd_target_id d = ft_id t"
  by (auto simp: resolve_target_def records_decision_def Let_def split: option.splits)

lemma decision_from_member_ids_records:
  "decision_from_member_ids new_id now db t ids by_user = (d, db') \<Longrightarrow> records_decision db d db' \<and> fd_target_id d = ft_id t"
  by (auto simp: decision_from_member_ids_def records_decision_def Let_def)

text \<open>
  Decisions are single and immutable: whichever way a decision for a target is made,
  it is afterwards the only resolved decision of that target, the active decisions of every
  other target are what they were, and no earlier decision changes in anything but its
  status, which goes from resolved to superseded or not at all.
\<close>

theorem one_active_decision:
  assumes "resolve_target new_id now db t by_user u = Inr (d, db') \<or>
           decision_from_member_ids new_id now db t ids by_user = (d, db')"
  shows "filter (active (ft_id t)) (decisions db') = [d] \<and>
    (tid \<noteq> ft_id t \<longrightarrow> filter (active tid) (decisions db') = filter (active tid) (decisions db)) \<and>
    (\<forall>k < length (decisions db). \<exists>s. decisions db' ! k = (decisions db ! k)\<lparr>fd_status := s\<rparr> \<and>
       (s = fd_status (decisions db ! k) \<or> (fd_status (decisions db ! k) = RESOLVED \<and> s = SUPERSEDED)))"
proof -
  have d: "records_decision db d db'" "fd_target_id d = ft_id t"
    using assms resolve_target_records decision_from_member_ids_records by blast+
  then have ds: "decisions db' = supersede_prior (ft_id t) (decisions db) @ [d]" "fd_status d = RESOLVED"
    by (simp_all add: records_decision_def)
  have "\<exists>s. decisions db' ! k = (decisions db ! k)\<lparr>fd_status := s\<rparr> \<and>
       (s = fd_status (decisions db ! k) \<or> (fd_status (decisions db ! k) = RESOLVED \<and> s = SUPERSEDED))"
    if "k < length (decisions db)" for k
  proof (cases "active (ft_id t) (decisions db ! k)")
    case True
    then show ?thesis using that by (intro exI [of _ SUPERSEDED]) (auto simp: ds nth_append supersede_prior_def active_def)
  next
    case False
    then show ?thesis
      using that by (intro exI [of _ "fd_status (decisions db ! k)"])
        (auto simp: ds nth_append supersede_prior_def active_def)
  qed
  then show ?thesis using d ds by (auto simp: supersede_prior_other active_def)
qed

theorem one_active_decision_witness:
  "\<exists>d db' d2 db2. decision_from_member_ids 1 0 demo_fleet demo_target [1] ''op'' = (d, db') \<and>
     decision_from_member_ids 2 5 db' demo_target [2] ''op'' = (d2, db2) \<and>
     filter (active 3) (decisions db2) = [d2] \<and> length (decisions db2) = 2"
proof -
  obtain d db' where 1: "decision_from_member_ids 1 0 demo_fleet demo_target [1] ''op'' = (d, db')" by fastforce
  obtain d2 db2 where 2: "decision_from_member_ids 2 5 db' demo_target [2] ''op'' = (d2, db2)" by fastforce
  have "filter (active 3) (decisions db2) = [d2]"
    using one_active_decision [OF disjI2 [OF 2]] by (simp add: demo_target_def)
  moreover have "length (decisions db2) = 2"
    using 1 2 by (auto simp: decision_from_member_ids_def Let_def supersede_prior_def demo_fleet_def)
  ultimately show ?thesis using 1 2 by blast
qed

section \<open>The ownership gate\<close>

lemma require_mutation_loop_iff:
  "require_mutation_loop ps u seen pids = None \<longleftrightarrow>
     (\<forall>pid p. Some pid \<in> set pids \<and> pid \<notin> set seen \<and> map_of ps pid = Some p \<longrightarrow> check_ownership u p)"
proof (induction ps u seen pids rule: require_mutation_loop.induct)
  case (3 ps u seen pid pids)
  then show ?case
    by (cases "map_of ps pid"; cases "pid \<in> set seen") (simp_all, (metis option.inject option.distinct(1))+)
qed auto

lemma require_mutation_loop_error: "require_mutation_loop ps u seen pids \<in> {None, Some ForbiddenError}"
  by (induction ps u seen pids rule: require_mutation_loop.induct) (auto split: option.splits)

text \<open>
  The gate is exactly ownership of the blast radius: a mutation over a list of projects
  is allowed if and only if the caller is an admin or owns every listed project that exists
  and has an owner; otherwise the only outcome is \<^verbatim>\<open>ForbiddenError\<close>.
\<close>

theorem require_fleet_mutation_iff:
  "require_fleet_mutation ps u pids =
     (if effective_role u = ''admin'' \<or>
         (\<forall>pid p. Some pid \<in> set pids \<and> map_of ps pid = Some p \<longrightarrow> owner_id p \<in> {None, Some (user_id u)})
      then None else Some ForbiddenError)"
proof -
  have "require_fleet_mutation ps u pids = None \<longleftrightarrow>
      (\<forall>pid p. Some pid \<in> set pids \<and> map_of ps pid = Some p \<longrightarrow> check_ownership u p)"
    by (simp add: require_fleet_mutation_def require_mutation_loop_iff)
  moreover have "check_ownership u p \<longleftrightarrow> effective_role u = ''admin'' \<or> owner_id p \<in> {None, Some (user_id u)}" for p
    by (auto simp: check_ownership_def)
  ultimately have "require_fleet_mutation ps u pids = None \<longleftrightarrow> effective_role u = ''admin'' \<or>
      (\<forall>pid p. Some pid \<in> set pids \<and> map_of ps pid = Some p \<longrightarrow> owner_id p \<in> {None, Some (user_id u)})"
    by meson
  moreover have "require_fleet_mutation ps u pids \<in> {None, Some ForbiddenError}"
    unfolding require_fleet_mutation_def by (rule require_mutation_loop_error)
  ultimately show ?thesis by (simp only: insert_iff empty_iff split: if_split) blast
qed

theorem require_fleet_mutation_iff_witness:
  "require_fleet_mutation (projects demo_fleet) demo_user [None, Some 10] = None \<and>
   require_fleet_mutation (projects demo_fleet) demo_user [Some 10, Some 20] = Some ForbiddenError"
  unfolding require_fleet_mutation_iff by (auto simp: demo_fleet_def demo_user_def effective_role_def)

end
