(* ===== verification/Fleet_Bulkop.thy ===== *)
theory Fleet_Bulkop
  imports Fleet_Selector "HOL-Library.Multiset"
begin

text \<open>
  The gated executor of bulk operations, \<^verbatim>\<open>src/backend/services/fleet_bulkop_service.py\<close>,
  with the tasks that start and resume it (\<^verbatim>\<open>src/backend/tasks/fleet_tasks.py\<close>) and the
  routes that resume and cancel a run (\<^verbatim>\<open>src/backend/routes/fleet.py\<close>).

  The members of a wave finish in an order the thread pool chooses, and other sessions may
  cancel the run at any moment; both are fields of the environment of an execution. The
  per-type reconciliation of a member is a parameter.
\<close>

section \<open>Runs, results and strategies\<close>

datatype run_status = RunPending | RunRunning | RunPausedGate | RunCompleted | RunFailed | RunCancelled

datatype result_status = ResultPending | ResultRunning | ResultSucceeded | ResultFailed | ResultSkipped

datatype result_detail =
    MemberNotFound int
  | TargetRowMissing
  | ReconcileCompleted
  | ReconcileFailed string
  | LabelsSet "(string, string) dict"
  | SetLabelsFailed fleet_error
  | UnknownAction string
  | UnexpectedError string

datatype run_error =
    DecisionNotFound int
  | ActionNotAllowed string
  | DecisionNotResolved decision_status
  | DecisionStale
  | MembersMissing "int list"

record bulk_run =
  br_decision_id :: int
  br_project_id :: "int option"
  br_action :: string
  action_labels :: "(string, string) dict"
  wave_by :: string
  concurrency :: int
  gate_mode :: string
  strategy_id :: "int option"
  br_status :: run_status
  current_wave_index :: nat
  total_waves :: "nat option"
  error_message :: "run_error option"
  started_at :: "instant option"
  completed_at :: "instant option"
  gate_resumes_at :: "instant option"

record run_result =
  rr_run_id :: int
  rr_member_id :: int
  rr_wave_index :: nat
  rr_fault_domain :: "string option"
  rr_status :: result_status
  rr_detail :: "result_detail option"
  rr_started_at :: "instant option"
  rr_completed_at :: "instant option"

record strategy =
  max_concurrency_pct :: int
  gate_wait_seconds :: "int option"

record bulk_db =
  targeting :: targeting_db
  runs :: "(int, bulk_run) dict"
  results :: "run_result list"
  strategies :: "(int, strategy) dict"
  countdowns :: "(int \<times> int) list"

definition SAFE_ACTIONS :: "string list" where
  "SAFE_ACTIONS = [''re-reconcile'', ''set-labels'']"

definition STABLE_HEALTH_STATUSES :: "string list" where
  "STABLE_HEALTH_STATUSES = [''healthy'', ''active'', ''ready'', ''os_online'']"

definition TERMINAL_STATUSES :: "run_status list" where
  "TERMINAL_STATUSES = [RunCompleted, RunFailed, RunCancelled]"

definition DECISION_TTL_SECONDS :: int where "DECISION_TTL_SECONDS = 900"
definition DEFAULT_TIMED_WAIT_SECONDS :: int where "DEFAULT_TIMED_WAIT_SECONDS = 300"

section \<open>Freshness\<close>

definition member_by_id :: "targeting_db \<Rightarrow> int \<Rightarrow> fleet_member option" where
  "member_by_id db i = find (\<lambda>m. fm_id m = i) (fleet_members db)"

definition assert_decision_fresh ::
  "instant \<Rightarrow> targeting_db \<Rightarrow> fleet_decision \<Rightarrow> run_error + fleet_member list" where
  "assert_decision_fresh now db d =
     (if fd_status d \<noteq> RESOLVED then Inl (DecisionNotResolved (fd_status d))
      else if seconds DECISION_TTL_SECONDS < now - resolved_at d then Inl DecisionStale
      else let ids = resolved_member_ids d;
               missing = filter (\<lambda>i. member_by_id db i = None) ids
           in if ids = [] then Inr []
              else if missing \<noteq> [] then Inl (MembersMissing missing)
              else Inr (List.map_filter (member_by_id db) ids))"

section \<open>Waves\<close>

type_synonym wave = "string \<times> fleet_member list"

text \<open>\<^verbatim>\<open>buckets.setdefault(v, []).append(m)\<close>.\<close>

definition bucket_add :: "string \<Rightarrow> fleet_member \<Rightarrow> (string, fleet_member list) dict \<Rightarrow> (string, fleet_member list) dict" where
  "bucket_add v m bs = dict_set v (dict_get_or bs v [] @ [m]) bs"

fun bucket_loop ::
  "(fleet_member \<Rightarrow> string) \<Rightarrow> fleet_member list \<Rightarrow> (string, fleet_member list) dict \<Rightarrow> fleet_member list \<Rightarrow>
     (string, fleet_member list) dict \<times> fleet_member list" where
  "bucket_loop key [] bs none = (bs, none)"
| "bucket_loop key (m # ms) bs none =
     (if key m \<noteq> [] then bucket_loop key ms (bucket_add (key m) m bs) none
      else bucket_loop key ms bs (none @ [m]))"

definition wave_key :: "string \<Rightarrow> fleet_member \<Rightarrow> string" where
  "wave_key by m =
     (if take 6 by = ''label:''
      then str_strip (dict_get_or (combined_labels m) (drop 6 by) '''')
      else str_strip (case fault_domain m of None \<Rightarrow> '''' | Some fd \<Rightarrow> fd))"

definition group_members_into_waves :: "fleet_member list \<Rightarrow> string \<Rightarrow> wave list" where
  "group_members_into_waves ms by =
     (let (bs, none) = bucket_loop (wave_key by) ms [] []
      in sort_key fst bs @ (if none = [] then [] else [(''(none)'', none)]))"

definition resolve_wave_concurrency :: "nat \<Rightarrow> int option \<Rightarrow> int \<Rightarrow> int" where
  "resolve_wave_concurrency n pct fallback =
     (case pct of
        Some p \<Rightarrow> if 1 \<le> p \<and> p \<le> 100 then max 1 ((int n * p + 99) div 100) else max 1 fallback
      | None \<Rightarrow> max 1 fallback)"

section \<open>One member\<close>

text \<open>\<open>reconcile\<close> answers whether the target row exists, with the new tables, or raises.\<close>

type_synonym reconciler = "targeting_db \<Rightarrow> string \<Rightarrow> int \<Rightarrow> string + bool \<times> targeting_db"

definition set_assigned_labels :: "int \<Rightarrow> (string, string) dict \<Rightarrow> targeting_db \<Rightarrow> targeting_db" where
  "set_assigned_labels i labels db =
     db\<lparr>fleet_members := map (\<lambda>m. if fm_id m = i then m\<lparr>assigned_labels := labels\<rparr> else m) (fleet_members db)\<rparr>"

definition dispatch_action_for_member ::
  "reconciler \<Rightarrow> targeting_db \<Rightarrow> int \<Rightarrow> string \<Rightarrow> (string, string) dict \<Rightarrow>
     result_status \<times> result_detail \<times> targeting_db" where
  "dispatch_action_for_member reconcile db i action labels =
     (case member_by_id db i of
        None \<Rightarrow> (ResultSkipped, MemberNotFound i, db)
      | Some m \<Rightarrow>
          if action = ''re-reconcile''
          then (case reconcile db (member_type m) (member_id m) of
               Inl msg \<Rightarrow> (ResultFailed, ReconcileFailed msg, db)
             | Inr (found, db') \<Rightarrow> if found then (ResultSucceeded, ReconcileCompleted, db')
                                   else (ResultSkipped, TargetRowMissing, db'))
          else if action = ''set-labels''
          then (case validate_assigned_labels labels of
               Some e \<Rightarrow> (ResultFailed, SetLabelsFailed e, db)
             | None \<Rightarrow> (ResultSucceeded, LabelsSet labels, set_assigned_labels i labels db))
          else (ResultFailed, UnknownAction action, db))"

section \<open>Gates\<close>

definition wave_gate_passes :: "targeting_db \<Rightarrow> int list \<Rightarrow> string \<Rightarrow> bool" where
  "wave_gate_passes db ids mode =
     (if mode \<in> {''manual'', ''approval''} then False
      else if mode = ''health_stable''
      then list_all (\<lambda>m. let hs = str_lower (str_strip (case health_status m of None \<Rightarrow> '''' | Some h \<Rightarrow> h))
                         in hs = '''' \<or> hs \<in> set STABLE_HEALTH_STATUSES)
             (filter (\<lambda>m. fm_id m \<in> set ids) (fleet_members db))
      else False)"

definition get_gate_wait_seconds :: "bulk_db \<Rightarrow> bulk_run \<Rightarrow> int" where
  "get_gate_wait_seconds db run =
     (case Option.bind (Option.bind (strategy_id run) (map_of (strategies db))) gate_wait_seconds of
        Some w \<Rightarrow> if 0 < w then w else DEFAULT_TIMED_WAIT_SECONDS
      | None \<Rightarrow> DEFAULT_TIMED_WAIT_SECONDS)"

section \<open>Cancelling\<close>

text \<open>A write of the session: the columns of one run.\<close>

definition set_run :: "int \<Rightarrow> (bulk_run \<Rightarrow> bulk_run) \<Rightarrow> bulk_db \<Rightarrow> bulk_db" where
  "set_run rid f db = (case map_of (runs db) rid of
     None \<Rightarrow> db | Some r \<Rightarrow> db\<lparr>runs := dict_set rid (f r) (runs db)\<rparr>)"

datatype route_error = NotFound | Conflict | BadRequest | Forbidden

definition cancel_fleet_bulk_op :: "instant \<Rightarrow> user \<Rightarrow> int \<Rightarrow> bulk_db \<Rightarrow> route_error + bulk_db" where
  "cancel_fleet_bulk_op now u rid db =
     (case map_of (runs db) rid of
        None \<Rightarrow> Inl NotFound
      | Some run \<Rightarrow>
          if require_fleet_mutation (projects (targeting db)) u [br_project_id run] \<noteq> None then Inl Forbidden
          else if br_status run \<in> set TERMINAL_STATUSES then Inl Conflict
          else if br_status run \<notin> {RunPending, RunRunning, RunPausedGate} then Inl BadRequest
          else Inr (set_run rid (\<lambda>r. r\<lparr>br_status := RunCancelled, completed_at := Some now\<rparr>) db))"

text \<open>The environment of an execution.\<close>

datatype request = NoRequest | CancelRequest instant user

record bulk_env =
  reconciler :: reconciler
  crash :: "int \<Rightarrow> string option"
  finish_order :: "int list \<Rightarrow> int list"
  clock :: "nat \<Rightarrow> instant"
  before_wave :: "nat \<Rightarrow> request"
  during_wave :: "nat \<Rightarrow> request"

fun serve :: "int \<Rightarrow> request \<Rightarrow> bulk_db \<Rightarrow> bulk_db" where
  "serve rid NoRequest db = db"
| "serve rid (CancelRequest now u) db =
     (case cancel_fleet_bulk_op now u rid db of Inl e \<Rightarrow> db | Inr db' \<Rightarrow> db')"

section \<open>One wave\<close>

record totals =
  succeeded :: nat
  failed :: nat
  skipped :: nat

fun count_result :: "result_status \<Rightarrow> totals \<Rightarrow> totals" where
  "count_result ResultSucceeded t = t\<lparr>succeeded := Suc (succeeded t)\<rparr>"
| "count_result ResultFailed t = t\<lparr>failed := Suc (failed t)\<rparr>"
| "count_result _ t = t\<lparr>skipped := Suc (skipped t)\<rparr>"

definition has_row :: "int \<Rightarrow> int \<Rightarrow> run_result list \<Rightarrow> bool" where
  "has_row rid i rows \<longleftrightarrow> list_ex (\<lambda>r. rr_run_id r = rid \<and> rr_member_id r = i) rows"

fun create_rows :: "int \<Rightarrow> nat \<Rightarrow> fleet_member list \<Rightarrow> run_result list \<Rightarrow> run_result list" where
  "create_rows rid idx [] rows = rows"
| "create_rows rid idx (m # ms) rows =
     create_rows rid idx ms
       (if has_row rid (fm_id m) rows then rows
        else rows @ [\<lparr>rr_run_id = rid, rr_member_id = fm_id m, rr_wave_index = idx,
                      rr_fault_domain = fault_domain m, rr_status = ResultPending,
                      rr_detail = None, rr_started_at = None, rr_completed_at = None\<rparr>])"

text \<open>Collecting a result marks the row as started, then settles it, in one commit.\<close>

definition mark_started :: "int \<Rightarrow> int \<Rightarrow> instant \<Rightarrow> run_result list \<Rightarrow> run_result list" where
  "mark_started rid i now rows =
     map (\<lambda>r. if rr_run_id r = rid \<and> rr_member_id r = i
              then r\<lparr>rr_started_at := Some now, rr_status := ResultRunning\<rparr> else r) rows"

definition update_result_row ::
  "int \<Rightarrow> int \<Rightarrow> result_status \<Rightarrow> result_detail \<Rightarrow> instant \<Rightarrow> run_result list \<Rightarrow> run_result list" where
  "update_result_row rid i st detail now rows =
     map (\<lambda>r. if rr_run_id r = rid \<and> rr_member_id r = i
              then r\<lparr>rr_status := st, rr_detail := Some detail, rr_completed_at := Some now\<rparr> else r) rows"

definition collect_one :: "bulk_env \<Rightarrow> int \<Rightarrow> bulk_run \<Rightarrow> instant \<Rightarrow> int \<Rightarrow> totals \<times> bulk_db \<Rightarrow> totals \<times> bulk_db" where
  "collect_one e rid run now i st =
     (let (tot, db) = st;
          (status, detail, tdb) = (case crash e i of
              Some msg \<Rightarrow> (ResultFailed, UnexpectedError msg, targeting db)
            | None \<Rightarrow> dispatch_action_for_member (reconciler e) (targeting db) i (br_action run) (action_labels run))
      in (count_result status tot,
          db\<lparr>targeting := tdb,
             results := update_result_row rid i status detail now (mark_started rid i now (results db))\<rparr>))"

definition run_wave :: "bulk_env \<Rightarrow> int \<Rightarrow> nat \<Rightarrow> bulk_run \<Rightarrow> fleet_member list \<Rightarrow> totals \<times> bulk_db \<Rightarrow> totals \<times> bulk_db" where
  "run_wave e rid idx run ms st =
     (let (tot, db) = st;
          db1 = set_run rid (\<lambda>r. r\<lparr>current_wave_index := idx\<rparr>) db;
          db2 = db1\<lparr>results := create_rows rid idx ms (results db1)\<rparr>
      in fold (collect_one e rid run (clock e idx)) (finish_order e (map fm_id ms)) (tot, db2))"

text \<open>The worker count of a wave, which bounds how many members are in flight.\<close>

definition wave_workers :: "bulk_db \<Rightarrow> bulk_run \<Rightarrow> fleet_member list \<Rightarrow> int" where
  "wave_workers db run ms =
     resolve_wave_concurrency (length ms)
       (map_option max_concurrency_pct (Option.bind (strategy_id run) (map_of (strategies db))))
       (if concurrency run = 0 then 5 else concurrency run)"

section \<open>The wave loop\<close>

datatype outcome =
    CompletedRun nat totals
  | CancelledAtWave nat
  | PausedAfterWave nat totals "instant option"
  | RunVanished

definition pause_at_gate :: "int \<Rightarrow> nat \<Rightarrow> instant option \<Rightarrow> bulk_db \<Rightarrow> bulk_db" where
  "pause_at_gate rid idx resumes db =
     set_run rid (\<lambda>r. r\<lparr>br_status := RunPausedGate, current_wave_index := Suc idx,
       gate_resumes_at := (case resumes of None \<Rightarrow> gate_resumes_at r | Some t \<Rightarrow> Some t)\<rparr>) db"

definition after_wave ::
  "bulk_env \<Rightarrow> int \<Rightarrow> nat \<Rightarrow> bulk_run \<Rightarrow> fleet_member list \<Rightarrow> totals \<Rightarrow> bulk_db \<Rightarrow> outcome option \<times> bulk_db" where
  "after_wave e rid idx run ms tot db =
     (if gate_mode run = ''timed_wait''
      then let wait = get_gate_wait_seconds db run; t = clock e idx + seconds wait
           in (Some (PausedAfterWave idx tot (Some t)),
               (pause_at_gate rid idx (Some t) db)\<lparr>countdowns := countdowns db @ [(rid, wait)]\<rparr>)
      else if \<not> wave_gate_passes (targeting db) (map fm_id ms) (gate_mode run)
      then (Some (PausedAfterWave idx tot None), pause_at_gate rid idx None db)
      else (None, db))"

fun wave_loop ::
  "bulk_env \<Rightarrow> int \<Rightarrow> nat \<Rightarrow> nat \<Rightarrow> nat \<Rightarrow> wave list \<Rightarrow> totals \<Rightarrow> bulk_db \<Rightarrow> outcome \<times> bulk_db" where
  "wave_loop e rid from nw idx [] tot db =
     (CompletedRun nw tot,
      set_run rid (\<lambda>r. r\<lparr>br_status := RunCompleted, completed_at := Some (clock e idx)\<rparr>) db)"
| "wave_loop e rid from nw idx ((label, ms) # ws) tot db =
     (if idx < from then wave_loop e rid from nw (Suc idx) ws tot db
      else let db0 = serve rid (before_wave e idx) db
           in case map_of (runs db0) rid of
                None \<Rightarrow> (RunVanished, db0)
              | Some run \<Rightarrow>
                  if br_status run = RunCancelled
                  then (CancelledAtWave idx,
                        if completed_at run = None
                        then set_run rid (\<lambda>r. r\<lparr>completed_at := Some (clock e idx)\<rparr>) db0 else db0)
                  else let (tot', db1) = run_wave e rid idx run ms (tot, db0);
                           db2 = serve rid (during_wave e idx) db1
                       in if ws = [] then wave_loop e rid from nw (Suc idx) ws tot' db2
                          else (case after_wave e rid idx run ms tot' db2 of
                              (Some out, db3) \<Rightarrow> (out, db3)
                            | (None, db3) \<Rightarrow> wave_loop e rid from nw (Suc idx) ws tot' db3))"

section \<open>The executor, its tasks and the resume route\<close>

datatype exec_error = RunNotFound int | RunNotStartable run_status | RunRefused run_error | RunNotPaused run_status

definition fail_run :: "int \<Rightarrow> run_error \<Rightarrow> bulk_db \<Rightarrow> bulk_db" where
  "fail_run rid err db = set_run rid (\<lambda>r. r\<lparr>br_status := RunFailed, error_message := Some err\<rparr>) db"

definition set_decision_status :: "int \<Rightarrow> decision_status \<Rightarrow> bulk_db \<Rightarrow> bulk_db" where
  "set_decision_status did st db =
     db\<lparr>targeting := (targeting db)\<lparr>decisions :=
       map (\<lambda>d. if fd_id d = did then d\<lparr>fd_status := st\<rparr> else d) (decisions (targeting db))\<rparr>\<rparr>"

definition start_waves :: "bulk_env \<Rightarrow> int \<Rightarrow> bulk_run \<Rightarrow> bool \<Rightarrow> instant \<Rightarrow> fleet_member list \<Rightarrow> bulk_db \<Rightarrow> outcome \<times> bulk_db" where
  "start_waves e rid run resuming now ms db =
     (let waves = group_members_into_waves ms (if wave_by run = '''' then ''fault_domain'' else wave_by run);
          db1 = set_run rid (\<lambda>r. r\<lparr>br_status := RunRunning, total_waves := Some (length waves),
                  started_at := (if resuming then started_at r else Some now)\<rparr>) db
      in if waves = []
         then (CompletedRun 0 \<lparr>succeeded = 0, failed = 0, skipped = 0\<rparr>,
               set_run rid (\<lambda>r. r\<lparr>br_status := RunCompleted, completed_at := Some now\<rparr>) db1)
         else wave_loop e rid (current_wave_index run) (length waves) 0 waves
                \<lparr>succeeded = 0, failed = 0, skipped = 0\<rparr> db1)"

definition execute_fleet_bulk_run ::
  "bulk_env \<Rightarrow> instant \<Rightarrow> bool \<Rightarrow> int \<Rightarrow> bulk_db \<Rightarrow> (exec_error + outcome) \<times> bulk_db" where
  "execute_fleet_bulk_run e now resuming rid db =
     (case map_of (runs db) rid of
        None \<Rightarrow> (Inl (RunNotFound rid), db)
      | Some run \<Rightarrow>
          if br_status run \<in> set TERMINAL_STATUSES \<or> br_status run = RunRunning
          then (Inl (RunNotStartable (br_status run)), db)
          else (case find (\<lambda>d. fd_id d = br_decision_id run) (decisions (targeting db)) of
              None \<Rightarrow> (let err = DecisionNotFound (br_decision_id run) in (Inl (RunRefused err), fail_run rid err db))
            | Some d \<Rightarrow>
                if br_action run \<notin> set SAFE_ACTIONS
                then (let err = ActionNotAllowed (br_action run) in (Inl (RunRefused err), fail_run rid err db))
                else if resuming
                then map_prod Inr id (start_waves e rid run True now
                       (List.map_filter (member_by_id (targeting db)) (resolved_member_ids d)) db)
                else (case assert_decision_fresh now (targeting db) d of
                    Inl err \<Rightarrow> (Inl (RunRefused err), fail_run rid err db)
                  | Inr ms \<Rightarrow> map_prod Inr id (start_waves e rid run False now ms
                                (set_decision_status (fd_id d) CONSUMED db)))))"

definition resume_task :: "bulk_env \<Rightarrow> instant \<Rightarrow> int \<Rightarrow> bulk_db \<Rightarrow> (exec_error + outcome) \<times> bulk_db" where
  "resume_task e now rid db =
     (case map_of (runs db) rid of
        None \<Rightarrow> (Inl (RunNotFound rid), db)
      | Some run \<Rightarrow>
          if br_status run \<noteq> RunPausedGate then (Inl (RunNotPaused (br_status run)), db)
          else execute_fleet_bulk_run e now True rid db)"

text \<open>The resume route: what it commits before it queues the task.\<close>

definition resume_route :: "user \<Rightarrow> int \<Rightarrow> bulk_db \<Rightarrow> route_error + bulk_db" where
  "resume_route u rid db =
     (case map_of (runs db) rid of
        None \<Rightarrow> Inl NotFound
      | Some run \<Rightarrow>
          if br_status run \<noteq> RunPausedGate then Inl BadRequest
          else let ids = (case find (\<lambda>d. fd_id d = br_decision_id run) (decisions (targeting db)) of
                       None \<Rightarrow> [] | Some d \<Rightarrow> resolved_member_ids d);
                   pids = br_project_id run # map fm_project_id
                            (filter (\<lambda>m. fm_id m \<in> set ids) (fleet_members (targeting db)))
               in if require_fleet_mutation (projects (targeting db)) u pids \<noteq> None then Inl Forbidden
                  else Inr (set_run rid (\<lambda>r. r\<lparr>br_status := RunRunning\<rparr>) db))"

section \<open>The wave plan\<close>

lemma mset_bucket_add:
  "mset (concat (map snd (bucket_add v m bs))) = add_mset m (mset (concat (map snd bs)))"
  unfolding bucket_add_def by (induction bs) (auto simp: dict_get_or_def)

lemma bucket_loop_mset:
  "bucket_loop key ms bs none = (bs', none') \<Longrightarrow>
     mset (concat (map snd bs')) + mset none' = mset (concat (map snd bs)) + mset none + mset ms"
  by (induction key ms bs none arbitrary: bs' none' rule: bucket_loop.induct)
    (auto simp: mset_bucket_add split: if_splits)

lemma bucket_loop_none:
  "bucket_loop key ms bs none = (bs', none') \<Longrightarrow> none' = none @ filter (\<lambda>m. key m = []) ms"
  by (induction key ms bs none arbitrary: bs' none' rule: bucket_loop.induct) (auto split: if_splits)

lemma bucket_loop_buckets:
  "bucket_loop key ms bs none = (bs', none') \<Longrightarrow> dict_ok bs \<Longrightarrow>
     dict_ok bs' \<and> fst ` set bs' = fst ` set bs \<union> (key ` set ms - {[]}) \<and>
     (\<forall>k. dict_get_or bs' k [] = dict_get_or bs k [] @ (if k = [] then [] else filter (\<lambda>m. key m = k) ms))"
proof (induction key ms bs none arbitrary: bs' none' rule: bucket_loop.induct)
  case (2 key m ms bs none)
  show ?case
  proof (cases "key m = []")
    case True
    then show ?thesis using 2 by auto
  next
    case False
    have "dict_ok (bucket_add (key m) m bs)" using "2.prems" by (simp add: bucket_add_def)
    then show ?thesis
      using 2 False by (auto simp: bucket_add_def set_dict_set_keys dict_get_or_set)
  qed
qed auto

lemma dict_ok_sort: "dict_ok d \<Longrightarrow> dict_ok (sort_key fst d)"
  unfolding dict_ok_def by (metis distinct_map distinct_sort set_sort)

lemma sorted_distinct_less: "sorted xs \<Longrightarrow> distinct xs \<Longrightarrow> sorted_wrt (<) (xs :: string list)"
  by (simp add: strict_sorted_iff)

lemma mset_concat_sort:
  fixes d :: "('k :: linorder \<times> 'v list) list"
  shows "mset (concat (map snd (sort_key fst d))) = mset (concat (map snd d))"
proof -
  have "mset (concat (map snd e)) = sum_mset (image_mset (mset \<circ> snd) (mset e))" for e :: "('k \<times> 'v list) list"
    by (simp add: mset_concat flip: sum_mset_sum_list)
  then show ?thesis by simp
qed

text \<open>
  The wave plan is a partition in a fixed order: every member is in exactly one wave;
  the named waves come first, in strictly increasing order of their names, each with exactly
  the members whose key has that name, in the given order; the members without a key form
  the last wave; no wave is empty.
\<close>

theorem group_members_into_waves_correct:
  "\<exists>named. group_members_into_waves ms by =
       named @ (if filter (\<lambda>m. wave_key by m = '''') ms = [] then []
                else [(''(none)'', filter (\<lambda>m. wave_key by m = '''') ms)]) \<and>
     sorted_wrt (<) (map fst named) \<and> fst ` set named = wave_key by ` set ms - {''''} \<and>
     list_all (\<lambda>w. snd w = filter (\<lambda>m. wave_key by m = fst w) ms \<and> snd w \<noteq> []) named \<and>
     mset (concat (map snd (group_members_into_waves ms by))) = mset ms"
proof -
  obtain bs none where l: "bucket_loop (wave_key by) ms [] [] = (bs, none)" by fastforce
  from bucket_loop_none [OF l] have none: "none = filter (\<lambda>m. wave_key by m = '''') ms" by simp
  have bs: "dict_ok bs" "fst ` set bs = wave_key by ` set ms - {''''}"
    "\<forall>k. dict_get_or bs k [] = (if k = [] then [] else filter (\<lambda>m. wave_key by m = k) ms)"
    using bucket_loop_buckets [OF l] by (simp_all add: dict_get_or_def)
  let ?named = "sort_key fst bs"
  have "sorted (map fst ?named)" by simp
  then have lt: "sorted_wrt (<) (map fst ?named)"
    using dict_ok_sort [OF bs(1)] by (intro sorted_distinct_less) (simp_all add: dict_ok_def)
  have each: "snd w = filter (\<lambda>m. wave_key by m = fst w) ms \<and> snd w \<noteq> []" if "w \<in> set ?named" for w
  proof -
    have w: "(fst w, snd w) \<in> set bs" using that by simp
    then have get: "dict_get_or bs (fst w) [] = snd w"
      using map_of_in_set [OF bs(1), THEN iffD2, OF w] by (simp add: dict_get_or_def)
    have "fst w \<in> wave_key by ` set ms - {''''}" using imageI [OF w, of fst] unfolding bs(2) by simp
    then obtain m where m: "m \<in> set ms" "wave_key by m = fst w" "fst w \<noteq> ''''" by auto
    have "snd w = filter (\<lambda>m. wave_key by m = fst w) ms"
      using bs(3) [THEN spec, of "fst w"] get by (simp only: m(3) if_False)
    moreover have "m \<in> set (filter (\<lambda>m. wave_key by m = fst w) ms)" using m by simp
    ultimately show ?thesis by (metis empty_iff empty_set)
  qed
  have ws: "group_members_into_waves ms by = ?named @ (if none = [] then [] else [(''(none)'', none)])"
    by (simp add: group_members_into_waves_def l)
  have "mset (concat (map snd (group_members_into_waves ms by))) = mset ms"
    using bucket_loop_mset [OF l] by (auto simp: ws mset_concat_sort)
  moreover have "list_all (\<lambda>w. snd w = filter (\<lambda>m. wave_key by m = fst w) ms \<and> snd w \<noteq> []) ?named"
    unfolding list_all_iff using each by blast
  moreover have "fst ` set ?named = wave_key by ` set ms - {''''}" using bs(2) by simp
  moreover note ws [unfolded none] and lt
  ultimately show ?thesis by (intro exI [of _ ?named] conjI)
qed

section \<open>What an execution leaves behind\<close>

definition handled :: "totals \<Rightarrow> nat" where
  "handled t = succeeded t + failed t + skipped t"

text \<open>A member is settled for a run when it has a result row and no row of it is pending or running.\<close>

definition settled :: "int \<Rightarrow> bulk_db \<Rightarrow> int \<Rightarrow> bool" where
  "settled rid db i \<longleftrightarrow> has_row rid i (results db) \<and>
     (\<forall>r \<in> set (results db). rr_run_id r = rid \<and> rr_member_id r = i \<longrightarrow>
        rr_status r \<in> {ResultSucceeded, ResultFailed, ResultSkipped})"

definition rows_kept :: "int \<Rightarrow> bulk_db \<Rightarrow> bulk_db \<Rightarrow> bool" where
  "rows_kept rid db db' \<longleftrightarrow> (\<forall>i. has_row rid i (results db) \<longrightarrow> has_row rid i (results db')) \<and>
     (\<forall>i. settled rid db i \<longrightarrow> settled rid db' i)"

lemma rows_kept_refl [simp]: "rows_kept rid db db"
  by (simp add: rows_kept_def)

lemma rows_kept_trans: "rows_kept rid a b \<Longrightarrow> rows_kept rid b c \<Longrightarrow> rows_kept rid a c"
  by (simp add: rows_kept_def)

lemma rows_kept_same: "results db' = results db \<Longrightarrow> rows_kept rid db db'"
  by (simp add: rows_kept_def settled_def)

lemma set_run_results [simp]: "results (set_run rid f db) = results db"
  "targeting (set_run rid f db) = targeting db"
  by (simp_all add: set_run_def split: option.splits)

lemma serve_results [simp]: "results (serve rid q db) = results db"
  "targeting (serve rid q db) = targeting db"
  by (cases q; simp add: cancel_fleet_bulk_op_def split: option.splits)+

lemma after_wave_results [simp]: "results (snd (after_wave e rid idx run ms tot db)) = results db"
  by (simp add: after_wave_def pause_at_gate_def Let_def)

lemma handled_count [simp]: "handled (count_result s t) = Suc (handled t)"
  by (cases s) (simp_all add: handled_def)

lemma dispatch_final:
  "fst (dispatch_action_for_member r db i a ls) \<in> {ResultSucceeded, ResultFailed, ResultSkipped}"
  by (auto simp: dispatch_action_for_member_def split: option.splits sum.splits prod.splits)

lemma has_row_update [simp]: "has_row rid i (update_result_row rid' j st d now rows) = has_row rid i rows"
  by (induction rows) (auto simp: has_row_def update_result_row_def)

lemma has_row_started [simp]: "has_row rid i (mark_started rid' j now rows) = has_row rid i rows"
  by (induction rows) (auto simp: has_row_def mark_started_def)

lemma settle_row:
  "update_result_row rid i st d now (mark_started rid i now rows) =
     map (\<lambda>r. if rr_run_id r = rid \<and> rr_member_id r = i
       then r\<lparr>rr_status := st, rr_detail := Some d, rr_started_at := Some now, rr_completed_at := Some now\<rparr>
       else r) rows"
  unfolding update_result_row_def mark_started_def map_map by (rule map_cong) simp_all

lemma update_result_row_elem:
  assumes "r' \<in> set (update_result_row rid i st d now (mark_started rid i now rows))"
  shows "if rr_run_id r' = rid \<and> rr_member_id r' = i then rr_status r' = st else r' \<in> set rows"
proof -
  obtain r where "r \<in> set rows" and "r' = (if rr_run_id r = rid \<and> rr_member_id r = i
       then r\<lparr>rr_status := st, rr_detail := Some d, rr_started_at := Some now, rr_completed_at := Some now\<rparr>
       else r)"
    using assms unfolding settle_row by auto
  then show ?thesis by (cases "rr_run_id r = rid \<and> rr_member_id r = i") auto
qed

lemma collect_one_props:
  assumes "collect_one e rid run now i (tot, db) = (tot', db')"
  shows "handled tot' = Suc (handled tot)" and "rows_kept rid db db'"
    and "has_row rid i (results db) \<Longrightarrow> settled rid db' i"
proof -
  define job where "job = (case crash e i of
      Some msg \<Rightarrow> (ResultFailed, UnexpectedError msg, targeting db)
    | None \<Rightarrow> dispatch_action_for_member (reconciler e) (targeting db) i (br_action run) (action_labels run))"
  obtain st d tdb where j: "job = (st, d, tdb)" by (cases job)
  have st: "st \<in> {ResultSucceeded, ResultFailed, ResultSkipped}"
    using j dispatch_final [of "reconciler e" "targeting db" i "br_action run" "action_labels run"]
    by (auto simp: job_def split: option.splits)
  have res: "tot' = count_result st tot"
    "db' = db\<lparr>targeting := tdb, results := update_result_row rid i st d now (mark_started rid i now (results db))\<rparr>"
    using assms j unfolding collect_one_def job_def by (auto simp: Let_def)
  show "handled tot' = Suc (handled tot)" by (simp add: res)
  show "rows_kept rid db db'" "has_row rid i (results db) \<Longrightarrow> settled rid db' i"
    using st by (auto simp: rows_kept_def settled_def res dest!: update_result_row_elem split: if_splits)
qed

lemma collect_all_props:
  assumes "fold (collect_one e rid run now) is (tot, db) = (tot', db')"
  shows "handled tot' = handled tot + length is \<and> rows_kept rid db db' \<and>
    (\<forall>i \<in> set is. has_row rid i (results db) \<longrightarrow> settled rid db' i)"
  using assms
proof (induction "is" arbitrary: tot db)
  case (Cons i "is")
  obtain t d where c: "collect_one e rid run now i (tot, db) = (t, d)" by fastforce
  note props = collect_one_props [OF c]
  have IH: "handled tot' = handled t + length is" "rows_kept rid d db'"
    "\<forall>i \<in> set is. has_row rid i (results d) \<longrightarrow> settled rid db' i"
    using Cons.IH [of t d] Cons.prems c by auto
  have "settled rid db' j" if "j \<in> set (i # is)" "has_row rid j (results db)" for j
    using that IH props(2,3) by (cases "j = i") (auto simp: rows_kept_def)
  then show ?case using IH props rows_kept_trans [OF props(2) IH(2)] by simp
qed simp

lemma has_row_append [simp]: "has_row rid i (xs @ ys) \<longleftrightarrow> has_row rid i xs \<or> has_row rid i ys"
  by (simp add: has_row_def)

lemma has_row_single [simp]: "has_row rid i [r] \<longleftrightarrow> rr_run_id r = rid \<and> rr_member_id r = i"
  by (simp add: has_row_def)

lemma create_rows_keeps: "has_row rid i rows \<Longrightarrow> has_row rid i (create_rows rid idx ms rows)"
  by (induction ms arbitrary: rows) auto

lemma create_rows_has: "m \<in> set ms \<Longrightarrow> has_row rid (fm_id m) (create_rows rid idx ms rows)"
proof (induction ms arbitrary: rows)
  case (Cons x ms)
  show ?case
  proof (cases "m = x")
    case True
    then show ?thesis by (auto intro!: create_rows_keeps)
  next
    case False
    then show ?thesis using Cons by auto
  qed
qed simp

lemma create_rows_only_new:
  "has_row rid i rows \<Longrightarrow> r \<in> set (create_rows rid idx ms rows) \<Longrightarrow> rr_run_id r = rid \<Longrightarrow>
     rr_member_id r = i \<Longrightarrow> r \<in> set rows"
proof (induction ms arbitrary: rows)
  case (Cons m ms)
  show ?case
  proof (cases "has_row rid (fm_id m) rows")
    case True
    then show ?thesis using Cons by simp
  next
    case False
    define new where "new = \<lparr>rr_run_id = rid, rr_member_id = fm_id m, rr_wave_index = idx,
      rr_fault_domain = fault_domain m, rr_status = ResultPending, rr_detail = None, rr_started_at = None, rr_completed_at = None\<rparr>"
    have "r \<in> set (create_rows rid idx ms (rows @ [new]))" using Cons.prems False by (simp add: new_def)
    then have "r \<in> set (rows @ [new])" using Cons.IH [of "rows @ [new]"] Cons.prems by simp
    moreover have "rr_member_id new = fm_id m" by (simp add: new_def)
    then have "r \<noteq> new" using False Cons.prems(1,4) by metis
    ultimately show ?thesis by simp
  qed
qed simp

lemma run_wave_props:
  assumes "run_wave e rid idx run ms (tot, db) = (tot', db')" and "\<And>xs. mset (finish_order e xs) = mset xs"
  shows "handled tot' = handled tot + length ms" and "rows_kept rid db db'"
    and "m \<in> set ms \<Longrightarrow> settled rid db' (fm_id m)"
proof -
  define db1 where "db1 = set_run rid (\<lambda>r. r\<lparr>current_wave_index := idx\<rparr>) db"
  define db2 where "db2 = db1\<lparr>results := create_rows rid idx ms (results db1)\<rparr>"
  have f: "fold (collect_one e rid run (clock e idx)) (finish_order e (map fm_id ms)) (tot, db2) = (tot', db')"
    using assms(1) by (simp add: run_wave_def db1_def db2_def Let_def)
  have len: "length (finish_order e (map fm_id ms)) = length ms"
    by (metis assms(2) length_map size_mset)
  have ids: "set (finish_order e (map fm_id ms)) = fm_id ` set ms"
    by (metis assms(2) list.set_map set_mset_mset)
  have kept: "rows_kept rid db db2"
    using create_rows_only_new [of rid _ "results db"]
    by (fastforce simp: rows_kept_def settled_def db1_def db2_def create_rows_keeps)
  note c = collect_all_props [OF f]
  show "handled tot' = handled tot + length ms" using c len by simp
  show "rows_kept rid db db'" using c kept rows_kept_trans by blast
  show "settled rid db' (fm_id m)" if "m \<in> set ms"
    using c ids that create_rows_has [OF that] by (auto simp: db2_def)
qed

text \<open>The waves an invocation runs, by its outcome.\<close>

fun executed :: "outcome \<Rightarrow> nat \<Rightarrow> nat \<Rightarrow> wave list \<Rightarrow> wave list" where
  "executed (CompletedRun nw t) from idx ws = drop (from - idx) ws"
| "executed (PausedAfterWave k t r) from idx ws = drop (from - idx) (take (Suc k - idx) ws)"
| "executed (CancelledAtWave k) from idx ws = drop (from - idx) (take (k - idx) ws)"
| "executed RunVanished from idx ws = []"

fun outcome_total :: "outcome \<Rightarrow> totals option" where
  "outcome_total (CompletedRun nw t) = Some t"
| "outcome_total (PausedAfterWave k t r) = Some t"
| "outcome_total _ = None"

fun outcome_wave :: "outcome \<Rightarrow> nat option" where
  "outcome_wave (PausedAfterWave k t r) = Some k"
| "outcome_wave (CancelledAtWave k) = Some k"
| "outcome_wave _ = None"

lemma after_wave_out:
  assumes "after_wave e rid idx run ms tot db = (Some out, db')"
  obtains r where "out = PausedAfterWave idx tot r"
  using assms by (auto simp: after_wave_def Let_def split: if_splits)

definition waves_settled :: "int \<Rightarrow> bulk_db \<Rightarrow> wave list \<Rightarrow> bool" where
  "waves_settled rid db ws \<longleftrightarrow> list_all (\<lambda>w. list_all (\<lambda>m. settled rid db (fm_id m)) (snd w)) ws"

definition wave_sizes :: "wave list \<Rightarrow> nat" where
  "wave_sizes ws = sum_list (map (length \<circ> snd) ws)"

lemma waves_settled_kept: "waves_settled rid db ws \<Longrightarrow> rows_kept rid db db' \<Longrightarrow> waves_settled rid db' ws"
  by (auto simp: waves_settled_def list_all_iff rows_kept_def)

definition loop_ok :: "int \<Rightarrow> nat \<Rightarrow> nat \<Rightarrow> wave list \<Rightarrow> totals \<Rightarrow> bulk_db \<Rightarrow> outcome \<Rightarrow> bulk_db \<Rightarrow> bool" where
  "loop_ok rid from idx ws tot db out db' \<longleftrightarrow>
     rows_kept rid db db' \<and> waves_settled rid db' (executed out from idx ws) \<and>
     (\<forall>k. outcome_wave out = Some k \<longrightarrow> idx \<le> k \<and> from \<le> k) \<and>
     (\<forall>t. outcome_total out = Some t \<longrightarrow> handled t = handled tot + wave_sizes (executed out from idx ws))"

lemma executed_Cons:
  assumes "\<And>k. outcome_wave out = Some k \<Longrightarrow> Suc idx \<le> k" and "out \<noteq> RunVanished"
  shows "executed out from idx (w # ws) =
    (if idx < from then executed out from (Suc idx) ws else w # executed out from (Suc idx) ws)"
  using assms by (cases out) (auto simp: drop_Cons' take_Cons' Suc_diff_le)

lemma loop_ok_skip:
  assumes "idx < from" and "loop_ok rid from (Suc idx) ws tot db out db'"
  shows "loop_ok rid from idx (w # ws) tot db out db'"
proof (cases "out = RunVanished")
  case True
  with assms(2) show ?thesis by (simp add: loop_ok_def)
next
  case False
  then have "executed out from idx (w # ws) = executed out from (Suc idx) ws"
    using assms executed_Cons [of out idx "from" w ws] by (auto simp: loop_ok_def)
  with assms(2) show ?thesis by (auto simp: loop_ok_def)
qed

lemma loop_ok_wave:
  assumes "from \<le> idx" and "loop_ok rid from (Suc idx) ws tot' db1 out db'"
    and "rows_kept rid db db1" and "list_all (\<lambda>m. settled rid db1 (fm_id m)) ms"
    and "handled tot' = handled tot + length ms"
  shows "loop_ok rid from idx ((label, ms) # ws) tot db out db'"
proof (cases "out = RunVanished")
  case True
  with assms rows_kept_trans show ?thesis by (auto simp: loop_ok_def waves_settled_def)
next
  case False
  have ex: "executed out from idx ((label, ms) # ws) = (label, ms) # executed out from (Suc idx) ws"
    using assms(1,2) executed_Cons [OF _ False, of idx "from" "(label, ms)" ws] by (auto simp: loop_ok_def)
  have "list_all (\<lambda>m. settled rid db' (fm_id m)) ms"
    using assms(2,4) by (auto simp: loop_ok_def rows_kept_def list_all_iff)
  then show ?thesis
    using assms rows_kept_trans unfolding loop_ok_def ex by (auto simp: waves_settled_def wave_sizes_def)
qed

text \<open>One iteration of the loop, by what it does.\<close>

lemma after_wave_targeting [simp]: "targeting (snd (after_wave e rid idx run ms tot db)) = targeting db"
  by (simp add: after_wave_def pause_at_gate_def Let_def)

lemma after_wave_None:
  "after_wave e rid idx run ms tot db = (None, db') \<Longrightarrow>
     db' = db \<and> gate_mode run \<noteq> ''timed_wait'' \<and> wave_gate_passes (targeting db) (map fm_id ms) (gate_mode run)"
  by (auto simp: after_wave_def Let_def split: if_splits)

lemma wave_loop_cases:
  assumes "wave_loop e rid from nw idx ((label, ms) # ws) tot db = (out, db')"
  defines "db0 \<equiv> serve rid (before_wave e idx) db"
  obtains (skip) "idx < from" "wave_loop e rid from nw (Suc idx) ws tot db = (out, db')"
    | (vanished) "from \<le> idx" "out = RunVanished" "db' = db0"
    | (cancelled) run where "from \<le> idx" "map_of (runs db0) rid = Some run" "br_status run = RunCancelled"
        "out = CancelledAtWave idx" "results db' = results db" "targeting db' = targeting db"
    | (continued) run tot' db1 db2 where "from \<le> idx" "map_of (runs db0) rid = Some run"
        "br_status run \<noteq> RunCancelled" "run_wave e rid idx run ms (tot, db0) = (tot', db1)"
        "db2 = serve rid (during_wave e idx) db1"
        "ws = [] \<or> gate_mode run \<noteq> ''timed_wait'' \<and> wave_gate_passes (targeting db1) (map fm_id ms) (gate_mode run)"
        "wave_loop e rid from nw (Suc idx) ws tot' db2 = (out, db')"
    | (paused) run tot' db1 r where "from \<le> idx" "map_of (runs db0) rid = Some run"
        "br_status run \<noteq> RunCancelled" "run_wave e rid idx run ms (tot, db0) = (tot', db1)" "ws \<noteq> []"
        "out = PausedAfterWave idx tot' r" "results db' = results db1" "targeting db' = targeting db1"
proof (cases "idx < from")
  case True
  then show thesis using assms(1) by (intro skip) auto
next
  case idx: False
  show thesis
  proof (cases "map_of (runs db0) rid")
    case None
    then show thesis using assms(1) idx by (intro vanished) (auto simp: db0_def)
  next
    case (Some run)
    show thesis
    proof (cases "br_status run = RunCancelled")
      case True
      then show thesis
        using assms(1) idx Some by (intro cancelled [of run]) (auto simp: db0_def Let_def split: if_splits)
    next
      case running: False
      obtain tot' db1 where wv: "run_wave e rid idx run ms (tot, db0) = (tot', db1)" by fastforce
      define db2 where "db2 = serve rid (during_wave e idx) db1"
      obtain o' db3 where aw: "after_wave e rid idx run ms tot' db2 = (o', db3)" by fastforce
      have res: "results db3 = results db1" "targeting db3 = targeting db1"
        by (metis after_wave_results aw db2_def serve_results(1) snd_conv)
          (metis after_wave_targeting aw db2_def serve_results(2) snd_conv)
      have body: "(if ws = [] then wave_loop e rid from nw (Suc idx) ws tot' db2
          else (case o' of Some out \<Rightarrow> (out, db3) | None \<Rightarrow> wave_loop e rid from nw (Suc idx) ws tot' db3)) = (out, db')"
        using assms(1) idx Some running wv aw by (cases "ws = []"; cases o') (simp_all add: db0_def db2_def Let_def)
      show thesis
      proof (cases "ws = [] \<or> o' = None")
        case True
        then show thesis
          using body after_wave_None [of e rid idx run ms tot' db2 db3] aw idx Some running wv
          by (intro continued [of run tot' db1 db2]) (auto simp: db2_def split: if_splits)
      next
        case False
        then obtain r where "o' = Some (PausedAfterWave idx tot' r)" using aw by (auto elim: after_wave_out)
        then show thesis
          using False body idx Some running wv res by (intro paused [of run tot' db1 r]) auto
      qed
    qed
  qed
qed

lemma wave_loop_ok:
  assumes perm: "\<And>xs. mset (finish_order e xs) = mset xs"
  shows "wave_loop e rid from nw idx ws tot db = (out, db') \<Longrightarrow> loop_ok rid from idx ws tot db out db'"
proof (induction ws arbitrary: idx tot db)
  case Nil
  then show ?case by (auto simp: loop_ok_def waves_settled_def wave_sizes_def intro: rows_kept_same)
next
  case (Cons w ws)
  obtain label ms where w: "w = (label, ms)" by (cases w)
  have kept: "rows_kept rid d1 d3" if "rows_kept rid (serve rid q d1) d2" "results d3 = results d2" for d1 d2 d3 q
    using that rows_kept_trans rows_kept_same by (metis serve_results(1))
  have finished: "list_all (\<lambda>m. settled rid d3 (fm_id m)) ms"
    if "\<And>m. m \<in> set ms \<Longrightarrow> settled rid d2 (fm_id m)" "results d3 = results d2" for d2 d3
    using that by (simp add: list_all_iff settled_def)
  from Cons.prems [unfolded w] show ?case unfolding w
  proof (cases rule: wave_loop_cases)
    case skip
    then show "loop_ok rid from idx ((label, ms) # ws) tot db out db'"
      using Cons.IH by (intro loop_ok_skip) auto
  next
    case vanished
    then show "loop_ok rid from idx ((label, ms) # ws) tot db out db'"
      by (auto simp: loop_ok_def waves_settled_def intro: rows_kept_same)
  next
    case (cancelled run)
    then show "loop_ok rid from idx ((label, ms) # ws) tot db out db'"
      by (auto simp: loop_ok_def waves_settled_def intro: rows_kept_same)
  next
    case (continued run tot' db1 db2)
    note props = run_wave_props [OF continued(4) perm]
    have "results db2 = results db1" by (simp add: continued(5))
    then show "loop_ok rid from idx ((label, ms) # ws) tot db out db'"
      using Cons.IH [OF continued(7)] continued(1) props(1) kept [OF props(2)] finished [OF props(3)]
      by (intro loop_ok_wave [of "from" idx rid ws tot' db2]) auto
  next
    case (paused run tot' db1 r)
    note props = run_wave_props [OF paused(4) perm]
    show "loop_ok rid from idx ((label, ms) # ws) tot db out db'"
      using paused props(1) kept [OF props(2) paused(7)] finished [OF props(3) paused(7)]
      by (auto simp: loop_ok_def waves_settled_def wave_sizes_def)
  qed
qed

section \<open>Executions\<close>

definition planned_members :: "bulk_db \<Rightarrow> fleet_decision \<Rightarrow> fleet_member list" where
  "planned_members db d = List.map_filter (member_by_id (targeting db)) (resolved_member_ids d)"

definition planned_waves :: "bulk_db \<Rightarrow> bulk_run \<Rightarrow> fleet_decision \<Rightarrow> wave list" where
  "planned_waves db run d =
     group_members_into_waves (planned_members db d) (if wave_by run = '''' then ''fault_domain'' else wave_by run)"

definition fresh :: "instant \<Rightarrow> bulk_db \<Rightarrow> fleet_decision \<Rightarrow> bool" where
  "fresh now db d \<longleftrightarrow> fd_status d = RESOLVED \<and> now - resolved_at d \<le> seconds DECISION_TTL_SECONDS \<and>
     (\<forall>i \<in> set (resolved_member_ids d). member_by_id (targeting db) i \<noteq> None)"

lemma assert_decision_fresh_Inr:
  assumes "assert_decision_fresh now (targeting db) d = Inr ms"
  shows "fresh now db d \<and> ms = planned_members db d"
  using assms
  by (auto simp: assert_decision_fresh_def fresh_def planned_members_def Let_def filter_empty_conv map_filter_simps
      split: if_splits)

lemma execute_cases:
  assumes "execute_fleet_bulk_run e now resuming rid db = (res, db')"
  obtains (refused) err where "res = Inl err" "targeting db' = targeting db" "results db' = results db"
    | (started) run d db1 out where "map_of (runs db) rid = Some run"
        "br_status run \<in> {RunPending, RunPausedGate}"
        "find (\<lambda>d. fd_id d = br_decision_id run) (decisions (targeting db)) = Some d"
        "br_action run \<in> set SAFE_ACTIONS" "resuming \<or> fresh now db d" "res = Inr out"
        "db1 = (if resuming then db else set_decision_status (fd_id d) CONSUMED db)"
        "start_waves e rid run resuming now (planned_members db d) db1 = (out, db')"
proof (cases "map_of (runs db) rid")
  case None
  then show thesis using assms by (intro refused) (auto simp: execute_fleet_bulk_run_def)
next
  case run: (Some run)
  show thesis
  proof (cases "br_status run \<in> set TERMINAL_STATUSES \<or> br_status run = RunRunning")
    case True
    then show thesis using assms run by (intro refused) (auto simp: execute_fleet_bulk_run_def)
  next
    case ok: False
    then have st: "br_status run \<in> {RunPending, RunPausedGate}"
      by (cases "br_status run") (auto simp: TERMINAL_STATUSES_def)
    show thesis
    proof (cases "find (\<lambda>d. fd_id d = br_decision_id run) (decisions (targeting db))")
      case None
      then show thesis
        using assms run ok by (intro refused) (auto simp: execute_fleet_bulk_run_def fail_run_def Let_def)
    next
      case (Some d)
      note eval = assms [unfolded execute_fleet_bulk_run_def run Some option.case if_not_P [OF ok]]
      show thesis
      proof (cases "br_action run \<in> set SAFE_ACTIONS")
        case False
        then show thesis using eval by (intro refused) (auto simp: fail_run_def Let_def)
      next
        case act: True
        show thesis
        proof (cases "resuming \<or> (\<exists>ms. assert_decision_fresh now (targeting db) d = Inr ms)")
          case True
          then obtain out where "res = Inr out" "start_waves e rid run resuming now (planned_members db d)
              (if resuming then db else set_decision_status (fd_id d) CONSUMED db) = (out, db')"
            using eval act assert_decision_fresh_Inr [of now db d]
            by (cases resuming) (auto simp: planned_members_def [symmetric] map_prod_def split: prod.splits sum.splits)
          then show thesis
            using True run st Some act assert_decision_fresh_Inr [of now db d]
            by (intro started [of run d out]) auto
        next
          case False
          then obtain err where "assert_decision_fresh now (targeting db) d = Inl err"
            by (cases "assert_decision_fresh now (targeting db) d") auto
          then show thesis using False eval act by (intro refused) (auto simp: fail_run_def)
        qed
      qed
    qed
  qed
qed

lemma start_waves_settled:
  assumes "start_waves e rid run resuming now (planned_members db d) db1 = (out, db')"
    and "\<And>xs. mset (finish_order e xs) = mset xs"
  defines "ws \<equiv> executed out (current_wave_index run) 0 (planned_waves db run d)"
  shows "waves_settled rid db' ws \<and> (\<forall>t. outcome_total out = Some t \<longrightarrow> handled t = wave_sizes ws)"
proof (cases "planned_waves db run d = []")
  case True
  then show ?thesis
    using assms(1) by (auto simp: start_waves_def ws_def planned_waves_def [symmetric] waves_settled_def
        wave_sizes_def handled_def Let_def)
next
  case False
  then obtain db2 where "wave_loop e rid (current_wave_index run) (length (planned_waves db run d)) 0
      (planned_waves db run d) \<lparr>succeeded = 0, failed = 0, skipped = 0\<rparr> db2 = (out, db')"
    using assms(1) by (auto simp: start_waves_def planned_waves_def [symmetric] Let_def)
  from wave_loop_ok [OF assms(2) this] show ?thesis by (simp add: loop_ok_def ws_def handled_def)
qed

text \<open>
  C9. Every member of every wave an execution runs is settled: whatever order the pool
  finishes in, whichever members fail, crash or have vanished, and whether the run
  completes, pauses at a gate or is cancelled, each member of the waves run from the resume
  index on has a result, which is succeeded, failed or skipped, and the totals reported count each of
  those members exactly once.
\<close>

theorem execution_settles_members:
  assumes "execute_fleet_bulk_run e now resuming rid db = (Inr out, db')"
    and "map_of (runs db) rid = Some run"
    and "find (\<lambda>d. fd_id d = br_decision_id run) (decisions (targeting db)) = Some d"
    and "\<forall>xs. mset (finish_order e xs) = mset xs"
    and "ws = executed out (current_wave_index run) 0 (planned_waves db run d)"
  shows "list_all (\<lambda>m. settled rid db' (fm_id m)) (concat (map snd ws)) \<and>
    (\<forall>t. outcome_total out = Some t \<longrightarrow> succeeded t + failed t + skipped t = length (concat (map snd ws)))"
  using assms(1)
proof (cases rule: execute_cases)
  case (started run' d' db1 out')
  then have "run' = run" "d' = d" using assms(2,3) by simp_all
  then have "waves_settled rid db' ws \<and> (\<forall>t. outcome_total out = Some t \<longrightarrow> handled t = wave_sizes ws)"
    using start_waves_settled [OF started(8)] assms(4,5) started(6) by simp
  then show ?thesis
    by (auto simp: waves_settled_def handled_def wave_sizes_def list_all_iff length_concat comp_def)
qed auto

definition demo_node :: "int \<Rightarrow> string \<Rightarrow> fleet_member" where
  "demo_node i fd = (demo_member i 10)\<lparr>fault_domain := Some fd\<rparr>"

definition demo_decision :: fleet_decision where
  "demo_decision = \<lparr>fd_id = 5, fd_target_id = 3, fd_project_id = Some 10,
     selector_snapshot = SelectorObject NoLabels, resolved_member_ids = [1, 2, 3], member_count = 3,
     resolved_at = 0, resolved_by = ''op'', fd_status = RESOLVED\<rparr>"

definition demo_run :: bulk_run where
  "demo_run = \<lparr>br_decision_id = 5, br_project_id = Some 10, br_action = ''set-labels'',
     action_labels = [(''env'', ''prod'')], wave_by = ''fault_domain'', concurrency = 5,
     gate_mode = ''manual'', strategy_id = None, br_status = RunPending, current_wave_index = 0,
     total_waves = None, error_message = None, started_at = None, completed_at = None,
     gate_resumes_at = None\<rparr>"

definition demo_bulk :: bulk_db where
  "demo_bulk = \<lparr>targeting = demo_fleet\<lparr>fleet_members := [demo_node 1 ''a'', demo_node 2 ''b'', demo_node 3 ''c''],
       decisions := [demo_decision]\<rparr>,
     runs = [(1, demo_run)], results = [], strategies = [], countdowns = []\<rparr>"

definition demo_env :: bulk_env where
  "demo_env = \<lparr>reconciler = (\<lambda>db t i. Inr (True, db)), crash = (\<lambda>i. None), finish_order = id,
     clock = (\<lambda>k. 0), before_wave = (\<lambda>k. NoRequest), during_wave = (\<lambda>k. NoRequest)\<rparr>"

lemma demo_execution:
  "fst (execute_fleet_bulk_run demo_env 0 False 1 demo_bulk) =
     Inr (PausedAfterWave 0 \<lparr>succeeded = 1, failed = 0, skipped = 0\<rparr> None)"
  by code_simp

theorem execution_settles_members_witness:
  "settled 1 (snd (execute_fleet_bulk_run demo_env 0 False 1 demo_bulk)) 1"
proof -
  let ?out = "PausedAfterWave 0 \<lparr>succeeded = 1, failed = 0, skipped = 0\<rparr> None"
  have ex: "execute_fleet_bulk_run demo_env 0 False 1 demo_bulk =
      (Inr ?out, snd (execute_fleet_bulk_run demo_env 0 False 1 demo_bulk))"
    using demo_execution by (metis prod.collapse)
  have run: "map_of (runs demo_bulk) 1 = Some demo_run" by (simp add: demo_bulk_def)
  have d: "find (\<lambda>d. fd_id d = br_decision_id demo_run) (decisions (targeting demo_bulk)) = Some demo_decision"
    by (simp add: demo_bulk_def demo_run_def demo_decision_def)
  have perm: "\<forall>xs. mset (finish_order demo_env xs) = mset xs" by (simp add: demo_env_def)
  define ws where "ws = executed ?out (current_wave_index demo_run) 0 (planned_waves demo_bulk demo_run demo_decision)"
  have "map fm_id (concat (map snd ws)) = [1]"
    unfolding ws_def by code_simp
  then obtain m where "concat (map snd ws) = [m]" "fm_id m = 1" by (auto simp: map_eq_Cons_conv)
  with execution_settles_members [OF ex run d perm ws_def] show ?thesis by simp
qed

section \<open>Safe starts\<close>

definition keeps_decisions :: "reconciler \<Rightarrow> bool" where
  "keeps_decisions rc \<longleftrightarrow>
     (\<forall>db t i found db'. rc db t i = Inr (found, db') \<longrightarrow> decisions db' = decisions db)"

lemma dispatch_decisions:
  "keeps_decisions rc \<Longrightarrow> decisions (snd (snd (dispatch_action_for_member rc db i a ls))) = decisions db"
  by (auto simp: dispatch_action_for_member_def keeps_decisions_def set_assigned_labels_def
      split: option.splits sum.splits prod.splits)

lemma collect_one_decisions:
  "keeps_decisions (reconciler e) \<Longrightarrow>
     decisions (targeting (snd (collect_one e rid run now i st))) = decisions (targeting (snd st))"
  using dispatch_decisions [of "reconciler e" "targeting (snd st)" i "br_action run" "action_labels run"]
  by (auto simp: collect_one_def Let_def case_prod_unfold split: option.splits)

lemma collect_all_decisions:
  "keeps_decisions (reconciler e) \<Longrightarrow>
     decisions (targeting (snd (fold (collect_one e rid run now) is st))) = decisions (targeting (snd st))"
  by (induction "is" arbitrary: st) (auto simp: collect_one_decisions)

lemma run_wave_decisions:
  assumes "keeps_decisions (reconciler e)" and "run_wave e rid idx run ms (tot, db) = (tot', db')"
  shows "decisions (targeting db') = decisions (targeting db)"
proof -
  have "decisions (targeting (snd (run_wave e rid idx run ms (tot, db)))) = decisions (targeting db)"
    by (simp add: run_wave_def Let_def collect_all_decisions [OF assms(1)])
  with assms(2) show ?thesis by simp
qed

lemma wave_loop_decisions:
  assumes "keeps_decisions (reconciler e)"
  shows "wave_loop e rid from nw idx ws tot db = (out, db') \<Longrightarrow> decisions (targeting db') = decisions (targeting db)"
proof (induction ws arbitrary: idx tot db)
  case Nil
  then show ?case by auto
next
  case (Cons w ws)
  obtain label ms where w: "w = (label, ms)" by (cases w)
  from Cons.prems [unfolded w] show ?case
  proof (cases rule: wave_loop_cases)
    case (continued run tot' db1 db2)
    then show ?thesis using Cons.IH [OF continued(7)] run_wave_decisions [OF assms continued(4)] by simp
  next
    case (paused run tot' db1 r)
    then show ?thesis using run_wave_decisions [OF assms paused(4)] by simp
  qed (use Cons.IH in simp_all)
qed

lemma start_waves_decisions:
  "keeps_decisions (reconciler e) \<Longrightarrow> start_waves e rid run resuming now ms db = (out, db') \<Longrightarrow>
     decisions (targeting db') = decisions (targeting db)"
  by (auto simp: start_waves_def Let_def split: if_splits dest: wave_loop_decisions)

lemma find_set_status:
  "find (\<lambda>d. fd_id d = k) (decisions (targeting (set_decision_status did st db))) =
     map_option (\<lambda>d. if fd_id d = did then d\<lparr>fd_status := st\<rparr> else d)
       (find (\<lambda>d. fd_id d = k) (decisions (targeting db)))"
proof -
  have "find (\<lambda>d. fd_id d = k) (map (\<lambda>d. if fd_id d = did then d\<lparr>fd_status := st\<rparr> else d) ds) =
      map_option (\<lambda>d. if fd_id d = did then d\<lparr>fd_status := st\<rparr> else d) (find (\<lambda>d. fd_id d = k) ds)" for ds
    by (induction ds) auto
  then show ?thesis by (simp add: set_decision_status_def)
qed

text \<open>
  A run starts only on a safe action and a fresh decision, once: an execution that is
  not a resume either is refused and touches no member, no decision and no result, or its
  action is on the allowlist, its decision was resolved, at most the time-to-live old and
  free of vanished members, and is consumed afterwards, so that every later run on the
  same decision is refused.
\<close>

theorem execution_starts_safely:
  assumes "execute_fleet_bulk_run e now False rid db = (res, db')" and "keeps_decisions (reconciler e)"
  shows "(\<exists>err. res = Inl err \<and> targeting db' = targeting db \<and> results db' = results db) \<or>
    (\<exists>run d. map_of (runs db) rid = Some run \<and> br_action run \<in> set SAFE_ACTIONS \<and>
       find (\<lambda>d. fd_id d = br_decision_id run) (decisions (targeting db)) = Some d \<and>
       fd_status d = RESOLVED \<and> now - resolved_at d \<le> seconds DECISION_TTL_SECONDS \<and>
       list_all (\<lambda>i. member_by_id (targeting db) i \<noteq> None) (resolved_member_ids d) \<and>
       find (\<lambda>d. fd_id d = br_decision_id run) (decisions (targeting db')) = Some (d\<lparr>fd_status := CONSUMED\<rparr>) \<and>
       assert_decision_fresh later (targeting db') (d\<lparr>fd_status := CONSUMED\<rparr>) = Inl (DecisionNotResolved CONSUMED))"
  using assms(1)
proof (cases rule: execute_cases)
  case (started run d db1 out)
  have "fd_id d = br_decision_id run" using started(3) by (auto dest: find_SomeD)
  then have "find (\<lambda>d. fd_id d = br_decision_id run) (decisions (targeting db')) = Some (d\<lparr>fd_status := CONSUMED\<rparr>)"
    using start_waves_decisions [OF assms(2) started(8)] started(3,7) by (simp add: find_set_status)
  then show ?thesis using started by (auto simp: fresh_def list_all_iff assert_decision_fresh_def)
qed auto

theorem execution_starts_safely_witness:
  "find (\<lambda>d. fd_id d = 5) (decisions (targeting (snd (execute_fleet_bulk_run demo_env 0 False 1 demo_bulk)))) =
     Some (demo_decision\<lparr>fd_status := CONSUMED\<rparr>)"
proof -
  have ex: "execute_fleet_bulk_run demo_env 0 False 1 demo_bulk =
      (Inr (PausedAfterWave 0 \<lparr>succeeded = 1, failed = 0, skipped = 0\<rparr> None),
       snd (execute_fleet_bulk_run demo_env 0 False 1 demo_bulk))"
    using demo_execution by (metis prod.collapse)
  have "keeps_decisions (reconciler demo_env)" by (auto simp: keeps_decisions_def demo_env_def)
  from execution_starts_safely [OF ex this] show ?thesis
    by (auto simp: demo_bulk_def demo_run_def demo_decision_def)
qed

section \<open>Gates\<close>

lemma gate_passes_health: "wave_gate_passes db ids mode \<Longrightarrow> mode = ''health_stable''"
  by (auto simp: wave_gate_passes_def split: if_splits)

lemma set_run_lookup:
  "map_of (runs (set_run rid f db)) k = (if k = rid then map_option f (map_of (runs db) rid) else map_of (runs db) k)"
  by (auto simp: set_run_def split: option.splits)

lemma serve_gate_mode:
  "map_of (runs (serve rid q db)) rid = Some r \<Longrightarrow> \<exists>r0. map_of (runs db) rid = Some r0 \<and> gate_mode r = gate_mode r0"
  by (cases q) (auto simp: cancel_fleet_bulk_op_def set_run_lookup split: option.splits if_splits sum.splits)

lemma wave_loop_gated:
  assumes "wave_loop e rid from nw idx ws tot db = (out, db')" and "idx \<le> from"
    and "\<And>r. map_of (runs db) rid = Some r \<Longrightarrow> gate_mode r \<noteq> ''health_stable''"
  shows "length (executed out from idx ws) \<le> 1 \<and> (\<forall>k. outcome_wave out = Some k \<longrightarrow> k = from)"
  using assms
proof (induction ws arbitrary: idx tot db)
  case (Cons w ws)
  obtain label ms where w: "w = (label, ms)" by (cases w)
  from Cons.prems(1) [unfolded w] show ?case
  proof (cases rule: wave_loop_cases)
    case skip
    then have IH: "length (executed out from (Suc idx) ws) \<le> 1 \<and> (\<forall>k. outcome_wave out = Some k \<longrightarrow> k = from)"
      using Cons.prems(3) by (intro Cons.IH [of "Suc idx" tot db]) auto
    moreover have "executed out from idx (w # ws) = executed out from (Suc idx) ws"
      using IH skip(1) executed_Cons [of out idx "from" w ws] by (cases "out = RunVanished") fastforce+
    ultimately show ?thesis by simp
  next
    case (continued run tot' db1 db2)
    then have "gate_mode run \<noteq> ''health_stable''" using serve_gate_mode Cons.prems(3) by metis
    then have "ws = []" using continued(6) gate_passes_health by blast
    with continued(7) show ?thesis by (auto simp: w)
  next
    case (paused run tot' db1 r)
    then show ?thesis using Cons.prems(2) by (simp add: w)
  qed (use Cons.prems(2) in simp_all)
qed auto

text \<open>
  Without the health gate an operator decides on every wave: with the manual, approval,
  timed or an unknown gate mode, one invocation runs at most one wave, the one at the resume
  index, and a run that pauses does so right after it.
\<close>

theorem gated_run_executes_one_wave:
  assumes "execute_fleet_bulk_run e now resuming rid db = (Inr out, db')"
    and "map_of (runs db) rid = Some run" and "gate_mode run \<noteq> ''health_stable''"
    and "find (\<lambda>d. fd_id d = br_decision_id run) (decisions (targeting db)) = Some d"
  shows "length (executed out (current_wave_index run) 0 (planned_waves db run d)) \<le> 1 \<and>
    (\<forall>k. outcome_wave out = Some k \<longrightarrow> k = current_wave_index run)"
  using assms(1)
proof (cases rule: execute_cases)
  case (started run' d' db1 out')
  then have eq: "run' = run" "d' = d" "out' = out" using assms(2,4) by simp_all
  have runs1: "map_of (runs db1) rid = Some run"
    using started(1,7) eq by (simp add: set_decision_status_def)
  show ?thesis
  proof (cases "planned_waves db run d = []")
    case True
    then show ?thesis
      using started(8) by (auto simp: eq start_waves_def planned_waves_def [symmetric] Let_def)
  next
    case False
    define db2 where "db2 = set_run rid (\<lambda>r. r\<lparr>br_status := RunRunning,
      total_waves := Some (length (planned_waves db run d)),
      started_at := (if resuming then started_at r else Some now)\<rparr>) db1"
    have "wave_loop e rid (current_wave_index run) (length (planned_waves db run d)) 0
      (planned_waves db run d) \<lparr>succeeded = 0, failed = 0, skipped = 0\<rparr> db2 = (out, db')"
      using started(8) False by (simp add: eq start_waves_def planned_waves_def [symmetric] Let_def db2_def)
    then show ?thesis
      by (rule wave_loop_gated) (use assms(3) runs1 in \<open>auto simp: db2_def set_run_lookup\<close>)
  qed
qed auto

theorem gated_run_executes_one_wave_witness:
  "length (executed (PausedAfterWave 0 \<lparr>succeeded = 1, failed = 0, skipped = 0\<rparr> None) (current_wave_index demo_run) 0
     (planned_waves demo_bulk demo_run demo_decision)) \<le> 1 \<and> length (planned_waves demo_bulk demo_run demo_decision) = 3"
proof -
  have ex: "execute_fleet_bulk_run demo_env 0 False 1 demo_bulk =
      (Inr (PausedAfterWave 0 \<lparr>succeeded = 1, failed = 0, skipped = 0\<rparr> None),
       snd (execute_fleet_bulk_run demo_env 0 False 1 demo_bulk))"
    using demo_execution by (metis prod.collapse)
  have "map_of (runs demo_bulk) 1 = Some demo_run" "gate_mode demo_run \<noteq> ''health_stable''"
    "find (\<lambda>d. fd_id d = br_decision_id demo_run) (decisions (targeting demo_bulk)) = Some demo_decision"
    by (simp_all add: demo_bulk_def demo_run_def demo_decision_def)
  from gated_run_executes_one_wave [OF ex this]
  have "length (executed (PausedAfterWave 0 \<lparr>succeeded = 1, failed = 0, skipped = 0\<rparr> None) (current_wave_index demo_run) 0
     (planned_waves demo_bulk demo_run demo_decision)) \<le> 1" by blast
  moreover have "length (planned_waves demo_bulk demo_run demo_decision) = 3" by code_simp
  ultimately show ?thesis by blast
qed

section \<open>Cancelling and resuming\<close>

lemma cancel_Inr:
  "cancel_fleet_bulk_op now u rid db = Inr db' \<Longrightarrow>
     (\<exists>r. map_of (runs db') rid = Some r \<and> br_status r = RunCancelled) \<and> targeting db' = targeting db"
  by (auto simp: cancel_fleet_bulk_op_def set_run_lookup split: option.splits if_splits)

text \<open>
  A cancellation that arrives while a wave runs is lost at the next write: if the
  cancel route accepts the request during the last wave, the run still ends as completed;
  if it does so during an earlier wave whose gate does not pass, the run ends paused, and
  can be resumed.
\<close>

theorem cancel_during_wave_is_lost:
  assumes "map_of (runs db) rid = Some run" and "br_status run = RunRunning"
    and "before_wave e idx = NoRequest" and "during_wave e idx = CancelRequest t u"
    and "cancel_fleet_bulk_op t u rid (snd (run_wave e rid idx run ms (tot, db))) = Inr db2"
    and "ws = [] \<or> gate_mode run \<noteq> ''health_stable''"
  shows "\<exists>r r'. map_of (runs db2) rid = Some r \<and> br_status r = RunCancelled \<and>
    map_of (runs (snd (wave_loop e rid idx nw idx ((label, ms) # ws) tot db))) rid = Some r' \<and>
    br_status r' = (if ws = [] then RunCompleted else RunPausedGate)"
proof -
  obtain tot' db1 where wv: "run_wave e rid idx run ms (tot, db) = (tot', db1)" by fastforce
  have sv: "serve rid (during_wave e idx) db1 = db2" using assms(4,5) wv by simp
  obtain r where r: "map_of (runs db2) rid = Some r" "br_status r = RunCancelled"
    using cancel_Inr [OF assms(5)] by blast
  have loop: "wave_loop e rid idx nw idx ((label, ms) # ws) tot db =
     (if ws = [] then wave_loop e rid idx nw (Suc idx) ws tot' db2
      else (case after_wave e rid idx run ms tot' db2 of
          (Some out, db3) \<Rightarrow> (out, db3) | (None, db3) \<Rightarrow> wave_loop e rid idx nw (Suc idx) ws tot' db3))"
    using assms(1-3) wv sv by simp
  show ?thesis
  proof (cases "ws = []")
    case True
    with loop have "snd (wave_loop e rid idx nw idx ((label, ms) # ws) tot db) =
        set_run rid (\<lambda>r. r\<lparr>br_status := RunCompleted, completed_at := Some (clock e (Suc idx))\<rparr>) db2"
      by simp
    with True r show ?thesis by (simp add: set_run_lookup del: wave_loop.simps)
  next
    case False
    then have "\<not> wave_gate_passes (targeting db2) (map fm_id ms) (gate_mode run)"
      using assms(6) gate_passes_health by blast
    with False r show ?thesis
      by (auto simp: loop after_wave_def pause_at_gate_def set_run_lookup Let_def simp del: wave_loop.simps)
  qed
qed

definition demo_running :: bulk_db where
  "demo_running = demo_bulk\<lparr>runs := [(1, demo_run\<lparr>br_status := RunRunning\<rparr>)]\<rparr>"

theorem cancel_during_wave_is_lost_witness:
  "\<exists>r'. map_of (runs (snd (wave_loop (demo_env\<lparr>during_wave := (\<lambda>k. CancelRequest 4 demo_user)\<rparr>) 1 0 1 0
       [(''a'', [demo_node 1 ''a''])] \<lparr>succeeded = 0, failed = 0, skipped = 0\<rparr> demo_running))) 1 = Some r' \<and>
     br_status r' = RunCompleted"
proof -
  let ?e = "demo_env\<lparr>during_wave := (\<lambda>k. CancelRequest 4 demo_user)\<rparr>"
  let ?db1 = "snd (run_wave ?e 1 0 (demo_run\<lparr>br_status := RunRunning\<rparr>) [demo_node 1 ''a'']
      (\<lparr>succeeded = 0, failed = 0, skipped = 0\<rparr>, demo_running))"
  have "isl (cancel_fleet_bulk_op 4 demo_user 1 ?db1) = False" by code_simp
  then obtain db2 where c: "cancel_fleet_bulk_op 4 demo_user 1 ?db1 = Inr db2"
    by (cases "cancel_fleet_bulk_op 4 demo_user 1 ?db1") auto
  have "map_of (runs demo_running) 1 = Some (demo_run\<lparr>br_status := RunRunning\<rparr>)"
    by (simp add: demo_running_def)
  from cancel_during_wave_is_lost [OF this _ _ _ c, where ws = "[]" and nw = 1 and label = "''a''"]
  show ?thesis by (simp add: demo_env_def del: wave_loop.simps) blast
qed

text \<open>
  Resuming a paused run through the route never works: whenever the route accepts the
  request, the task it queues finds the run in status running and refuses it, leaving the
  run in that status, in which every later execution and resume is refused as well.
\<close>

theorem resume_route_strands_run:
  assumes "resume_route u rid db = Inr db'"
  shows "resume_task e now rid db' = (Inl (RunNotPaused RunRunning), db') \<and>
    execute_fleet_bulk_run e now resuming rid db' = (Inl (RunNotStartable RunRunning), db') \<and>
    resume_route u' rid db' = Inl BadRequest"
proof -
  obtain r where "map_of (runs db') rid = Some r" "br_status r = RunRunning"
    using assms by (auto simp: resume_route_def set_run_lookup Let_def split: option.splits if_splits)
  then show ?thesis by (simp add: resume_task_def execute_fleet_bulk_run_def resume_route_def)
qed

theorem resume_route_strands_run_witness:
  "\<exists>db'. resume_route demo_user 1 (demo_bulk\<lparr>runs := [(1, demo_run\<lparr>br_status := RunPausedGate\<rparr>)]\<rparr>) = Inr db' \<and>
     resume_task demo_env 0 1 db' = (Inl (RunNotPaused RunRunning), db')"
proof -
  let ?db = "demo_bulk\<lparr>runs := [(1, demo_run\<lparr>br_status := RunPausedGate\<rparr>)]\<rparr>"
  have "isl (resume_route demo_user 1 ?db) = False" by code_simp
  then obtain db' where "resume_route demo_user 1 ?db = Inr db'" by (cases "resume_route demo_user 1 ?db") auto
  with resume_route_strands_run [OF this, of demo_env 0] show ?thesis by blast
qed

definition demo_paused :: bulk_db where
  "demo_paused = snd (execute_fleet_bulk_run demo_env 0 False 1 demo_bulk)"

definition demo_pruned :: bulk_db where
  "demo_pruned = demo_paused\<lparr>targeting := (targeting demo_paused)\<lparr>fleet_members :=
     filter (\<lambda>m. fm_id m \<noteq> 1) (fleet_members (targeting demo_paused))\<rparr>\<rparr>"

text \<open>
  A resumed run follows a plan made anew: a run over three fault domains pauses after
  the first; when the member of the first domain is pruned meanwhile, the resumed execution
  counts its waves from the new plan, skips the second domain's member without a result,
  and reports the run as completed.
\<close>

theorem resume_skips_member:
  "map_option br_status (map_of (runs demo_pruned) 1) = Some RunPausedGate \<and>
   fst (resume_task demo_env 0 1 demo_pruned) = Inr (CompletedRun 2 \<lparr>succeeded = 1, failed = 0, skipped = 0\<rparr>) \<and>
   2 \<in> set (resolved_member_ids demo_decision) \<and> member_by_id (targeting demo_pruned) 2 \<noteq> None \<and>
   \<not> has_row 1 2 (results (snd (resume_task demo_env 0 1 demo_pruned)))"
  by code_simp

end
