(* ===== verification/Fleet_Policy.thy ===== *)
theory Fleet_Policy
  imports Fleet_Bulkop
begin

text \<open>
  Fleet policies, \<^verbatim>\<open>src/backend/services/fleet_policy_service.py\<close> with the constants and rows
  of \<^verbatim>\<open>src/backend/models/fleet_policy.py\<close>: the evaluation of a policy over the members of a
  target (inform), and the remediation of the drifted members through a gated bulk run
  (enforce), which hands over to the executor of theory \<open>Fleet_Bulkop\<close>.
\<close>

section \<open>Policies and evaluations\<close>

datatype compliance_status = Compliant | Drifted | ComplianceUnknown

datatype compliance_detail =
    NeverReconciled
  | MissingLabels "string list"
  | OsFactsMissing
  | OsMismatch string string
  | VersionBelow string string
  | UnknownKind string

record desired_state =
  required_labels :: "string list"
  desired_os :: "string option"
  min_version :: "string option"

record fleet_policy =
  fp_id :: int
  fp_project_id :: "int option"
  fp_target_id :: int
  fp_kind :: string
  fp_mode :: string
  desired :: desired_state

record member_result =
  mr_member_id :: int
  mr_status :: compliance_status
  mr_detail :: "compliance_detail option"
  desired_labels :: "(string, string) dict option"

record compliance_result =
  cr_compliant :: "member_result list"
  cr_drifted :: "member_result list"
  cr_unknown :: "member_result list"

record policy_evaluation =
  pe_policy_id :: int
  pe_project_id :: "int option"
  pe_evaluated_at :: instant
  pe_evaluated_by :: string
  pe_selector :: "selector option"
  pe_desired :: desired_state
  pe_compliant_count :: nat
  pe_drifted_count :: nat
  pe_unknown_count :: nat
  pe_total_count :: nat
  pe_member_results :: "(int \<times> compliance_status \<times> compliance_detail option) list"
  pe_enforced_run_id :: "int option"
  pe_mode :: string

record policy_db =
  bulk :: bulk_db
  targets :: "(int, fleet_target) dict"
  evaluations :: "policy_evaluation list"
  queued_runs :: "int list"

datatype policy_error =
    TargetNotFound int
  | SelectorInvalid fleet_error
  | ModeNotEnforce string
  | KindNotEnforceable string
  | NoSafeAction string

definition KIND_SUPPORTS_ENFORCE :: "(string, bool) dict" where
  "KIND_SUPPORTS_ENFORCE = [(''label-compliance'', True), (''os-compliance-seed'', False)]"

definition KIND_REMEDIATION_ACTION :: "(string, string) dict" where
  "KIND_REMEDIATION_ACTION = [(''label-compliance'', ''set-labels'')]"

definition total_count :: "compliance_result \<Rightarrow> nat" where
  "total_count r = length (cr_compliant r) + length (cr_drifted r) + length (cr_unknown r)"

definition drifted_member_ids :: "compliance_result \<Rightarrow> int list" where
  "drifted_member_ids r = map mr_member_id (cr_drifted r)"

section \<open>Evaluating one member\<close>

definition resolve_member_ids_readonly ::
  "targeting_db \<Rightarrow> fleet_target \<Rightarrow> user \<Rightarrow> policy_error + fleet_member list" where
  "resolve_member_ids_readonly db t u =
     (case validate_selector (selector_of t) of
        Some e \<Rightarrow> Inl (SelectorInvalid e)
      | None \<Rightarrow> Inr (filter (\<lambda>m. matches_selector m (label_filters_of (selector_of t))) (scoped_members db u)))"

definition parse_version :: "string \<Rightarrow> int list" where
  "parse_version v = map (\<lambda>part. case int_of_str part of Some i \<Rightarrow> i | None \<Rightarrow> 0) (str_split CHR ''.'' v)"

fun missing_labels :: "(string, string) dict \<Rightarrow> string list \<Rightarrow> string list" where
  "missing_labels assigned [] = []"
| "missing_labels assigned (req # reqs) =
     (case str_partition CHR ''='' req of
        (key, found, v) \<Rightarrow>
          if found \<and> map_of assigned key \<noteq> Some v then req # missing_labels assigned reqs
          else missing_labels assigned reqs)"

fun merge_required :: "(string, string) dict \<Rightarrow> string list \<Rightarrow> (string, string) dict" where
  "merge_required merged [] = merged"
| "merge_required merged (req # reqs) =
     (case str_partition CHR ''='' req of
        (key, found, v) \<Rightarrow> merge_required (if found then dict_set key v merged else merged) reqs)"

definition evaluate_label_compliance :: "fleet_member \<Rightarrow> desired_state \<Rightarrow> member_result" where
  "evaluate_label_compliance m want =
     (if last_reconciled_at m = None
      then \<lparr>mr_member_id = fm_id m, mr_status = ComplianceUnknown, mr_detail = Some NeverReconciled,
            desired_labels = None\<rparr>
      else let missing = missing_labels (assigned_labels m) (required_labels want)
           in if missing = []
              then \<lparr>mr_member_id = fm_id m, mr_status = Compliant, mr_detail = None, desired_labels = None\<rparr>
              else \<lparr>mr_member_id = fm_id m, mr_status = Drifted, mr_detail = Some (MissingLabels missing),
                    desired_labels = Some (merge_required (assigned_labels m) (required_labels want))\<rparr>)"

definition text_or_empty :: "string option \<Rightarrow> string" where
  "text_or_empty s = (case s of None \<Rightarrow> '''' | Some x \<Rightarrow> x)"

definition evaluate_os_compliance_seed :: "fleet_member \<Rightarrow> desired_state \<Rightarrow> member_result" where
  "evaluate_os_compliance_seed m want =
     (let actual_os = text_or_empty (map_of (discovered_labels m) ''os'');
          actual_version = text_or_empty (map_of (discovered_labels m) ''os-version'');
          required_os = text_or_empty (desired_os want);
          least = text_or_empty (min_version want);
          res = (\<lambda>st detail. \<lparr>mr_member_id = fm_id m, mr_status = st, mr_detail = detail, desired_labels = None\<rparr>)
      in if actual_os = '''' \<or> actual_version = '''' then res ComplianceUnknown (Some OsFactsMissing)
         else if str_lower actual_os \<noteq> str_lower required_os
         then res Drifted (Some (OsMismatch required_os actual_os))
         else if least \<noteq> '''' \<and> parse_version actual_version < parse_version least
         then res Drifted (Some (VersionBelow actual_version least))
         else res Compliant None)"

definition evaluate_member :: "fleet_member \<Rightarrow> string \<Rightarrow> desired_state \<Rightarrow> member_result" where
  "evaluate_member m kind want =
     (if kind = ''label-compliance'' then evaluate_label_compliance m want
      else if kind = ''os-compliance-seed'' then evaluate_os_compliance_seed m want
      else \<lparr>mr_member_id = fm_id m, mr_status = ComplianceUnknown, mr_detail = Some (UnknownKind kind),
            desired_labels = None\<rparr>)"

section \<open>Evaluating a policy\<close>

fun sort_results :: "member_result list \<Rightarrow> compliance_result \<Rightarrow> compliance_result" where
  "sort_results [] r = r"
| "sort_results (x # xs) r =
     sort_results xs (case mr_status x of
         Compliant \<Rightarrow> r\<lparr>cr_compliant := cr_compliant r @ [x]\<rparr>
       | Drifted \<Rightarrow> r\<lparr>cr_drifted := cr_drifted r @ [x]\<rparr>
       | ComplianceUnknown \<Rightarrow> r\<lparr>cr_unknown := cr_unknown r @ [x]\<rparr>)"

definition evaluate_members :: "fleet_policy \<Rightarrow> fleet_member list \<Rightarrow> compliance_result" where
  "evaluate_members p ms =
     sort_results (map (\<lambda>m. evaluate_member m (fp_kind p) (desired p)) ms)
       \<lparr>cr_compliant = [], cr_drifted = [], cr_unknown = []\<rparr>"

definition persist_evaluation ::
  "instant \<Rightarrow> fleet_policy \<Rightarrow> compliance_result \<Rightarrow> string \<Rightarrow> fleet_target \<Rightarrow> int option \<Rightarrow>
     policy_db \<Rightarrow> policy_evaluation \<times> policy_db" where
  "persist_evaluation now p r by_user t run_id db =
     (let ev = \<lparr>pe_policy_id = fp_id p, pe_project_id = fp_project_id p, pe_evaluated_at = now,
          pe_evaluated_by = by_user,
          pe_selector = ft_selector t, pe_desired = desired p,
          pe_compliant_count = length (cr_compliant r), pe_drifted_count = length (cr_drifted r),
          pe_unknown_count = length (cr_unknown r), pe_total_count = total_count r,
          pe_member_results = map (\<lambda>x. (mr_member_id x, mr_status x, mr_detail x))
            (cr_compliant r @ cr_drifted r @ cr_unknown r),
          pe_enforced_run_id = run_id, pe_mode = fp_mode p\<rparr>
      in (ev, db\<lparr>evaluations := evaluations db @ [ev]\<rparr>))"

definition evaluate_policy ::
  "instant \<Rightarrow> fleet_policy \<Rightarrow> user \<Rightarrow> string \<Rightarrow> policy_db \<Rightarrow>
     policy_error + compliance_result \<times> policy_evaluation \<times> policy_db" where
  "evaluate_policy now p u by_user db =
     (case map_of (targets db) (fp_target_id p) of
        None \<Rightarrow> Inl (TargetNotFound (fp_target_id p))
      | Some t \<Rightarrow>
          (case resolve_member_ids_readonly (targeting (bulk db)) t u of
             Inl e \<Rightarrow> Inl e
           | Inr ms \<Rightarrow> (let r = evaluate_members p ms; (ev, db') = persist_evaluation now p r by_user t None db
                        in Inr (r, ev, db'))))"

section \<open>Enforcing a policy\<close>

definition remediation_labels :: "fleet_policy \<Rightarrow> (string, string) dict" where
  "remediation_labels p =
     (if fp_kind p = ''label-compliance'' then merge_required [] (required_labels (desired p)) else [])"

definition make_enforce_run :: "fleet_policy \<Rightarrow> int \<Rightarrow> string \<Rightarrow> int \<Rightarrow> string option \<Rightarrow> bulk_run" where
  "make_enforce_run p decision_id action workers gate =
     \<lparr>br_decision_id = decision_id, br_project_id = fp_project_id p, br_action = action,
      action_labels = remediation_labels p, wave_by = ''fault_domain'', concurrency = workers,
      gate_mode = (case gate of None \<Rightarrow> GATE_MODE_MANUAL | Some g \<Rightarrow> g), strategy_id = None,
      br_status = RunPending, current_wave_index = 0, total_waves = None, error_message = None,
      started_at = None, completed_at = None, gate_resumes_at = None\<rparr>"

text \<open>The primary keys \<open>did\<close> and \<open>rid\<close> of the new rows are the ones the database assigns.\<close>

definition launch_enforcement ::
  "instant \<Rightarrow> int \<Rightarrow> int \<Rightarrow> fleet_policy \<Rightarrow> fleet_target \<Rightarrow> compliance_result \<Rightarrow> string \<Rightarrow> string \<Rightarrow> int \<Rightarrow>
     string option \<Rightarrow> policy_db \<Rightarrow> policy_db" where
  "launch_enforcement now did rid p t r action by_user workers gate db =
     (let (d, tdb) = decision_from_member_ids did now (targeting (bulk db)) t (drifted_member_ids r) by_user;
          run = make_enforce_run p (fd_id d) action workers gate;
          b = (bulk db)\<lparr>targeting := tdb, runs := dict_set rid run (runs (bulk db))\<rparr>
      in db\<lparr>bulk := b, queued_runs := queued_runs db @ [rid]\<rparr>)"

definition enforce_policy ::
  "instant \<Rightarrow> int \<Rightarrow> int \<Rightarrow> fleet_policy \<Rightarrow> user \<Rightarrow> string \<Rightarrow> int \<Rightarrow> string option \<Rightarrow> policy_db \<Rightarrow>
     policy_error + compliance_result \<times> policy_evaluation \<times> int option \<times> policy_db" where
  "enforce_policy now did rid p u by_user workers gate db =
     (if fp_mode p \<noteq> ''enforce'' then Inl (ModeNotEnforce (fp_mode p))
      else if \<not> dict_get_or KIND_SUPPORTS_ENFORCE (fp_kind p) False then Inl (KindNotEnforceable (fp_kind p))
      else (case map_of (targets db) (fp_target_id p) of
          None \<Rightarrow> Inl (TargetNotFound (fp_target_id p))
        | Some t \<Rightarrow>
            (case resolve_member_ids_readonly (targeting (bulk db)) t u of
               Inl e \<Rightarrow> Inl e
             | Inr ms \<Rightarrow>
                 (let r = evaluate_members p ms
                  in if cr_drifted r = []
                     then (let (ev, db') = persist_evaluation now p r by_user t None db in Inr (r, ev, None, db'))
                     else (case map_of KIND_REMEDIATION_ACTION (fp_kind p) of
                         None \<Rightarrow> Inl (NoSafeAction (fp_kind p))
                       | Some action \<Rightarrow>
                           if action \<notin> set SAFE_ACTIONS then Inl (NoSafeAction (fp_kind p))
                           else (let db1 = launch_enforcement now did rid p t r action by_user workers gate db;
                                     (ev, db') = persist_evaluation now p r by_user t (Some rid) db1
                                 in Inr (r, ev, Some rid, db')))))))"

section \<open>Evaluation\<close>

lemma sort_results_eq:
  "sort_results xs r =
     \<lparr>cr_compliant = cr_compliant r @ filter (\<lambda>x. mr_status x = Compliant) xs,
      cr_drifted = cr_drifted r @ filter (\<lambda>x. mr_status x = Drifted) xs,
      cr_unknown = cr_unknown r @ filter (\<lambda>x. mr_status x = ComplianceUnknown) xs\<rparr>"
  by (induction xs r rule: sort_results.induct) (auto split: compliance_status.splits)

lemma partition_lengths:
  "length (filter (\<lambda>x. mr_status x = Compliant) xs) + length (filter (\<lambda>x. mr_status x = Drifted) xs) +
     length (filter (\<lambda>x. mr_status x = ComplianceUnknown) xs) = length xs"
proof (induction xs)
  case (Cons x xs)
  then show ?case by (cases "mr_status x") auto
qed simp

lemma evaluate_member_id [simp]: "mr_member_id (evaluate_member m k want) = fm_id m"
  by (simp add: evaluate_member_def evaluate_label_compliance_def evaluate_os_compliance_seed_def Let_def)

lemma evaluate_members_total: "total_count (evaluate_members p ms) = length ms"
  using partition_lengths [of "map (\<lambda>m. evaluate_member m (fp_kind p) (desired p)) ms"]
  by (simp add: evaluate_members_def sort_results_eq total_count_def)

lemma evaluate_members_drifted:
  "drifted_member_ids (evaluate_members p ms) =
     map fm_id (filter (\<lambda>m. mr_status (evaluate_member m (fp_kind p) (desired p)) = Drifted) ms)"
  by (simp add: evaluate_members_def sort_results_eq drifted_member_ids_def filter_map comp_def)

lemma resolve_readonly_Inr:
  "resolve_member_ids_readonly db t u = Inr ms \<Longrightarrow>
     ms = filter (\<lambda>m. matches_selector m (label_filters_of (selector_of t))) (scoped_members db u)"
  by (auto simp: resolve_member_ids_readonly_def split: option.splits)

text \<open>
  Informing changes nothing but the history: a successful evaluation appends exactly
  one snapshot and leaves members, decisions, runs, results and the queue as they were; its
  counts cover every evaluated member once, and it reports as drifted exactly the members
  in the caller's scope that match the selector and whose own evaluation says so.
\<close>

theorem evaluate_policy_informs:
  assumes "evaluate_policy now p u by_user db = Inr (r, ev, db')"
    and "map_of (targets db) (fp_target_id p) = Some t"
  shows "db' = db\<lparr>evaluations := evaluations db @ [ev]\<rparr> \<and>
    pe_total_count ev = pe_compliant_count ev + pe_drifted_count ev + pe_unknown_count ev \<and>
    length (pe_member_results ev) = pe_total_count ev \<and> pe_enforced_run_id ev = None \<and>
    (i \<in> set (drifted_member_ids r) \<longleftrightarrow>
      (\<exists>m \<in> set (fleet_members (targeting (bulk db))). fm_id m = i \<and> in_scope (targeting (bulk db)) u m \<and>
        (\<forall>f \<in> set (label_filters_of (selector_of t)). filter_holds (combined_labels m) f) \<and>
        mr_status (evaluate_member m (fp_kind p) (desired p)) = Drifted))"
proof -
  obtain ms where ms: "resolve_member_ids_readonly (targeting (bulk db)) t u = Inr ms"
    and r: "r = evaluate_members p ms" and ev: "persist_evaluation now p r by_user t None db = (ev, db')"
    using assms by (auto simp: evaluate_policy_def Let_def split: sum.splits prod.splits)
  have "i \<in> set (drifted_member_ids r) \<longleftrightarrow>
      (\<exists>m \<in> set ms. fm_id m = i \<and> mr_status (evaluate_member m (fp_kind p) (desired p)) = Drifted)"
    by (auto simp: r evaluate_members_drifted)
  moreover have "set ms = {m \<in> set (fleet_members (targeting (bulk db))). in_scope (targeting (bulk db)) u m \<and>
      (\<forall>f \<in> set (label_filters_of (selector_of t)). filter_holds (combined_labels m) f)}"
    unfolding resolve_readonly_Inr [OF ms] by (auto simp: scoped_members_set matches_selector_iff)
  ultimately show ?thesis
    using ev by (auto simp: persist_evaluation_def total_count_def Let_def)
qed

section \<open>Enforcement\<close>

text \<open>
  Enforcing goes through the gated executor only: a successful enforcement is of an
  enforceable kind in enforce mode and writes to no member; without drift it starts
  nothing; with drift it queues exactly one pending run, whose action is \<^verbatim>\<open>set-labels\<close> with
  the policy's own labels, over a new decision that lists exactly the drifted members and is
  the only active one of the target.
\<close>

theorem enforce_policy_launches:
  assumes "enforce_policy now did rid p u by_user workers gate db = Inr (r, ev, run, db')"
    and "map_of (targets db) (fp_target_id p) = Some t"
  shows "fp_mode p = ''enforce'' \<and> fp_kind p = ''label-compliance'' \<and>
    fleet_members (targeting (bulk db')) = fleet_members (targeting (bulk db)) \<and>
    pe_enforced_run_id ev = run \<and> (run = None \<longleftrightarrow> drifted_member_ids r = []) \<and>
    (run = None \<longrightarrow> bulk db' = bulk db \<and> queued_runs db' = queued_runs db) \<and>
    (run \<noteq> None \<longrightarrow> run = Some rid \<and> queued_runs db' = queued_runs db @ [rid] \<and>
      (\<exists>d b. filter (active (ft_id t)) (decisions (targeting (bulk db'))) = [d] \<and>
         resolved_member_ids d = drifted_member_ids r \<and>
         map_of (runs (bulk db')) rid = Some b \<and> br_decision_id b = fd_id d \<and> br_status b = RunPending \<and>
         br_action b = ''set-labels'' \<and> action_labels b = merge_required [] (required_labels (desired p))))"
proof -
  have guards: "fp_mode p = ''enforce''" "fp_kind p = ''label-compliance''"
    using assms(1) by (auto simp: enforce_policy_def KIND_SUPPORTS_ENFORCE_def dict_get_or_def split: if_splits)
  obtain ms where ms: "resolve_member_ids_readonly (targeting (bulk db)) t u = Inr ms"
    and r: "r = evaluate_members p ms"
    using assms guards by (auto simp: enforce_policy_def KIND_SUPPORTS_ENFORCE_def KIND_REMEDIATION_ACTION_def
        SAFE_ACTIONS_def dict_get_or_def Let_def split: sum.splits prod.splits if_splits)
  have nil: "drifted_member_ids r = [] \<longleftrightarrow> cr_drifted r = []" by (simp add: drifted_member_ids_def)
  show ?thesis
  proof (cases "cr_drifted r = []")
    case True
    then have "persist_evaluation now p r by_user t None db = (ev, db')" "run = None"
      using assms guards ms r by (auto simp: enforce_policy_def KIND_SUPPORTS_ENFORCE_def dict_get_or_def Let_def
          split: prod.splits)
    then show ?thesis using guards nil True by (auto simp: persist_evaluation_def Let_def)
  next
    case False
    define db1 where "db1 = launch_enforcement now did rid p t r ''set-labels'' by_user workers gate db"
    have ev: "persist_evaluation now p r by_user t (Some rid) db1 = (ev, db')" "run = Some rid"
      using assms guards ms r False
      by (auto simp: enforce_policy_def KIND_SUPPORTS_ENFORCE_def KIND_REMEDIATION_ACTION_def SAFE_ACTIONS_def
          dict_get_or_def db1_def Let_def split: prod.splits)
    obtain d tdb where d: "decision_from_member_ids did now (targeting (bulk db)) t (drifted_member_ids r) by_user = (d, tdb)"
      by fastforce
    have rec: "records_decision (targeting (bulk db)) d tdb \<and> fd_target_id d = ft_id t"
      by (rule decision_from_member_ids_records [OF d])
    then have act: "filter (active (ft_id t)) (decisions tdb) = [d]" "fleet_members tdb = fleet_members (targeting (bulk db))"
      by (auto simp: records_decision_def active_def)
    have ids: "resolved_member_ids d = drifted_member_ids r"
      using d by (auto simp: decision_from_member_ids_def Let_def)
    have "bulk db' = bulk db1" "queued_runs db' = queued_runs db1" "pe_enforced_run_id ev = Some rid"
      using ev(1) by (auto simp: persist_evaluation_def Let_def)
    then show ?thesis
      using guards nil False ev(2) act ids d
      by (auto simp: db1_def launch_enforcement_def make_enforce_run_def remediation_labels_def Let_def)
  qed
qed

definition demo_policy :: fleet_policy where
  "demo_policy = \<lparr>fp_id = 1, fp_project_id = Some 10, fp_target_id = 3, fp_kind = ''label-compliance'',
     fp_mode = ''enforce'', desired = \<lparr>required_labels = [''env=prod'', ''team=net''], desired_os = None,
     min_version = None\<rparr>\<rparr>"

definition demo_policy_db :: policy_db where
  "demo_policy_db = \<lparr>bulk = demo_bulk, targets = [(3, demo_target)], evaluations = [], queued_runs = []\<rparr>"

lemma demo_policy_target: "map_of (targets demo_policy_db) (fp_target_id demo_policy) = Some demo_target"
  by (simp add: demo_policy_db_def demo_policy_def)

theorem evaluate_policy_informs_witness:
  "\<exists>r ev db'. evaluate_policy 0 demo_policy demo_user ''op'' demo_policy_db = Inr (r, ev, db') \<and>
     bulk db' = demo_bulk \<and> 2 \<in> set (drifted_member_ids r)"
proof -
  have "isl (evaluate_policy 0 demo_policy demo_user ''op'' demo_policy_db) = False" by code_simp
  then obtain r ev db' where ok: "evaluate_policy 0 demo_policy demo_user ''op'' demo_policy_db = Inr (r, ev, db')"
    by (cases "evaluate_policy 0 demo_policy demo_user ''op'' demo_policy_db") auto
  have m: "demo_node 2 ''b'' \<in> set (fleet_members (targeting (bulk demo_policy_db)))" "fm_id (demo_node 2 ''b'') = 2"
    by (simp_all add: demo_policy_db_def demo_bulk_def demo_node_def demo_member_def)
  have "in_scope (targeting (bulk demo_policy_db)) demo_user (demo_node 2 ''b'')"
    by (auto simp: in_scope_def demo_policy_db_def demo_bulk_def demo_fleet_def demo_user_def demo_node_def demo_member_def)
  moreover have "matches_selector (demo_node 2 ''b'') (label_filters_of (selector_of demo_target))" by code_simp
  moreover have "mr_status (evaluate_member (demo_node 2 ''b'') (fp_kind demo_policy) (desired demo_policy)) = Drifted"
    by code_simp
  ultimately have "2 \<in> set (drifted_member_ids r)"
    using evaluate_policy_informs [OF ok demo_policy_target, of 2] m by (auto simp: matches_selector_iff)
  moreover have "bulk db' = demo_bulk"
    using evaluate_policy_informs [OF ok demo_policy_target] by (simp add: demo_policy_db_def)
  ultimately show ?thesis using ok by blast
qed

theorem enforce_policy_launches_witness:
  "\<exists>r ev db'. enforce_policy 0 9 4 demo_policy demo_user ''op'' 5 None demo_policy_db = Inr (r, ev, Some 4, db') \<and>
     queued_runs db' = [4]"
proof -
  have "(case enforce_policy 0 9 4 demo_policy demo_user ''op'' 5 None demo_policy_db of
      Inr (r, ev, run, db') \<Rightarrow> run = Some 4 | _ \<Rightarrow> False)" by code_simp
  then obtain r ev db' where ok: "enforce_policy 0 9 4 demo_policy demo_user ''op'' 5 None demo_policy_db = Inr (r, ev, Some 4, db')"
    by (cases "enforce_policy 0 9 4 demo_policy demo_user ''op'' 5 None demo_policy_db") auto
  from enforce_policy_launches [OF ok demo_policy_target] show ?thesis
    using ok by (auto simp: demo_policy_db_def)
qed

section \<open>Remediation converges\<close>

lemma missing_labels_iff: "missing_labels assigned reqs = [] \<longleftrightarrow> (\<forall>f \<in> set reqs. filter_holds assigned f)"
  by (induction reqs) (auto simp: filter_holds_partition split: prod.splits)

definition requires :: "string list \<Rightarrow> string \<Rightarrow> string \<Rightarrow> bool" where
  "requires reqs k v \<longleftrightarrow> (\<exists>req \<in> set reqs. str_partition CHR ''='' req = (k, True, v))"

lemma merge_required_other: "\<forall>v. \<not> requires reqs k v \<Longrightarrow> map_of (merge_required d reqs) k = map_of d k"
proof (induction reqs arbitrary: d)
  case (Cons req reqs)
  obtain key found v where p: "str_partition CHR ''='' req = (key, found, v)" by (cases "str_partition CHR ''='' req")
  have "\<forall>v. \<not> requires reqs k v" and "\<not> (found \<and> key = k)"
    using Cons.prems p by (auto simp: requires_def)
  then show ?case using Cons.IH p by auto
qed simp

lemma merge_required_holds:
  assumes "requires reqs k v" and "\<And>v'. requires reqs k v' \<Longrightarrow> v' = v"
  shows "map_of (merge_required d reqs) k = Some v"
  using assms
proof (induction reqs arbitrary: d)
  case Nil
  then show ?case by (simp add: requires_def)
next
  case (Cons req reqs)
  obtain key found v0 where p: "str_partition CHR ''='' req = (key, found, v0)" by (cases "str_partition CHR ''='' req")
  have later: "v' = v" if "requires reqs k v'" for v' using Cons.prems(2) that by (auto simp: requires_def)
  show ?case
  proof (cases "requires reqs k v")
    case True
    then show ?thesis using Cons.IH [OF True later] p by simp
  next
    case False
    then have "\<forall>v'. \<not> requires reqs k v'" using later by blast
    moreover have "found \<and> key = k \<and> v0 = v" using Cons.prems(1) False p by (auto simp: requires_def)
    ultimately show ?thesis using p by (simp add: merge_required_other)
  qed
qed



text \<open>
  Policies and targets disagree on an empty selector: a target without filters resolves
  to its pinned members only, and to no member when none is pinned, whereas a policy over
  the same target evaluates, and enforces on, every member in the caller's scope.
\<close>

theorem empty_selector_policy_universe:
  assumes "label_filters_of (selector_of t) = []" and "validate_selector (selector_of t) = None"
    and "pinned_member_ids t = []"
  shows "resolve_member_ids_readonly db t u = Inr (scoped_members db u) \<and> target_member_ids db t u = []"
  using assms by (simp add: resolve_member_ids_readonly_def matches_selector_def target_member_ids_def)

theorem empty_selector_policy_universe_witness:
  "\<exists>t. resolve_member_ids_readonly demo_fleet t demo_user = Inr (scoped_members demo_fleet demo_user) \<and>
     scoped_members demo_fleet demo_user \<noteq> [] \<and> target_member_ids demo_fleet t demo_user = []"
proof -
  let ?t = "demo_target\<lparr>ft_selector := None, pinned_member_ids := []\<rparr>"
  have "scoped_members demo_fleet demo_user \<noteq> []" by code_simp
  then show ?thesis
    using empty_selector_policy_universe [of ?t demo_fleet demo_user] by (auto simp: selector_of_def)
qed

end
