(* ===== verification/Fleet_Reconcile.thy ===== *)
theory Fleet_Reconcile
  imports Fleet_Selector
begin

text \<open>
  Fleet membership (\<^verbatim>\<open>src/backend/services/fleet_reconcile_service.py\<close> and the backfill task of
  \<^verbatim>\<open>src/backend/tasks/fleet_tasks.py\<close>): the lifecycle state and the discovered labels of
  clusters, bare-metal hosts and DPUs, the upsert of one membership row, and the periodic
  task that reconciles every target and prunes memberships without one.
\<close>

section \<open>The inventory\<close>

text \<open>
  The columns of the target rows that the mappers read. A JSON column is absent, an object
  or something else; only the text (or truth) of the keys that are read is kept.
\<close>

datatype 'v json_object = JsonNull | JsonObject "(string, 'v) dict" | JsonOther

record cluster_row =
  kc_name :: "string option"
  kc_project_id :: "int option"
  cloud_provider :: "string option"
  region :: "string option"
  kc_version :: "string option"
  detected_platform_profile :: "string option"
  detected_platform_provider :: "string option"
  kc_status :: "string option"
  platform_capabilities :: "bool json_object"

record host_row =
  bh_name :: "string option"
  bh_project_id :: "int option"
  os_info :: "string option json_object"
  k8s_info :: "string option json_object"
  rshim_present :: "bool option"
  nic_mode :: "string option"
  bmc_vendor :: "string option"
  topology :: "string option"
  bh_discovery_status :: "string option"

record dpu_row =
  dr_name :: "string option"
  dr_project_id :: "int option"
  bmc_ip :: "string option"
  serial_number :: "string option"
  access_mode :: "string option"
  flash_status :: "string option"
  dr_discovery_status :: "string option"
  dpu_os_reachable :: "bool option"

record deployment_row =
  bd_id :: int
  bd_host_id :: int
  bd_status :: "string option"

record inventory =
  clusters :: "(int, cluster_row) dict"
  hosts :: "(int, host_row) dict"
  inventory_dpus :: "(int, dpu_row) dict"
  deployments :: "deployment_row list"

text \<open>\<^verbatim>\<open>a or b\<close> on optional text.\<close>

definition text_or :: "string option \<Rightarrow> string option \<Rightarrow> string option" where
  "text_or a b = (case a of Some (c # cs) \<Rightarrow> a | _ \<Rightarrow> b)"

section \<open>Lifecycle mappers\<close>

definition LIFECYCLE_STATES :: "string list" where
  "LIFECYCLE_STATES = [''provisioning'', ''active'', ''draining'', ''decommissioned'', ''unknown'']"

definition lifecycle_for_cluster :: "cluster_row \<Rightarrow> string" where
  "lifecycle_for_cluster c =
     (let status = norm_text (kc_status c)
      in if status = ''connecting'' then ''provisioning''
         else if status = ''active'' then ''active''
         else if status = ''inactive'' then ''decommissioned''
         else ''unknown'')"

definition lifecycle_for_host :: "host_row \<Rightarrow> deployment_row option \<Rightarrow> string" where
  "lifecycle_for_host h latest =
     (let host_status = norm_text (bh_discovery_status h);
          from_host = (if host_status \<in> {''pending'', ''ssh_probe'', ''bmc_probe'', ''dpu_probe'', ''assessment''}
                       then ''provisioning''
                       else if host_status = ''completed'' then ''active''
                       else ''unknown'')
      in case latest of
           None \<Rightarrow> from_host
         | Some d \<Rightarrow>
             let dep_status = norm_text (bd_status d)
             in if dep_status \<in> {''pending'', ''discovering'', ''planning'', ''in_progress''} then ''provisioning''
                else if dep_status = ''completed'' then ''active''
                else if dep_status = ''cancelled'' then ''decommissioned''
                else from_host)"

definition lifecycle_for_dpu :: "dpu_row \<Rightarrow> string" where
  "lifecycle_for_dpu d =
     (let flash = norm_text (flash_status d)
      in if flash \<in> {''uploading'', ''waiting_reboot''} then ''provisioning''
         else if flash = ''os_online'' then ''active''
         else if flash = ''cancelled'' then ''decommissioned''
         else if flash = ''failed'' then ''unknown''
         else if dpu_os_reachable d = Some True then ''active''
         else ''unknown'')"

section \<open>Label mappers\<close>

definition put_label :: "string \<Rightarrow> string \<Rightarrow> (string, string) dict \<Rightarrow> (string, string) dict" where
  "put_label k v labels = (if v = '''' then labels else dict_set k v labels)"

definition put_flag :: "string \<Rightarrow> bool option \<Rightarrow> (string, string) dict \<Rightarrow> (string, string) dict" where
  "put_flag k v labels =
     (case v of None \<Rightarrow> labels | Some b \<Rightarrow> dict_set k (if b then ''true'' else ''false'') labels)"

definition text_of :: "string option \<Rightarrow> string" where
  "text_of v = (case v of None \<Rightarrow> '''' | Some s \<Rightarrow> s)"

definition has_dpu_cap :: "bool json_object \<Rightarrow> bool option" where
  "has_dpu_cap caps =
     (case caps of
        JsonObject d \<Rightarrow> (case map_of d ''has_dpu'' of Some b \<Rightarrow> Some b | None \<Rightarrow> map_of d ''hasDpu'')
      | _ \<Rightarrow> None)"

definition discovered_labels_for_cluster :: "cluster_row \<Rightarrow> (string, string) dict" where
  "discovered_labels_for_cluster c =
     put_flag ''has-dpu'' (has_dpu_cap (platform_capabilities c))
       (put_label ''status'' (norm_text (kc_status c))
       (put_label ''platform-provider'' (norm_text (detected_platform_provider c))
       (put_label ''platform-profile'' (norm_text (detected_platform_profile c))
       (put_label ''k8s-version'' (norm_text (kc_version c))
       (put_label ''region'' (norm_text (region c))
       (put_label ''vendor'' (norm_text (cloud_provider c))
       (put_label ''name'' (text_of (kc_name c)) [])))))))"

definition json_text :: "string option json_object \<Rightarrow> string \<Rightarrow> string" where
  "json_text j k = (case j of JsonObject d \<Rightarrow> norm_text (dict_get_or d k None) | _ \<Rightarrow> '''')"

definition discovered_labels_for_host :: "host_row \<Rightarrow> (string, string) dict" where
  "discovered_labels_for_host h =
     put_label ''topology'' (norm_text (topology h))
       (put_label ''bmc-vendor'' (norm_text (bmc_vendor h))
       (put_label ''nic-mode'' (norm_text (nic_mode h))
       (put_flag ''has-dpu'' (rshim_present h)
       (put_label ''k8s-version'' (json_text (k8s_info h) ''version'')
       (put_label ''arch'' (json_text (os_info h) ''arch'')
       (put_label ''os-version'' (json_text (os_info h) ''os_version'')
       (put_label ''os'' (json_text (os_info h) ''os_type'')
       (put_label ''name'' (text_of (bh_name h)) []))))))))"

definition discovered_labels_for_dpu :: "dpu_row \<Rightarrow> (string, string) dict" where
  "discovered_labels_for_dpu d =
     put_flag ''reachable'' (dpu_os_reachable d)
       (put_label ''serial'' (norm_text (serial_number d))
       (put_label ''flash-status'' (norm_text (flash_status d))
       (put_label ''access-mode'' (norm_text (access_mode d))
       (dict_set ''vendor'' ''nvidia-bluefield''
       (put_label ''name'' (text_of (text_or (dr_name d) (text_or (bmc_ip d) (serial_number d)))) [])))))"

section \<open>Reconciling one target\<close>

text \<open>What the loader answers for an existing target: labels, name, project, health and lifecycle.\<close>

record loaded_target =
  lt_labels :: "(string, string) dict"
  lt_name :: string
  lt_project_id :: "int option"
  lt_health :: "string option"
  lt_lifecycle :: string

definition latest_deployment :: "int \<Rightarrow> deployment_row list \<Rightarrow> deployment_row option" where
  "latest_deployment hid ds =
     (case filter (\<lambda>d. bd_host_id d = hid) ds of
        [] \<Rightarrow> None
      | d # rest \<Rightarrow> Some (fold (\<lambda>x best. if bd_id best < bd_id x then x else best) rest d))"

definition load_cluster :: "inventory \<Rightarrow> int \<Rightarrow> loaded_target option" where
  "load_cluster iv i = map_option (\<lambda>c.
     \<lparr>lt_labels = discovered_labels_for_cluster c, lt_name = text_of (kc_name c), lt_project_id = kc_project_id c,
      lt_health = kc_status c, lt_lifecycle = lifecycle_for_cluster c\<rparr>) (map_of (clusters iv) i)"

definition load_host :: "inventory \<Rightarrow> int \<Rightarrow> loaded_target option" where
  "load_host iv i = map_option (\<lambda>h.
     \<lparr>lt_labels = discovered_labels_for_host h, lt_name = text_of (bh_name h), lt_project_id = bh_project_id h,
      lt_health = text_or (bh_discovery_status h) None,
      lt_lifecycle = lifecycle_for_host h (latest_deployment i (deployments iv))\<rparr>) (map_of (hosts iv) i)"

definition load_dpu :: "inventory \<Rightarrow> int \<Rightarrow> loaded_target option" where
  "load_dpu iv i = map_option (\<lambda>d.
     \<lparr>lt_labels = discovered_labels_for_dpu d,
      lt_name = text_of (text_or (dr_name d) (text_or (bmc_ip d) (text_or (serial_number d)
        (Some (''dpu-'' @ str_of_int i))))),
      lt_project_id = dr_project_id d,
      lt_health = text_or (flash_status d) (text_or (dr_discovery_status d) None),
      lt_lifecycle = lifecycle_for_dpu d\<rparr>) (map_of (inventory_dpus iv) i)"

definition load_target :: "inventory \<Rightarrow> string \<Rightarrow> int \<Rightarrow> loaded_target option" where
  "load_target iv t i =
     (if t = ''cluster'' then load_cluster iv i
      else if t = ''bare-metal-host'' then load_host iv i
      else if t = ''dpu'' then load_dpu iv i
      else None)"

definition is_member_of :: "string \<Rightarrow> int \<Rightarrow> fleet_member \<Rightarrow> bool" where
  "is_member_of t i m \<longleftrightarrow> member_type m = t \<and> member_id m = i"

definition refresh_member :: "instant \<Rightarrow> loaded_target \<Rightarrow> fleet_member \<Rightarrow> fleet_member" where
  "refresh_member now lt m =
     m\<lparr>fm_project_id := lt_project_id lt, fm_name := lt_name lt, discovered_labels := lt_labels lt,
       health_status := lt_health lt, lifecycle_state := Some (lt_lifecycle lt), last_reconciled_at := Some now\<rparr>"

definition new_member :: "int \<Rightarrow> instant \<Rightarrow> string \<Rightarrow> int \<Rightarrow> loaded_target \<Rightarrow> fleet_member" where
  "new_member pk now t i lt =
     \<lparr>fm_id = pk, member_type = t, member_id = i, fm_name = lt_name lt, fm_project_id = lt_project_id lt,
      discovered_labels = lt_labels lt, assigned_labels = [], fault_domain = None, health_status = lt_health lt,
      lifecycle_state = Some (lt_lifecycle lt), last_reconciled_at = Some now\<rparr>"

text \<open>
  \<open>pk\<close> answers the primary key the database assigns to a new row. The membership rows have
  a unique index on type and target, so the update of the first match is the update of all.
\<close>

definition reconcile_fleet_member ::
  "(targeting_db \<Rightarrow> int) \<Rightarrow> instant \<Rightarrow> inventory \<Rightarrow> targeting_db \<Rightarrow> string \<Rightarrow> int \<Rightarrow> string + bool \<times> targeting_db" where
  "reconcile_fleet_member pk now iv db t i =
     (if t \<notin> set KNOWN_MEMBER_TYPES
      then Inl (''Unknown member_type '' @ quoted t @ ''. Allowed: '' @ repr_strs (sort KNOWN_MEMBER_TYPES))
      else (case load_target iv t i of
          None \<Rightarrow> Inr (False, db)
        | Some lt \<Rightarrow>
            if list_ex (is_member_of t i) (fleet_members db)
            then Inr (True, db\<lparr>fleet_members :=
              map (\<lambda>m. if is_member_of t i m then refresh_member now lt m else m) (fleet_members db)\<rparr>)
            else Inr (True, db\<lparr>fleet_members := fleet_members db @ [new_member (pk db) now t i lt]\<rparr>)))"

section \<open>The backfill task\<close>

record backfill_summary =
  reconciled :: nat
  bf_skipped :: nat
  pruned :: nat
  errors :: nat

definition backfill_one ::
  "(targeting_db \<Rightarrow> int) \<Rightarrow> instant \<Rightarrow> inventory \<Rightarrow> string \<times> int \<Rightarrow> backfill_summary \<times> targeting_db \<Rightarrow>
     backfill_summary \<times> targeting_db" where
  "backfill_one pk now iv ti st =
     (let (s, db) = st
      in case reconcile_fleet_member pk now iv db (fst ti) (snd ti) of
           Inl msg \<Rightarrow> (s\<lparr>errors := Suc (errors s)\<rparr>, db)
         | Inr (True, db') \<Rightarrow> (s\<lparr>reconciled := Suc (reconciled s)\<rparr>, db')
         | Inr (False, db') \<Rightarrow> (s\<lparr>bf_skipped := Suc (bf_skipped s)\<rparr>, db'))"

definition inventory_targets :: "inventory \<Rightarrow> (string \<times> int) list" where
  "inventory_targets iv =
     map (\<lambda>r. (''cluster'', fst r)) (clusters iv) @ map (\<lambda>r. (''bare-metal-host'', fst r)) (hosts iv) @
     map (\<lambda>r. (''dpu'', fst r)) (inventory_dpus iv)"

definition orphan :: "inventory \<Rightarrow> fleet_member \<Rightarrow> bool" where
  "orphan iv m \<longleftrightarrow> member_type m \<in> set KNOWN_MEMBER_TYPES \<and>
     (member_type m, member_id m) \<notin> set (inventory_targets iv)"

definition backfill_fleet_members ::
  "(targeting_db \<Rightarrow> int) \<Rightarrow> instant \<Rightarrow> inventory \<Rightarrow> targeting_db \<Rightarrow> backfill_summary \<times> targeting_db" where
  "backfill_fleet_members pk now iv db =
     (let (s, db1) = fold (backfill_one pk now iv) (inventory_targets iv)
            (\<lparr>reconciled = 0, bf_skipped = 0, pruned = 0, errors = 0\<rparr>, db)
      in (s\<lparr>pruned := length (filter (orphan iv) (fleet_members db1))\<rparr>,
          db1\<lparr>fleet_members := filter (\<lambda>m. \<not> orphan iv m) (fleet_members db1)\<rparr>))"

section \<open>The discovered vocabulary\<close>

text \<open>
  What every reader of discovered labels may rely on: the keys are distinct and from the
  discovered namespace, no value is empty, and every value but the display name is lower case.
\<close>

definition discovered_ok :: "(string, string) dict \<Rightarrow> bool" where
  "discovered_ok labels \<longleftrightarrow> dict_ok labels \<and>
     (\<forall>(k, v) \<in> set labels. k \<in> set DISCOVERED_LABEL_KEYS \<and> v \<noteq> '''' \<and> (k \<noteq> ''name'' \<longrightarrow> str_lower v = v))"

lemma set_dict_set: "x \<in> set (dict_set k v d) \<Longrightarrow> x = (k, v) \<or> x \<in> set d"
  by (induction d) (auto split: if_splits)

lemma discovered_ok_Nil: "discovered_ok []"
  by (simp add: discovered_ok_def)

lemma discovered_ok_set:
  assumes "discovered_ok l" and "k \<in> set DISCOVERED_LABEL_KEYS" and "v \<noteq> ''''"
    and "k = ''name'' \<or> str_lower v = v"
  shows "discovered_ok (dict_set k v l)"
  using assms by (fastforce simp: discovered_ok_def dest: set_dict_set)

lemma discovered_ok_name: "discovered_ok l \<Longrightarrow> discovered_ok (put_label ''name'' v l)"
  by (simp add: put_label_def discovered_ok_set DISCOVERED_LABEL_KEYS_def)

lemma discovered_ok_label:
  "discovered_ok l \<Longrightarrow> k \<in> set DISCOVERED_LABEL_KEYS \<Longrightarrow> str_lower v = v \<Longrightarrow> discovered_ok (put_label k v l)"
  by (simp add: put_label_def discovered_ok_set)

lemma discovered_ok_flag:
  assumes "discovered_ok l" and "k \<in> set DISCOVERED_LABEL_KEYS"
  shows "discovered_ok (put_flag k v l)"
proof (cases v)
  case (Some b)
  have "str_lower (if b then ''true'' else ''false'') = (if b then ''true'' else ''false'')"
    by (simp add: str_lower_def char_lower_def)
  then show ?thesis using assms by (simp add: put_flag_def Some discovered_ok_set)
qed (use assms in \<open>simp add: put_flag_def\<close>)

lemma json_text_lower: "str_lower (json_text j k) = json_text j k"
  by (cases j) (simp_all add: json_text_def norm_text_lower, simp_all add: str_lower_def)

lemmas discovered_ok_intros =
  discovered_ok_Nil discovered_ok_name discovered_ok_label discovered_ok_flag norm_text_lower json_text_lower

lemma discovered_ok_cluster: "discovered_ok (discovered_labels_for_cluster c)"
  unfolding discovered_labels_for_cluster_def
  by (intro discovered_ok_intros) (simp_all add: DISCOVERED_LABEL_KEYS_def)

lemma discovered_ok_host: "discovered_ok (discovered_labels_for_host h)"
  unfolding discovered_labels_for_host_def
  by (intro discovered_ok_intros) (simp_all add: DISCOVERED_LABEL_KEYS_def)

lemma discovered_ok_dpu: "discovered_ok (discovered_labels_for_dpu d)"
  unfolding discovered_labels_for_dpu_def
  by (intro discovered_ok_intros discovered_ok_set)
    (simp_all add: DISCOVERED_LABEL_KEYS_def str_lower_def char_lower_def)

lemma lifecycle_vocabulary:
  "lifecycle_for_cluster c \<in> set LIFECYCLE_STATES - {''draining''}"
  "lifecycle_for_host h dep \<in> set LIFECYCLE_STATES - {''draining''}"
  "lifecycle_for_dpu d \<in> set LIFECYCLE_STATES - {''draining''}"
  by (auto simp: LIFECYCLE_STATES_def lifecycle_for_cluster_def lifecycle_for_host_def lifecycle_for_dpu_def
      Let_def split: option.split)

lemma load_target_cases:
  assumes "load_target iv t i = Some lt"
  obtains (cluster) c where "t = ''cluster''" "map_of (clusters iv) i = Some c" "load_cluster iv i = Some lt"
    | (host) h where "t = ''bare-metal-host''" "map_of (hosts iv) i = Some h" "load_host iv i = Some lt"
    | (dpu) d where "t = ''dpu''" "map_of (inventory_dpus iv) i = Some d" "load_dpu iv i = Some lt"
  using assms
  by (auto simp: load_target_def load_cluster_def load_host_def load_dpu_def split: if_splits)

text \<open>
  What reconciling reads off a target is well formed whatever the inventory holds: the
  discovered labels have distinct keys, all from the discovered namespace and so none that an
  operator may assign, no empty value, and lower-case values except the display name; and
  the lifecycle state is one of the declared states, never \<^verbatim>\<open>draining\<close>.
\<close>

theorem load_target_vocabulary:
  assumes "load_target iv t i = Some lt"
  shows "discovered_ok (lt_labels lt) \<and> fst ` set (lt_labels lt) \<inter> set ASSIGNED_LABEL_KEYS = {} \<and>
    lt_lifecycle lt \<in> set LIFECYCLE_STATES - {''draining''} \<and> t \<in> set KNOWN_MEMBER_TYPES"
proof -
  have ok: "discovered_ok (lt_labels lt) \<and> lt_lifecycle lt \<in> set LIFECYCLE_STATES - {''draining''} \<and>
      t \<in> set KNOWN_MEMBER_TYPES"
    using assms by (cases rule: load_target_cases)
      (insert lifecycle_vocabulary discovered_ok_cluster discovered_ok_host discovered_ok_dpu,
       auto simp: load_cluster_def load_host_def load_dpu_def KNOWN_MEMBER_TYPES_def)
  have "fst ` set (lt_labels lt) \<subseteq> set DISCOVERED_LABEL_KEYS" using ok by (auto simp: discovered_ok_def)
  moreover have "set DISCOVERED_LABEL_KEYS \<inter> set ASSIGNED_LABEL_KEYS = {}"
    by (simp add: DISCOVERED_LABEL_KEYS_def ASSIGNED_LABEL_KEYS_def)
  ultimately show ?thesis using ok by blast
qed

definition demo_cluster :: cluster_row where
  "demo_cluster = \<lparr>kc_name = Some ''Edge=1'', kc_project_id = Some 10, cloud_provider = Some '' AWS '', region = None,
     kc_version = Some '''', detected_platform_profile = None, detected_platform_provider = None,
     kc_status = Some ''Active'', platform_capabilities = JsonObject [(''has_dpu'', False)]\<rparr>"

definition demo_dpu :: dpu_row where
  "demo_dpu = \<lparr>dr_name = None, dr_project_id = None, bmc_ip = Some '''', serial_number = None, access_mode = Some ''BMC'',
     flash_status = None, dr_discovery_status = Some ''failed'', dpu_os_reachable = Some True\<rparr>"

definition demo_inventory :: inventory where
  "demo_inventory = \<lparr>clusters = [(7, demo_cluster)], hosts = [], inventory_dpus = [(4, demo_dpu)], deployments = []\<rparr>"

definition demo_loaded :: loaded_target where
  "demo_loaded = \<lparr>lt_labels = [(''name'', ''Edge=1''), (''vendor'', ''aws''), (''status'', ''active''), (''has-dpu'', ''false'')],
     lt_name = ''Edge=1'', lt_project_id = Some 10, lt_health = Some ''Active'', lt_lifecycle = ''active''\<rparr>"

lemma demo_load: "load_target demo_inventory ''cluster'' 7 = Some demo_loaded"
  by code_simp

theorem load_target_vocabulary_witness:
  "load_target demo_inventory ''cluster'' 7 = Some demo_loaded \<and> discovered_ok (lt_labels demo_loaded)"
  using demo_load load_target_vocabulary [OF demo_load] by blast

section \<open>Memberships as a map from targets\<close>

text \<open>
  The abstract view: a membership is a partial function of type and target. Under the unique
  index the rows and the function determine each other, and reconciling is one map update.
\<close>

definition member_key :: "fleet_member \<Rightarrow> string \<times> int" where
  "member_key m = (member_type m, member_id m)"

definition members_unique :: "targeting_db \<Rightarrow> bool" where
  "members_unique db \<longleftrightarrow> distinct (map member_key (fleet_members db))"

definition member_at :: "targeting_db \<Rightarrow> string \<times> int \<Rightarrow> fleet_member option" where
  "member_at db k = find (\<lambda>m. member_key m = k) (fleet_members db)"

definition upsert_member :: "int \<Rightarrow> instant \<Rightarrow> string \<times> int \<Rightarrow> loaded_target \<Rightarrow> fleet_member option \<Rightarrow> fleet_member" where
  "upsert_member pk now k lt old =
     (case old of None \<Rightarrow> new_member pk now (fst k) (snd k) lt | Some m \<Rightarrow> refresh_member now lt m)"

lemma is_member_of_key: "is_member_of t i m \<longleftrightarrow> member_key m = (t, i)"
  by (simp add: is_member_of_def member_key_def)

lemma member_atD: "member_at db k = Some m \<Longrightarrow> m \<in> set (fleet_members db) \<and> member_key m = k"
  by (auto simp: member_at_def dest: find_SomeD)

lemma member_at_None: "member_at db k = None \<longleftrightarrow> k \<notin> member_key ` set (fleet_members db)"
  by (auto simp: member_at_def find_None_iff)

lemma member_at_iff:
  assumes "members_unique db"
  shows "m \<in> set (fleet_members db) \<longleftrightarrow> member_at db (member_key m) = Some m"
proof
  assume m: "m \<in> set (fleet_members db)"
  then obtain m' where m': "member_at db (member_key m) = Some m'"
    using member_at_None [of db "member_key m"] by (cases "member_at db (member_key m)") auto
  then show "member_at db (member_key m) = Some m"
    using m assms member_atD [OF m'] by (auto simp: members_unique_def distinct_map inj_on_def)
qed (use member_atD in blast)

lemma upsert_key [simp]: "member_key (new_member pk now t i lt) = (t, i)" "member_key (refresh_member now lt m) = member_key m"
  by (simp_all add: member_key_def new_member_def refresh_member_def)

lemma reconcile_unknown:
  "t \<notin> set KNOWN_MEMBER_TYPES \<Longrightarrow> \<exists>msg. reconcile_fleet_member pk now iv db t i = Inl msg"
  by (simp add: reconcile_fleet_member_def)

lemma reconcile_missing:
  "t \<in> set KNOWN_MEMBER_TYPES \<Longrightarrow> load_target iv t i = None \<Longrightarrow> reconcile_fleet_member pk now iv db t i = Inr (False, db)"
  by (simp add: reconcile_fleet_member_def)

lemma known_if_loaded: "load_target iv t i = Some lt \<Longrightarrow> t \<in> set KNOWN_MEMBER_TYPES"
  by (auto simp: load_target_def KNOWN_MEMBER_TYPES_def split: if_splits)

lemma map_keep_key:
  "map member_key (map (\<lambda>m. if member_key m = k then refresh_member now lt m else m) ms) = map member_key ms"
  by simp

lemma reconcile_upsert:
  assumes "load_target iv t i = Some lt"
  obtains db' where "reconcile_fleet_member pk now iv db t i = Inr (True, db')"
    "member_at db' = (member_at db)((t, i) \<mapsto> upsert_member (pk db) now (t, i) lt (member_at db (t, i)))"
    "members_unique db' \<longleftrightarrow> members_unique db" "decisions db' = decisions db" "projects db' = projects db"
proof (cases "list_ex (is_member_of t i) (fleet_members db)")
  case True
  let ?ms = "map (\<lambda>m. if member_key m = (t, i) then refresh_member now lt m else m) (fleet_members db)"
  have rc: "reconcile_fleet_member pk now iv db t i = Inr (True, db\<lparr>fleet_members := ?ms\<rparr>)"
    using True assms known_if_loaded [OF assms]
    by (simp add: reconcile_fleet_member_def is_member_of_key cong: list_ex_cong)
  obtain m where "member_at db (t, i) = Some m"
    using True member_at_None [of db "(t, i)"] by (cases "member_at db (t, i)") (auto simp: list_ex_iff is_member_of_key image_iff)
  then have "member_at (db\<lparr>fleet_members := ?ms\<rparr>) =
      (member_at db)((t, i) \<mapsto> upsert_member (pk db) now (t, i) lt (member_at db (t, i)))"
    by (auto simp: fun_eq_iff member_at_def upsert_member_def
        find_map_upd [where key = member_key and f = "refresh_member now lt", OF upsert_key(2)])
  then show ?thesis using that [OF rc] by (simp add: members_unique_def map_keep_key del: map_map)
next
  case False
  let ?n = "new_member (pk db) now t i lt"
  have rc: "reconcile_fleet_member pk now iv db t i = Inr (True, db\<lparr>fleet_members := fleet_members db @ [?n]\<rparr>)"
    using False assms known_if_loaded [OF assms] by (simp add: reconcile_fleet_member_def)
  have none: "member_at db (t, i) = None"
    using False by (auto simp: member_at_None list_ex_iff is_member_of_key)
  then have "member_at (db\<lparr>fleet_members := fleet_members db @ [?n]\<rparr>) =
      (member_at db)((t, i) \<mapsto> upsert_member (pk db) now (t, i) lt (member_at db (t, i)))"
    by (auto simp: fun_eq_iff member_at_def upsert_member_def find_append split: option.splits)
  then show ?thesis using that [OF rc] none by (auto simp: members_unique_def member_at_None)
qed

text \<open>
  C28. Reconciling one target refines one update of the map of memberships: an unknown type is
  refused, a target without a row changes nothing, and otherwise exactly the membership of that
  target is created or refreshed. Assigned labels survive a refresh, every other membership,
  the decisions and the projects are untouched, and the unique index is kept.
\<close>

theorem reconcile_refines_upsert:
  "(if t \<notin> set KNOWN_MEMBER_TYPES then \<exists>msg. reconcile_fleet_member pk now iv db t i = Inl msg
    else case load_target iv t i of
      None \<Rightarrow> reconcile_fleet_member pk now iv db t i = Inr (False, db)
    | Some lt \<Rightarrow> \<exists>db'. reconcile_fleet_member pk now iv db t i = Inr (True, db') \<and>
        member_at db' = (member_at db)((t, i) \<mapsto>
          (case member_at db (t, i) of None \<Rightarrow> new_member (pk db) now t i lt | Some m \<Rightarrow> refresh_member now lt m)) \<and>
        map_option assigned_labels (member_at db' (t, i)) =
          Some (case member_at db (t, i) of None \<Rightarrow> [] | Some m \<Rightarrow> assigned_labels m) \<and>
        (members_unique db' \<longleftrightarrow> members_unique db) \<and> decisions db' = decisions db \<and> projects db' = projects db)"
proof (cases "load_target iv t i")
  case None
  then show ?thesis using reconcile_unknown reconcile_missing by simp
next
  case (Some lt)
  obtain db' where "reconcile_fleet_member pk now iv db t i = Inr (True, db')"
    "member_at db' = (member_at db)((t, i) \<mapsto> upsert_member (pk db) now (t, i) lt (member_at db (t, i)))"
    "members_unique db' \<longleftrightarrow> members_unique db" "decisions db' = decisions db" "projects db' = projects db"
    using reconcile_upsert [OF Some] .
  then show ?thesis using Some known_if_loaded [OF Some]
    by (simp add: upsert_member_def new_member_def refresh_member_def split: option.split)
qed

lemma reconcile_keeps_decisions:
  assumes "reconcile_fleet_member pk now iv db t i = Inr (found, db')"
  shows "decisions db' = decisions db"
proof (cases "load_target iv t i")
  case None
  then show ?thesis using assms by (simp add: reconcile_fleet_member_def split: if_splits)
next
  case (Some lt)
  then show ?thesis using assms by (metis Inr_inject Pair_inject reconcile_upsert)
qed

section \<open>The periodic backfill\<close>

text \<open>A membership that shows what the inventory says now.\<close>

definition member_current :: "instant \<Rightarrow> inventory \<Rightarrow> fleet_member \<Rightarrow> bool" where
  "member_current now iv m \<longleftrightarrow>
     (case load_target iv (member_type m) (member_id m) of
        None \<Rightarrow> False
      | Some lt \<Rightarrow> refresh_member now lt m = m)"

definition assigned_at :: "targeting_db \<Rightarrow> string \<times> int \<Rightarrow> (string, string) dict" where
  "assigned_at db k = (case member_at db k of None \<Rightarrow> [] | Some m \<Rightarrow> assigned_labels m)"

lemma map_of_known: "i \<in> fst ` set d \<longleftrightarrow> map_of d i \<noteq> None"
  by (simp add: map_of_eq_None_iff)

lemma inventory_targets_load: "(t, i) \<in> set (inventory_targets iv) \<longleftrightarrow> load_target iv t i \<noteq> None"
proof -
  have "(t, i) \<in> set (inventory_targets iv) \<longleftrightarrow> t = ''cluster'' \<and> i \<in> fst ` set (clusters iv) \<or>
      t = ''bare-metal-host'' \<and> i \<in> fst ` set (hosts iv) \<or> t = ''dpu'' \<and> i \<in> fst ` set (inventory_dpus iv)"
    unfolding inventory_targets_def by (auto simp: image_iff)
  also have "\<dots> \<longleftrightarrow> load_target iv t i \<noteq> None"
    by (simp only: map_of_known) (auto simp: load_target_def load_cluster_def load_host_def load_dpu_def)
  finally show ?thesis .
qed

lemma backfill_fold:
  assumes "set ts \<subseteq> set (inventory_targets iv)"
    and "fold (backfill_one pk now iv) ts (s, db) = (s', db')"
  shows "s' = s\<lparr>reconciled := reconciled s + length ts\<rparr> \<and> (members_unique db' \<longleftrightarrow> members_unique db) \<and>
    decisions db' = decisions db \<and> projects db' = projects db \<and>
    (\<forall>k. k \<notin> set ts \<longrightarrow> member_at db' k = member_at db k) \<and>
    (\<forall>k \<in> set ts. \<exists>m. member_at db' k = Some m \<and> member_current now iv m) \<and>
    (\<forall>k. assigned_at db' k = assigned_at db k)"
  using assms
proof (induction ts arbitrary: s' db' rule: rev_induct)
  case Nil
  then show ?case by simp
next
  case (snoc k ts)
  obtain s1 db1 where f: "fold (backfill_one pk now iv) ts (s, db) = (s1, db1)" by fastforce
  note IH = snoc.IH [OF _ f]
  obtain t i where k: "k = (t, i)" by (cases k)
  obtain lt where lt: "load_target iv t i = Some lt"
    using snoc.prems(1) inventory_targets_load [of t i iv] by (auto simp: k)
  obtain db2 where rc: "reconcile_fleet_member pk now iv db1 t i = Inr (True, db2)"
    and at: "member_at db2 = (member_at db1)((t, i) \<mapsto> upsert_member (pk db1) now (t, i) lt (member_at db1 (t, i)))"
    and keep: "members_unique db2 \<longleftrightarrow> members_unique db1" "decisions db2 = decisions db1" "projects db2 = projects db1"
    using reconcile_upsert [OF lt] .
  have out: "s' = s1\<lparr>reconciled := Suc (reconciled s1)\<rparr>" "db' = db2"
    using snoc.prems(2) rc by (simp_all add: f k, simp_all add: backfill_one_def)
  have assigned: "assigned_at db2 k' = assigned_at db1 k'" for k'
    by (simp add: assigned_at_def at upsert_member_def new_member_def refresh_member_def split: option.split)
  have "member_current now iv (upsert_member (pk db1) now (t, i) lt (member_at db1 (t, i)))"
    using lt by (auto simp: member_current_def upsert_member_def new_member_def refresh_member_def member_key_def
        dest!: member_atD split: option.split)
  then show ?case using IH snoc.prems(1) keep assigned by (auto simp: out at k)
qed

text \<open>
  C29. After the backfill the memberships of the known types mirror the inventory: there is
  exactly one for every cluster, host and DPU, it shows what the inventory says now, and it has
  the assigned labels it had before; memberships of other types are untouched, nothing is
  skipped or failed, and no decision is changed.
\<close>

theorem backfill_mirrors_inventory:
  assumes "members_unique db" and "backfill_fleet_members pk now iv db = (s, db')"
  shows "{member_key m |m. m \<in> set (fleet_members db') \<and> member_type m \<in> set KNOWN_MEMBER_TYPES} =
      set (inventory_targets iv) \<and> members_unique db' \<and>
    (\<forall>m \<in> set (fleet_members db'). member_type m \<in> set KNOWN_MEMBER_TYPES \<longrightarrow>
       member_current now iv m \<and> assigned_labels m = assigned_at db (member_key m)) \<and>
    (\<forall>m. member_type m \<notin> set KNOWN_MEMBER_TYPES \<longrightarrow>
       (m \<in> set (fleet_members db') \<longleftrightarrow> m \<in> set (fleet_members db))) \<and>
    decisions db' = decisions db \<and> reconciled s = length (inventory_targets iv) \<and> errors s = 0 \<and> bf_skipped s = 0"
proof -
  let ?z = "\<lparr>reconciled = 0, bf_skipped = 0, pruned = 0, errors = 0\<rparr>"
  obtain s1 db1 where f: "fold (backfill_one pk now iv) (inventory_targets iv) (?z, db) = (s1, db1)" by fastforce
  note F = backfill_fold [OF subset_refl f]
  have u1: "members_unique db1" using F assms(1) by blast
  have s: "s = s1\<lparr>pruned := length (filter (orphan iv) (fleet_members db1))\<rparr>"
    and db': "db' = db1\<lparr>fleet_members := filter (\<lambda>m. \<not> orphan iv m) (fleet_members db1)\<rparr>"
    using assms(2) by (simp_all add: backfill_fleet_members_def f)
  have mem: "m \<in> set (fleet_members db') \<longleftrightarrow> member_at db1 (member_key m) = Some m \<and> \<not> orphan iv m" for m
    by (simp add: db' member_at_iff [OF u1])
  have uniq: "members_unique db'" using u1 by (simp add: db' members_unique_def distinct_map_filter)
  have known: "t \<in> set KNOWN_MEMBER_TYPES" if "(t, i) \<in> set (inventory_targets iv)" for t i
    using that known_if_loaded inventory_targets_load [of t i iv] by blast
  have kept: "member_key m \<in> set (inventory_targets iv)"
    if "\<not> orphan iv m" "member_type m \<in> set KNOWN_MEMBER_TYPES" for m
    using that by (simp add: orphan_def member_key_def)
  have mirror: "{member_key m |m. m \<in> set (fleet_members db') \<and> member_type m \<in> set KNOWN_MEMBER_TYPES} =
      set (inventory_targets iv)"
  proof (intro set_eqI iffI)
    fix k assume k: "k \<in> set (inventory_targets iv)"
    then obtain m where m: "member_at db1 k = Some m" using F by blast
    then show "k \<in> {member_key m |m. m \<in> set (fleet_members db') \<and> member_type m \<in> set KNOWN_MEMBER_TYPES}"
      using k known member_atD [OF m] by (auto simp: mem orphan_def member_key_def)
  qed (use kept mem in auto)
  have current: "member_current now iv m \<and> assigned_labels m = assigned_at db (member_key m)"
    if "m \<in> set (fleet_members db')" "member_type m \<in> set KNOWN_MEMBER_TYPES" for m
  proof -
    have at: "member_at db1 (member_key m) = Some m" and k: "member_key m \<in> set (inventory_targets iv)"
      using that kept by (auto simp: mem)
    have "assigned_labels m = assigned_at db1 (member_key m)" by (simp add: assigned_at_def at)
    then show ?thesis using F at k by (metis option.inject)
  qed
  have other: "m \<in> set (fleet_members db') \<longleftrightarrow> m \<in> set (fleet_members db)"
    if "member_type m \<notin> set KNOWN_MEMBER_TYPES" for m
  proof -
    have "member_key m \<notin> set (inventory_targets iv)" using that known by (auto simp: member_key_def)
    then have "member_at db1 (member_key m) = member_at db (member_key m)" using F by blast
    then show ?thesis using that by (simp add: mem member_at_iff [OF assms(1)] orphan_def)
  qed
  show ?thesis using mirror uniq current other F by (simp add: s db')
qed

definition stale_member :: fleet_member where
  "stale_member = \<lparr>fm_id = 1, member_type = ''cluster'', member_id = 7, fm_name = ''old'', fm_project_id = None,
     discovered_labels = [(''name'', ''old'')], assigned_labels = [(''env'', ''prod'')], fault_domain = None,
     health_status = None, lifecycle_state = None, last_reconciled_at = None\<rparr>"

definition demo_memberships :: targeting_db where
  "demo_memberships = \<lparr>fleet_members = [stale_member, stale_member\<lparr>fm_id := 2, member_type := ''dpu'', member_id := 9\<rparr>],
     decisions = [], projects = []\<rparr>"

theorem backfill_mirrors_inventory_witness:
  "\<exists>s db'. backfill_fleet_members (\<lambda>db. 3) 100 demo_inventory demo_memberships = (s, db') \<and>
     {member_key m |m. m \<in> set (fleet_members db') \<and> member_type m \<in> set KNOWN_MEMBER_TYPES} =
       {(''cluster'', 7), (''dpu'', 4)} \<and> reconciled s = 2"
proof -
  obtain s db' where b: "backfill_fleet_members (\<lambda>db. 3) 100 demo_inventory demo_memberships = (s, db')" by fastforce
  have "members_unique demo_memberships"
    by (simp add: members_unique_def demo_memberships_def stale_member_def member_key_def)
  from backfill_mirrors_inventory [OF this b] show ?thesis
    using b by (simp add: inventory_targets_def demo_inventory_def insert_commute)
qed

section \<open>Selecting by name\<close>

lemma map_of_put_label [simp]:
  "map_of (put_label k v l) k' = (if k' = k \<and> v \<noteq> '''' then Some v else map_of l k')"
  by (simp add: put_label_def)

lemma map_of_put_flag [simp]: "k' \<noteq> k \<Longrightarrow> map_of (put_flag k v l) k' = map_of l k'"
  by (simp add: put_flag_def split: option.split)

lemma text_of_Some [simp]: "text_of (Some s) = s"
  by (simp add: text_of_def)

lemma text_of_or: "text_of (text_or a b) = (if text_of a \<noteq> '''' then text_of a else text_of b)"
  by (simp add: text_or_def text_of_def split: option.split list.split)

lemma name_label:
  assumes "load_target iv t i = Some lt" and "lt_name lt \<noteq> ''''" and "t = ''dpu'' \<longrightarrow> lt_name lt \<noteq> ''dpu-'' @ str_of_int i"
  shows "map_of (lt_labels lt) ''name'' = Some (lt_name lt)"
  using assms(1)
proof (cases rule: load_target_cases)
  case (dpu d)
  then show ?thesis using assms(2,3)
    by (auto simp: load_dpu_def discovered_labels_for_dpu_def text_of_or split: if_splits)
qed (use assms(2) in \<open>auto simp: load_cluster_def load_host_def discovered_labels_for_cluster_def
      discovered_labels_for_host_def\<close>)

lemma validated_not_discovered:
  "validate_assigned_labels labels = None \<Longrightarrow> k \<in> set DISCOVERED_LABEL_KEYS \<Longrightarrow> map_of labels k = None"
  by (force simp: validate_assigned_labels_def list_ex_iff map_of_eq_None_iff split: if_splits)

lemma filter_holds_pair:
  "CHR ''='' \<notin> set k \<Longrightarrow> filter_holds labels (k @ ''='' @ v) \<longleftrightarrow> map_of labels k = Some v"
  using str_partition_append [of "CHR ''=''" k v] by (simp add: filter_holds_partition)

text \<open>
  C30. The display name round-trips through the selector: once a named target is reconciled,
  the valid selector \<^verbatim>\<open>name=n\<close> matches its membership if and only if \<open>n\<close> is the name it shows,
  whatever the name contains (an equals sign included) and whatever labels an operator assigned.
\<close>

theorem name_selector_roundtrip:
  assumes "load_target iv t i = Some lt" and "lt_name lt \<noteq> ''''" and "t = ''dpu'' \<longrightarrow> lt_name lt \<noteq> ''dpu-'' @ str_of_int i"
    and "reconcile_fleet_member pk now iv db t i = Inr (True, db')" and "member_at db' (t, i) = Some m"
    and "validate_assigned_labels (assigned_labels m) = None" and "dict_ok (assigned_labels m)"
  shows "validate_selector (SelectorObject (Labels [''name='' @ n])) = None \<and>
    (matches_selector m [''name='' @ n] \<longleftrightarrow> n = fm_name m) \<and> fm_name m = lt_name lt"
proof -
  have "m = upsert_member (pk db) now (t, i) lt (member_at db (t, i))"
    using reconcile_upsert [OF assms(1), of pk now db] assms(4,5) by (metis Inr_inject fun_upd_same option.inject prod.inject)
  then have m: "discovered_labels m = lt_labels lt" "fm_name m = lt_name lt"
    by (auto simp: upsert_member_def new_member_def refresh_member_def split: option.split)
  have "map_of (assigned_labels m) ''name'' = None"
    using validated_not_discovered [OF assms(6)] by (simp add: DISCOVERED_LABEL_KEYS_def)
  then have "map_of (combined_labels m) ''name'' = Some (lt_name lt)"
    using name_label [OF assms(1-3)] by (simp add: combined_labels_def map_of_dict_merge [OF assms(7)] map_add_def m)
  then have "matches_selector m [''name='' @ n] \<longleftrightarrow> n = lt_name lt"
    using filter_holds_pair [of "''name''" "combined_labels m" n] by (auto simp: matches_selector_iff)
  then show ?thesis using m str_partition_append [of "CHR ''=''" "''name''" n]
    by (simp add: FORBIDDEN_SELECTOR_KEYS_def)
qed

theorem name_selector_roundtrip_witness:
  "\<exists>db' m. reconcile_fleet_member (\<lambda>db. 3) 100 demo_inventory demo_memberships ''cluster'' 7 = Inr (True, db') \<and>
     member_at db' (''cluster'', 7) = Some m \<and> matches_selector m [''name='' @ ''Edge=1''] \<and>
     \<not> matches_selector m [''name='' @ ''old'']"
proof -
  obtain db' where db': "reconcile_fleet_member (\<lambda>db. 3) 100 demo_inventory demo_memberships ''cluster'' 7 = Inr (True, db')"
    and at: "member_at db' = (member_at demo_memberships)((''cluster'', 7) \<mapsto>
      upsert_member 3 100 (''cluster'', 7) demo_loaded (member_at demo_memberships (''cluster'', 7)))"
    using reconcile_upsert [OF demo_load, of "\<lambda>db. 3" 100 demo_memberships] by metis
  define m where "m = refresh_member 100 demo_loaded stale_member"
  have m: "member_at db' (''cluster'', 7) = Some m"
    by (simp add: at m_def upsert_member_def member_at_def demo_memberships_def stale_member_def member_key_def)
  have "fm_name m = ''Edge=1''" "assigned_labels m = [(''env'', ''prod'')]"
    by (simp_all add: m_def refresh_member_def demo_loaded_def stale_member_def)
  moreover have "validate_assigned_labels [(''env'', ''prod'')] = None"
    by (simp add: validate_assigned_labels_def ASSIGNED_LABEL_KEYS_def DISCOVERED_LABEL_KEYS_def)
  ultimately show ?thesis
    using name_selector_roundtrip [OF demo_load _ _ db' m] db' m by (simp add: demo_loaded_def dict_ok_def)
qed

end
