(* ===== verification/Tmfifo_Ipam.thy ===== *)
theory Tmfifo_Ipam
  imports Prelude "HOL-Library.Word"
begin

unbundle bit_operations_syntax

text \<open>
  The allocator of point-to-point subnets for DPU links,
  \<^verbatim>\<open>src/backend/services/tmfifo_ipam_service.py\<close>, over IPv4 addresses as 32-bit words, with
  the parts of Python's \<^verbatim>\<open>ipaddress\<close> it uses: parsing and printing of dotted addresses and
  networks, strict and non-strict networks, and the enumeration of subnets. Concurrent
  callers are serialised by the advisory lock of the transaction, so an assignment is one
  step on the tables.
\<close>

section \<open>IPv4 addresses and networks\<close>

type_synonym ipv4 = "32 word"

definition dotted :: "ipv4 \<Rightarrow> string" where
  "dotted w = (let n = unat w in str_join ''.'' (map str_of_nat
     [n div 2 ^ 24, n div 2 ^ 16 mod 256, n div 2 ^ 8 mod 256, n mod 256]))"

definition parse_octet :: "string \<Rightarrow> nat option" where
  "parse_octet s =
     (if s = '''' \<or> \<not> list_all is_digit s \<or> 3 < length s \<or> (hd s = CHR ''0'' \<and> length s \<noteq> 1) then None
      else let n = nat_of_digits 0 s in if 255 < n then None else Some n)"

definition parse_ipv4 :: "string \<Rightarrow> ipv4 option" where
  "parse_ipv4 s =
     (case map parse_octet (str_split CHR ''.'' s) of
        [Some a, Some b, Some c, Some d] \<Rightarrow> Some (word_of_nat (((a * 256 + b) * 256 + c) * 256 + d))
      | _ \<Rightarrow> None)"

definition netmask :: "nat \<Rightarrow> ipv4" where
  "netmask p = push_bit (32 - p) (- 1)"

text \<open>A prefix is written in decimal, as a netmask or as a hostmask.\<close>

definition parse_prefix :: "string \<Rightarrow> nat option" where
  "parse_prefix s =
     (if s \<noteq> '''' \<and> list_all is_digit s
      then (let p = nat_of_digits 0 s in if p \<le> 32 then Some p else None)
      else (case parse_ipv4 s of
          None \<Rightarrow> None
        | Some w \<Rightarrow> (case find (\<lambda>p. netmask p = w) [0..<33] of
              Some p \<Rightarrow> Some p
            | None \<Rightarrow> find (\<lambda>p. NOT (netmask p) = w) [0..<33])))"

record network =
  network_address :: ipv4
  prefixlen :: nat

definition network_of :: "ipv4 \<Rightarrow> nat \<Rightarrow> network" where
  "network_of w p = \<lparr>network_address = w AND netmask p, prefixlen = p\<rparr>"

text \<open>\<^verbatim>\<open>ip_network(text)\<close>: \<open>None\<close> is \<^verbatim>\<open>ValueError\<close>, which strict parsing also raises for host bits.\<close>

definition ip_network :: "bool \<Rightarrow> string \<Rightarrow> network option" where
  "ip_network strict s =
     (case str_split CHR ''/'' s of
        [a] \<Rightarrow> map_option (\<lambda>w. network_of w 32) (parse_ipv4 a)
      | [a, p] \<Rightarrow> (case (parse_ipv4 a, parse_prefix p) of
            (Some w, Some n) \<Rightarrow> if strict \<and> w AND netmask n \<noteq> w then None else Some (network_of w n)
          | _ \<Rightarrow> None)
      | _ \<Rightarrow> None)"

section \<open>The allocator\<close>

record dpu =
  dpu_id :: int
  cluster_id :: "int option"
  host_tmfifo_ip :: "string option"
  dpu_tmfifo_ip :: "string option"

record ipam_db =
  dpus :: "dpu list"
  pool_configs :: "(int, string) dict"

record tmfifo_allocation =
  host_ip :: string
  dpu_ip :: string
  subnet_cidr :: string

datatype ipam_error =
    InvalidPool string
  | PoolNotDivisible string
  | PoolExhausted string
  | BadDpuAddress string
  | AddressOutOfRange
  | AllocationConflict string

definition DEFAULT_POOL :: string where "DEFAULT_POOL = ''192.168.100.0/22''"

definition used_addresses :: "int \<Rightarrow> ipam_db \<Rightarrow> string list" where
  "used_addresses c db = List.map_filter dpu_tmfifo_ip (filter (\<lambda>d. cluster_id d = Some c \<and>
     dpu_tmfifo_ip d \<noteq> Some '''') (dpus db))"

text \<open>\<^verbatim>\<open>ip_network(f"{ip}/30", strict=False)\<close> of every address in use, or the first that is bad.\<close>

fun subnets_of :: "string list \<Rightarrow> ipam_error + network list" where
  "subnets_of [] = Inr []"
| "subnets_of (ip # ips) =
     (case ip_network False (ip @ ''/30'') of
        None \<Rightarrow> Inl (BadDpuAddress ip)
      | Some n \<Rightarrow> (case subnets_of ips of Inl e \<Rightarrow> Inl e | Inr ns \<Rightarrow> Inr (n # ns)))"

text \<open>The first /30 that is not in use, among \<open>n\<close> of them from \<open>base\<close> on.\<close>

fun first_free :: "network list \<Rightarrow> ipv4 \<Rightarrow> nat \<Rightarrow> ipv4 option" where
  "first_free used base 0 = None"
| "first_free used base (Suc n) =
     (if \<lparr>network_address = base, prefixlen = 30\<rparr> \<notin> set used then Some base
      else first_free used (base + 4) n)"

definition allocation_of :: "ipv4 \<Rightarrow> tmfifo_allocation" where
  "allocation_of base =
     \<lparr>host_ip = dotted (base + 1), dpu_ip = dotted (base + 2), subnet_cidr = dotted base @ ''/30''\<rparr>"

text \<open>
  A pool of one address is its own only subnet, which has no second address; pools of two
  addresses cannot be divided.
\<close>

definition allocate_in :: "string \<Rightarrow> network \<Rightarrow> network list \<Rightarrow> ipam_error + tmfifo_allocation" where
  "allocate_in cidr pool used =
     (if prefixlen pool = 32
      then (if pool \<in> set used then Inl (PoolExhausted cidr) else Inl AddressOutOfRange)
      else if 30 < prefixlen pool then Inl (PoolNotDivisible cidr)
      else (case first_free used (network_address pool) (2 ^ (30 - prefixlen pool)) of
          None \<Rightarrow> Inl (PoolExhausted cidr)
        | Some base \<Rightarrow> Inr (allocation_of base)))"

definition pool_cidr_of :: "int \<Rightarrow> ipam_db \<Rightarrow> string" where
  "pool_cidr_of c db = dict_get_or (pool_configs db) c DEFAULT_POOL"

definition allocate_next_subnet :: "int \<Rightarrow> ipam_db \<Rightarrow> ipam_error + tmfifo_allocation" where
  "allocate_next_subnet c db =
     (case ip_network True (pool_cidr_of c db) of
        None \<Rightarrow> Inl (InvalidPool (pool_cidr_of c db))
      | Some pool \<Rightarrow>
          (case subnets_of (used_addresses c db) of
             Inl e \<Rightarrow> Inl e
           | Inr used \<Rightarrow> allocate_in (pool_cidr_of c db) pool used))"

definition put_dpu :: "dpu \<Rightarrow> ipam_db \<Rightarrow> ipam_db" where
  "put_dpu d db = db\<lparr>dpus := map (\<lambda>x. if dpu_id x = dpu_id d then d else x) (dpus db)\<rparr>"

text \<open>The partial unique index on the cluster and the DPU address, checked when the row is flushed.\<close>

definition violates_unique :: "dpu \<Rightarrow> ipam_db \<Rightarrow> bool" where
  "violates_unique d db \<longleftrightarrow> list_ex (\<lambda>x. dpu_id x \<noteq> dpu_id d \<and> cluster_id x = cluster_id d \<and>
     dpu_tmfifo_ip x = dpu_tmfifo_ip d \<and> dpu_tmfifo_ip d \<noteq> None) (dpus db)"

definition truthy :: "string option \<Rightarrow> bool" where
  "truthy s \<longleftrightarrow> s \<noteq> None \<and> s \<noteq> Some ''''"

definition assign_dpu_tmfifo :: "dpu \<Rightarrow> int \<Rightarrow> ipam_db \<Rightarrow> (ipam_error + tmfifo_allocation) \<times> ipam_db" where
  "assign_dpu_tmfifo d c db =
     (if cluster_id d = Some c \<and> truthy (host_tmfifo_ip d) \<and> truthy (dpu_tmfifo_ip d)
      then (case ip_network False (the (dpu_tmfifo_ip d) @ ''/30'') of
          None \<Rightarrow> (Inl (BadDpuAddress (the (dpu_tmfifo_ip d))), db)
        | Some n \<Rightarrow> (Inr \<lparr>host_ip = the (host_tmfifo_ip d), dpu_ip = the (dpu_tmfifo_ip d),
            subnet_cidr = dotted (network_address n) @ ''/30''\<rparr>, db))
      else (case allocate_next_subnet c db of
          Inl e \<Rightarrow> (Inl e, db)
        | Inr a \<Rightarrow>
            (let d' = d\<lparr>cluster_id := Some c, host_tmfifo_ip := Some (host_ip a), dpu_tmfifo_ip := Some (dpu_ip a)\<rparr>
             in if violates_unique d' db then (Inl (AllocationConflict (dpu_ip a)), db)
                else (Inr a, put_dpu d' db))))"

definition release_dpu_tmfifo :: "dpu \<Rightarrow> ipam_db \<Rightarrow> ipam_db" where
  "release_dpu_tmfifo d db =
     put_dpu (d\<lparr>cluster_id := None, host_tmfifo_ip := None, dpu_tmfifo_ip := None\<rparr>) db"

section \<open>Addresses print and parse back\<close>

lemma str_split_append: "c \<notin> set x \<Longrightarrow> str_split c (x @ c # s) = x # str_split c s"
  by (induction x) auto

lemma str_split_single: "c \<notin> set x \<Longrightarrow> str_split c x = [x]"
  by (induction x) auto

lemma of_char_digit: "k < 10 \<Longrightarrow> (of_char (char_of (k + 48) :: char) :: nat) = k + 48"
  by simp

lemma nat_of_digits_snoc: "nat_of_digits a (xs @ [c]) = 10 * nat_of_digits a xs + (of_char c - 48)"
  by (induction xs arbitrary: a) auto

lemma str_of_nat_parse: "nat_of_digits 0 (str_of_nat n) = n"
proof (induction n rule: str_of_nat.induct)
  case (1 n)
  then show ?case
    by (subst str_of_nat.simps) (auto simp: nat_of_digits_snoc)
qed

lemma str_of_nat_digits: "list_all is_digit (str_of_nat n)"
proof (induction n rule: str_of_nat.induct)
  case (1 n)
  moreover have "is_digit (char_of (k + 48))" if "k < 10" for k :: nat
    using that by (simp add: is_digit_def)
  ultimately show ?case by (subst str_of_nat.simps) auto
qed

lemma str_of_nat_nonempty [simp]: "str_of_nat n \<noteq> []"
  by (subst str_of_nat.simps) simp

lemma str_of_nat_length: "n < 10 ^ k \<Longrightarrow> 0 < k \<Longrightarrow> length (str_of_nat n) \<le> k"
proof (induction n arbitrary: k rule: str_of_nat.induct)
  case (1 n)
  show ?case
  proof (cases "n < 10")
    case True
    then show ?thesis using 1 by (subst str_of_nat.simps) simp
  next
    case False
    with "1.prems" obtain j where k: "k = Suc j" "0 < j" by (cases k; cases "k - 1") auto
    have "n div 10 < 10 ^ j" using "1.prems" k by (simp add: div_less_iff_less_mult mult.commute)
    then have "length (str_of_nat (n div 10)) \<le> j" using "1.IH" False k by blast
    then show ?thesis using False k by (subst str_of_nat.simps) simp
  qed
qed

lemma str_of_nat_no_zero: "0 < n \<Longrightarrow> hd (str_of_nat n) \<noteq> CHR ''0''"
proof (induction n rule: str_of_nat.induct)
  case (1 n)
  show ?case
  proof (cases "n < 10")
    case True
    have "(of_char (char_of (n + 48) :: char) :: nat) \<noteq> of_char CHR ''0''"
      using True "1.prems" by (subst of_char_digit) simp_all
    then have "char_of (n + 48) \<noteq> CHR ''0''" by metis
    then show ?thesis using True by (subst str_of_nat.simps) simp
  next
    case False
    then show ?thesis using "1.IH" by (subst str_of_nat.simps) simp
  qed
qed

lemma octet_parse:
  assumes "n < 256"
  shows "parse_octet (str_of_nat n) = Some n" "CHR ''.'' \<notin> set (str_of_nat n)" "CHR ''/'' \<notin> set (str_of_nat n)"
proof -
  have "length (str_of_nat n) \<le> 3" by (rule str_of_nat_length) (use assms in simp_all)
  moreover have "hd (str_of_nat n) = CHR ''0'' \<Longrightarrow> length (str_of_nat n) = 1"
    using str_of_nat_no_zero [of n] by (cases "n = 0") (auto simp: str_of_nat.simps [of 0])
  ultimately show "parse_octet (str_of_nat n) = Some n"
    using assms by (auto simp: parse_octet_def str_of_nat_digits str_of_nat_parse Let_def)
  show "CHR ''.'' \<notin> set (str_of_nat n)" "CHR ''/'' \<notin> set (str_of_nat n)"
    using str_of_nat_digits [of n] by (auto simp: list_all_iff is_digit_def)
qed

lemma octets_recombine:
  fixes n :: nat
  assumes "n < 2 ^ 32"
  shows "n div 2 ^ 24 < 256"
    and "((n div 2 ^ 24 * 256 + n div 2 ^ 16 mod 256) * 256 + n div 2 ^ 8 mod 256) * 256 + n mod 256 = n"
proof -
  show "n div 2 ^ 24 < 256" using assms by simp
  have "n div 2 ^ 24 = n div 2 ^ 16 div 256" "n div 2 ^ 16 = n div 2 ^ 8 div 256" "n div 2 ^ 8 = n div 256"
    by (simp_all flip: div_mult2_eq)
  then show "((n div 2 ^ 24 * 256 + n div 2 ^ 16 mod 256) * 256 + n div 2 ^ 8 mod 256) * 256 + n mod 256 = n"
    by (simp add: div_mult_mod_eq)
qed

lemma dotted_parse: "parse_ipv4 (dotted w) = Some w" and dotted_no_slash: "CHR ''/'' \<notin> set (dotted w)"
proof -
  have lt: "unat w < 2 ^ 32" using unsigned_less [of w] by simp
  note oct = octet_parse [OF octets_recombine(1) [OF lt]] octet_parse [OF mod_less_divisor [of 256]]
  have d: "dotted w = str_of_nat (unat w div 2 ^ 24) @ CHR ''.'' # str_of_nat (unat w div 2 ^ 16 mod 256) @
      CHR ''.'' # str_of_nat (unat w div 2 ^ 8 mod 256) @ CHR ''.'' # str_of_nat (unat w mod 256)"
    by (simp add: dotted_def Let_def)
  have "str_split CHR ''.'' (dotted w) = map str_of_nat
     [unat w div 2 ^ 24, unat w div 2 ^ 16 mod 256, unat w div 2 ^ 8 mod 256, unat w mod 256]"
    unfolding d by (simp add: str_split_append str_split_single oct [simplified] del: str_split.simps)
  then show "parse_ipv4 (dotted w) = Some w"
    using octets_recombine(2) [OF lt] oct by (simp add: parse_ipv4_def)
  show "CHR ''/'' \<notin> set (dotted w)" unfolding d using oct by auto
qed

section \<open>Subnets\<close>

lemma netmask_split: "h \<le> 32 \<Longrightarrow> w AND netmask (32 - h) = push_bit h (drop_bit h w)"
  by (rule bit_word_eqI) (auto simp: netmask_def bit_simps)

lemma aligned_add:
  fixes w x :: ipv4
  assumes "h \<le> 32" and "take_bit h w = 0" and "take_bit h x = x"
  shows "(w + x) AND netmask (32 - h) = w"
proof -
  have "\<not> (bit w n \<and> bit x n)" for n
    using assms(2,3) by (metis bit_take_bit_iff bit_0_eq bot_apply bot_bool_def)
  then have "w AND x = 0" by (intro bit_word_eqI) (auto simp: bit_simps)
  then have "w + x = w OR x" by (rule disjunctive_add_eq_or)
  moreover have "drop_bit h x = 0" using assms(3) bits_ident [of h x] by (metis add_cancel_left_left drop_bit_push_bit_int
        drop_bit_take_bit diff_self_eq_0 take_bit_0)
  ultimately have "drop_bit h (w + x) = drop_bit h w" by simp
  then show ?thesis using bits_ident [of h w] assms(1,2) by (simp add: netmask_split)
qed

lemma take_bit_small: "m < 2 ^ h \<Longrightarrow> take_bit h (word_of_nat m :: ipv4) = word_of_nat m"
  by (simp add: take_bit_of_nat take_bit_nat_eq_self)

definition subnet30 :: "ipv4 \<Rightarrow> network" where
  "subnet30 w = \<lparr>network_address = w, prefixlen = 30\<rparr>"

definition in_network :: "network \<Rightarrow> ipv4 \<Rightarrow> bool" where
  "in_network n w \<longleftrightarrow> w AND netmask (prefixlen n) = network_address n"

text \<open>The k-th /30 of a pool.\<close>

abbreviation nth_subnet :: "ipv4 \<Rightarrow> nat \<Rightarrow> ipv4" where
  "nth_subnet base k \<equiv> base + word_of_nat (4 * k)"

lemma first_free_cases:
  "(case first_free used base n of
      None \<Rightarrow> \<forall>k < n. subnet30 (nth_subnet base k) \<in> set used
    | Some b \<Rightarrow> \<exists>k < n. b = nth_subnet base k \<and> subnet30 b \<notin> set used \<and>
        (\<forall>j < k. subnet30 (nth_subnet base j) \<in> set used))"
proof (induction used base n rule: first_free.induct)
  case (2 used base n)
  have shift: "base + 4 + word_of_nat (4 * k) = nth_subnet base (Suc k)" for k by simp
  show ?case
  proof (cases "subnet30 base \<in> set used")
    case True
    have free: "first_free used base (Suc n) = first_free used (base + 4) n" using True by (simp add: subnet30_def)
    have ex: "(\<forall>j < Suc k. P (nth_subnet base j)) \<longleftrightarrow> P base \<and> (\<forall>j < k. P (base + 4 + word_of_nat (4 * j)))" for k P
      by (simp add: All_less_Suc2 add.assoc)
    show ?thesis
    proof (cases "first_free used (base + 4) n")
      case None
      then show ?thesis using 2 True free ex [of n "\<lambda>w. subnet30 w \<in> set used"] by (simp add: subnet30_def)
    next
      case (Some b)
      with 2 True have "\<exists>k < n. b = base + 4 + word_of_nat (4 * k) \<and> subnet30 b \<notin> set used \<and>
          (\<forall>j < k. subnet30 (base + 4 + word_of_nat (4 * j)) \<in> set used)"
        by (simp add: subnet30_def)
      then obtain k where "k < n" "b = nth_subnet base (Suc k)" "subnet30 b \<notin> set used"
        "\<forall>j < k. subnet30 (base + 4 + word_of_nat (4 * j)) \<in> set used"
        using shift by metis
      then show ?thesis
        unfolding free Some option.case using True ex [of k "\<lambda>w. subnet30 w \<in> set used"] by (intro exI [of _ "Suc k"]) simp
    qed
  next
    case False
    then show ?thesis by (auto simp: subnet30_def intro: exI [of _ 0])
  qed
qed simp

lemma pool_aligned:
  assumes "network_address pool AND netmask (prefixlen pool) = network_address pool" and "prefixlen pool \<le> 30"
  shows "take_bit (32 - prefixlen pool) (network_address pool) = 0"
proof -
  let ?h = "32 - prefixlen pool"
  have "push_bit ?h (drop_bit ?h (network_address pool)) = network_address pool"
    using netmask_split [of ?h "network_address pool"] assms by simp
  then show ?thesis using bits_ident [of ?h "network_address pool"] by (metis add_cancel_right_right)
qed

lemma nth_subnet_props:
  assumes "take_bit h base = 0" and "2 \<le> h" and "h \<le> 32" and "k < 2 ^ (h - 2)" and "x < 4"
  shows "(nth_subnet base k + word_of_nat x) AND netmask (32 - h) = base"
    and "(nth_subnet base k + word_of_nat x) AND netmask 30 = nth_subnet base k"
proof -
  have "4 * k + x < 4 * 2 ^ (h - 2)" using assms(4,5) by simp
  also have "\<dots> = 2 ^ (2 + (h - 2))" by (simp add: power_add)
  also have "\<dots> = 2 ^ h" using assms(2) by (simp only: le_add_diff_inverse)
  finally have small: "4 * k + x < 2 ^ h" .
  have "nth_subnet base k + word_of_nat x = base + word_of_nat (4 * k + x)" by simp
  then show "(nth_subnet base k + word_of_nat x) AND netmask (32 - h) = base"
    using aligned_add [OF assms(3,1) take_bit_small [OF small]] by (simp only:)
  have b2: "take_bit 2 base = 0"
    using assms(1,2) by (metis min.absorb1 take_bit_of_0 take_bit_take_bit)
  have "base = push_bit 2 (drop_bit 2 base)" using bits_ident [of 2 base] b2 by simp
  moreover have "word_of_nat (4 * k) = push_bit 2 (word_of_nat k :: ipv4)" by (simp add: push_bit_eq_mult)
  ultimately have "nth_subnet base k = push_bit 2 (drop_bit 2 base + word_of_nat k)"
    by (metis push_bit_add)
  then have "take_bit 2 (nth_subnet base k) = 0" by (simp add: take_bit_push_bit)
  moreover have "take_bit 2 (word_of_nat x :: ipv4) = word_of_nat x"
    by (rule take_bit_small) (use assms(5) in simp)
  ultimately show "(nth_subnet base k + word_of_nat x) AND netmask 30 = nth_subnet base k"
    using aligned_add [of 2 "nth_subnet base k" "word_of_nat x"] by simp
qed

section \<open>Allocation\<close>

lemma ip_network_aligned:
  assumes "ip_network True s = Some n"
  shows "network_address n AND netmask (prefixlen n) = network_address n"
proof -
  have "w AND netmask p AND netmask p = w AND netmask p" for w p by (simp add: and.assoc)
  then show ?thesis
    using assms by (auto simp: ip_network_def network_of_def split: list.splits option.splits if_splits)
qed

text \<open>The subnet of an address in use.\<close>

definition link_subnet :: "string \<Rightarrow> network option" where
  "link_subnet ip = ip_network False (ip @ ''/30'')"

lemma link_subnet_dotted: "link_subnet (dotted w) = Some (network_of w 30)"
proof -
  have "str_split CHR ''/'' (dotted w @ ''/30'') = [dotted w, ''30'']"
    using str_split_append [OF dotted_no_slash, of w "''30''"] by simp
  moreover have "parse_prefix ''30'' = Some 30" by code_simp
  ultimately show ?thesis by (simp add: link_subnet_def ip_network_def dotted_parse)
qed

lemma subnets_of_Inr: "subnets_of ips = Inr used \<Longrightarrow> map link_subnet ips = map Some used"
  by (induction ips arbitrary: used) (auto simp: link_subnet_def split: option.splits sum.splits)

lemma allocate_first_fit:
  assumes "ip_network True (pool_cidr_of c db) = Some pool" and "prefixlen pool \<le> 30"
    and "subnets_of (used_addresses c db) = Inr used"
  shows "case allocate_next_subnet c db of
      Inl e \<Rightarrow> e = PoolExhausted (pool_cidr_of c db) \<and>
        (\<forall>k < 2 ^ (30 - prefixlen pool). subnet30 (nth_subnet (network_address pool) k) \<in> set used)
    | Inr a \<Rightarrow> \<exists>k b. k < 2 ^ (30 - prefixlen pool) \<and> b = nth_subnet (network_address pool) k \<and>
        a = \<lparr>host_ip = dotted (b + 1), dpu_ip = dotted (b + 2), subnet_cidr = dotted b @ ''/30''\<rparr> \<and>
        subnet30 b \<notin> set used \<and> (\<forall>j < k. subnet30 (nth_subnet (network_address pool) j) \<in> set used) \<and>
        in_network pool (b + 1) \<and> in_network pool (b + 2) \<and>
        link_subnet (dotted (b + 1)) = Some (subnet30 b) \<and> link_subnet (dotted (b + 2)) = Some (subnet30 b)"
proof -
  let ?h = "32 - prefixlen pool" and ?base = "network_address pool"
  have al: "take_bit ?h ?base = 0"
    by (rule pool_aligned [OF ip_network_aligned [OF assms(1)] assms(2)])
  have inside: "(b + x) AND netmask (prefixlen pool) = ?base" "(b + x) AND netmask 30 = b"
    if "k < 2 ^ (30 - prefixlen pool)" "b = nth_subnet ?base k" "x \<in> {1, 2}" for k b x
    using nth_subnet_props [OF al, of k 1] nth_subnet_props [OF al, of k 2] that assms(2) by auto
  have alloc: "allocate_next_subnet c db = (case first_free used ?base (2 ^ (30 - prefixlen pool)) of
      None \<Rightarrow> Inl (PoolExhausted (pool_cidr_of c db)) | Some base \<Rightarrow> Inr (allocation_of base))"
    using assms by (simp add: allocate_next_subnet_def allocate_in_def)
  show ?thesis
  proof (cases "first_free used ?base (2 ^ (30 - prefixlen pool))")
    case None
    then show ?thesis
      using first_free_cases [where used = used and base = ?base and n = "2 ^ (30 - prefixlen pool)"] by (simp add: alloc)
  next
    case (Some b)
    then obtain k where k: "k < 2 ^ (30 - prefixlen pool)" "b = nth_subnet ?base k" "subnet30 b \<notin> set used"
      "\<forall>j < k. subnet30 (nth_subnet ?base j) \<in> set used"
      using first_free_cases [where used = used and base = ?base and n = "2 ^ (30 - prefixlen pool)"] by auto
    have "in_network pool (b + 1)" "in_network pool (b + 2)" "network_of (b + 1) 30 = subnet30 b"
      "network_of (b + 2) 30 = subnet30 b"
      using inside [OF k(1,2)] by (simp_all add: in_network_def network_of_def subnet30_def)
    with k show ?thesis
      unfolding alloc Some option.case sum.case allocation_of_def
      by (intro exI [of _ k] exI [of _ b]) (simp add: link_subnet_dotted)
  qed
qed

text \<open>
  Allocation is first-fit, inside the pool and complete: in a pool that can be divided,
  the allocator returns the first /30 of the pool that no DPU of the cluster uses, with the
  first two host addresses, which lie in that subnet and in the pool; it reports the pool
  as exhausted exactly when every /30 of the pool is in use.
\<close>

theorem allocate_next_subnet_first_fit:
  assumes "ip_network True (pool_cidr_of c db) = Some pool" and "prefixlen pool \<le> 30"
    and "subnets_of (used_addresses c db) = Inr used"
  shows "case allocate_next_subnet c db of
      Inl e \<Rightarrow> e = PoolExhausted (pool_cidr_of c db) \<and>
        (\<forall>k < 2 ^ (30 - prefixlen pool). subnet30 (nth_subnet (network_address pool) k) \<in> set used)
    | Inr a \<Rightarrow> \<exists>k b. k < 2 ^ (30 - prefixlen pool) \<and> b = nth_subnet (network_address pool) k \<and>
        a = \<lparr>host_ip = dotted (b + 1), dpu_ip = dotted (b + 2), subnet_cidr = dotted b @ ''/30''\<rparr> \<and>
        subnet30 b \<notin> set used \<and> (\<forall>j < k. subnet30 (nth_subnet (network_address pool) j) \<in> set used) \<and>
        in_network pool (b + 1) \<and> in_network pool (b + 2) \<and>
        link_subnet (dotted (b + 1)) = Some (subnet30 b) \<and> link_subnet (dotted (b + 2)) = Some (subnet30 b)"
  using assms by (rule allocate_first_fit)

definition demo_ipam :: ipam_db where
  "demo_ipam = \<lparr>dpus = [\<lparr>dpu_id = 1, cluster_id = None, host_tmfifo_ip = None, dpu_tmfifo_ip = None\<rparr>],
     pool_configs = [(7, ''10.0.0.0/30'')]\<rparr>"

theorem allocate_next_subnet_first_fit_witness:
  "\<exists>a. allocate_next_subnet 7 demo_ipam = Inr a \<and> link_subnet (dpu_ip a) = Some (subnet30 0x0A000000)"
proof -
  have pool: "ip_network True (pool_cidr_of 7 demo_ipam) = Some \<lparr>network_address = 0x0A000000, prefixlen = 30\<rparr>"
    by (simp add: pool_cidr_of_def demo_ipam_def dict_get_or_def ip_network_def parse_ipv4_def parse_octet_def
        is_digit_def parse_prefix_def netmask_def network_of_def mask_eq_exp_minus_1)
  have used: "subnets_of (used_addresses 7 demo_ipam) = Inr []" by code_simp
  have "\<not> isl (allocate_next_subnet 7 demo_ipam)"
    by (simp add: allocate_next_subnet_def pool used allocate_in_def)
  then obtain a where a: "allocate_next_subnet 7 demo_ipam = Inr a"
    by (cases "allocate_next_subnet 7 demo_ipam") auto
  with allocate_next_subnet_first_fit [OF pool _ used] show ?thesis by auto
qed

section \<open>No two links share a subnet\<close>

definition links_ok :: "ipam_db \<Rightarrow> bool" where
  "links_ok db \<longleftrightarrow> distinct (map dpu_id (dpus db)) \<and>
     (\<forall>x \<in> set (dpus db). \<forall>y \<in> set (dpus db). \<forall>ip ip'.
        dpu_id x \<noteq> dpu_id y \<and> cluster_id x = cluster_id y \<and> cluster_id x \<noteq> None \<and>
        dpu_tmfifo_ip x = Some ip \<and> dpu_tmfifo_ip y = Some ip' \<and> ip \<noteq> '''' \<and> ip' \<noteq> '''' \<longrightarrow>
        link_subnet ip \<noteq> link_subnet ip')"

inductive ipam_step :: "ipam_db \<Rightarrow> ipam_db \<Rightarrow> bool" where
  assigns: "d \<in> set (dpus db) \<Longrightarrow> ipam_step db (snd (assign_dpu_tmfifo d c db))"
| releases: "d \<in> set (dpus db) \<Longrightarrow> ipam_step db (release_dpu_tmfifo d db)"

definition ipam_init :: "ipam_db \<Rightarrow> bool" where
  "ipam_init db \<longleftrightarrow> distinct (map dpu_id (dpus db)) \<and> (\<forall>d \<in> set (dpus db). dpu_tmfifo_ip d = None)"

lemma put_dpu_set:
  assumes "x \<in> set (dpus (put_dpu d db))"
  shows "x = d \<or> x \<in> set (dpus db) \<and> dpu_id x \<noteq> dpu_id d"
  using assms by (auto simp: put_dpu_def split: if_splits)

lemma put_dpu_ids [simp]: "map dpu_id (dpus (put_dpu d db)) = map dpu_id (dpus db)"
  by (auto simp: put_dpu_def)

lemma links_ok_put:
  assumes "links_ok db"
    and "\<And>x ip ip'. x \<in> set (dpus db) \<Longrightarrow> dpu_id x \<noteq> dpu_id d \<Longrightarrow> cluster_id x = cluster_id d \<Longrightarrow>
      cluster_id d \<noteq> None \<Longrightarrow> dpu_tmfifo_ip x = Some ip \<Longrightarrow> dpu_tmfifo_ip d = Some ip' \<Longrightarrow> ip \<noteq> '''' \<Longrightarrow>
      link_subnet ip \<noteq> link_subnet ip'"
  shows "links_ok (put_dpu d db)"
  unfolding links_ok_def
proof (intro conjI ballI allI impI)
  show "distinct (map dpu_id (dpus (put_dpu d db)))" using assms(1) by (simp add: links_ok_def)
next
  fix x y ip ip'
  assume xy: "x \<in> set (dpus (put_dpu d db))" "y \<in> set (dpus (put_dpu d db))"
    and h: "dpu_id x \<noteq> dpu_id y \<and> cluster_id x = cluster_id y \<and> cluster_id x \<noteq> None \<and>
        dpu_tmfifo_ip x = Some ip \<and> dpu_tmfifo_ip y = Some ip' \<and> ip \<noteq> '''' \<and> ip' \<noteq> ''''"
  consider "x = d" "y \<in> set (dpus db)" "dpu_id y \<noteq> dpu_id d"
    | "y = d" "x \<in> set (dpus db)" "dpu_id x \<noteq> dpu_id d" | "x \<in> set (dpus db)" "y \<in> set (dpus db)"
    using put_dpu_set [OF xy(1)] put_dpu_set [OF xy(2)] h by blast
  then show "link_subnet ip \<noteq> link_subnet ip'"
  proof cases
    case 1
    then show ?thesis using assms(2) [of y ip' ip] h by metis
  next
    case 2
    then show ?thesis using assms(2) [of x ip ip'] h by metis
  next
    case 3
    then show ?thesis using assms(1) h unfolding links_ok_def by blast
  qed
qed

lemma allocated_subnet_free:
  assumes "allocate_next_subnet c db = Inr a" and "x \<in> set (dpus db)" and "cluster_id x = Some c"
    and "dpu_tmfifo_ip x = Some ip" and "ip \<noteq> ''''"
  shows "link_subnet ip \<noteq> link_subnet (dpu_ip a)"
proof -
  obtain pool used where p: "ip_network True (pool_cidr_of c db) = Some pool"
    and u: "subnets_of (used_addresses c db) = Inr used" and al: "allocate_in (pool_cidr_of c db) pool used = Inr a"
    using assms(1) by (auto simp: allocate_next_subnet_def split: option.splits sum.splits)
  have "prefixlen pool \<le> 30" using al by (auto simp: allocate_in_def split: if_splits)
  then obtain b where "link_subnet (dpu_ip a) = Some (subnet30 b)" "subnet30 b \<notin> set used"
    using allocate_first_fit [OF p _ u] assms(1) by auto
  moreover have "ip \<in> set (used_addresses c db)"
    using assms(2-5) by (force simp: used_addresses_def map_filter_def)
  then have "link_subnet ip \<in> Some ` set used"
    using subnets_of_Inr [OF u] by (metis image_eqI list.set_map)
  ultimately show ?thesis by auto
qed

interpretation links: invariant_system ipam_init ipam_step links_ok
proof
  show "links_ok db" if "ipam_init db" for db
    using that by (auto simp: ipam_init_def links_ok_def)
next
  fix db db'
  assume "ipam_step db db'" and ok: "links_ok db"
  then show "links_ok db'"
  proof (induction rule: ipam_step.induct)
    case (assigns d db c)
    show ?case
    proof (cases "snd (assign_dpu_tmfifo d c db) = db")
      case True
      with assigns show ?thesis by simp
    next
      case False
      then obtain a where a: "allocate_next_subnet c db = Inr a"
        and put: "snd (assign_dpu_tmfifo d c db) = put_dpu (d\<lparr>cluster_id := Some c,
          host_tmfifo_ip := Some (host_ip a), dpu_tmfifo_ip := Some (dpu_ip a)\<rparr>) db"
        by (auto simp: assign_dpu_tmfifo_def Let_def split: if_splits option.splits sum.splits)
      show ?thesis unfolding put
        by (rule links_ok_put [OF assigns(2)]) (use allocated_subnet_free [OF a] in auto)
    qed
  next
    case (releases d db)
    show ?case unfolding release_dpu_tmfifo_def by (rule links_ok_put [OF releases(2)]) auto
  qed
qed

text \<open>
  C11. Links stay apart: from tables in which no DPU has an address, no sequence of
  assignments and releases, for whatever clusters and pools, gives two DPUs of one cluster
  addresses in the same /30.
\<close>

theorem tmfifo_links_disjoint:
  assumes "distinct (map dpu_id (dpus db0))" and "\<forall>d \<in> set (dpus db0). dpu_tmfifo_ip d = None"
    and "ipam_step\<^sup>*\<^sup>* db0 db" and "x \<in> set (dpus db)" and "y \<in> set (dpus db)"
    and "dpu_id x \<noteq> dpu_id y" and "cluster_id x = Some c" and "cluster_id y = Some c"
    and "dpu_tmfifo_ip x = Some ip" and "dpu_tmfifo_ip y = Some ip'" and "ip \<noteq> ''''" and "ip' \<noteq> ''''"
  shows "link_subnet ip \<noteq> link_subnet ip'"
proof -
  have "links_ok db" using assms(1-3) by (intro links.reach_inv [of db0]) (simp_all add: ipam_init_def)
  with assms(4-12) show ?thesis unfolding links_ok_def by force
qed

lemma dotted_inject: "dotted v = dotted w \<longleftrightarrow> v = w"
  by (metis dotted_parse option.inject)

lemma dotted_nonempty: "dotted w \<noteq> ''''"
  by (simp add: dotted_def Let_def)

definition free_dpu :: "int \<Rightarrow> dpu" where
  "free_dpu i = \<lparr>dpu_id = i, cluster_id = None, host_tmfifo_ip = None, dpu_tmfifo_ip = None\<rparr>"

definition linked_dpu :: "int \<Rightarrow> ipv4 \<Rightarrow> dpu" where
  "linked_dpu i b = \<lparr>dpu_id = i, cluster_id = Some 7, host_tmfifo_ip = Some (dotted (b + 1)),
     dpu_tmfifo_ip = Some (dotted (b + 2))\<rparr>"

definition demo_links :: "dpu list \<Rightarrow> ipam_db" where
  "demo_links ds = \<lparr>dpus = ds, pool_configs = [(7, ''10.0.0.0/29'')]\<rparr>"

lemma demo_links_pool:
  "ip_network True (pool_cidr_of 7 (demo_links ds)) = Some \<lparr>network_address = 0x0A000000, prefixlen = 29\<rparr>"
  by (simp add: pool_cidr_of_def demo_links_def dict_get_or_def ip_network_def parse_ipv4_def parse_octet_def
      is_digit_def parse_prefix_def netmask_def network_of_def mask_eq_exp_minus_1)

lemma first_free_2:
  "first_free used base 2 = (if subnet30 base \<notin> set used then Some base
     else if subnet30 (base + 4) \<notin> set used then Some (base + 4) else None)"
  by (simp add: numeral_2_eq_2 subnet30_def)

lemma demo_links_first:
  "snd (assign_dpu_tmfifo (free_dpu 1) 7 (demo_links [free_dpu 1, free_dpu 2])) =
     demo_links [linked_dpu 1 0x0A000000, free_dpu 2]"
proof -
  have used: "used_addresses 7 (demo_links [free_dpu 1, free_dpu 2]) = []"
    by (simp add: used_addresses_def demo_links_def free_dpu_def map_filter_simps)
  have "allocate_next_subnet 7 (demo_links [free_dpu 1, free_dpu 2]) = Inr (allocation_of 0x0A000000)"
    by (simp add: allocate_next_subnet_def demo_links_pool used allocate_in_def first_free_2)
  then show ?thesis
    by (simp add: assign_dpu_tmfifo_def Let_def)
      (simp add: free_dpu_def linked_dpu_def demo_links_def allocation_of_def violates_unique_def put_dpu_def)
qed

lemma demo_links_second:
  "snd (assign_dpu_tmfifo (free_dpu 2) 7 (demo_links [linked_dpu 1 0x0A000000, free_dpu 2])) =
     demo_links [linked_dpu 1 0x0A000000, linked_dpu 2 0x0A000004]"
proof -
  have used: "used_addresses 7 (demo_links [linked_dpu 1 0x0A000000, free_dpu 2]) = [dotted 0x0A000002]"
    by (simp add: used_addresses_def demo_links_def linked_dpu_def free_dpu_def map_filter_simps dotted_nonempty)
  have "network_of 0x0A000002 30 = subnet30 0x0A000000"
    by (simp add: network_of_def subnet30_def netmask_def mask_eq_exp_minus_1)
  then have subs: "subnets_of [dotted 0x0A000002] = Inr [subnet30 0x0A000000]"
    using link_subnet_dotted [of "0x0A000002"] by (simp add: link_subnet_def)
  have "allocate_next_subnet 7 (demo_links [linked_dpu 1 0x0A000000, free_dpu 2]) = Inr (allocation_of 0x0A000004)"
    unfolding allocate_next_subnet_def demo_links_pool used option.case subs sum.case
    by (simp add: allocate_in_def first_free_2, simp add: subnet30_def)
  then show ?thesis
    by (simp add: assign_dpu_tmfifo_def Let_def)
      (simp add: free_dpu_def linked_dpu_def demo_links_def allocation_of_def violates_unique_def dotted_inject put_dpu_def)
qed

theorem tmfifo_links_disjoint_witness:
  "link_subnet (dotted 0x0A000002) \<noteq> link_subnet (dotted 0x0A000006)"
proof (rule tmfifo_links_disjoint)
  let ?db0 = "demo_links [free_dpu 1, free_dpu 2]" and ?db1 = "demo_links [linked_dpu 1 0x0A000000, free_dpu 2]"
  let ?db2 = "demo_links [linked_dpu 1 0x0A000000, linked_dpu 2 0x0A000004]"
  have "ipam_step ?db0 ?db1"
    using ipam_step.assigns [of "free_dpu 1" ?db0 7] by (simp add: demo_links_first) (simp add: demo_links_def)
  moreover have "ipam_step ?db1 ?db2"
    using ipam_step.assigns [of "free_dpu 2" ?db1 7] by (simp add: demo_links_second) (simp add: demo_links_def)
  ultimately show "ipam_step\<^sup>*\<^sup>* ?db0 ?db2" by (meson converse_rtranclp_into_rtranclp rtranclp.rtrancl_refl)
  show "linked_dpu 1 0x0A000000 \<in> set (dpus ?db2)" "linked_dpu 2 0x0A000004 \<in> set (dpus ?db2)"
    by (simp_all add: demo_links_def)
qed (simp_all add: demo_links_def free_dpu_def linked_dpu_def dotted_nonempty)

end
