(* ===== verification/Naming.thy ===== *)
theory Naming
  imports Prelude
begin

text \<open>
  Provider-safe names, \<^verbatim>\<open>src/backend/utils/naming.py\<close>: the slug functions and the patterns
  that say which names are safe as they are. Text is ASCII. Each slug function is an instance
  of the locale \<open>slugifier\<close>, which says once what cutting a cleaned text to length keeps.
\<close>

section \<open>Character classes and substitution\<close>

definition is_lower_alpha :: "char \<Rightarrow> bool" where
  "is_lower_alpha c \<longleftrightarrow> 97 \<le> (of_char c :: nat) \<and> (of_char c :: nat) \<le> 122"

definition is_upper_alpha :: "char \<Rightarrow> bool" where
  "is_upper_alpha c \<longleftrightarrow> 65 \<le> (of_char c :: nat) \<and> (of_char c :: nat) \<le> 90"

definition aws_char :: "char \<Rightarrow> bool" where
  "aws_char c \<longleftrightarrow> is_upper_alpha c \<or> is_lower_alpha c \<or> is_digit c \<or> c \<in> set ''+=,.@_-''"

definition lower_char :: "char \<Rightarrow> bool" where
  "lower_char c \<longleftrightarrow> is_lower_alpha c \<or> is_digit c \<or> c = CHR ''-''"

text \<open>\<^verbatim>\<open>re.sub("[bad]+", "-", s)\<close>: every maximal run of bad characters becomes one hyphen.\<close>

function sub_runs :: "(char \<Rightarrow> bool) \<Rightarrow> string \<Rightarrow> string" where
  "sub_runs bad [] = []"
| "sub_runs bad (c # cs) = (if bad c then CHR ''-'' # sub_runs bad (dropWhile bad cs) else c # sub_runs bad cs)"
  by pat_completeness auto
termination by (relation "measure (length \<circ> snd)") (auto simp: length_dropWhile_le less_Suc_eq_le)

section \<open>The slug functions\<close>

definition slugify_aws_name :: "nat \<Rightarrow> string \<Rightarrow> string \<Rightarrow> string" where
  "slugify_aws_name max_length fallback v =
     (let edge = (\<lambda>c. c \<in> set ''-_.'');
          cleaned = strip_by edge (sub_runs (\<lambda>c. c = CHR ''-'') (sub_runs (\<lambda>c. \<not> aws_char c) (str_strip v)));
          cleaned = (if cleaned = [] then fallback else cleaned);
          cut = rstrip_by edge (take max_length cleaned)
      in if cut = [] then fallback else cut)"

definition is_aws_safe_name :: "string \<Rightarrow> bool" where
  "is_aws_safe_name v \<longleftrightarrow> v \<noteq> [] \<and> list_all aws_char v"

definition slugify_s3_name :: "nat \<Rightarrow> string \<Rightarrow> string \<Rightarrow> string" where
  "slugify_s3_name max_length fallback v =
     (let hyphen = (\<lambda>c. c = CHR ''-'');
          cleaned = strip_by hyphen (sub_runs hyphen (sub_runs (\<lambda>c. \<not> lower_char c) (str_lower (str_strip v))));
          cleaned = (if cleaned = [] then fallback else cleaned);
          cut = strip_by hyphen (take max_length cleaned)
      in if cut = [] then fallback else cut)"

definition is_ibm_safe_name :: "string \<Rightarrow> bool" where
  "is_ibm_safe_name v \<longleftrightarrow> v \<noteq> [] \<and> (is_lower_alpha (hd v) \<or> is_digit (hd v)) \<and>
     list_all lower_char v \<and> length v \<le> 35"

definition slugify_ibm_name :: "nat \<Rightarrow> string \<Rightarrow> string \<Rightarrow> string" where
  "slugify_ibm_name max_length fallback v =
     (let hyphen = (\<lambda>c. c = CHR ''-'');
          cleaned = strip_by hyphen (sub_runs hyphen (sub_runs (\<lambda>c. \<not> lower_char c) (str_lower (str_strip v))));
          cleaned = lstrip_by hyphen cleaned;
          cleaned = (if cleaned = [] then fallback else cleaned);
          cut = strip_by hyphen (take max_length cleaned)
      in if cut = [] then fallback else cut)"

definition is_gcp_safe_name :: "string \<Rightarrow> bool" where
  "is_gcp_safe_name v \<longleftrightarrow> v \<noteq> [] \<and> is_lower_alpha (hd v) \<and> list_all lower_char v \<and>
     last v \<noteq> CHR ''-'' \<and> length v \<le> 40"

definition slugify_gcp_name :: "nat \<Rightarrow> string \<Rightarrow> string \<Rightarrow> string" where
  "slugify_gcp_name max_length fallback v =
     (let hyphen = (\<lambda>c. c = CHR ''-'');
          cleaned = strip_by hyphen (sub_runs hyphen (sub_runs (\<lambda>c. \<not> lower_char c) (str_lower (str_strip v))));
          cleaned = lstrip_by (\<lambda>c. \<not> is_lower_alpha c) cleaned;
          cleaned = (if cleaned = [] then fallback else cleaned);
          cut = rstrip_by hyphen (take max_length cleaned)
      in if cut = [] then fallback else cut)"

section \<open>What cleaning and cutting keep\<close>

lemma set_sub_runs: "set (sub_runs bad s) \<subseteq> insert CHR ''-'' {c \<in> set s. \<not> bad c}"
  by (induction bad s rule: sub_runs.induct) (auto dest: set_dropWhileD)

text \<open>
  The shape the functions share: a cleaning step, the fallback for an empty result, a cut
  to the maximal length, a trim of the cut text, and the fallback again.
\<close>

definition slug_of :: "(string \<Rightarrow> string) \<Rightarrow> (string \<Rightarrow> string) \<Rightarrow> nat \<Rightarrow> string \<Rightarrow> string \<Rightarrow> string" where
  "slug_of clean trim n fallback v =
     (let cleaned = (if clean v = [] then fallback else clean v); cut = trim (take n cleaned)
      in if cut = [] then fallback else cut)"

locale slugifier =
  fixes clean :: "string \<Rightarrow> string" and trim :: "string \<Rightarrow> string"
    and good :: "char \<Rightarrow> bool" and first :: "char \<Rightarrow> bool"
  assumes clean_good: "set (clean v) \<subseteq> Collect good"
    and clean_first: "clean v \<noteq> [] \<Longrightarrow> first (hd (clean v))"
    and trim_set: "set (trim s) \<subseteq> set s"
    and trim_length: "length (trim s) \<le> length s"
    and trim_first: "s \<noteq> [] \<Longrightarrow> first (hd s) \<Longrightarrow> trim s \<noteq> [] \<and> hd (trim s) = hd s"
begin

lemma slug_safe:
  assumes "fallback \<noteq> []" and "first (hd fallback)" and "list_all good fallback"
    and "length fallback \<le> n"
  shows "slug_of clean trim n fallback v \<noteq> [] \<and> first (hd (slug_of clean trim n fallback v)) \<and> list_all good (slug_of clean trim n fallback v) \<and>
    length (slug_of clean trim n fallback v) \<le> n \<and> (\<exists>s. slug_of clean trim n fallback v = trim s)"
proof -
  define cleaned where "cleaned = (if clean v = [] then fallback else clean v)"
  have n: "0 < n" using assms(1,4) by (cases n) auto
  have c: "cleaned \<noteq> []" "first (hd cleaned)" "set cleaned \<subseteq> Collect good"
    using assms(1-3) clean_first clean_good by (auto simp: cleaned_def list_all_iff)
  then have "take n cleaned \<noteq> []" "hd (take n cleaned) = hd cleaned" using n by auto
  then have t: "trim (take n cleaned) \<noteq> []" "hd (trim (take n cleaned)) = hd cleaned"
    using trim_first c(2) by metis+
  have "set (trim (take n cleaned)) \<subseteq> Collect good"
    using trim_set [of "take n cleaned"] set_take_subset [of n cleaned] c(3) by blast
  moreover have "length (trim (take n cleaned)) \<le> n"
    using trim_length [of "take n cleaned"] by simp
  moreover have "slug_of clean trim n fallback v = trim (take n cleaned)"
    using t(1) by (simp add: slug_of_def cleaned_def [symmetric] Let_def)
  ultimately show ?thesis using t c(2) by (auto simp: list_all_iff)
qed

end

lemma rstrip_by_split: "\<exists>t. s = rstrip_by P s @ t"
proof -
  have "s = rev (dropWhile P (rev s)) @ rev (takeWhile P (rev s))"
    by (metis rev_append rev_rev_ident takeWhile_dropWhile_id)
  then show ?thesis by (auto simp: rstrip_by_def)
qed

lemma length_rstrip_by: "length (rstrip_by P s) \<le> length s"
  by (simp add: rstrip_by_def) (metis length_dropWhile_le length_rev)

lemma length_strip_by: "length (strip_by P s) \<le> length s"
  using length_rstrip_by [of P "lstrip_by P s"] length_dropWhile_le [of P s]
  by (simp add: strip_by_def lstrip_by_def)

lemma rstrip_by_first: "s \<noteq> [] \<Longrightarrow> \<not> P (hd s) \<Longrightarrow> rstrip_by P s \<noteq> [] \<and> hd (rstrip_by P s) = hd s"
proof -
  assume s: "s \<noteq> []" "\<not> P (hd s)"
  then have "rstrip_by P s \<noteq> []" by (auto simp: rstrip_by_def)
  moreover obtain t where "s = rstrip_by P s @ t" using rstrip_by_split by blast
  ultimately show ?thesis by (metis hd_append2)
qed

lemma strip_by_first: "s \<noteq> [] \<Longrightarrow> \<not> P (hd s) \<Longrightarrow> strip_by P s \<noteq> [] \<and> hd (strip_by P s) = hd s"
  using rstrip_by_first [of s P] by (cases s) (auto simp: strip_by_def lstrip_by_def)

lemma hd_strip_by: "strip_by P s \<noteq> [] \<Longrightarrow> \<not> P (hd (strip_by P s))"
proof -
  assume "strip_by P s \<noteq> []"
  then have l: "lstrip_by P s \<noteq> []" by (auto simp: strip_by_def rstrip_by_def)
  then have "hd (strip_by P s) = hd (lstrip_by P s)"
    using rstrip_by_first [of "lstrip_by P s" P] l hd_lstrip_by [OF l] by (simp add: strip_by_def)
  then show ?thesis using hd_lstrip_by [OF l] by simp
qed

abbreviation hyphen :: "char \<Rightarrow> bool" where
  "hyphen \<equiv> \<lambda>c. c = CHR ''-''"

abbreviation aws_edge :: "char \<Rightarrow> bool" where
  "aws_edge \<equiv> \<lambda>c. c \<in> set ''-_.''"

definition clean_aws :: "string \<Rightarrow> string" where
  "clean_aws v = strip_by aws_edge (sub_runs hyphen (sub_runs (\<lambda>c. \<not> aws_char c) (str_strip v)))"

definition clean_lower :: "string \<Rightarrow> string" where
  "clean_lower v = strip_by hyphen (sub_runs hyphen (sub_runs (\<lambda>c. \<not> lower_char c) (str_lower (str_strip v))))"

lemma clean_aws_good: "set (clean_aws v) \<subseteq> Collect aws_char"
proof -
  have "set (sub_runs hyphen (sub_runs (\<lambda>c. \<not> aws_char c) (str_strip v))) \<subseteq> Collect aws_char"
    using set_sub_runs [of hyphen] set_sub_runs [of "\<lambda>c. \<not> aws_char c" "str_strip v"]
    by (fastforce simp: aws_char_def)
  then show ?thesis unfolding clean_aws_def using set_strip_by by (meson subset_trans)
qed

lemma clean_lower_good: "set (clean_lower v) \<subseteq> Collect lower_char"
proof -
  have "set (sub_runs hyphen (sub_runs (\<lambda>c. \<not> lower_char c) (str_lower (str_strip v)))) \<subseteq> Collect lower_char"
    using set_sub_runs [of hyphen] set_sub_runs [of "\<lambda>c. \<not> lower_char c" "str_lower (str_strip v)"]
    by (fastforce simp: lower_char_def)
  then show ?thesis unfolding clean_lower_def using set_strip_by by (meson subset_trans)
qed

lemma hd_in: "s \<noteq> [] \<Longrightarrow> set s \<subseteq> Collect Q \<Longrightarrow> Q (hd s)"
  by (cases s) auto

interpretation aws: slugifier clean_aws "rstrip_by aws_edge" aws_char "\<lambda>c. aws_char c \<and> \<not> aws_edge c"
proof
  show "aws_char (hd (clean_aws v)) \<and> \<not> aws_edge (hd (clean_aws v))" if "clean_aws v \<noteq> []" for v
    using that hd_in [OF that clean_aws_good] hd_strip_by [of aws_edge] unfolding clean_aws_def by blast
qed (simp_all add: clean_aws_good set_rstrip_by length_rstrip_by rstrip_by_first)

interpretation s3: slugifier clean_lower "strip_by hyphen" lower_char "\<lambda>c. lower_char c \<and> \<not> hyphen c"
proof
  show "lower_char (hd (clean_lower v)) \<and> \<not> hyphen (hd (clean_lower v))" if "clean_lower v \<noteq> []" for v
    using that hd_in [OF that clean_lower_good] hd_strip_by [of hyphen] unfolding clean_lower_def by blast
qed (simp_all add: clean_lower_good set_strip_by length_strip_by strip_by_first)

interpretation ibm: slugifier "\<lambda>v. lstrip_by hyphen (clean_lower v)" "strip_by hyphen" lower_char
  "\<lambda>c. lower_char c \<and> \<not> hyphen c"
proof
  fix v
  have good: "set (lstrip_by hyphen (clean_lower v)) \<subseteq> Collect lower_char"
    using clean_lower_good set_lstrip_by by (meson subset_trans)
  show "set (lstrip_by hyphen (clean_lower v)) \<subseteq> Collect lower_char" by (rule good)
  show "lower_char (hd (lstrip_by hyphen (clean_lower v))) \<and> \<not> hyphen (hd (lstrip_by hyphen (clean_lower v)))"
    if "lstrip_by hyphen (clean_lower v) \<noteq> []"
    using hd_in [OF that good] hd_lstrip_by [OF that] by blast
qed (simp_all add: set_strip_by length_strip_by strip_by_first)

interpretation gcp: slugifier "\<lambda>v. lstrip_by (\<lambda>c. \<not> is_lower_alpha c) (clean_lower v)" "rstrip_by hyphen"
  lower_char is_lower_alpha
proof
  fix v s
  show "set (lstrip_by (\<lambda>c. \<not> is_lower_alpha c) (clean_lower v)) \<subseteq> Collect lower_char"
    using clean_lower_good set_lstrip_by by (meson subset_trans)
  show "is_lower_alpha (hd (lstrip_by (\<lambda>c. \<not> is_lower_alpha c) (clean_lower v)))"
    if "lstrip_by (\<lambda>c. \<not> is_lower_alpha c) (clean_lower v) \<noteq> []"
    using hd_lstrip_by [OF that] by simp
  show "rstrip_by hyphen s \<noteq> [] \<and> hd (rstrip_by hyphen s) = hd s" if "s \<noteq> []" "is_lower_alpha (hd s)"
  proof -
    have "hd s \<noteq> CHR ''-''" using that(2) by (cases "hd s = CHR ''-''") (simp_all add: is_lower_alpha_def)
    then show ?thesis using that(1) rstrip_by_first [of s hyphen] by blast
  qed
qed (simp_all add: set_rstrip_by length_rstrip_by)

lemmas slug_shapes = slug_of_def clean_aws_def clean_lower_def Let_def

lemma slug_aws: "slugify_aws_name n fb v = slug_of clean_aws (rstrip_by aws_edge) n fb v"
  by (simp add: slugify_aws_name_def slug_shapes)

lemma slug_s3: "slugify_s3_name n fb v = slug_of clean_lower (strip_by hyphen) n fb v"
  by (simp add: slugify_s3_name_def slug_shapes)

lemma slug_ibm: "slugify_ibm_name n fb v = slug_of (\<lambda>v. lstrip_by hyphen (clean_lower v)) (strip_by hyphen) n fb v"
  by (simp add: slugify_ibm_name_def slug_shapes)

lemma slug_gcp: "slugify_gcp_name n fb v =
    slug_of (\<lambda>v. lstrip_by (\<lambda>c. \<not> is_lower_alpha c) (clean_lower v)) (rstrip_by hyphen) n fb v"
  by (simp add: slugify_gcp_name_def slug_shapes)

lemma default_slugs_safe:
  assumes fb_def: "fb = ''bnk-forge''"
  shows "is_aws_safe_name (slugify_aws_name 48 fb v) \<and> length (slugify_aws_name 48 fb v) \<le> 48 \<and>
    is_ibm_safe_name (slugify_ibm_name 35 fb v) \<and> is_gcp_safe_name (slugify_gcp_name 40 fb v) \<and>
    slugify_s3_name 40 fb v \<noteq> [] \<and> list_all lower_char (slugify_s3_name 40 fb v) \<and>
    hd (slugify_s3_name 40 fb v) \<noteq> CHR ''-'' \<and> length (slugify_s3_name 40 fb v) \<le> 40"
proof -
  have fb: "fb \<noteq> []" "length fb = 9" "hd fb = CHR ''b''" by (simp_all add: fb_def)
  have good: "list_all aws_char fb" "list_all lower_char fb" "is_lower_alpha CHR ''b''"
    by (simp_all add: fb_def aws_char_def lower_char_def is_lower_alpha_def is_digit_def is_upper_alpha_def)
  have first: "aws_char (hd fb) \<and> \<not> aws_edge (hd fb)" "lower_char (hd fb) \<and> \<not> hyphen (hd fb)" "is_lower_alpha (hd fb)"
    using good fb by (simp_all add: aws_char_def lower_char_def)
  note a = aws.slug_safe [OF fb(1) first(1) good(1), of 48 v] and i = ibm.slug_safe [OF fb(1) first(2) good(2), of 35 v]
    and g = gcp.slug_safe [OF fb(1) first(3) good(2), of 40 v] and b = s3.slug_safe [OF fb(1) first(2) good(2), of 40 v]
  have "is_aws_safe_name (slugify_aws_name 48 fb v)" "length (slugify_aws_name 48 fb v) \<le> 48"
    using a fb by (simp_all add: is_aws_safe_name_def slug_aws)
  moreover have "is_ibm_safe_name (slugify_ibm_name 35 fb v)"
    using i fb by (auto simp: is_ibm_safe_name_def slug_ibm lower_char_def)
  moreover have "is_gcp_safe_name (slugify_gcp_name 40 fb v)"
  proof -
    obtain s where s: "slugify_gcp_name 40 fb v = rstrip_by hyphen s" using g fb by (auto simp: slug_gcp)
    have "slugify_gcp_name 40 fb v \<noteq> []" using g fb by (simp add: slug_gcp)
    then have "last (slugify_gcp_name 40 fb v) \<noteq> CHR ''-''" unfolding s by (rule last_rstrip_by)
    then show ?thesis using g fb by (simp add: is_gcp_safe_name_def slug_gcp)
  qed
  ultimately show ?thesis using b fb by (simp add: slug_s3)
qed

text \<open>
  Slugs are safe for their provider, whatever the display name: with the default
  lengths and fallback, the AWS, IBM and GCP slugs satisfy the provider's own pattern, the
  AWS and S3 slugs keep their length limits, and the S3 slug consists of lower-case
  letters, digits and hyphens and starts with no hyphen.
\<close>

theorem slugs_are_safe:
  "let fb = ''bnk-forge'' in
    is_aws_safe_name (slugify_aws_name 48 fb v) \<and> length (slugify_aws_name 48 fb v) \<le> 48 \<and>
    is_ibm_safe_name (slugify_ibm_name 35 fb v) \<and> is_gcp_safe_name (slugify_gcp_name 40 fb v) \<and>
    slugify_s3_name 40 fb v \<noteq> [] \<and> list_all lower_char (slugify_s3_name 40 fb v) \<and>
    hd (slugify_s3_name 40 fb v) \<noteq> CHR ''-'' \<and> length (slugify_s3_name 40 fb v) \<le> 40"
  unfolding Let_def by (rule default_slugs_safe [OF refl])

end
