(* ===== verification/Spec2Isabelle.thy ===== *)
theory Spec2Isabelle
  imports Module_Ops Catalog Bare_Metal Bnk_Upgrade Teardown Janitor Reachability Fleet_Policy Fleet_Reconcile Tmfifo_Ipam Naming
begin

text \<open>
  BNK Forge is a control plane that deploys and operates F5 BIG-IP Next for Kubernetes: a
  FastAPI and Celery backend (\<^verbatim>\<open>src/backend\<close>) over one SQL database, with a web frontend,
  operators that run in the managed clusters, and Terraform, Helm and Ansible content.
  This library models the parts of the backend that decide.

  \<^bold>\<open>How the parts interact.\<close> A project is a set of modules with dependencies. A deployment
  orders them with the dependency graph and dispatches the modules that are ready; when the
  task of a module ends, a hook dispatches the next ones, until the project or stack is
  applied. A teardown runs the same chain against the arrows and detects its end. A task takes the
  lease of its module, moves the status of the module through the state machine and writes under the
  fence token of the lease; tasks whose worker died are reset by a janitor. Calls to a cluster, host or
  DPU pass through the breaker of that target, which the registry keeps together with the
  latest probe snapshot, published to subscribers. The clusters, hosts and DPUs are also
  fleet members, mirrored by the reconcile service. A target selects members by labels and pins and is
  resolved to an immutable decision; a bulk run executes a safe action on a decision, wave by
  wave; a policy evaluates members and launches such a run on those that drifted. A scan of a cluster
  finds its BNK installation, and an upgrade of it is planned, executed step by step behind
  health gates, and rolled back.

  \<^bold>\<open>Theories, sources and states.\<close> All sources are under \<^verbatim>\<open>src/backend\<close>.

  \<^item> \<^verbatim>\<open>Prelude\<close>: Python dictionaries as association lists in insertion order, the string
    and list primitives the sources use, and the locale \<^verbatim>\<open>invariant_system\<close> of a step
    relation with an inductive invariant, which the lock system, the audit history, the
    registry's streams, the link allocator and the upgrade table interpret.
  \<^item> \<^verbatim>\<open>Dependency_Graph\<close> and \<^verbatim>\<open>Dependency_Layers\<close>: \<^verbatim>\<open>utils/dependency_graph.py\<close>, every function.
    The colour map and the path of the depth-first search are explicit arguments, and
    so are the in-degree map and the queue of Kahn's algorithm.
  \<^item> \<^verbatim>\<open>Entity_Lock\<close>: \<^verbatim>\<open>services/entity_lock.py\<close>. The database is a table of rows per
    lockable table name; each SQL statement is one atomic operation on it, as the
    database executes it, with the clock reading as an argument.
  \<^item> \<^verbatim>\<open>Module_State\<close>: \<^verbatim>\<open>services/module_state.py\<close>, \<^verbatim>\<open>services/module_lock.py\<close> and the status
    enumeration of \<^verbatim>\<open>models/enums.py\<close>. The state is the lock database with the audit rows.
  \<^item> \<^verbatim>\<open>Task_Dispatch\<close>: \<^verbatim>\<open>services/engine_registry.py\<close>, \<^verbatim>\<open>services/execution/task_dispatch.py\<close> and the row types
    of modules. A dispatch answers with the message it sends, or the error it raises.
  \<^item> \<^verbatim>\<open>Execution_Layers\<close>: \<^verbatim>\<open>services/dependency_graph_service.py\<close> and the plan of
    \<^verbatim>\<open>services/parallel_execution_service.py\<close>.
  \<^item> \<^verbatim>\<open>Deploy_Chain\<close>, \<^verbatim>\<open>Destroy_Chain\<close>, \<^verbatim>\<open>Teardown\<close>: the deploy and destroy waves of
    \<^verbatim>\<open>services/parallel_execution_service.py\<close> and \<^verbatim>\<open>services/stack_deployment_service.py\<close>, the hooks of
    \<^verbatim>\<open>tasks/_tofu_helpers.py\<close> and \<^verbatim>\<open>tasks/parallel_tasks.py\<close>, and the row updates of
    \<^verbatim>\<open>tasks/opentofu_tasks.py\<close>. The state \<^verbatim>\<open>exec_db\<close> holds the rows of modules, tasks and stacks; every
    operation returns the new rows and the messages it sent.
  \<^item> \<^verbatim>\<open>Janitor\<close>: \<^verbatim>\<open>services/execution_janitor.py\<close>, on the same state.
  \<^item> \<^verbatim>\<open>Breaker\<close>: \<^verbatim>\<open>services/reachability/breaker.py\<close> up to the exception categories, and the
    exception translation of \<^verbatim>\<open>services/kubernetes/_hardened.py\<close>.
  \<^item> \<^verbatim>\<open>Reachability\<close>: \<^verbatim>\<open>services/reachability/registry.py\<close>, \<^verbatim>\<open>probe.py\<close> and the decorator
    \<^verbatim>\<open>with_breaker\<close>. The registry is a record of dictionaries keyed by target, with the
    queue of every subscriber. The probes, the guarded functions and the clock are
    parameters.
  \<^item> \<^verbatim>\<open>Fleet_Selector\<close>: \<^verbatim>\<open>services/fleet_selector.py\<close>, \<^verbatim>\<open>fleet_rbac.py\<close>, \<^verbatim>\<open>fleet_vocabulary.py\<close>
    and the row types of \<^verbatim>\<open>models/fleet.py\<close> and \<^verbatim>\<open>models/fleet_targeting.py\<close>.
  \<^item> \<^verbatim>\<open>Fleet_Bulkop\<close>: \<^verbatim>\<open>services/fleet_bulkop_service.py\<close> with the resume task of
    \<^verbatim>\<open>tasks/fleet_tasks.py\<close> and the resume and cancel routes of \<^verbatim>\<open>routes/fleet.py\<close>. The executor
    runs in an environment record which holds the order in which workers finish, the
    clock readings, the requests served between two commits, and the reconcile action.
  \<^item> \<^verbatim>\<open>Fleet_Reconcile\<close>: \<^verbatim>\<open>services/fleet_reconcile_service.py\<close> and the backfill task; it is the reconcile action of
    the bulk executor in \<^verbatim>\<open>reconciling_run_starts_safely\<close> below.
  \<^item> \<^verbatim>\<open>Fleet_Policy\<close>: \<^verbatim>\<open>services/fleet_policy_service.py\<close> and \<^verbatim>\<open>models/fleet_policy.py\<close>.
  \<^item> \<^verbatim>\<open>Bnk_Scan\<close>: \<^verbatim>\<open>services/bnk_pod_discovery.py\<close> and \<^verbatim>\<open>services/scanner/bnk_install.py\<close>. The answers of the
    Kubernetes API are arguments.
  \<^item> \<^verbatim>\<open>Bnk_Plan\<close> and \<^verbatim>\<open>Bnk_Upgrade\<close>: \<^verbatim>\<open>services/bnk_upgrade_service.py\<close>, \<^verbatim>\<open>bnk_upgrade_plan_service.py\<close>,
    \<^verbatim>\<open>bnk_upgrade_execution_service.py\<close>, \<^verbatim>\<open>tasks/bnk_upgrade_tasks.py\<close> and the guards of \<^verbatim>\<open>routes/bnk_upgrade.py\<close>. A
    run is a record of the upgrade row, the clock, the calls made and the versions of the row committed so far;
    Helm, Kubernetes, scans and the fate of the lock are an environment record.
  \<^item> \<^verbatim>\<open>Catalog\<close> (\<^verbatim>\<open>utils/catalog_versioning.py\<close>, \<^verbatim>\<open>services/module_version_query.py\<close>,
    \<^verbatim>\<open>services/module_sync_service.py\<close>, \<^verbatim>\<open>services/catalog_prune_service.py\<close>): the table of module
    versions with its latest flag, import of a manifest, retirement of stale ones, pruning of
    modules and blueprint releases by one generic loop, deletion of a version.
  \<^item> \<^verbatim>\<open>Bare_Metal\<close> (\<^verbatim>\<open>services/bare_metal/orchestrator.py\<close> and its routes and task): the step
    registries of the topologies, creation and preview of a deployment, execution over a
    parameter for what a step does, resume and cancel, the default release.
  \<^item> \<^verbatim>\<open>Module_Ops\<close> (\<^verbatim>\<open>services/project_module_service.py\<close>): dependencies, submission of
    init, plan, apply and destroy, deploy, retry, cancel and removal of one module, on the tables of
    the chains with the audit log, the locks and the messages.
  \<^item> \<^verbatim>\<open>Tmfifo_Ipam\<close>: \<^verbatim>\<open>services/tmfifo_ipam_service.py\<close>, with IPv4 addresses as 32-bit words
    and the parts of Python's \<^verbatim>\<open>ipaddress\<close> module it uses.
  \<^item> \<^verbatim>\<open>Naming\<close>: \<^verbatim>\<open>utils/naming.py\<close>, with the regular expressions as character predicates.

  \<^bold>\<open>Interfaces.\<close> What one part relies on in another is a locale, interpreted on the model: the
  operations on a lock table (\<^verbatim>\<open>lock_operation\<close>), column maps under a fence (\<^verbatim>\<open>fenced_columns\<close>), the machine that both
  chains refine (\<^verbatim>\<open>wave_machine\<close>, once along and once against the arrows), the executors of upgrade steps
  (\<^verbatim>\<open>step_executor\<close>), slug functions (\<^verbatim>\<open>slugifier\<close>), and step relations with an invariant (\<^verbatim>\<open>invariant_system\<close>), tables
  of versions that are pruned (\<^verbatim>\<open>versioned_rows\<close>, for modules and for blueprint releases).

  \<^bold>\<open>What is shown.\<close>

  \<^item> Graph: cycle detection answers with a cycle of the graph exactly when there is
    one; the sort is a permutation of the modules with dependencies first; the layers of the two
    implementations agree.
  \<^item> Leases: in every interleaving of the operations of any number of
    workers a holder that lost its lease never writes again and a refreshed lease survives
    sweeps and competitors; an acquire returns by its deadline.
  \<^item> Status machine: from every status a legal path leads back, and replaying the audit log gives the
    current status in every reachable database.
  \<^item> Deployment: a wave dispatches exactly the ready modules; every end of a task is a step of the abstract
    wave machine, so no module has two tasks at work or runs before its dependencies; a deployable project is
    completely applied after at most two task ends per module. Derived time limits stay within the
    redelivery window of the broker.
  \<^item> Teardown: what a finished destroy queues has no dependents left; the chain clears the project; its end
    is detected exactly. Three defects of stack teardowns are proved: a stack is never finalised, a stack run leaves
    its stack, and planning an applied module loses its infrastructure.
  \<^item> Janitor: one pass fails exactly the tasks no worker reports and leaves no module in the state of dead work.
  \<^item> Breakers: the breaker is closed exactly while the streak of counting failures
    is below the threshold; the registry is a family of independent breakers (a simulation); a
    subscriber's last event shows the registry's snapshot unless results of one target overlap.
  \<^item> Fleet: exact membership of a decision, one active decision per target; reconciling is an upsert that keeps
    assigned labels, and a backfill mirrors the inventory; a run settles every member of the waves it
    executed and starts only on a fresh decision; remediation makes its members comply; the resume route
    strands its run.
  \<^item> Upgrades: discovery loses no pod; plans are well formed; an upgrade is ready exactly under the critical checks; a run records one
    result per step and stops at the first failure. Three defects are proved: no upgrade can pass the gate on TMM
    containers, a resumed run skips the step it was interrupted in, and a dead rollback blocks its cluster.
  \<^item> Catalog: under imports, retirements, prunes and deletions exactly the newest active version of a module is flagged
    latest, published content never changes and pinned versions stay; a prune keeps the newest versions and the last active one.
  \<^item> Bare metal: the registries are well formed; an execution ends completed or at the first failing step; a failed
    deployment can be resumed to its end; the preview is what creation records. Two defects are proved: unselected steps
    are executed, and a resume can start a second deployment on a host.
  \<^item> Module operations: accepted dependencies leave the project acyclic; a destroy of one module never cascades. Proved
    defects: deploying or retrying a failed or destroyed module raises after its task was sent, a cancelled apply is
    lost to teardown, and submissions break the audit log.
  \<^item> Links: disjointness of all allocated subnets in every reachable state.

  \<^bold>\<open>Bounds and fuel.\<close> Two loops carry fuel. The recursion of \<^verbatim>\<open>_compute_layers\<close> has no
  structural bound; its fuel is the number of modules plus one, and \<^verbatim>\<open>get_dependency_graph_layers\<close> shows that the
  payload is produced with it for every module list. The polling loop of \<^verbatim>\<open>acquire\<close> may
  wait as long as its caller allows; \<^verbatim>\<open>acquire_returns_by_deadline\<close> shows that fuel for one round more than the seconds
  of the timeout is enough, as a round lasts at least the poll interval. All other loops are structural or carry a termination
  proof (the depth-first search by the white vertices, Kahn's loops by the positive
  in-degrees, the polling loops of upgrades by the time to their deadline). Python's integers are unbounded and
  are \<^verbatim>\<open>int\<close>; instants of leases are microseconds, those of upgrades seconds.

  \<^bold>\<open>What is not modelled.\<close> SQL itself (a statement is atomic and its row count is what the
  statement defines), sessions and rollbacks apart from the branches the code takes on
  them, logging, metrics, notifications and what Redis stores (best effort, never read by the modelled
  code; that the write suspends the task is modelled), thread scheduling inside a wave apart from the order of completion,
  columns that no modelled code reads (display names, creation times), and regular
  expressions outside the character classes used. Text is ASCII; dashes and arrows of messages are written so. External systems (Helm, Kubernetes,
  OpenTofu, SSH, cloud providers, registries) answer through arguments and environment records. The engines that run
  external tools, credentials and cryptography, cluster discovery apart from BNK installations, traffic migration (\<^verbatim>\<open>proxy_*\<close>), support bundles
  (\<^verbatim>\<open>qkview\<close>) and device I/O (\<^verbatim>\<open>rshim\<close>, Redfish) are sequences of remote calls whose results the
  library would have to make up; the request glue of most routes, database migrations, the frontend, the in-cluster operator, the command line and the MCP
  server are outside it.
\<close>

section \<open>Bulk runs with the reconcile service\<close>

text \<open>
  C12. A run starts only on a safe action and a fresh decision, once, with the code's own reconcile
  service as the member action: an execution that is not a resume either is refused and touches no
  member, no decision and no result, or its action is on the allowlist, its decision was resolved,
  at most the time-to-live old and free of vanished members, and is consumed afterwards, whatever
  the waves reconciled in between, so that every later run on the same decision is refused.
\<close>

theorem reconciling_run_starts_safely:
  assumes "execute_fleet_bulk_run (e\<lparr>reconciler := reconcile_fleet_member pk seen iv\<rparr>) now False rid db = (res, db')"
  shows "(\<exists>err. res = Inl err \<and> targeting db' = targeting db \<and> results db' = results db) \<or>
    (\<exists>run d. map_of (runs db) rid = Some run \<and> br_action run \<in> set SAFE_ACTIONS \<and>
       find (\<lambda>d. fd_id d = br_decision_id run) (decisions (targeting db)) = Some d \<and>
       fd_status d = RESOLVED \<and> now - resolved_at d \<le> seconds DECISION_TTL_SECONDS \<and>
       list_all (\<lambda>i. member_by_id (targeting db) i \<noteq> None) (resolved_member_ids d) \<and>
       find (\<lambda>d. fd_id d = br_decision_id run) (decisions (targeting db')) = Some (d\<lparr>fd_status := CONSUMED\<rparr>) \<and>
       assert_decision_fresh later (targeting db') (d\<lparr>fd_status := CONSUMED\<rparr>) = Inl (DecisionNotResolved CONSUMED))"
  using execution_starts_safely [OF assms]
  by (simp add: keeps_decisions_def reconcile_keeps_decisions)

theorem reconciling_run_starts_safely_witness:
  "let e = demo_env\<lparr>reconciler := reconcile_fleet_member (\<lambda>db. 9) 0 demo_inventory\<rparr>
   in find (\<lambda>d. fd_id d = 5) (decisions (targeting (snd (execute_fleet_bulk_run e 0 False 1 demo_bulk)))) =
        Some (demo_decision\<lparr>fd_status := CONSUMED\<rparr>)"
proof -
  define e where "e = demo_env\<lparr>reconciler := reconcile_fleet_member (\<lambda>db. 9) 0 demo_inventory\<rparr>"
  have "\<not> isl (fst (execute_fleet_bulk_run e 0 False 1 demo_bulk))" unfolding e_def by code_simp
  then obtain out where ex: "execute_fleet_bulk_run e 0 False 1 demo_bulk =
      (Inr out, snd (execute_fleet_bulk_run e 0 False 1 demo_bulk))"
    by (cases "execute_fleet_bulk_run e 0 False 1 demo_bulk") (auto simp: isl_def split: sum.splits, metis obj_sumE)
  from reconciling_run_starts_safely [OF ex [unfolded e_def]] show ?thesis
    by (auto simp: demo_bulk_def demo_run_def demo_decision_def)
qed

end
